(* ===== verification/Prelude.thy ===== *)
theory Prelude
  imports Main "HOL-Library.Word"
begin

text \<open>
  Shared vocabulary of the development: the machine types of the Rust sources, fallible
  computations as sums, byte slices, big-endian integers and the lemma collections
  the component theories use.

  \<^item> \<open>u8\<close> to \<open>u64\<close> are words of their width.  A \<open>usize\<close> that counts bytes, leaves or
    slots is a \<^typ>\<open>nat\<close>; where the source tests for \<open>usize\<close> overflow the 64-bit bound is
    written out (\<open>usize_checked_add\<close>, \<open>usize_checked_mul\<close>).
  \<^item> \<open>Result<T, E>\<close> is \<open>'e + 'a\<close>, the error on the left; the question-mark operator is \<open>bindE\<close>.
  \<^item> \<open>&[u8]\<close> and \<open>Vec<u8>\<close> are lists of bytes; \<open>&xs[i..j]\<close> is \<open>slice i j xs\<close>.
\<close>

unbundle bit_operations_syntax

section \<open>Machine types and collections\<close>

type_synonym u8 = "8 word"
type_synonym u16 = "16 word"
type_synonym u32 = "32 word"
type_synonym u64 = "64 word"
type_synonym bytes = "u8 list"

named_theorems result_simps \<open>rewriting of fallible computations\<close>
named_theorems byte_simps \<open>big-endian integers and byte slices\<close>

section \<open>Fallible computations\<close>

definition bindE :: "'e + 'a \<Rightarrow> ('a \<Rightarrow> 'e + 'b) \<Rightarrow> 'e + 'b" where
  "bindE m f = (case m of Inl e \<Rightarrow> Inl e | Inr x \<Rightarrow> f x)"

definition ensureE :: "bool \<Rightarrow> 'e \<Rightarrow> 'e + unit" where
  "ensureE b e = (if b then Inr () else Inl e)"

definition option_okE :: "'e \<Rightarrow> 'a option \<Rightarrow> 'e + 'a" where
  "option_okE e m = (case m of None \<Rightarrow> Inl e | Some x \<Rightarrow> Inr x)"

lemma bindE_simps [simp]:
  "bindE (Inl e) f = Inl e"
  "bindE (Inr x) f = f x"
  by (simp_all add: bindE_def)

lemma ensureE_simps [simp]:
  "ensureE True e = Inr ()"
  "ensureE False e = Inl e"
  by (simp_all add: ensureE_def)

lemma option_okE_simps [simp]:
  "option_okE e None = Inl e"
  "option_okE e (Some x) = Inr x"
  by (simp_all add: option_okE_def)

lemma bindE_assoc: "bindE (bindE m f) g = bindE m (\<lambda>x. bindE (f x) g)"
  by (cases m) simp_all

lemma bindE_if: "bindE (if b then m else n) f = (if b then bindE m f else bindE n f)"
  by simp

lemma bindE_eq_Inr [result_simps]:
  "bindE m f = Inr y \<longleftrightarrow> (\<exists>x. m = Inr x \<and> f x = Inr y)"
  by (cases m) simp_all

lemma bindE_eq_Inl [result_simps]:
  "bindE m f = Inl e \<longleftrightarrow> m = Inl e \<or> (\<exists>x. m = Inr x \<and> f x = Inl e)"
  by (cases m) simp_all

lemma ensureE_eq_Inr [result_simps]: "ensureE b e = Inr u \<longleftrightarrow> b"
  by (cases b) simp_all

lemma ensureE_eq_Inl [result_simps]: "ensureE b e = Inl e' \<longleftrightarrow> \<not> b \<and> e = e'"
  by (cases b) auto

lemma option_okE_eq_Inr [result_simps]: "option_okE e m = Inr x \<longleftrightarrow> m = Some x"
  by (cases m) simp_all

lemma option_okE_eq_Inl [result_simps]: "option_okE e m = Inl e' \<longleftrightarrow> m = None \<and> e = e'"
  by (cases m) auto

lemma if_eq_Inr [result_simps]:
  "(if b then Inl e else m) = Inr y \<longleftrightarrow> \<not> b \<and> m = Inr y"
  "(if b then m else Inl e) = Inr y \<longleftrightarrow> b \<and> m = Inr y"
  by auto

lemma eq_Inr_iff: "m = Inr x \<longleftrightarrow> \<not> isl m \<and> x = projr m"
  by (cases m) auto

lemma bindE_cong [fundef_cong]:
  "m = m' \<Longrightarrow> (\<And>x. m' = Inr x \<Longrightarrow> f x = g x) \<Longrightarrow> bindE m f = bindE m' g"
  by (cases m') simp_all

section \<open>Unsigned sizes\<close>

definition usize_checked_add :: "nat \<Rightarrow> nat \<Rightarrow> nat option" where
  "usize_checked_add a b = (if a + b < 2 ^ 64 then Some (a + b) else None)"

definition usize_checked_mul :: "nat \<Rightarrow> nat \<Rightarrow> nat option" where
  "usize_checked_mul a b = (if a * b < 2 ^ 64 then Some (a * b) else None)"

lemma usize_checked_add_eq_Some [result_simps]:
  "usize_checked_add a b = Some c \<longleftrightarrow> c = a + b \<and> a + b < 2 ^ 64"
  by (auto simp: usize_checked_add_def)

text \<open>The number of significant bits of a size and \<open>usize::leading_zeros\<close>.\<close>

fun bit_len :: "nat \<Rightarrow> nat" where
  "bit_len n = (if n = 0 then 0 else Suc (bit_len (n div 2)))"

declare bit_len.simps [simp del]

definition usize_leading_zeros :: "nat \<Rightarrow> nat" where
  "usize_leading_zeros n = 64 - bit_len n"

lemma bit_len_0 [simp]: "bit_len 0 = 0"
  by (simp add: bit_len.simps)

lemma bit_len_pos: "0 < n \<Longrightarrow> bit_len n = Suc (bit_len (n div 2))"
  by (simp add: bit_len.simps [of n])

lemma bit_len_upper: "n < 2 ^ bit_len n"
proof (induction n rule: bit_len.induct)
  case (1 n)
  then show ?case
    by (cases "n = 0") (auto simp: bit_len_pos)
qed

lemma bit_len_lower: "0 < n \<Longrightarrow> 2 ^ (bit_len n - 1) \<le> n"
proof (induction n rule: bit_len.induct)
  case (1 n)
  show ?case
  proof (cases "n div 2 = 0")
    case True
    with "1.prems" have "n = 1" by linarith
    then show ?thesis by (simp add: bit_len_pos)
  next
    case False
    with "1" have IH: "2 ^ (bit_len (n div 2) - 1) \<le> n div 2" by simp
    from False have "bit_len n = Suc (Suc (bit_len (n div 2) - 1))"
      using "1.prems" by (simp add: bit_len_pos)
    with IH show ?thesis by simp
  qed
qed

section \<open>Slices\<close>

definition slice :: "nat \<Rightarrow> nat \<Rightarrow> 'a list \<Rightarrow> 'a list" where
  "slice i j xs = take (j - i) (drop i xs)"

lemma length_slice [simp]: "length (slice i j xs) = min (j - i) (length xs - i)"
  by (simp add: slice_def)

lemma slice_append_middle [byte_simps]:
  "slice (length pre) (length pre + length xs) (pre @ xs @ post) = xs"
  by (simp add: slice_def)

text \<open>\<open>xs.get(i..j)\<close>, \<open>try_into\<close> an array of \<open>n\<close> elements, and \<open>chunks_exact(n)\<close>.\<close>

definition get_range :: "nat \<Rightarrow> nat \<Rightarrow> 'a list \<Rightarrow> 'a list option" where
  "get_range i j xs = (if i \<le> j \<and> j \<le> length xs then Some (slice i j xs) else None)"

definition to_array :: "nat \<Rightarrow> 'a list \<Rightarrow> 'a list option" where
  "to_array n xs = (if length xs = n then Some xs else None)"

fun chunks_exact :: "nat \<Rightarrow> 'a list \<Rightarrow> 'a list list" where
  "chunks_exact n xs = (if n = 0 \<or> length xs < n then [] else take n xs # chunks_exact n (drop n xs))"

declare chunks_exact.simps [simp del]

lemma to_array_eq_Some [result_simps]: "to_array n xs = Some ys \<longleftrightarrow> ys = xs \<and> length xs = n"
  by (auto simp: to_array_def)

lemma chunks_exact_append:
  "0 < n \<Longrightarrow> length xs = n \<Longrightarrow> chunks_exact n (xs @ ys) = xs # chunks_exact n ys"
  by (subst chunks_exact.simps) simp

lemma chunks_exact_short: "length xs < n \<Longrightarrow> chunks_exact n xs = []"
  by (subst chunks_exact.simps) simp

lemma chunks_exact_concat:
  "0 < n \<Longrightarrow> \<forall>x \<in> set xss. length x = n \<Longrightarrow> chunks_exact n (concat xss) = xss"
  by (induction xss) (simp_all add: chunks_exact_append chunks_exact_short)

lemma concat_chunks_exact:
  "0 < n \<Longrightarrow> n dvd length xs \<Longrightarrow> concat (chunks_exact n xs) = xs"
proof (induction n xs rule: chunks_exact.induct)
  case (1 n xs)
  show ?case
  proof (cases "length xs < n")
    case True
    with 1 show ?thesis by (auto simp: chunks_exact_short dest: dvd_imp_le)
  next
    case False
    with 1 have "concat (chunks_exact n (drop n xs)) = drop n xs" by (simp add: dvd_diff_nat)
    with False "1.prems" show ?thesis by (subst chunks_exact.simps) simp
  qed
qed

lemma length_chunks_exact: "\<forall>x \<in> set (chunks_exact n xs). length x = n"
proof (induction n xs rule: chunks_exact.induct)
  case (1 n xs)
  show ?case
  proof (cases "n = 0 \<or> length xs < n")
    case True
    then show ?thesis by (subst chunks_exact.simps) simp
  next
    case False
    with "1.IH" have "\<forall>x \<in> set (chunks_exact n (drop n xs)). length x = n" by blast
    with False show ?thesis by (subst chunks_exact.simps) simp
  qed
qed

lemma chunks_exact_iff:
  "0 < n \<Longrightarrow> n dvd length xs \<Longrightarrow> chunks_exact n xs = xss \<longleftrightarrow> (\<forall>x \<in> set xss. length x = n) \<and> xs = concat xss"
  using concat_chunks_exact [of n xs] chunks_exact_concat [of n xss] length_chunks_exact [of n xs] by auto

section \<open>Big-endian integers\<close>

text \<open>\<open>be_bytes n v\<close> is \<open>v.to_be_bytes()\<close> of an \<open>n\<close>-byte integer; \<open>be_nat\<close> reads it back.\<close>

fun be_bytes :: "nat \<Rightarrow> nat \<Rightarrow> bytes" where
  "be_bytes 0 v = []"
| "be_bytes (Suc n) v = be_bytes n (v div 256) @ [of_nat v]"

definition be_nat :: "bytes \<Rightarrow> nat" where
  "be_nat bs = foldl (\<lambda>a b. a * 256 + unat b) 0 bs"

definition word_from_be :: "bytes \<Rightarrow> 'a::len word" where
  "word_from_be bs = of_nat (be_nat bs)"

lemma length_be_bytes [simp]: "length (be_bytes n v) = n"
  by (induction n arbitrary: v) simp_all

lemma be_nat_Nil [simp]: "be_nat [] = 0"
  by (simp add: be_nat_def)

lemma be_nat_snoc [simp]: "be_nat (bs @ [b]) = be_nat bs * 256 + unat b"
  by (simp add: be_nat_def)

lemma be_nat_less: "be_nat bs < 256 ^ length bs"
proof (induction bs rule: rev_induct)
  case (snoc b bs)
  have "unat b < 256" using unsigned_less [of b, where ?'a = nat] by simp
  with snoc show ?case by simp
qed simp

lemma be_nat_be_bytes [byte_simps]: "be_nat (be_bytes n v) = v mod 256 ^ n"
proof (induction n arbitrary: v)
  case (Suc n)
  then show ?case by (simp add: unat_of_nat mod_mult2_eq)
qed simp

lemma be_bytes_be_nat [byte_simps]: "be_bytes (length bs) (be_nat bs) = bs"
proof (induction bs rule: rev_induct)
  case (snoc b bs)
  have b: "unat b < 256" using unsigned_less [of b, where ?'a = nat] by simp
  have "unat (of_nat (be_nat bs * 256 + unat b) :: u8) = unat b"
    using b by (simp only: unat_of_nat) simp
  then have "(of_nat (be_nat bs * 256 + unat b) :: u8) = b" by (simp only: word_unat_eq_iff)
  with b snoc show ?case by (simp del: of_nat_add of_nat_mult)
qed simp

lemma be_bytes_be_nat': "length bs = n \<Longrightarrow> be_bytes n (be_nat bs) = bs"
  using be_bytes_be_nat by blast

lemma be_bytes_eq_iff: "length bs = n \<Longrightarrow> bs = be_bytes n v \<longleftrightarrow> be_nat bs = v mod 256 ^ n"
  by (metis be_bytes_be_nat be_nat_be_bytes length_be_bytes be_nat_less mod_less)

lemma be_bytes_inj: "be_bytes n v = be_bytes n w \<longleftrightarrow> v mod 256 ^ n = w mod 256 ^ n"
  by (metis be_bytes_eq_iff be_nat_be_bytes length_be_bytes)

lemma be_bytes_2: "be_bytes 2 v = [of_nat (v div 256), of_nat v]"
  by (simp add: numeral_2_eq_2)

lemma be_bytes_4: "be_bytes 4 v = [of_nat (v div 16777216), of_nat (v div 65536), of_nat (v div 256), of_nat v]"
proof -
  have "(4::nat) = Suc (Suc (Suc (Suc 0)))" by simp
  then show ?thesis by (simp only: be_bytes.simps div_mult2_eq [symmetric]) simp
qed

lemma word_eq_of_nat: "unat (w :: 'a::len word) = n \<Longrightarrow> w = of_nat n"
  by auto

lemma word_from_be_iff:
  fixes w :: "'a::len word"
  assumes "LENGTH('a) = 8 * n" "length bs = n"
  shows "word_from_be bs = w \<longleftrightarrow> bs = be_bytes n (unat w)"
proof -
  have pow: "(256::nat) ^ n = 2 ^ LENGTH('a)" by (simp add: assms(1) power_mult)
  have "unat (word_from_be bs :: 'a word) = be_nat bs"
    using be_nat_less [of bs] by (simp add: word_from_be_def unat_of_nat pow assms(2))
  then show ?thesis
    using unsigned_less [of w, where ?'a = nat] by (simp add: be_bytes_eq_iff assms pow word_unat_eq_iff)
qed

lemma word_from_be_be_bytes:
  fixes w :: "'a::len word"
  shows "LENGTH('a) = 8 * n \<Longrightarrow> word_from_be (be_bytes n (unat w)) = w"
  by (simp add: word_from_be_iff [where n = n])

lemma be_bytes_word_from_be:
  "LENGTH('a) = 8 * n \<Longrightarrow> length bs = n \<Longrightarrow> be_bytes n (unat (word_from_be bs :: 'a::len word)) = bs"
  using word_from_be_iff [of n bs "word_from_be bs :: 'a word"] by simp

lemmas word_be_simps [byte_simps] =
  word_from_be_be_bytes [where 'a = 16 and n = 2, simplified]
  word_from_be_be_bytes [where 'a = 32 and n = 4, simplified]
  word_from_be_be_bytes [where 'a = 64 and n = 8, simplified]
  be_bytes_word_from_be [where 'a = 16 and n = 2, simplified]
  be_bytes_word_from_be [where 'a = 32 and n = 4, simplified]
  be_bytes_word_from_be [where 'a = 64 and n = 8, simplified]

lemmas word_from_be_iffs =
  word_from_be_iff [where 'a = 16 and n = 2, simplified]
  word_from_be_iff [where 'a = 32 and n = 4, simplified]
  word_from_be_iff [where 'a = 64 and n = 8, simplified]

section \<open>Shift and or\<close>

lemma u8_less: "unat (b :: u8) < 256"
  using unsigned_less [of b, where ?'a = nat] by simp

lemma or_disjoint_nat:
  assumes "(b::nat) < 2 ^ n"
  shows "push_bit n a OR b = a * 2 ^ n + b"
proof -
  have "push_bit n a AND take_bit n b = 0"
    by (intro bit_eqI) (auto simp: bit_simps)
  then have "push_bit n a OR b = push_bit n a + b"
    using assms by (simp add: take_bit_nat_eq_self disjunctive_add_eq_or [symmetric])
  then show ?thesis by (simp add: push_bit_eq_mult)
qed

end
