(* ===== verification/Ct_Codec.thy ===== *)
theory Ct_Codec
  imports Prelude
begin

text \<open>
  The vector codecs of \<open>oxibelt-ct/src/codec.rs\<close>: a bounds-checked reader over a byte slice and
  the functions that append length-prefixed vectors to a buffer.

  A \<open>&mut Reader\<close> is threaded through the operations; a \<open>&mut Vec<u8>\<close> is the buffer before
  and after.  \<open>reads r bs r'\<close> says that going from reader \<open>r\<close> to \<open>r'\<close> consumes exactly
  the bytes \<open>bs\<close>; every reading operation is characterised by an equivalence over it, and every
  writing operation by the bytes it appends (collection \<open>wire_simps\<close>).  The locale
  \<open>wire_codec\<close> is the contract between a pair of an encoder and a decoder, from which round trip,
  canonicity and prefix-freeness follow once.
\<close>

named_theorems wire_simps \<open>what the codec operations consume and append\<close>

section \<open>Errors and the reader\<close>

datatype ct_error = CtError string

definition U24_MAX :: nat where
  "U24_MAX = 0x00ffffff"

record Reader =
  input :: bytes
  offset :: nat

definition reader_new :: "bytes \<Rightarrow> Reader" where
  "reader_new bs = \<lparr>input = bs, offset = 0\<rparr>"

definition reader_remaining :: "Reader \<Rightarrow> nat" where
  "reader_remaining r = length (input r) - offset r"

definition reader_is_empty :: "Reader \<Rightarrow> bool" where
  "reader_is_empty r \<longleftrightarrow> reader_remaining r = 0"

definition reader_finish :: "Reader \<Rightarrow> ct_error + unit" where
  "reader_finish r = ensureE (offset r = length (input r)) (CtError ''trailing CT wire data'')"

definition reader_take :: "nat \<Rightarrow> Reader \<Rightarrow> ct_error + bytes \<times> Reader" where
  "reader_take len r =
     bindE (option_okE (CtError ''CT length overflow'') (usize_checked_add (offset r) len)) (\<lambda>stop.
     bindE (option_okE (CtError ''truncated CT wire data'') (get_range (offset r) stop (input r))) (\<lambda>bs.
     Inr (bs, r\<lparr>offset := stop\<rparr>)))"

definition reader_u8 :: "Reader \<Rightarrow> ct_error + u8 \<times> Reader" where
  "reader_u8 r = bindE (reader_take 1 r) (\<lambda>(bs, r). Inr (bs ! 0, r))"

definition reader_u16 :: "Reader \<Rightarrow> ct_error + u16 \<times> Reader" where
  "reader_u16 r =
     bindE (reader_take 2 r) (\<lambda>(bs, r).
     bindE (option_okE (CtError ''truncated CT u16'') (to_array 2 bs)) (\<lambda>bs.
     Inr (word_from_be bs, r)))"

definition reader_u24 :: "Reader \<Rightarrow> ct_error + nat \<times> Reader" where
  "reader_u24 r =
     bindE (reader_take 3 r) (\<lambda>(bs, r).
     Inr (push_bit 16 (unat (bs ! 0)) OR push_bit 8 (unat (bs ! 1)) OR unat (bs ! 2), r))"

definition reader_u40 :: "Reader \<Rightarrow> ct_error + u64 \<times> Reader" where
  "reader_u40 r =
     bindE (reader_take 5 r) (\<lambda>(bs, r).
     Inr (push_bit 32 (ucast (bs ! 0)) OR push_bit 24 (ucast (bs ! 1)) OR push_bit 16 (ucast (bs ! 2))
          OR push_bit 8 (ucast (bs ! 3)) OR ucast (bs ! 4), r))"

definition reader_u64 :: "Reader \<Rightarrow> ct_error + u64 \<times> Reader" where
  "reader_u64 r =
     bindE (reader_take 8 r) (\<lambda>(bs, r).
     bindE (option_okE (CtError ''truncated CT u64'') (to_array 8 bs)) (\<lambda>bs.
     Inr (word_from_be bs, r)))"

definition bounded_vector :: "nat \<Rightarrow> nat \<Rightarrow> nat \<Rightarrow> Reader \<Rightarrow> ct_error + bytes \<times> Reader" where
  "bounded_vector len minimum maximum r =
     (if minimum > maximum \<or> \<not> (minimum \<le> len \<and> len \<le> maximum)
      then Inl (CtError ''CT vector length is outside its declared bounds'')
      else reader_take len r)"

definition reader_vector_u8 :: "nat \<Rightarrow> nat \<Rightarrow> Reader \<Rightarrow> ct_error + bytes \<times> Reader" where
  "reader_vector_u8 minimum maximum r =
     bindE (reader_u8 r) (\<lambda>(len, r). bounded_vector (unat len) minimum maximum r)"

definition reader_vector_u16 :: "nat \<Rightarrow> nat \<Rightarrow> Reader \<Rightarrow> ct_error + bytes \<times> Reader" where
  "reader_vector_u16 minimum maximum r =
     bindE (reader_u16 r) (\<lambda>(len, r). bounded_vector (unat len) minimum maximum r)"

definition reader_vector_u24 :: "nat \<Rightarrow> nat \<Rightarrow> Reader \<Rightarrow> ct_error + bytes \<times> Reader" where
  "reader_vector_u24 minimum maximum r =
     bindE (reader_u24 r) (\<lambda>(len, r). bounded_vector len minimum (min maximum U24_MAX) r)"

section \<open>Appending to a buffer\<close>

definition push_u24 :: "bytes \<Rightarrow> nat \<Rightarrow> ct_error + bytes" where
  "push_u24 output value =
     (if value > U24_MAX then Inl (CtError ''CT u24 value is too large'')
      else Inr (output @ [of_nat (drop_bit 16 value AND 0xff), of_nat (drop_bit 8 value AND 0xff),
                          of_nat (value AND 0xff)]))"

definition push_u40 :: "bytes \<Rightarrow> u64 \<Rightarrow> ct_error + bytes" where
  "push_u40 output value =
     (if value \<ge> push_bit 40 1 then Inl (CtError ''CT u40 value is too large'')
      else Inr (output @ drop 3 (be_bytes 8 (unat value))))"

definition push_vector_u8 :: "bytes \<Rightarrow> bytes \<Rightarrow> nat \<Rightarrow> ct_error + bytes" where
  "push_vector_u8 output bs minimum =
     (if length bs < minimum \<or> length bs > 255
      then Inl (CtError ''CT u8 vector length is outside its declared bounds'')
      else Inr (output @ [of_nat (length bs)] @ bs))"

definition push_vector_u16 :: "bytes \<Rightarrow> bytes \<Rightarrow> nat \<Rightarrow> ct_error + bytes" where
  "push_vector_u16 output bs minimum =
     (if length bs < minimum \<or> length bs > 65535
      then Inl (CtError ''CT u16 vector length is outside its declared bounds'')
      else Inr (output @ be_bytes 2 (unat (of_nat (length bs) :: u16)) @ bs))"

definition push_vector_u24 :: "bytes \<Rightarrow> bytes \<Rightarrow> nat \<Rightarrow> ct_error + bytes" where
  "push_vector_u24 output bs minimum =
     (if length bs < minimum \<or> length bs > U24_MAX
      then Inl (CtError ''CT u24 vector length is outside its declared bounds'')
      else bindE (push_u24 output (length bs)) (\<lambda>output. Inr (output @ bs)))"

section \<open>What reading consumes\<close>

definition reads :: "Reader \<Rightarrow> bytes \<Rightarrow> Reader \<Rightarrow> bool" where
  "reads r bs r' \<longleftrightarrow>
     offset r + length bs \<le> length (input r) \<and> offset r + length bs < 2 ^ 64 \<and>
     slice (offset r) (offset r + length bs) (input r) = bs \<and>
     r' = r\<lparr>offset := offset r + length bs\<rparr>"

lemma slice_split: "slice i (i + (j + k)) xs = slice i (i + j) xs @ slice (i + j) (i + j + k) xs"
  by (simp add: slice_def take_add add.commute)

lemma reads_append: "reads r (as @ bs) r' \<longleftrightarrow> (\<exists>m. reads r as m \<and> reads m bs r')"
proof (cases "offset r + (length as + length bs) \<le> length (input r)")
  case True
  then have "slice (offset r) (offset r + length (as @ bs)) (input r) = as @ bs \<longleftrightarrow>
      slice (offset r) (offset r + length as) (input r) = as \<and>
      slice (offset r + length as) (offset r + length as + length bs) (input r) = bs"
    unfolding length_append slice_split by (intro append_eq_append_conv) simp
  with True show ?thesis by (auto simp: reads_def add.assoc)
qed (auto simp: reads_def)

lemma reads_det: "reads r bs s \<Longrightarrow> reads r bs t \<Longrightarrow> s = t"
  by (simp add: reads_def)

lemma reader_take_iff [wire_simps]:
  "reader_take n r = Inr (bs, r') \<longleftrightarrow> length bs = n \<and> reads r bs r'"
  by (auto simp: reader_take_def reads_def get_range_def min_def result_simps split: if_splits)

lemma reader_take_le: "reader_take n r = Inr (bs, r') \<Longrightarrow> reader_remaining r' + n = reader_remaining r"
  by (auto simp: wire_simps reads_def reader_remaining_def)


lemma length_one_eq: "length bs = Suc 0 \<longleftrightarrow> (\<exists>b. bs = [b])"
  by (cases bs) auto

lemma reader_u8_iff: "reader_u8 r = Inr (b, r') \<longleftrightarrow> reads r [b] r'"
  by (auto simp: reader_u8_def wire_simps result_simps length_one_eq)

lemma reader_u16_iff [wire_simps]: "reader_u16 r = Inr (w, r') \<longleftrightarrow> reads r (be_bytes 2 (unat w)) r'"
  by (auto simp: reader_u16_def wire_simps result_simps byte_simps intro!: exI [of _ "be_bytes 2 (unat w)"])

lemma reader_u64_iff [wire_simps]: "reader_u64 r = Inr (w, r') \<longleftrightarrow> reads r (be_bytes 8 (unat w)) r'"
  by (auto simp: reader_u64_def wire_simps result_simps byte_simps intro!: exI [of _ "be_bytes 8 (unat w)"])

text \<open>The shift-and-or of \<open>u24\<close> is the big-endian value.\<close>

lemma length_three_eq: "length bs = 3 \<longleftrightarrow> (\<exists>a b c. bs = [a, b, c])"
  by (auto simp: numeral_3_eq_3 length_Suc_conv)

lemma u24_be_nat: "push_bit 16 (unat a) OR push_bit 8 (unat b) OR unat c = be_nat [a, b, c :: u8]"
proof -
  have "push_bit 8 (unat b) OR unat c = unat b * 256 + unat c"
    using u8_less [of c] by (simp add: or_disjoint_nat)
  moreover have "unat b * 256 + unat c < 2 ^ 16"
    using u8_less [of b] u8_less [of c] by simp
  ultimately show ?thesis by (simp add: or_disjoint_nat be_nat_def)
qed

lemma u24_be_bytes:
  "[of_nat (drop_bit 16 v AND 0xff), of_nat (drop_bit 8 v AND 0xff), of_nat (v AND 0xff)] = be_bytes 3 v"
proof -
  have mask: "(of_nat (n AND 0xff) :: u8) = of_nat n" for n
  proof -
    have "n AND 0xff = take_bit 8 n" by (simp add: take_bit_eq_mask mask_eq_exp_minus_1)
    then show ?thesis by (simp add: word_unat_eq_iff unat_of_nat take_bit_eq_mod)
  qed
  show ?thesis
    by (simp only: mask numeral_3_eq_3 be_bytes.simps) (simp add: drop_bit_eq_div div_mult2_eq [symmetric])
qed

lemma reader_u24_iff [wire_simps]:
  "reader_u24 r = Inr (n, r') \<longleftrightarrow> n \<le> U24_MAX \<and> reads r (be_bytes 3 n) r'"
proof
  assume "reader_u24 r = Inr (n, r')"
  then obtain a b c where abc: "reads r [a, b, c] r'" "n = be_nat [a, b, c]"
    by (auto simp: reader_u24_def wire_simps result_simps length_three_eq u24_be_nat)
  then have "be_bytes 3 n = [a, b, c]" by (simp add: be_bytes_be_nat')
  with abc be_nat_less [of "[a, b, c]"] show "n \<le> U24_MAX \<and> reads r (be_bytes 3 n) r'"
    by (simp add: U24_MAX_def)
next
  assume n: "n \<le> U24_MAX \<and> reads r (be_bytes 3 n) r'"
  obtain a b c where abc: "be_bytes 3 n = [a, b, c]" using length_three_eq [of "be_bytes 3 n"] by auto
  then have "be_nat [a, b, c] = n" using n be_nat_be_bytes [of 3 n] by (simp add: U24_MAX_def)
  with n abc show "reader_u24 r = Inr (n, r')"
    by (auto simp: reader_u24_def wire_simps result_simps u24_be_nat intro!: exI [of _ "[a, b, c]"])
qed

lemma be_bytes_add: "be_bytes (m + n) v = be_bytes m (v div 256 ^ n) @ be_bytes n v"
  by (induction n arbitrary: v) (simp_all add: div_mult2_eq)

lemma drop_be_bytes: "drop 3 (be_bytes 8 v) = be_bytes 5 v"
  using be_bytes_add [of 3 5 v] by simp

lemma length_five_eq: "length bs = 5 \<longleftrightarrow> (\<exists>a b c d e. bs = [a, b, c, d, e])"
proof
  assume "length bs = 5"
  then have "length bs = Suc (Suc (Suc (Suc (Suc 0))))" by simp
  then show "\<exists>a b c d e. bs = [a, b, c, d, e]" by (auto simp: length_Suc_conv)
qed auto

lemma unat_push_ucast: "k \<le> 56 \<Longrightarrow> unat (push_bit k (ucast (b :: u8)) :: u64) = push_bit k (unat b)"
proof -
  assume "k \<le> 56"
  have "push_bit k (unat b) < 256 * 2 ^ k" using u8_less [of b] by (simp add: push_bit_eq_mult)
  also have "\<dots> \<le> 256 * 2 ^ 56" using \<open>k \<le> 56\<close> by (intro mult_left_mono power_increasing) auto
  finally have "push_bit k (unat b) < 2 ^ 64" by simp
  moreover have "unat b < 2 ^ 64" using u8_less [of b] by simp
  ultimately show ?thesis
    by (simp add: unsigned_push_bit_eq unsigned_ucast_eq take_bit_nat_eq_self)
qed

lemma u40_be_nat:
  "unat (push_bit 32 (ucast a) OR push_bit 24 (ucast b) OR push_bit 16 (ucast c)
         OR push_bit 8 (ucast d) OR ucast e :: u64) = be_nat [a, b, c, d, e :: u8]"
proof -
  have e: "unat (ucast e :: u64) = unat e" using unat_push_ucast [of 0 e] by simp
  have less: "unat a < 256" "unat b < 256" "unat c < 256" "unat d < 256" "unat e < 256"
    by (rule u8_less)+
  have 1: "push_bit 8 (unat d) OR unat e = unat d * 256 + unat e"
    using less by (simp add: or_disjoint_nat)
  have 2: "push_bit 16 (unat c) OR (unat d * 256 + unat e) = unat c * 2 ^ 16 + (unat d * 256 + unat e)"
    using less by (intro or_disjoint_nat) simp
  have 3: "push_bit 24 (unat b) OR (unat c * 2 ^ 16 + (unat d * 256 + unat e)) =
      unat b * 2 ^ 24 + (unat c * 2 ^ 16 + (unat d * 256 + unat e))"
    using less by (intro or_disjoint_nat) simp
  have 4: "push_bit 32 (unat a) OR (unat b * 2 ^ 24 + (unat c * 2 ^ 16 + (unat d * 256 + unat e))) =
      unat a * 2 ^ 32 + (unat b * 2 ^ 24 + (unat c * 2 ^ 16 + (unat d * 256 + unat e)))"
    using less by (intro or_disjoint_nat) simp
  show ?thesis
    by (simp only: unsigned_or_eq unat_push_ucast e or.assoc 1 2 3 4) (simp add: unsigned_or_eq unat_push_ucast e or.assoc 1 2 3 4 be_nat_def)
qed

lemma reader_u40_iff [wire_simps]:
  "reader_u40 r = Inr (w, r') \<longleftrightarrow> unat w < 2 ^ 40 \<and> reads r (be_bytes 5 (unat w)) r'"
proof
  assume "reader_u40 r = Inr (w, r')"
  then obtain bs where take: "reader_take 5 r = Inr (bs, r')"
      and w: "w = push_bit 32 (ucast (bs ! 0)) OR push_bit 24 (ucast (bs ! 1)) OR push_bit 16 (ucast (bs ! 2))
          OR push_bit 8 (ucast (bs ! 3)) OR ucast (bs ! 4)"
    unfolding reader_u40_def bindE_eq_Inr by (elim exE conjE; clarsimp)
  then obtain a b c d e where abs: "bs = [a, b, c, d, e]" by (auto simp: reader_take_iff length_five_eq)
  have "unat w = be_nat [a, b, c, d, e]"
    unfolding w abs u40_be_nat [symmetric] by simp
  with take have bs: "reads r [a, b, c, d, e] r'" "unat w = be_nat [a, b, c, d, e]"
    by (simp_all add: reader_take_iff abs)
  have "be_bytes 5 (unat w) = [a, b, c, d, e]"
    using bs(2) by (simp add: be_bytes_be_nat')
  with bs be_nat_less [of "[a, b, c, d, e]"] show "unat w < 2 ^ 40 \<and> reads r (be_bytes 5 (unat w)) r'"
    by simp
next
  assume w: "unat w < 2 ^ 40 \<and> reads r (be_bytes 5 (unat w)) r'"
  obtain a b c d e where bs: "be_bytes 5 (unat w) = [a, b, c, d, e]"
    using length_five_eq [of "be_bytes 5 (unat w)"] by auto
  then have "be_nat [a, b, c, d, e] = unat w" using w be_nat_be_bytes [of 5 "unat w"] by simp
  moreover from w bs have "reader_take 5 r = Inr ([a, b, c, d, e], r')" by (simp add: reader_take_iff)
  ultimately show "reader_u40 r = Inr (w, r')"
    by (simp add: reader_u40_def word_unat_eq_iff u40_be_nat [symmetric] numeral_3_eq_3 numeral_2_eq_2)
qed

lemma bounded_vector_iff [wire_simps]:
  "bounded_vector n lo hi r = Inr (bs, r') \<longleftrightarrow>
     length bs = n \<and> lo \<le> length bs \<and> length bs \<le> hi \<and> reads r bs r'"
  by (auto simp: bounded_vector_def wire_simps)

lemma reader_vector_u8_iff [wire_simps]:
  "reader_vector_u8 lo hi r = Inr (bs, r') \<longleftrightarrow>
     lo \<le> length bs \<and> length bs \<le> hi \<and> length bs \<le> 255 \<and> reads r ([of_nat (length bs)] @ bs) r'"
proof -
  have "length bs = unat b \<longleftrightarrow> length bs \<le> 255 \<and> b = of_nat (length bs)" for b :: u8
    using u8_less [of b] by (auto simp: word_unat_eq_iff unat_of_nat)
  then show ?thesis
    by (auto simp: reader_vector_u8_def reads_append [of r "[_]" bs, simplified] reader_u8_iff bounded_vector_iff
        bindE_eq_Inr)
qed

lemma reader_vector_u16_iff [wire_simps]:
  "reader_vector_u16 lo hi r = Inr (bs, r') \<longleftrightarrow>
     lo \<le> length bs \<and> length bs \<le> hi \<and> length bs \<le> 65535 \<and> reads r (be_bytes 2 (length bs) @ bs) r'"
proof -
  have len: "length bs = unat b \<longleftrightarrow> length bs \<le> 65535 \<and> b = of_nat (length bs)" for b :: u16
    using unsigned_less [of b, where ?'a = nat] by (auto simp: word_unat_eq_iff unat_of_nat)
  have "length bs \<le> 65535 \<Longrightarrow> unat (of_nat (length bs) :: u16) = length bs"
    by (simp add: unat_of_nat)
  then show ?thesis
    by (auto simp: reader_vector_u16_def reads_append reader_u16_iff bounded_vector_iff bindE_eq_Inr len
        split: prod.splits)
qed

lemma reader_vector_u24_iff [wire_simps]:
  "reader_vector_u24 lo hi r = Inr (bs, r') \<longleftrightarrow>
     lo \<le> length bs \<and> length bs \<le> hi \<and> length bs \<le> U24_MAX \<and> reads r (be_bytes 3 (length bs) @ bs) r'"
  by (auto simp: reader_vector_u24_def reads_append reader_u24_iff bounded_vector_iff bindE_eq_Inr)

lemma reader_finish_iff [wire_simps]: "reader_finish r = Inr u \<longleftrightarrow> offset r = length (input r)"
  by (simp add: reader_finish_def result_simps)

text \<open>
  Consuming is deterministic: \<open>advance r bs\<close> is the only reader it can lead to.  With the
  rules below the existential readers of a chain of operations disappear by rewriting.
\<close>

definition advance :: "Reader \<Rightarrow> bytes \<Rightarrow> Reader" where
  "advance r bs = r\<lparr>offset := offset r + length bs\<rparr>"

definition can_read :: "Reader \<Rightarrow> bytes \<Rightarrow> bool" where
  "can_read r bs \<longleftrightarrow> reads r bs (advance r bs)"

lemma reads_iff [wire_simps]: "reads r bs r' \<longleftrightarrow> can_read r bs \<and> r' = advance r bs"
  by (auto simp: can_read_def advance_def reads_def)

lemma advance_append [wire_simps]: "advance r (as @ bs) = advance (advance r as) bs"
  by (simp add: advance_def add.assoc)

lemma can_read_append [wire_simps]: "can_read r (as @ bs) \<longleftrightarrow> can_read r as \<and> can_read (advance r as) bs"
proof -
  have "can_read r (as @ bs) \<longleftrightarrow> (\<exists>m. reads r as m \<and> reads m bs (advance r (as @ bs)))"
    by (simp add: can_read_def reads_append)
  then show ?thesis by (simp add: reads_iff advance_append)
qed

text \<open>The same for a single byte in front, which \<open>next_byte\<close> keeps from unfolding again.\<close>

definition next_byte :: "Reader \<Rightarrow> u8 \<Rightarrow> bool" where
  "next_byte r b \<longleftrightarrow> can_read r [b]"

definition skip_byte :: "Reader \<Rightarrow> Reader" where
  "skip_byte r = r\<lparr>offset := offset r + 1\<rparr>"

lemma advance_Cons [wire_simps]: "advance r (b # bs) = advance (skip_byte r) bs"
  by (simp add: advance_def skip_byte_def)

lemma advance_Nil [wire_simps]: "advance r [] = r"
  by (simp add: advance_def)

lemma can_read_Cons [wire_simps]: "can_read r (b # bs) \<longleftrightarrow> next_byte r b \<and> can_read (skip_byte r) bs"
proof -
  have "advance r [b] = skip_byte r" by (simp add: wire_simps)
  then show ?thesis using can_read_append [of r "[b]" bs] by (simp add: next_byte_def)
qed

lemma reader_u8_next [wire_simps]: "reader_u8 r = Inr (b, r') \<longleftrightarrow> next_byte r b \<and> r' = skip_byte r"
  by (auto simp: reader_u8_iff reads_iff next_byte_def advance_def skip_byte_def)

lemma can_read_Nil [wire_simps]:
  "next_byte r b \<Longrightarrow> can_read (skip_byte r) []"
  "can_read r bs \<Longrightarrow> can_read (advance r bs) []"
  by (simp_all add: next_byte_def can_read_def reads_def advance_def skip_byte_def slice_def)

section \<open>What writing appends\<close>

lemma push_u24_iff [wire_simps]:
  "push_u24 out v = Inr out' \<longleftrightarrow> v \<le> U24_MAX \<and> out' = out @ be_bytes 3 v"
  unfolding push_u24_def u24_be_bytes by auto

lemma push_u40_iff [wire_simps]:
  "push_u40 out v = Inr out' \<longleftrightarrow> unat v < 2 ^ 40 \<and> out' = out @ be_bytes 5 (unat v)"
  unfolding push_u40_def drop_be_bytes by (auto simp: word_le_nat_alt push_bit_eq_mult)

lemma push_vector_u8_iff [wire_simps]:
  "push_vector_u8 out bs lo = Inr out' \<longleftrightarrow>
     lo \<le> length bs \<and> length bs \<le> 255 \<and> out' = out @ [of_nat (length bs)] @ bs"
  by (auto simp: push_vector_u8_def)

lemma push_vector_u16_iff [wire_simps]:
  "push_vector_u16 out bs lo = Inr out' \<longleftrightarrow>
     lo \<le> length bs \<and> length bs \<le> 65535 \<and> out' = out @ be_bytes 2 (length bs) @ bs"
  by (auto simp: push_vector_u16_def unat_of_nat)

lemma push_vector_u24_iff [wire_simps]:
  "push_vector_u24 out bs lo = Inr out' \<longleftrightarrow>
     lo \<le> length bs \<and> length bs \<le> U24_MAX \<and> out' = out @ be_bytes 3 (length bs) @ bs"
  by (auto simp: push_vector_u24_def result_simps wire_simps)

lemma reads_new:
  "reads (reader_new bs) as r' \<longleftrightarrow>
     take (length as) bs = as \<and> length as < 2 ^ 64 \<and> r' = \<lparr>input = bs, offset = length as\<rparr>"
proof -
  have "take (length as) bs = as \<Longrightarrow> length as \<le> length bs"
    by (metis length_take min.cobounded1)
  then show ?thesis by (auto simp: reads_def reader_new_def slice_def)
qed

lemma reads_whole:
  "reads (reader_new bs) as r' \<and> reader_finish r' = Inr u \<longleftrightarrow>
     as = bs \<and> length bs < 2 ^ 64 \<and> r' = \<lparr>input = bs, offset = length bs\<rparr>"
proof -
  have "take (length as) bs = as \<and> length as = length bs \<longleftrightarrow> as = bs"
    by (metis order_refl take_all)
  moreover have "reads (reader_new bs) as r' \<and> reader_finish r' = Inr u \<longleftrightarrow>
      (take (length as) bs = as \<and> length as = length bs) \<and> length bs < 2 ^ 64 \<and>
      r' = \<lparr>input = bs, offset = length bs\<rparr>"
    unfolding reads_new reader_finish_iff by (metis Reader.select_convs)
  ultimately show ?thesis by (simp only:)
qed

section \<open>The contract of an encoder and a decoder\<close>

text \<open>
  \<open>put\<close> encodes a value, \<open>get\<close> decodes one from a reader, \<open>ok\<close> is what the type of the
  value guarantees (fixed array lengths, opaque type numbers).  The law: decoding yields a value
  exactly when the reader stands before the encoding of that value.
\<close>

locale wire_codec =
  fixes put :: "'a \<Rightarrow> ct_error + bytes"
    and get :: "Reader \<Rightarrow> ct_error + 'a \<times> Reader"
    and ok :: "'a \<Rightarrow> bool"
  assumes get_iff: "get r = Inr (x, r') \<longleftrightarrow> ok x \<and> (\<exists>bs. put x = Inr bs \<and> reads r bs r')"
begin

lemma put_rule: "put x = Inr bs \<longleftrightarrow> \<not> isl (put x) \<and> bs = projr (put x)"
  by (rule eq_Inr_iff)

lemma get_rule:
  "get r = Inr (x, r') \<longleftrightarrow>
     ok x \<and> \<not> isl (put x) \<and> can_read r (projr (put x)) \<and> r' = advance r (projr (put x))"
  unfolding get_iff reads_iff put_rule by blast

lemma whole_iff:
  "bindE (get (reader_new bs)) (\<lambda>(x, r). bindE (reader_finish r) (\<lambda>u. Inr x)) = Inr x \<longleftrightarrow>
     ok x \<and> put x = Inr bs \<and> length bs < 2 ^ 64"
proof -
  have "bindE (get (reader_new bs)) (\<lambda>(x, r). bindE (reader_finish r) (\<lambda>u. Inr x)) = Inr x \<longleftrightarrow>
      (\<exists>r. get (reader_new bs) = Inr (x, r) \<and> reader_finish r = Inr ())"
    by (auto simp: bindE_eq_Inr)
  also have "\<dots> \<longleftrightarrow> (\<exists>as r. ok x \<and> put x = Inr as \<and> reads (reader_new bs) as r \<and> reader_finish r = Inr ())"
    by (auto simp: get_iff)
  also have "\<dots> \<longleftrightarrow> ok x \<and> put x = Inr bs \<and> length bs < 2 ^ 64"
    by (simp add: reads_whole)
  finally show ?thesis .
qed

lemma put_prefix_free:
  assumes "ok x" "put x = Inr as" "ok y" "put y = Inr (as @ bs)" "length (as @ bs) < 2 ^ 64"
  shows "x = y \<and> bs = []"
proof -
  have "get (reader_new (as @ bs)) = Inr (x, \<lparr>input = as @ bs, offset = length as\<rparr>)"
    "get (reader_new (as @ bs)) = Inr (y, \<lparr>input = as @ bs, offset = length (as @ bs)\<rparr>)"
    using assms by (simp_all add: get_iff reads_new)
  then show ?thesis by simp
qed

lemma put_inj: "ok x \<Longrightarrow> put x = Inr bs \<Longrightarrow> ok y \<Longrightarrow> put y = Inr bs \<Longrightarrow> length bs < 2 ^ 64 \<Longrightarrow> x = y"
  using put_prefix_free [of x bs y "[]"] by simp

end

text \<open>
  An encoder of the form \<open>encode_to(&self, output: &mut Vec<u8>)\<close> appends to a buffer.  Together
  with a decoder it is a field of a larger structure.
\<close>

locale wire_field = wire_codec "\<lambda>x. put_to x []" get ok
  for put_to :: "'a \<Rightarrow> bytes \<Rightarrow> ct_error + bytes"
    and get :: "Reader \<Rightarrow> ct_error + 'a \<times> Reader"
    and ok :: "'a \<Rightarrow> bool" +
  assumes put_to_append: "put_to x out = Inr out' \<longleftrightarrow> (\<exists>bs. put_to x [] = Inr bs \<and> out' = out @ bs)"
begin

lemma put_to_rule: "put_to x out = Inr out' \<longleftrightarrow> \<not> isl (put_to x []) \<and> out' = out @ projr (put_to x [])"
  using put_to_append [of x out out'] by (auto simp: eq_Inr_iff)

end

section \<open>Loops that read until the input is exhausted\<close>

lemma reads_remaining: "reads r bs r' \<Longrightarrow> reader_remaining r' + length bs = reader_remaining r"
  by (auto simp: reads_def reader_remaining_def)

definition reader_valid :: "Reader \<Rightarrow> bool" where
  "reader_valid r \<longleftrightarrow> offset r \<le> length (input r) \<and> length (input r) < 2 ^ 64"

definition reader_rest :: "Reader \<Rightarrow> bytes" where
  "reader_rest r = drop (offset r) (input r)"

lemma reads_rest:
  "reader_valid r \<Longrightarrow> reads r bs r' \<longleftrightarrow> (\<exists>post. reader_rest r = bs @ post \<and> r' = advance r bs)"
  "reader_valid r \<Longrightarrow> reads r bs r' \<Longrightarrow> reader_valid r' \<and> reader_rest r = bs @ reader_rest r'"
proof -
  assume valid: "reader_valid r"
  have iff: "take (length bs) (reader_rest r) = bs \<longleftrightarrow> (\<exists>post. reader_rest r = bs @ post)"
    by (metis append_eq_conv_conj append_take_drop_id)
  have len: "take (length bs) (reader_rest r) = bs \<Longrightarrow> offset r + length bs \<le> length (input r)"
    using valid by (auto simp: reader_rest_def reader_valid_def dest: arg_cong [where f = length])
  show "reads r bs r' \<longleftrightarrow> (\<exists>post. reader_rest r = bs @ post \<and> r' = advance r bs)"
    using valid len iff by (auto simp: reads_def slice_def reader_rest_def reader_valid_def advance_def)
  assume "reads r bs r'"
  with valid show "reader_valid r' \<and> reader_rest r = bs @ reader_rest r'"
    by (auto simp: reads_def slice_def reader_rest_def reader_valid_def)
      (metis append_take_drop_id drop_drop add.commute)
qed

text \<open>
  \<open>while !reader.is_empty() { item; push }\<close>: the loop inverts the loop of the encoder that appends
  the items one after the other.  \<open>s\<close> is what the loop remembers of the previous item.
\<close>

locale reader_loop =
  fixes item_put :: "'s \<Rightarrow> 'a \<Rightarrow> ct_error + bytes"
    and item_get :: "'s \<Rightarrow> Reader \<Rightarrow> ct_error + 'a \<times> Reader"
    and ok :: "'a \<Rightarrow> bool"
    and remember :: "'a \<Rightarrow> 's"
    and get_loop :: "Reader \<Rightarrow> 's \<Rightarrow> 'a list \<Rightarrow> ct_error + 'a list"
    and put_loop :: "'s \<Rightarrow> 'a list \<Rightarrow> bytes \<Rightarrow> ct_error + bytes"
  assumes item_iff: "item_get s r = Inr (x, r') \<longleftrightarrow> ok x \<and> (\<exists>bs. item_put s x = Inr bs \<and> reads r bs r')"
    and item_nonempty: "item_put s x = Inr bs \<Longrightarrow> bs \<noteq> []"
    and get_loop_eq: "get_loop r s acc = (if reader_is_empty r then Inr acc
          else bindE (item_get s r) (\<lambda>(x, r). get_loop r (remember x) (acc @ [x])))"
    and put_loop_Nil: "put_loop s [] out = Inr out"
    and put_loop_Cons: "put_loop s (x # xs) out = bindE (item_put s x) (\<lambda>bs. put_loop (remember x) xs (out @ bs))"
begin

lemma put_loop_append: "put_loop s xs out = Inr out' \<longleftrightarrow> (\<exists>bs. put_loop s xs [] = Inr bs \<and> out' = out @ bs)"
proof (induction xs arbitrary: s out out')
  case (Cons x xs)
  show ?case
    unfolding put_loop_Cons bindE_eq_Inr Cons.IH [of "remember x" "_ @ _"] by auto
qed (auto simp: put_loop_Nil)

lemma put_loop_Cons_iff:
  "put_loop s (x # xs) [] = Inr out \<longleftrightarrow>
     (\<exists>bs post. item_put s x = Inr bs \<and> put_loop (remember x) xs [] = Inr post \<and> out = bs @ post)"
proof -
  have "put_loop s (x # xs) [] = Inr out \<longleftrightarrow>
      (\<exists>bs. item_put s x = Inr bs \<and> put_loop (remember x) xs bs = Inr out)"
    by (simp add: put_loop_Cons bindE_eq_Inr)
  moreover have "put_loop (remember x) xs bs = Inr out \<longleftrightarrow>
      (\<exists>post. put_loop (remember x) xs [] = Inr post \<and> out = bs @ post)" for bs
    by (rule put_loop_append)
  ultimately show ?thesis by blast
qed

lemma put_loop_Nil_iff: "put_loop s xs [] = Inr [] \<longleftrightarrow> xs = []"
  using item_nonempty [of s] by (cases xs) (auto simp: put_loop_Nil put_loop_Cons_iff)

lemma get_loop_iff:
  "reader_valid r \<Longrightarrow> get_loop r s acc = Inr ys \<longleftrightarrow>
     (\<exists>xs. ys = acc @ xs \<and> list_all ok xs \<and> put_loop s xs [] = Inr (reader_rest r))"
proof (induction "reader_remaining r" arbitrary: r s acc rule: less_induct)
  case less
  show ?case
  proof (cases "reader_is_empty r")
    case True
    then have rest: "reader_rest r = []" by (simp add: reader_is_empty_def reader_remaining_def reader_rest_def)
    with True show ?thesis by (auto simp: get_loop_eq [of r] put_loop_Nil_iff)
  next
    case False
    then have ne: "reader_rest r \<noteq> []" by (simp add: reader_is_empty_def reader_remaining_def reader_rest_def)
    have step: "get_loop r' (remember x) (acc @ [x]) = Inr ys \<longleftrightarrow>
        (\<exists>xs. ys = acc @ x # xs \<and> list_all ok xs \<and> put_loop (remember x) xs [] = Inr (reader_rest r'))"
      if "item_put s x = Inr bs" "reads r bs r'" for x bs r'
    proof -
      from reads_remaining [OF that(2)] item_nonempty [OF that(1)]
      have "reader_remaining r' < reader_remaining r" by (cases bs) auto
      with less.hyps [of r' "remember x" "acc @ [x]"] reads_rest(2) [OF less.prems that(2)]
      show ?thesis by simp
    qed
    have "get_loop r s acc = Inr ys \<longleftrightarrow>
        (\<exists>x bs r'. ok x \<and> item_put s x = Inr bs \<and> reads r bs r' \<and> get_loop r' (remember x) (acc @ [x]) = Inr ys)"
      using False by (subst get_loop_eq) (auto simp: bindE_eq_Inr item_iff)
    also have "\<dots> \<longleftrightarrow> (\<exists>x bs r' xs. ok x \<and> item_put s x = Inr bs \<and> reads r bs r' \<and> ys = acc @ x # xs \<and>
        list_all ok xs \<and> put_loop (remember x) xs [] = Inr (reader_rest r'))"
      using step by blast
    also have "\<dots> \<longleftrightarrow> (\<exists>x bs post xs. ok x \<and> item_put s x = Inr bs \<and> reader_rest r = bs @ post \<and> ys = acc @ x # xs \<and>
        list_all ok xs \<and> put_loop (remember x) xs [] = Inr post)"
    proof -
      have "(\<exists>r'. reads r bs r' \<and> m = Inr (reader_rest r')) \<longleftrightarrow> (\<exists>post. reader_rest r = bs @ post \<and> m = Inr post)"
        for bs and m :: "ct_error + bytes"
        using reads_rest [OF less.prems, of bs] by (metis same_append_eq)
      then show ?thesis by blast
    qed
    also have "\<dots> \<longleftrightarrow> (\<exists>x xs. ys = acc @ x # xs \<and> list_all ok (x # xs) \<and> put_loop s (x # xs) [] = Inr (reader_rest r))"
      unfolding put_loop_Cons_iff by auto
    also have "\<dots> \<longleftrightarrow> (\<exists>xs. ys = acc @ xs \<and> list_all ok xs \<and> put_loop s xs [] = Inr (reader_rest r))"
      using ne put_loop_Nil by (metis list.exhaust sum.inject(2))
    finally show ?thesis .
  qed
qed

lemma get_loop_new:
  "length bs < 2 ^ 64 \<Longrightarrow>
   get_loop (reader_new bs) s [] = Inr xs \<longleftrightarrow> list_all ok xs \<and> put_loop s xs [] = Inr bs"
  using get_loop_iff [of "reader_new bs" s "[]" xs]
  by (auto simp: reader_valid_def reader_rest_def reader_new_def)

end

end
