(* ===== verification/Merkle.thy ===== *)
theory Merkle
  imports Ct_Codec
begin

text \<open>
  Certificate Transparency history trees: \<^verbatim>\<open>crates/oxibelt-ct/src/merkle.rs\<close>.

  SHA-256 is the \<open>sha2\<close> crate's and not part of the repository, so the digest is the
  parameter \<open>sha\<close> of every definition.  Proof generation (\<open>inclusion_proof\<close>,
  \<open>consistency_proof\<close>) recurses over the tree from the root, as the code does;
  \<open>verify_consistency\<close> is the bitwise loop of RFC 9162.  The lemmas show that generated
  proofs verify for every tree, and that a verifying proof pins down the leaf (or the old
  root) unless it exhibits two different inputs of \<open>sha\<close> with the same digest.
\<close>

section \<open>Hashes and roots\<close>

type_synonym hash = bytes

definition empty_hash :: "(bytes \<Rightarrow> hash) \<Rightarrow> hash" where
  "empty_hash sha = sha []"

definition leaf_hash :: "(bytes \<Rightarrow> hash) \<Rightarrow> bytes \<Rightarrow> hash" where
  "leaf_hash sha leaf_input = sha ([0x00] @ leaf_input)"

definition node_hash :: "(bytes \<Rightarrow> hash) \<Rightarrow> hash \<Rightarrow> hash \<Rightarrow> hash" where
  "node_hash sha left right = sha ([0x01] @ left @ right)"

definition largest_power_of_two_less_than :: "nat \<Rightarrow> nat" where
  "largest_power_of_two_less_than value = 2 ^ (64 - 1 - usize_leading_zeros (value - 1))"

lemma largest_power_of_two_pos [simp]: "0 < largest_power_of_two_less_than n"
  by (simp add: largest_power_of_two_less_than_def)

lemma largest_power_of_two_less:
  assumes "1 < n"
  shows "largest_power_of_two_less_than n < n"
proof -
  have "(64 - 1 - usize_leading_zeros (n - 1)) \<le> bit_len (n - 1) - 1"
    by (auto simp: usize_leading_zeros_def)
  then have "(2::nat) ^ (64 - 1 - usize_leading_zeros (n - 1)) \<le> 2 ^ (bit_len (n - 1) - 1)"
    by (rule power_increasing) simp
  also have "\<dots> \<le> n - 1"
    using assms by (intro bit_len_lower) simp
  finally show ?thesis
    using assms by (simp add: largest_power_of_two_less_than_def)
qed

lemma split_less:
  "leaves \<noteq> [] \<Longrightarrow> length leaves \<noteq> Suc 0 \<Longrightarrow>
   largest_power_of_two_less_than (length leaves) < length leaves"
  by (rule largest_power_of_two_less) (cases leaves; simp)

function root_from_leaf_hashes :: "(bytes \<Rightarrow> hash) \<Rightarrow> hash list \<Rightarrow> hash" where
  "root_from_leaf_hashes sha leaves =
     (if length leaves = 0 then empty_hash sha
      else if length leaves = 1 then leaves ! 0
      else let split = largest_power_of_two_less_than (length leaves)
           in node_hash sha (root_from_leaf_hashes sha (take split leaves))
                            (root_from_leaf_hashes sha (drop split leaves)))"
  by pat_completeness auto
termination
proof (relation "measure (\<lambda>(sha, leaves). length leaves)")
qed (auto simp: split_less)

declare root_from_leaf_hashes.simps [simp del]

definition tree_hash :: "(bytes \<Rightarrow> hash) \<Rightarrow> bytes list \<Rightarrow> hash" where
  "tree_hash sha entries = root_from_leaf_hashes sha (map (leaf_hash sha) entries)"

section \<open>Inclusion proofs\<close>

text \<open>
  The recursions below stop at \<open>length leaves \<le> 1\<close> (\<open>tree_size \<le> 1\<close>); the code
  compares with one.  The empty tree is excluded by the callers, on it the code's split
  would underflow.
\<close>

function build_inclusion_proof :: "(bytes \<Rightarrow> hash) \<Rightarrow> hash list \<Rightarrow> nat \<Rightarrow> hash list \<Rightarrow> hash list" where
  "build_inclusion_proof sha leaves leaf_index proof =
     (if length leaves \<le> 1 then proof
      else let split = largest_power_of_two_less_than (length leaves)
           in if leaf_index < split
              then build_inclusion_proof sha (take split leaves) leaf_index proof
                     @ [root_from_leaf_hashes sha (drop split leaves)]
              else build_inclusion_proof sha (drop split leaves) (leaf_index - split) proof
                     @ [root_from_leaf_hashes sha (take split leaves)])"
  by pat_completeness auto
termination
proof (relation "measure (\<lambda>(sha, leaves, i, p). length leaves)")
qed (auto simp: largest_power_of_two_less intro!: diff_less)

declare build_inclusion_proof.simps [simp del]

definition inclusion_proof :: "(bytes \<Rightarrow> hash) \<Rightarrow> hash list \<Rightarrow> nat \<Rightarrow> ct_error + hash list" where
  "inclusion_proof sha leaves leaf_index =
     (if leaves = [] \<or> length leaves \<le> leaf_index then Inl (CtError ''CT inclusion proof leaf index is outside the tree'')
      else Inr (build_inclusion_proof sha leaves leaf_index []))"

text \<open>
  The verifier walks the same splits without the leaves; \<open>proof_index\<close> is the code's mutable
  cursor into the proof, passed along and returned with the hash.
\<close>

function inclusion_root ::
  "(bytes \<Rightarrow> hash) \<Rightarrow> hash \<Rightarrow> nat \<Rightarrow> nat \<Rightarrow> hash list \<Rightarrow> nat \<Rightarrow> (hash \<times> nat) option" where
  "inclusion_root sha leaf leaf_index tree_size proof proof_index =
     (if tree_size \<le> 1 then (if leaf_index = 0 then Some (leaf, proof_index) else None)
      else let split = largest_power_of_two_less_than tree_size
           in if leaf_index < split
              then (case inclusion_root sha leaf leaf_index split proof proof_index of
                      None \<Rightarrow> None
                    | Some (left, i) \<Rightarrow>
                        if i < length proof
                        then Some (node_hash sha left (proof ! i), i + 1) else None)
              else (case inclusion_root sha leaf (leaf_index - split) (tree_size - split)
                           proof proof_index of
                      None \<Rightarrow> None
                    | Some (right, i) \<Rightarrow>
                        if i < length proof
                        then Some (node_hash sha (proof ! i) right, i + 1) else None))"
  by pat_completeness auto
termination
proof (relation "measure (\<lambda>(sha, leaf, i, n, p, k). n)")
qed (auto simp: largest_power_of_two_less intro!: diff_less)

declare inclusion_root.simps [simp del]

definition verify_inclusion :: "(bytes \<Rightarrow> hash) \<Rightarrow> hash \<Rightarrow> nat \<Rightarrow> nat \<Rightarrow> hash list \<Rightarrow> hash \<Rightarrow> bool" where
  "verify_inclusion sha leaf leaf_index tree_size proof expected_root =
     (if tree_size = 0 \<or> tree_size \<le> leaf_index then False
      else case inclusion_root sha leaf leaf_index tree_size proof 0 of
             None \<Rightarrow> False
           | Some (root, proof_index) \<Rightarrow> proof_index = length proof \<and> root = expected_root)"

section \<open>Consistency proofs\<close>

text \<open>
  The callers keep \<open>0 < old_size \<le> leaves.len()\<close>, and within that range the recursion ends at \<open>old_size = leaves.len()\<close>.
  Outside of it the code has no defined split (\<open>debug_assert!(value > 1)\<close>); the second disjunct of the guard makes the
  function total there, and \<open>build_consistency_source\<close> shows that it is not taken otherwise.
\<close>

function build_consistency_subproof ::
  "(bytes \<Rightarrow> hash) \<Rightarrow> nat \<Rightarrow> hash list \<Rightarrow> bool \<Rightarrow> hash list \<Rightarrow> hash list" where
  "build_consistency_subproof sha old_size leaves complete proof =
     (if old_size = length leaves \<or> length leaves \<le> 1
      then (if \<not> complete then proof @ [root_from_leaf_hashes sha leaves] else proof)
      else let split = largest_power_of_two_less_than (length leaves)
           in if old_size \<le> split
              then build_consistency_subproof sha old_size (take split leaves) complete proof
                     @ [root_from_leaf_hashes sha (drop split leaves)]
              else build_consistency_subproof sha (old_size - split) (drop split leaves) False proof
                     @ [root_from_leaf_hashes sha (take split leaves)])"
  by pat_completeness auto
termination
proof (relation "measure (\<lambda>(sha, m, leaves, b, p). length leaves)")
qed (auto simp: largest_power_of_two_less intro!: diff_less)

declare build_consistency_subproof.simps [simp del]

definition consistency_proof :: "(bytes \<Rightarrow> hash) \<Rightarrow> hash list \<Rightarrow> nat \<Rightarrow> ct_error + hash list" where
  "consistency_proof sha leaves old_size =
     (if length leaves < old_size then Inl (CtError ''CT consistency proof old tree is larger than new tree'')
      else if old_size = 0 \<or> old_size = length leaves then Inr []
      else Inr (build_consistency_subproof sha old_size leaves True []))"

text \<open>\<open>while first & 1 == 1 { first >>= 1; second >>= 1 }\<close>\<close>

fun strip_ones :: "nat \<Rightarrow> nat \<Rightarrow> nat \<times> nat" where
  "strip_ones first second =
     (if first mod 2 = 1 then strip_ones (first div 2) (second div 2) else (first, second))"

text \<open>\<open>while first != 0 && first & 1 == 0 { first >>= 1; second >>= 1 }\<close>\<close>

fun strip_zeros :: "nat \<Rightarrow> nat \<Rightarrow> nat \<times> nat" where
  "strip_zeros first second =
     (if first \<noteq> 0 \<and> first mod 2 = 0 then strip_zeros (first div 2) (second div 2)
      else (first, second))"

declare strip_ones.simps [simp del] strip_zeros.simps [simp del]

text \<open>
  The main loop, over the proof nodes from \<open>proof_index\<close> on; \<open>None\<close> is the early
  \<open>return false\<close>.
\<close>

fun consistency_loop ::
  "(bytes \<Rightarrow> hash) \<Rightarrow> nat \<Rightarrow> nat \<Rightarrow> hash \<Rightarrow> hash \<Rightarrow> hash list \<Rightarrow> (nat \<times> hash \<times> hash) option" where
  "consistency_loop sha first second first_hash second_hash [] =
     Some (second, first_hash, second_hash)"
| "consistency_loop sha first second first_hash second_hash (node # nodes) =
     (if second = 0 then None
      else if first mod 2 = 1 \<or> first = second
      then (case strip_zeros first second of
              (first', second') \<Rightarrow>
                consistency_loop sha (first' div 2) (second' div 2)
                  (node_hash sha node first_hash) (node_hash sha node second_hash) nodes)
      else consistency_loop sha (first div 2) (second div 2)
             first_hash (node_hash sha second_hash node) nodes)"

definition verify_consistency ::
  "(bytes \<Rightarrow> hash) \<Rightarrow> nat \<Rightarrow> nat \<Rightarrow> hash \<Rightarrow> hash \<Rightarrow> hash list \<Rightarrow> bool" where
  "verify_consistency sha old_size new_size old_root new_root proof =
     (if new_size < old_size then False
      else if old_size = 0
      then proof = [] \<and> old_root = empty_hash sha \<and>
           (new_size \<noteq> 0 \<or> new_root = empty_hash sha)
      else if old_size = new_size then proof = [] \<and> old_root = new_root
      else case strip_ones (old_size - 1) (new_size - 1) of (first, second) \<Rightarrow>
        (case (if first = 0 then Some (old_root, proof)
               else (case proof of [] \<Rightarrow> None | seed # rest \<Rightarrow> Some (seed, rest))) of
           None \<Rightarrow> False
         | Some (seed, rest) \<Rightarrow>
             (case consistency_loop sha first second seed seed rest of
                None \<Rightarrow> False
              | Some (second', first_hash, second_hash) \<Rightarrow>
                  second' = 0 \<and> first_hash = old_root \<and> second_hash = new_root)))"

section \<open>Splits and roots\<close>

lemma split_bounds:
  assumes "1 < n" "n \<le> 2 ^ 64"
  obtains e where "largest_power_of_two_less_than n = 2 ^ e" "2 ^ e < n" "n \<le> 2 ^ Suc e"
proof -
  have le: "bit_len (n - 1) \<le> 64"
  proof (rule ccontr)
    assume "\<not> ?thesis"
    then have "(2::nat) ^ 64 \<le> 2 ^ (bit_len (n - 1) - 1)"
      by (intro power_increasing) auto
    also have "\<dots> \<le> n - 1" using assms by (intro bit_len_lower) simp
    finally show False using assms by linarith
  qed
  have pos: "0 < bit_len (n - 1)" using assms by (simp add: bit_len_pos)
  let ?e = "bit_len (n - 1) - 1"
  have eq: "largest_power_of_two_less_than n = 2 ^ ?e"
    using le pos by (simp add: largest_power_of_two_less_than_def usize_leading_zeros_def)
  have "n - 1 < 2 ^ Suc ?e" using bit_len_upper [of "n - 1"] pos by simp
  then have "n \<le> 2 ^ Suc ?e" by linarith
  moreover have "2 ^ ?e < n" using largest_power_of_two_less [OF assms(1)] eq by simp
  ultimately show thesis using eq that by blast
qed

lemma power2_between_unique:
  "(2::nat) ^ d < n \<Longrightarrow> n \<le> 2 ^ Suc d \<Longrightarrow> 2 ^ e < n \<Longrightarrow> n \<le> 2 ^ Suc e \<Longrightarrow> d = e"
  by (metis less_le_trans less_Suc_eq_le nle_le one_less_numeral_iff power_less_imp_less_exp
      semiring_norm(76))

lemma split_eqI:
  assumes "2 ^ e < n" "n \<le> 2 ^ Suc e" "n \<le> 2 ^ 64"
  shows "largest_power_of_two_less_than n = 2 ^ e"
proof -
  have "1 < n" using assms(1) le_less_trans [of 1 "2 ^ e" n] by simp
  then obtain d where "largest_power_of_two_less_than n = 2 ^ d" "2 ^ d < n" "n \<le> 2 ^ Suc d"
    using assms(3) by (rule split_bounds)
  with assms show ?thesis using power2_between_unique by blast
qed

lemma root_single [simp]: "length leaves = 1 \<Longrightarrow> root_from_leaf_hashes sha leaves = leaves ! 0"
  by (subst root_from_leaf_hashes.simps) simp

lemma root_split:
  assumes "1 < length leaves"
  shows "root_from_leaf_hashes sha leaves =
    (let k = largest_power_of_two_less_than (length leaves)
     in node_hash sha (root_from_leaf_hashes sha (take k leaves))
                      (root_from_leaf_hashes sha (drop k leaves)))"
  using assms by (subst root_from_leaf_hashes.simps) (auto simp: Let_def)

lemma root_take_split:
  assumes "2 ^ e < m" "m \<le> length leaves" "length leaves \<le> 2 ^ Suc e" "length leaves \<le> 2 ^ 64"
  shows "root_from_leaf_hashes sha (take m leaves) =
    node_hash sha (root_from_leaf_hashes sha (take (2 ^ e) leaves))
                  (root_from_leaf_hashes sha (take (m - 2 ^ e) (drop (2 ^ e) leaves)))"
proof -
  have len: "length (take m leaves) = m" using assms(2) by simp
  have "1 < m" using assms(1) le_less_trans [of 1 "2 ^ e" m] by simp
  moreover have "largest_power_of_two_less_than m = 2 ^ e"
    using assms by (intro split_eqI) auto
  moreover have "take (2 ^ e) (take m leaves) = take (2 ^ e) leaves"
    using assms(1) by (simp add: min_def)
  ultimately show ?thesis
    by (subst root_split) (simp_all add: len Let_def drop_take del: length_take)
qed

section \<open>Generated inclusion proofs verify\<close>

lemma build_inclusion_acc:
  "build_inclusion_proof sha leaves i p = p @ build_inclusion_proof sha leaves i []"
proof (induction sha leaves i p rule: build_inclusion_proof.induct)
  case (1 sha leaves i p)
  show ?case
  proof (cases "length leaves \<le> 1")
    case True
    then show ?thesis by (simp add: build_inclusion_proof.simps)
  next
    case False
    then show ?thesis
      using "1.IH"(1) [OF False refl] "1.IH"(2) [OF False refl]
      by (subst (1 2) build_inclusion_proof.simps) (simp add: Let_def)
  qed
qed

lemma inclusion_root_build:
  assumes "i < length leaves"
  shows "inclusion_root sha (leaves ! i) i (length leaves)
           (pre @ build_inclusion_proof sha leaves i [] @ post) (length pre) =
         Some (root_from_leaf_hashes sha leaves,
               length pre + length (build_inclusion_proof sha leaves i []))"
  using assms
proof (induction sha leaves i "[] :: hash list" arbitrary: post rule: build_inclusion_proof.induct)
  case (1 sha leaves i)
  show ?case
  proof (cases "length leaves \<le> 1")
    case True
    with "1.prems" have "length leaves = 1" "i = 0" by auto
    then show ?thesis by (simp add: inclusion_root.simps build_inclusion_proof.simps [of sha leaves])
  next
    case False
    let ?k = "largest_power_of_two_less_than (length leaves)"
    have k: "?k < length leaves" using False by (intro largest_power_of_two_less) simp
    have root: "root_from_leaf_hashes sha leaves =
        node_hash sha (root_from_leaf_hashes sha (take ?k leaves))
                      (root_from_leaf_hashes sha (drop ?k leaves))"
      using False root_split [of leaves sha] by (simp add: Let_def)
    show ?thesis
    proof (cases "i < ?k")
      case True
      have b: "build_inclusion_proof sha leaves i [] =
          build_inclusion_proof sha (take ?k leaves) i [] @ [root_from_leaf_hashes sha (drop ?k leaves)]"
        using False True by (subst build_inclusion_proof.simps) (simp add: Let_def)
      show ?thesis
        using False True k root "1.hyps"(1) [OF False refl True, of "root_from_leaf_hashes sha (drop ?k leaves) # post"]
        by (subst inclusion_root.simps) (simp add: Let_def b nth_append min_def)
    next
      case ge: False
      have b: "build_inclusion_proof sha leaves i [] =
          build_inclusion_proof sha (drop ?k leaves) (i - ?k) [] @ [root_from_leaf_hashes sha (take ?k leaves)]"
        using False ge by (subst build_inclusion_proof.simps) (simp add: Let_def)
      show ?thesis
        using False ge k root "1.prems" "1.hyps"(2) [OF False refl ge, of "root_from_leaf_hashes sha (take ?k leaves) # post"]
        by (subst inclusion_root.simps) (simp add: Let_def b nth_append)
    qed
  qed
qed

text \<open>
  C1.  For every tree and every leaf of it, \<open>inclusion_proof\<close> returns a proof and
  \<open>verify_inclusion\<close> accepts it against the tree's root.
\<close>

theorem inclusion_complete:
  assumes "i < length leaves"
  shows "\<exists>proof. inclusion_proof sha leaves i = Inr proof \<and>
           verify_inclusion sha (leaves ! i) i (length leaves) proof (root_from_leaf_hashes sha leaves)"
  using assms inclusion_root_build [OF assms, where pre = "[]" and post = "[]" and sha = sha]
  by (auto simp: inclusion_proof_def verify_inclusion_def)

text \<open>The hypothesis of the property at a concrete tree of three leaves.\<close>

theorem inclusion_complete_witness:
  "(2::nat) < length [[1], [2], [3::u8]] \<and>
   (\<exists>proof. inclusion_proof (\<lambda>x. x) [[1], [2], [3]] 2 = Inr proof \<and>
      verify_inclusion (\<lambda>x. x) [3] 2 3 proof (root_from_leaf_hashes (\<lambda>x. x) [[1], [2], [3]]))"
  using inclusion_complete [of 2 "[[1], [2], [3::u8]]" "\<lambda>x. x"] by (simp add: numeral_3_eq_3)

section \<open>Verifying inclusion proofs are sound\<close>

text \<open>
  \<open>Hash\<close> is \<open>[u8; 32]\<close>, so every hash the code handles has 32 bytes.  Soundness cannot hold
  outright for a digest of fixed size; it says that an accepted proof for a wrong leaf
  contains a collision: an input hashed by the verifier and a different input hashed when
  the tree was built, with equal digests.  \<open>path_inputs\<close> and \<open>tree_inputs\<close> list these
  inputs.
\<close>

definition is_hash :: "hash \<Rightarrow> bool" where
  "is_hash h \<longleftrightarrow> length h = 32"

definition collision_between :: "(bytes \<Rightarrow> hash) \<Rightarrow> bytes list \<Rightarrow> bytes list \<Rightarrow> bool" where
  "collision_between sha xs ys \<longleftrightarrow> (\<exists>x \<in> set xs. \<exists>y \<in> set ys. x \<noteq> y \<and> sha x = sha y)"

definition node_input :: "hash \<Rightarrow> hash \<Rightarrow> bytes" where
  "node_input left right = [0x01] @ left @ right"

function tree_inputs :: "(bytes \<Rightarrow> hash) \<Rightarrow> hash list \<Rightarrow> bytes list" where
  "tree_inputs sha leaves =
     (if length leaves \<le> 1 then []
      else let k = largest_power_of_two_less_than (length leaves)
           in node_input (root_from_leaf_hashes sha (take k leaves))
                         (root_from_leaf_hashes sha (drop k leaves))
              # tree_inputs sha (take k leaves) @ tree_inputs sha (drop k leaves))"
  by pat_completeness auto
termination
proof (relation "measure (\<lambda>(sha, leaves). length leaves)")
qed (auto simp: largest_power_of_two_less intro!: diff_less)

function path_inputs :: "(bytes \<Rightarrow> hash) \<Rightarrow> hash \<Rightarrow> nat \<Rightarrow> nat \<Rightarrow> hash list \<Rightarrow> nat \<Rightarrow> bytes list" where
  "path_inputs sha leaf i n proof j =
     (if n \<le> 1 then []
      else let k = largest_power_of_two_less_than n
           in if i < k
              then (case inclusion_root sha leaf i k proof j of
                      None \<Rightarrow> []
                    | Some (h, j') \<Rightarrow> node_input h (proof ! j') # path_inputs sha leaf i k proof j)
              else (case inclusion_root sha leaf (i - k) (n - k) proof j of
                      None \<Rightarrow> []
                    | Some (h, j') \<Rightarrow>
                        node_input (proof ! j') h # path_inputs sha leaf (i - k) (n - k) proof j))"
  by pat_completeness auto
termination
proof (relation "measure (\<lambda>(sha, leaf, i, n, p, k). n)")
qed (auto simp: largest_power_of_two_less)

declare tree_inputs.simps [simp del] path_inputs.simps [simp del]

lemma node_hash_input: "node_hash sha l r = sha (node_input l r)"
  by (simp add: node_hash_def node_input_def)

lemma node_input_inject:
  "length l = length l' \<Longrightarrow> node_input l r = node_input l' r' \<longleftrightarrow> l = l' \<and> r = r'"
  by (simp add: node_input_def)

lemma collision_between_mono:
  "collision_between sha xs ys \<Longrightarrow> set xs \<subseteq> set xs' \<Longrightarrow> set ys \<subseteq> set ys' \<Longrightarrow> collision_between sha xs' ys'"
  by (auto simp: collision_between_def)

lemma collision_betweenI:
  "x \<in> set xs \<Longrightarrow> y \<in> set ys \<Longrightarrow> x \<noteq> y \<Longrightarrow> sha x = sha y \<Longrightarrow> collision_between sha xs ys"
  by (auto simp: collision_between_def)

lemma is_hash_root:
  assumes "\<And>x. is_hash (sha x)" "\<forall>h \<in> set leaves. is_hash h"
  shows "is_hash (root_from_leaf_hashes sha leaves)"
  using assms(2)
  by (subst root_from_leaf_hashes.simps)
     (cases leaves; auto simp: Let_def empty_hash_def node_hash_def assms(1))

lemma is_hash_inclusion_root:
  assumes "\<And>x. is_hash (sha x)" "is_hash leaf"
  shows "inclusion_root sha leaf i n proof j = Some (h, j') \<Longrightarrow> is_hash h"
  using assms
  by (subst (asm) inclusion_root.simps)
     (auto simp: Let_def node_hash_def split: if_splits option.splits)

lemma node_input_cases:
  assumes "sha (node_input l r) = sha (node_input l' r')" "length l = length l' \<or> length r = length r'"
    and "node_input l r \<in> set xs" "node_input l' r' \<in> set ys"
  shows "l = l' \<and> r = r' \<or> collision_between sha xs ys"
proof (cases "node_input l r = node_input l' r'")
  case True
  with assms(2) show ?thesis by (auto simp: node_input_def append_eq_append_conv)
next
  case False
  with assms show ?thesis by (auto simp: collision_between_def)
qed

lemma tree_inputs_split:
  assumes "1 < length leaves"
  shows "set (tree_inputs sha leaves) =
    (let k = largest_power_of_two_less_than (length leaves)
     in insert (node_input (root_from_leaf_hashes sha (take k leaves))
                           (root_from_leaf_hashes sha (drop k leaves)))
          (set (tree_inputs sha (take k leaves)) \<union> set (tree_inputs sha (drop k leaves))))"
  using assms by (subst tree_inputs.simps) (simp add: Let_def)

lemma inclusion_root_leftE:
  assumes "inclusion_root sha leaf i n proof j = Some (h, j')" "1 < n"
    "i < largest_power_of_two_less_than n"
  obtains l j1 where
    "inclusion_root sha leaf i (largest_power_of_two_less_than n) proof j = Some (l, j1)"
    "h = sha (node_input l (proof ! j1))"
    "set (path_inputs sha leaf i n proof j) = insert (node_input l (proof ! j1))
       (set (path_inputs sha leaf i (largest_power_of_two_less_than n) proof j))"
proof -
  obtain l j1 where
    "inclusion_root sha leaf i (largest_power_of_two_less_than n) proof j = Some (l, j1)"
    "h = sha (node_input l (proof ! j1))"
    using assms by (auto simp: inclusion_root.simps [of sha leaf i n] Let_def node_hash_input
        split: option.splits if_splits)
  then show thesis
    using assms that by (simp add: path_inputs.simps [of sha leaf i n] Let_def)
qed

lemma inclusion_root_rightE:
  assumes "inclusion_root sha leaf i n proof j = Some (h, j')" "1 < n"
    "\<not> i < largest_power_of_two_less_than n"
  obtains r j1 where
    "inclusion_root sha leaf (i - largest_power_of_two_less_than n)
       (n - largest_power_of_two_less_than n) proof j = Some (r, j1)"
    "h = sha (node_input (proof ! j1) r)"
    "set (path_inputs sha leaf i n proof j) = insert (node_input (proof ! j1) r)
       (set (path_inputs sha leaf (i - largest_power_of_two_less_than n)
               (n - largest_power_of_two_less_than n) proof j))"
proof -
  obtain r j1 where
    "inclusion_root sha leaf (i - largest_power_of_two_less_than n)
       (n - largest_power_of_two_less_than n) proof j = Some (r, j1)"
    "h = sha (node_input (proof ! j1) r)"
    using assms by (auto simp: inclusion_root.simps [of sha leaf i n] Let_def node_hash_input
        split: option.splits if_splits)
  then show thesis
    using assms that by (simp add: path_inputs.simps [of sha leaf i n] Let_def)
qed

lemma inclusion_root_sound:
  fixes sha :: "bytes \<Rightarrow> hash"
  assumes sha: "\<And>x. is_hash (sha x)" and leaf: "is_hash leaf"
  shows "\<forall>h \<in> set leaves. is_hash h \<Longrightarrow> i < length leaves \<Longrightarrow>
     inclusion_root sha leaf i (length leaves) proof j = Some (root_from_leaf_hashes sha leaves, j') \<Longrightarrow>
     leaf = leaves ! i \<or>
     collision_between sha (path_inputs sha leaf i (length leaves) proof j) (tree_inputs sha leaves)"
proof (induction leaves arbitrary: i j' rule: length_induct)
  case (1 leaves)
  let ?k = "largest_power_of_two_less_than (length leaves)"
  let ?L = "take ?k leaves" and ?R = "drop ?k leaves"
  let ?C = "collision_between sha (path_inputs sha leaf i (length leaves) proof j) (tree_inputs sha leaves)"
  have h: "\<forall>h \<in> set ?L. is_hash h" "\<forall>h \<in> set ?R. is_hash h"
    using "1.prems"(1) by (auto dest: in_set_takeD in_set_dropD)
  consider (one) "length leaves = 1" "i = 0" | (many) "1 < length leaves"
    using "1.prems"(2) by linarith
  then show ?case
  proof cases
    case one
    with "1.prems"(3) show ?thesis by (simp add: inclusion_root.simps)
  next
    case many
    note k = largest_power_of_two_less [OF many]
    note root = root_split [OF many, of sha, unfolded Let_def node_hash_input]
    note tin = tree_inputs_split [OF many, of sha, unfolded Let_def]
    show ?thesis
    proof (cases "i < ?k")
      case True
      obtain l j1 where sub: "inclusion_root sha leaf i ?k proof j = Some (l, j1)"
        and top: "sha (node_input l (proof ! j1)) = root_from_leaf_hashes sha leaves"
        and pin: "set (path_inputs sha leaf i (length leaves) proof j) =
          insert (node_input l (proof ! j1)) (set (path_inputs sha leaf i ?k proof j))"
        using inclusion_root_leftE [OF "1.prems"(3) many True] by metis
      have "l = root_from_leaf_hashes sha ?L \<or> ?C"
        using node_input_cases [OF top [unfolded root]] pin tin
          is_hash_inclusion_root [OF sha leaf sub] is_hash_root [OF sha h(1)]
        by (auto simp: is_hash_def)
      moreover have "?C" if "collision_between sha (path_inputs sha leaf i ?k proof j) (tree_inputs sha ?L)"
        using that pin tin by (auto elim!: collision_between_mono)
      then have "leaf = ?L ! i \<or> ?C" if "l = root_from_leaf_hashes sha ?L"
        using "1.IH" [rule_format, of ?L i j1] that sub k h(1) True by (auto simp: min_def)
      ultimately show ?thesis using True by auto
    next
      case False
      obtain r j1 where sub: "inclusion_root sha leaf (i - ?k) (length leaves - ?k) proof j = Some (r, j1)"
        and top: "sha (node_input (proof ! j1) r) = root_from_leaf_hashes sha leaves"
        and pin: "set (path_inputs sha leaf i (length leaves) proof j) = insert (node_input (proof ! j1) r)
          (set (path_inputs sha leaf (i - ?k) (length leaves - ?k) proof j))"
        using inclusion_root_rightE [OF "1.prems"(3) many False] by metis
      have "r = root_from_leaf_hashes sha ?R \<or> ?C"
        using node_input_cases [OF top [unfolded root]] pin tin
          is_hash_inclusion_root [OF sha leaf sub] is_hash_root [OF sha h(2)]
        by (auto simp: is_hash_def)
      moreover have "?C" if "collision_between sha (path_inputs sha leaf (i - ?k) (length leaves - ?k) proof j)
          (tree_inputs sha ?R)"
        using that pin tin by (auto elim!: collision_between_mono)
      note tr = this
      have "leaf = ?R ! (i - ?k) \<or> ?C" if "r = root_from_leaf_hashes sha ?R"
      proof -
        have "length ?R < length leaves" "i - ?k < length ?R"
          using many False "1.prems"(2) by (auto simp: diff_less_mono intro!: diff_less)
        with "1.IH" [rule_format, of ?R "i - ?k" j1] that sub h(2) False "1.prems"(2) tr
        show ?thesis by auto
      qed
      ultimately show ?thesis using False "1.prems"(2) by auto
    qed
  qed
qed

text \<open>
  C2.  If \<open>verify_inclusion\<close> accepts a leaf hash at index \<open>i\<close> against the root of a tree, the leaf
  hash is the tree's \<open>i\<close>-th leaf, or the verifier hashed an input that collides with a
  different input hashed when the tree was built.
\<close>

theorem inclusion_sound:
  assumes "\<And>x. is_hash (sha x)" "is_hash leaf" "\<forall>h \<in> set leaves. is_hash h"
    and "verify_inclusion sha leaf i (length leaves) proof (root_from_leaf_hashes sha leaves)"
  shows "i < length leaves \<and>
    (leaf = leaves ! i \<or>
     collision_between sha (path_inputs sha leaf i (length leaves) proof 0) (tree_inputs sha leaves))"
  using assms inclusion_root_sound [of sha leaf leaves i "proof" 0, OF assms(1-3)]
  by (auto simp: verify_inclusion_def split: if_splits option.splits)

text \<open>
  A digest that pads with zeros to 32 bytes, and a proof for the second of two leaves.
\<close>

definition pad_digest :: "bytes \<Rightarrow> hash" where
  "pad_digest x = take 32 (x @ replicate 32 0)"

lemma is_hash_pad_digest: "is_hash (pad_digest x)"
  by (simp add: is_hash_def pad_digest_def)

theorem inclusion_sound_witness:
  "let leaves = [pad_digest [1], pad_digest [2]] in
   verify_inclusion pad_digest (pad_digest [2]) 1 2 [pad_digest [1]]
     (root_from_leaf_hashes pad_digest leaves) \<and>
   (pad_digest [2] = leaves ! 1 \<or>
    collision_between pad_digest (path_inputs pad_digest (pad_digest [2]) 1 2 [pad_digest [1]] 0)
      (tree_inputs pad_digest leaves))"
proof -
  let ?leaves = "[pad_digest [1], pad_digest [2]]"
  have v: "verify_inclusion pad_digest (pad_digest [2]) 1 (length ?leaves) [pad_digest [1]]
     (root_from_leaf_hashes pad_digest ?leaves)"
    by (simp add: verify_inclusion_def inclusion_root.simps root_from_leaf_hashes.simps
        largest_power_of_two_less_than_def usize_leading_zeros_def bit_len.simps Let_def)
  show ?thesis
    using v inclusion_sound [OF is_hash_pad_digest is_hash_pad_digest _ v]
    by (simp add: is_hash_pad_digest Let_def numeral_2_eq_2)
qed

section \<open>Consistency proofs, level by level\<close>

text \<open>
  A reference form of the verification loop: one level of the tree per step, \<open>f\<close> and \<open>s\<close>
  the positions of the last old and the last new node of that level.  A level where both are
  the same left child consumes no node.
\<close>

function level_run ::
  "(bytes \<Rightarrow> hash) \<Rightarrow> nat \<Rightarrow> nat \<Rightarrow> hash \<Rightarrow> hash \<Rightarrow> hash list \<Rightarrow> (hash \<times> hash) option" where
  "level_run sha f s fr sr ps =
     (if s = 0 then (if ps = [] then Some (fr, sr) else None)
      else if f = s \<and> even f then level_run sha (f div 2) (s div 2) fr sr ps
      else (case ps of
              [] \<Rightarrow> None
            | p # ps' \<Rightarrow>
                if odd f
                then level_run sha (f div 2) (s div 2) (node_hash sha p fr) (node_hash sha p sr) ps'
                else level_run sha (f div 2) (s div 2) fr (node_hash sha sr p) ps'))"
  by pat_completeness auto
termination
  by (relation "measure (\<lambda>(sha, f, s, fr, sr, ps). s)") auto

declare level_run.simps [simp del]

definition accept_loop :: "(nat \<times> hash \<times> hash) option \<Rightarrow> (hash \<times> hash) option" where
  "accept_loop r = (case r of Some (s, fr, sr) \<Rightarrow> if s = 0 then Some (fr, sr) else None | None \<Rightarrow> None)"

lemma accept_loop_simps [simp]:
  "accept_loop None = None"
  "accept_loop (Some (s, fr, sr)) = (if s = 0 then Some (fr, sr) else None)"
  by (simp_all add: accept_loop_def)

lemma consistency_loop_even:
  assumes "f \<noteq> 0" "even f" "ps \<noteq> []"
  shows "consistency_loop sha f f fr sr ps = consistency_loop sha (f div 2) (f div 2) fr sr ps"
  using assms by (cases ps) (auto simp: strip_zeros.simps [of f f])

lemma level_run_loop:
  "level_run sha f s fr sr ps = accept_loop (consistency_loop sha f s fr sr ps)"
proof (induction sha f s fr sr ps rule: level_run.induct)
  case (1 sha f s fr sr ps)
  consider (zero) "s = 0" | (same) "s \<noteq> 0" "f = s" "even f"
    | (step) "s \<noteq> 0" "\<not> (f = s \<and> even f)"
    by blast
  then show ?case
  proof cases
    case zero
    then show ?thesis by (cases ps) (simp_all add: level_run.simps)
  next
    case same
    then have "level_run sha f s fr sr ps = level_run sha (f div 2) (s div 2) fr sr ps"
      by (subst level_run.simps) simp
    also have "\<dots> = accept_loop (consistency_loop sha (f div 2) (s div 2) fr sr ps)"
      using same by (intro "1.IH"(1)) auto
    also have "\<dots> = accept_loop (consistency_loop sha f s fr sr ps)"
    proof (cases "ps = []")
      case True
      with same show ?thesis by auto
    qed (use same consistency_loop_even [of f ps sha fr sr] in auto)
    finally show ?thesis .
  next
    case step
    then show ?thesis
      using "1.IH"(2,3)
      by (cases ps; subst level_run.simps)
         (auto simp: strip_zeros.simps [of f s] odd_iff_mod_2_eq_one)
  qed
qed

lemma level_run_zero: "level_run sha f 0 fr sr ps = (if ps = [] then Some (fr, sr) else None)"
  by (simp add: level_run.simps)

lemma level_run_same:
  assumes "s \<noteq> 0" "even s"
  shows "level_run sha s s fr sr ps = level_run sha (s div 2) (s div 2) fr sr ps"
  using assms by (subst level_run.simps) simp

lemma level_run_nil:
  assumes "s \<noteq> 0" "f \<noteq> s \<or> odd f"
  shows "level_run sha f s fr sr [] = None"
  using assms by (subst level_run.simps) auto

lemma level_run_step:
  assumes "s \<noteq> 0" "f \<noteq> s \<or> odd f"
  shows "level_run sha f s fr sr (p # ps) =
    (if odd f then level_run sha (f div 2) (s div 2) (node_hash sha p fr) (node_hash sha p sr) ps
     else level_run sha (f div 2) (s div 2) fr (node_hash sha sr p) ps)"
  using assms by (auto simp: level_run.simps [of sha f s])

lemma level_run_shift: "level_run sha (a * 2 ^ j) (a * 2 ^ j) fr sr ps = level_run sha a a fr sr ps"
proof (induction j)
  case (Suc j)
  have "a * 2 ^ Suc j = 2 * (a * 2 ^ j)" by simp
  with Suc show ?case
    by (cases "a = 0") (simp, subst level_run.simps, simp)
qed simp

text \<open>Levels between the top of a subtree and the level where it hangs in the tree are skipped.\<close>

lemma div_pow2_split:
  assumes "e \<le> h"
  shows "(x::nat) div 2 ^ e = x div 2 ^ h * 2 ^ (h - e) + x mod 2 ^ h div 2 ^ e"
proof -
  have "x = x div 2 ^ h * 2 ^ (h - e) * 2 ^ e + x mod 2 ^ h"
    using assms div_mult_mod_eq [of x "2 ^ h"] by (simp add: power_add [symmetric] mult.assoc)
  then have "x div 2 ^ e = (x mod 2 ^ h + x div 2 ^ h * 2 ^ (h - e) * 2 ^ e) div 2 ^ e"
    by (metis add.commute)
  then show ?thesis by simp
qed

lemma mod_pow2_split: "e \<le> h \<Longrightarrow> (x::nat) mod 2 ^ e = x mod 2 ^ h mod 2 ^ e"
  by (simp add: mod_mod_cancel le_imp_power_dvd)

lemma level_run_lift:
  assumes "e \<le> h" "f div 2 ^ h = s div 2 ^ h" "f mod 2 ^ h < 2 ^ e" "s mod 2 ^ h < 2 ^ e"
  shows "level_run sha (f div 2 ^ e) (s div 2 ^ e) fr sr ps =
         level_run sha (f div 2 ^ h) (s div 2 ^ h) fr sr ps"
  using assms by (simp add: div_pow2_split [of e h] level_run_shift)

section \<open>The shape of a consistency proof\<close>

text \<open>
  A consistency proof is an optional seed (the root of the last complete block of the old
  tree) followed by one sibling per level above it.
\<close>

function proof_seed :: "(bytes \<Rightarrow> hash) \<Rightarrow> nat \<Rightarrow> hash list \<Rightarrow> hash" where
  "proof_seed sha m leaves =
     (if m = length leaves \<or> length leaves \<le> 1 then root_from_leaf_hashes sha leaves
      else let k = largest_power_of_two_less_than (length leaves)
           in if m \<le> k then proof_seed sha m (take k leaves)
              else proof_seed sha (m - k) (drop k leaves))"
  by pat_completeness auto
termination
proof (relation "measure (\<lambda>(sha, m, leaves). length leaves)")
qed (auto simp: largest_power_of_two_less intro!: diff_less)

function proof_tail :: "(bytes \<Rightarrow> hash) \<Rightarrow> nat \<Rightarrow> hash list \<Rightarrow> hash list" where
  "proof_tail sha m leaves =
     (if m = length leaves \<or> length leaves \<le> 1 then []
      else let k = largest_power_of_two_less_than (length leaves)
           in if m \<le> k
              then proof_tail sha m (take k leaves) @ [root_from_leaf_hashes sha (drop k leaves)]
              else proof_tail sha (m - k) (drop k leaves) @ [root_from_leaf_hashes sha (take k leaves)])"
  by pat_completeness auto
termination
proof (relation "measure (\<lambda>(sha, m, leaves). length leaves)")
qed (auto simp: largest_power_of_two_less intro!: diff_less)

function left_only :: "nat \<Rightarrow> hash list \<Rightarrow> bool" where
  "left_only m leaves =
     (if m = length leaves \<or> length leaves \<le> 1 then True
      else let k = largest_power_of_two_less_than (length leaves)
           in m \<le> k \<and> left_only m (take k leaves))"
  by pat_completeness auto
termination
proof (relation "measure (\<lambda>(m, leaves). length leaves)")
qed (auto simp: largest_power_of_two_less)

declare proof_seed.simps [simp del] proof_tail.simps [simp del] left_only.simps [simp del]

lemma build_consistency_source:
  assumes "0 < old_size" "old_size \<le> length leaves"
  shows "build_consistency_subproof sha old_size leaves complete p =
    (if old_size = length leaves then (if \<not> complete then p @ [root_from_leaf_hashes sha leaves] else p)
     else let split = largest_power_of_two_less_than (length leaves)
       in if old_size \<le> split
          then build_consistency_subproof sha old_size (take split leaves) complete p @ [root_from_leaf_hashes sha (drop split leaves)]
          else build_consistency_subproof sha (old_size - split) (drop split leaves) False p @ [root_from_leaf_hashes sha (take split leaves)])"
proof -
  have "old_size = length leaves \<or> length leaves \<le> 1 \<longleftrightarrow> old_size = length leaves" using assms by auto
  then show ?thesis by (subst build_consistency_subproof.simps) (simp only:)
qed

lemma build_consistency_shape:
  "build_consistency_subproof sha m leaves b p =
     p @ (if b \<and> left_only m leaves then [] else [proof_seed sha m leaves]) @ proof_tail sha m leaves"
proof (induction sha m leaves b p rule: build_consistency_subproof.induct)
  case (1 sha m leaves b p)
  show ?case
  proof (cases "m = length leaves \<or> length leaves \<le> 1")
    case True
    then show ?thesis
      by (auto simp: build_consistency_subproof.simps [of sha m leaves] proof_seed.simps [of sha m leaves]
          proof_tail.simps [of sha m leaves] left_only.simps [of m leaves])
  next
    case False
    then show ?thesis
      using "1.IH"(1) [OF False refl] "1.IH"(2) [OF False refl]
      by (simp add: build_consistency_subproof.simps [of sha m leaves] proof_seed.simps [of sha m leaves]
          proof_tail.simps [of sha m leaves] left_only.simps [of m leaves] Let_def)
  qed
qed

lemma left_only_power2:
  assumes "0 < m" "m \<le> length leaves" "length leaves \<le> 2 ^ h" "length leaves \<le> 2 ^ 64"
    and "m < length leaves \<or> length leaves = 2 ^ h"
  shows "left_only m leaves \<longleftrightarrow> (\<exists>j. m = 2 ^ j)"
  using assms
proof (induction leaves arbitrary: h rule: length_induct)
  case (1 leaves)
  show ?case
  proof (cases "m = length leaves")
    case True
    with "1.prems" show ?thesis by (subst left_only.simps) auto
  next
    case False
    with "1.prems" have n: "1 < length leaves" "m < length leaves" by auto
    then obtain e where e: "largest_power_of_two_less_than (length leaves) = 2 ^ e"
        "2 ^ e < length leaves" "length leaves \<le> 2 ^ Suc e"
      using split_bounds [OF n(1) "1.prems"(4)] by blast
    show ?thesis
    proof (cases "m \<le> 2 ^ e")
      case True
      have "left_only m (take (2 ^ e) leaves) \<longleftrightarrow> (\<exists>j. m = 2 ^ j)"
        using "1.IH" [rule_format, of "take (2 ^ e) leaves" e] e True "1.prems" by (simp add: min_def)
      then show ?thesis using n e True by (simp add: left_only.simps [of m leaves])
    next
      case False
      have "m \<noteq> 2 ^ j" for j
      proof
        assume "m = 2 ^ j"
        with False n e have "(2::nat) ^ e < 2 ^ j" "(2::nat) ^ j < 2 ^ Suc e" by auto
        then have "e < j" "j < Suc e" by (simp_all only: power_strict_increasing_iff one_less_numeral_iff semiring_norm(76))
        then show False by simp
      qed
      then show ?thesis using n e False by (simp add: left_only.simps [of m leaves])
    qed
  qed
qed

lemma left_only_seed:
  "left_only m leaves \<Longrightarrow> m \<le> length leaves \<Longrightarrow> 0 < m \<Longrightarrow>
   proof_seed sha m leaves = root_from_leaf_hashes sha (take m leaves)"
proof (induction m leaves rule: left_only.induct)
  case (1 m leaves)
  show ?case
  proof (cases "m = length leaves \<or> length leaves \<le> 1")
    case True
    with "1.prems" have "m = length leaves" by auto
    then show ?thesis by (subst proof_seed.simps) simp
  next
    case False
    with "1" show ?thesis
      using largest_power_of_two_less [of "length leaves"]
      by (simp add: proof_seed.simps [of sha m leaves] left_only.simps [of m leaves] Let_def min_def)
  qed
qed

lemma strip_ones_zero: "fst (strip_ones x y) = 0 \<longleftrightarrow> (\<exists>j. Suc x = 2 ^ j)"
proof (induction x y rule: strip_ones.induct)
  case (1 x y)
  show ?case
  proof (cases "x mod 2 = 1")
    case True
    then have x: "Suc x = 2 * Suc (x div 2)" by presburger
    have "(\<exists>j. Suc x = 2 ^ j) \<longleftrightarrow> (\<exists>j. Suc (x div 2) = 2 ^ j)"
    proof
      assume "\<exists>j. Suc x = 2 ^ j"
      then obtain j where j: "Suc x = 2 ^ j" ..
      with True obtain i where "j = Suc i" by (cases j) auto
      with j x have "Suc (x div 2) = 2 ^ i" by simp
      then show "\<exists>j. Suc (x div 2) = 2 ^ j" ..
    next
      assume "\<exists>j. Suc (x div 2) = 2 ^ j"
      then obtain j where "Suc (x div 2) = 2 ^ j" ..
      with x have "Suc x = 2 ^ Suc j" by simp
      then show "\<exists>j. Suc x = 2 ^ j" ..
    qed
    with True "1" show ?thesis by (simp add: strip_ones.simps [of x y])
  next
    case False
    then have "odd (Suc x)" by presburger
    then have "Suc x = 2 ^ j \<Longrightarrow> x = 0" for j by (cases j) auto
    then have "(\<exists>j. Suc x = 2 ^ j) \<longleftrightarrow> x = 0"
      by (auto intro: exI [of _ 0])
    with False show ?thesis by (simp add: strip_ones.simps [of x y])
  qed
qed

section \<open>Generated consistency proofs verify\<close>

text \<open>
  \<open>aligned h f s m n\<close>: a subtree of \<open>n\<close> leaves, \<open>m\<close> of them old, hangs at level \<open>h\<close> at the place
  the positions \<open>f\<close> and \<open>s\<close> say.  Either it is the rightmost subtree of both trees, or it is
  full and the new tree goes on to its right.
\<close>

definition aligned :: "nat \<Rightarrow> nat \<Rightarrow> nat \<Rightarrow> nat \<Rightarrow> nat \<Rightarrow> bool" where
  "aligned h f s m n \<longleftrightarrow> f mod 2 ^ h = m - 1 \<and>
     (f div 2 ^ h = s div 2 ^ h \<and> s mod 2 ^ h = n - 1 \<and> m < n \<or>
      f div 2 ^ h < s div 2 ^ h \<and> n = 2 ^ h \<and> (m = n \<longrightarrow> even (f div 2 ^ h)))"

lemma below_top_level:
  assumes "2 ^ e < n" "n \<le> (2::nat) ^ h"
  shows "e < h"
proof -
  have "(2::nat) ^ e < 2 ^ h" using assms by (rule less_le_trans)
  then show ?thesis by (simp only: power_strict_increasing_iff one_less_numeral_iff semiring_norm(76))
qed

lemma div_pow2_eq_1: "2 ^ e \<le> x \<Longrightarrow> x < 2 ^ Suc e \<Longrightarrow> (x::nat) div 2 ^ e = 1"
  by (simp add: div_nat_eqI)

lemma mod_pow2_eq_minus: "2 ^ e \<le> x \<Longrightarrow> x < 2 ^ Suc e \<Longrightarrow> (x::nat) mod 2 ^ e = x - 2 ^ e"
  by (simp add: mod_if [of x] le_mod_geq)

lemma full_level:
  assumes "2 ^ e < n" "n \<le> 2 ^ Suc e" "n = (2::nat) ^ h"
  shows "h = Suc e"
proof -
  from assms have "(2::nat) ^ e < 2 ^ h" "(2::nat) ^ h \<le> 2 ^ Suc e" by simp_all
  then show ?thesis
    by (simp only: power_strict_increasing_iff power_increasing_iff one_less_numeral_iff semiring_norm(76))
qed

lemma aligned_left:
  assumes al: "aligned h f s m n" and m: "0 < m" "m \<le> 2 ^ e" "m \<noteq> n"
    and n: "2 ^ e < n" "n \<le> 2 ^ Suc e" "n \<le> 2 ^ h"
  shows "aligned e f s m (2 ^ e)" "even (f div 2 ^ e)" "f div 2 ^ e < s div 2 ^ e"
proof -
  have eh: "e < h" using n(1,3) by (rule below_top_level)
  then obtain d where d: "h - e = Suc d" by (metis Suc_diff_Suc)
  have fm: "f mod 2 ^ h = m - 1" using al by (simp add: aligned_def)
  have "m - 1 < 2 ^ e" using m by linarith
  then have f: "f div 2 ^ e = 2 * (f div 2 ^ h * 2 ^ d)" "f mod 2 ^ e = m - 1"
    using eh d fm by (simp_all add: div_pow2_split [of e h f] mod_pow2_split [of e h f])
  show "even (f div 2 ^ e)" using f(1) by simp
  show lt: "f div 2 ^ e < s div 2 ^ e"
  proof (cases "f div 2 ^ h = s div 2 ^ h")
    case True
    with al have "s mod 2 ^ h = n - 1" by (auto simp: aligned_def)
    moreover have "(n - 1) div 2 ^ e = 1" using n by (intro div_pow2_eq_1) auto
    ultimately show ?thesis using True eh d f(1) by (simp add: div_pow2_split [of e h s])
  next
    case False
    with al have lt: "f div 2 ^ h < s div 2 ^ h" by (auto simp: aligned_def)
    then have "f div 2 ^ h * 2 ^ d < s div 2 ^ h * 2 ^ d" by simp
    moreover have "s div 2 ^ e = 2 * (s div 2 ^ h * 2 ^ d) + s mod 2 ^ h div 2 ^ e"
      using eh d by (simp add: div_pow2_split [of e h s])
    ultimately show ?thesis using f(1) by linarith
  qed
  show "aligned e f s m (2 ^ e)"
    using f lt by (simp add: aligned_def)
qed

lemma aligned_right:
  assumes al: "aligned h f s m n" and m: "2 ^ e < m" "m < n"
    and n: "2 ^ e < n" "n \<le> 2 ^ Suc e" "n \<le> 2 ^ h"
  shows "aligned e f s (m - 2 ^ e) (n - 2 ^ e)" "odd (f div 2 ^ e)" "f div 2 ^ e \<le> s div 2 ^ e"
proof -
  have eh: "e < h" using n(1,3) by (rule below_top_level)
  then obtain d where d: "h - e = Suc d" by (metis Suc_diff_Suc)
  have fm: "f mod 2 ^ h = m - 1" using al by (simp add: aligned_def)
  have mb: "2 ^ e \<le> m - 1" "m - 1 < 2 ^ Suc e" and nb: "2 ^ e \<le> n - 1" "n - 1 < 2 ^ Suc e"
    using m n by auto
  from div_pow2_eq_1 [OF mb] mod_pow2_eq_minus [OF mb] have f: "f div 2 ^ e = 2 * (f div 2 ^ h * 2 ^ d) + 1" "f mod 2 ^ e = m - 2 ^ e - 1"
    using eh d fm by (simp_all add: div_pow2_split [of e h f] mod_pow2_split [of e h f])
  then show "odd (f div 2 ^ e)" by simp
  have "f div 2 ^ e = s div 2 ^ e \<and> s mod 2 ^ e = n - 2 ^ e - 1 \<or>
        f div 2 ^ e < s div 2 ^ e \<and> n - 2 ^ e = 2 ^ e"
  proof (cases "f div 2 ^ h = s div 2 ^ h")
    case True
    with al have "s mod 2 ^ h = n - 1" by (auto simp: aligned_def)
    with div_pow2_eq_1 [OF nb] mod_pow2_eq_minus [OF nb] show ?thesis
      using True eh d f(1) by (simp add: div_pow2_split [of e h s] mod_pow2_split [of e h s])
  next
    case False
    with al have lt: "f div 2 ^ h < s div 2 ^ h" and full: "n = 2 ^ h" by (auto simp: aligned_def)
    have h: "h = Suc e" using n(1,2) full by (rule full_level)
    have "f div 2 ^ e < s div 2 ^ e"
      using lt h d f(1) by (simp add: div_pow2_split [of e h s])
    then show ?thesis using full h by simp
  qed
  then show "aligned e f s (m - 2 ^ e) (n - 2 ^ e)" "f div 2 ^ e \<le> s div 2 ^ e"
    using f m by (auto simp: aligned_def)
qed

lemma aligned_lift:
  assumes al: "aligned h f s m n" and n: "0 < m" "m \<le> n" "2 ^ e < n" "n \<le> 2 ^ Suc e" "n \<le> 2 ^ h"
  shows "level_run sha (f div 2 ^ e div 2) (s div 2 ^ e div 2) fr sr ps =
         level_run sha (f div 2 ^ h) (s div 2 ^ h) fr sr ps"
proof -
  have half: "x div 2 ^ e div 2 = x div 2 ^ Suc e" for x :: nat
    by (metis div_mult2_eq mult.commute power_Suc)
  have eh: "Suc e \<le> h" using below_top_level [OF n(3,5)] by simp
  show ?thesis
  proof (cases "f div 2 ^ h = s div 2 ^ h")
    case True
    with al have "f mod 2 ^ h = m - 1" "s mod 2 ^ h = n - 1" by (auto simp: aligned_def)
    with n have "f mod 2 ^ h < 2 ^ Suc e" "s mod 2 ^ h < 2 ^ Suc e" by auto
    with level_run_lift [OF eh True] show ?thesis by (simp only: half)
  next
    case False
    with al have "n = 2 ^ h" by (auto simp: aligned_def)
    then have "h = Suc e" using n by (intro full_level) auto
    then show ?thesis by (simp only: half)
  qed
qed

lemma strip_ones_full:
  "f mod 2 ^ h = 2 ^ h - 1 \<Longrightarrow> even (f div 2 ^ h) \<Longrightarrow> strip_ones f s = (f div 2 ^ h, s div 2 ^ h)"
proof (induction h arbitrary: f s)
  case 0
  then show ?case by (subst strip_ones.simps) auto
next
  case (Suc h)
  have eq: "2 * (f div 2 mod 2 ^ h) + f mod 2 = 2 * 2 ^ h - 1"
    using Suc.prems(1) mod_mult2_eq [of f 2 "2 ^ h"] by simp
  have "2 * x + y = 2 * P - 1 \<Longrightarrow> 0 < P \<Longrightarrow> y < 2 \<Longrightarrow> y = 1 \<and> x = P - 1" for x y P :: nat
    by presburger
  from this [OF eq] have "f mod 2 = 1 \<and> f div 2 mod 2 ^ h = 2 ^ h - 1" by simp
  moreover have "x div 2 ^ Suc h = x div 2 div 2 ^ h" for x :: nat
    by (simp add: div_mult2_eq)
  ultimately show ?case
    using Suc.IH [of "f div 2" "s div 2"] Suc.prems(2) by (subst strip_ones.simps) simp
qed

lemma level_run_subproof:
  assumes "0 < m" "m \<le> length leaves" "length leaves \<le> 2 ^ h" "length leaves \<le> 2 ^ 64"
    and "aligned h f s m (length leaves)"
  shows "level_run sha (fst (strip_ones f s)) (snd (strip_ones f s))
           (proof_seed sha m leaves) (proof_seed sha m leaves) (proof_tail sha m leaves @ ps) =
         level_run sha (f div 2 ^ h) (s div 2 ^ h)
           (root_from_leaf_hashes sha (take m leaves)) (root_from_leaf_hashes sha leaves) ps"
  using assms
proof (induction leaves arbitrary: m h ps rule: length_induct)
  case (1 leaves)
  let ?n = "length leaves" and ?root = "root_from_leaf_hashes sha"
  note al = "1.prems"(5)
  show ?case
  proof (cases "m = ?n")
    case True
    then have "f mod 2 ^ h = 2 ^ h - 1" "even (f div 2 ^ h)" using al by (auto simp: aligned_def)
    from strip_ones_full [OF this] True show ?thesis
      by (simp add: proof_seed.simps [of sha ?n leaves] proof_tail.simps [of sha ?n leaves])
  next
    case False
    with "1.prems" have n: "1 < ?n" "m < ?n" by auto
    then obtain e where e: "largest_power_of_two_less_than ?n = 2 ^ e" "2 ^ e < ?n" "?n \<le> 2 ^ Suc e"
      using split_bounds [OF n(1) "1.prems"(4)] by blast
    let ?L = "take (2 ^ e) leaves" and ?R = "drop (2 ^ e) leaves"
    have root: "?root leaves = node_hash sha (?root ?L) (?root ?R)"
      using root_split [OF n(1), of sha] e by (simp add: Let_def)
    note lift = aligned_lift [OF al "1.prems"(1,2) e(2,3) "1.prems"(3)]
    show ?thesis
    proof (cases "m \<le> 2 ^ e")
      case True
      note l = aligned_left [OF al "1.prems"(1) True False e(2,3) "1.prems"(3)]
      have "level_run sha (fst (strip_ones f s)) (snd (strip_ones f s)) (proof_seed sha m ?L)
          (proof_seed sha m ?L) (proof_tail sha m ?L @ ?root ?R # ps) =
        level_run sha (f div 2 ^ e) (s div 2 ^ e) (?root (take m ?L)) (?root ?L) (?root ?R # ps)"
        using "1.IH" [rule_format, of ?L m e "?root ?R # ps"] e True l "1.prems" by (simp add: min_def)
      then show ?thesis
        using n e True False l root lift
        by (simp add: proof_seed.simps [of sha m leaves] proof_tail.simps [of sha m leaves]
            level_run_step min_def Let_def)
    next
      case gt: False
      then have m: "2 ^ e < m" by simp
      note r = aligned_right [OF al m n(2) e(2,3) "1.prems"(3)]
      have "level_run sha (fst (strip_ones f s)) (snd (strip_ones f s)) (proof_seed sha (m - 2 ^ e) ?R)
          (proof_seed sha (m - 2 ^ e) ?R) (proof_tail sha (m - 2 ^ e) ?R @ ?root ?L # ps) =
        level_run sha (f div 2 ^ e) (s div 2 ^ e) (?root (take (m - 2 ^ e) ?R)) (?root ?R) (?root ?L # ps)"
        using "1.IH" [rule_format, of ?R "m - 2 ^ e" e "?root ?L # ps"] e m r "1.prems" n by simp
      moreover have "s div 2 ^ e \<noteq> 0" using r by (metis le_zero_eq odd_pos not_gr_zero)
      ultimately show ?thesis
        using n e gt False r root lift root_take_split [OF m "1.prems"(2) e(3) "1.prems"(4), of sha]
        by (simp add: proof_seed.simps [of sha m leaves] proof_tail.simps [of sha m leaves]
            level_run_step Let_def)
    qed
  qed
qed

lemma level_run_generated:
  assumes "0 < m" "m < length leaves" "length leaves \<le> 2 ^ 64"
  shows "level_run sha (fst (strip_ones (m - 1) (length leaves - 1)))
           (snd (strip_ones (m - 1) (length leaves - 1)))
           (proof_seed sha m leaves) (proof_seed sha m leaves) (proof_tail sha m leaves) =
         Some (root_from_leaf_hashes sha (take m leaves), root_from_leaf_hashes sha leaves)"
proof -
  have "length leaves - 1 < 2 ^ 64" "m - 1 < 2 ^ 64" using assms by linarith+
  then have "aligned 64 (m - 1) (length leaves - 1) m (length leaves)"
    using assms by (simp add: aligned_def)
  from level_run_subproof [OF _ _ assms(3,3) this, of sha "[]"] assms show ?thesis
    using \<open>length leaves - 1 < 2 ^ 64\<close> \<open>m - 1 < 2 ^ 64\<close> by (simp add: level_run.simps)
qed

text \<open>\<open>verify_consistency\<close> in the non-trivial range, in terms of the level-wise run.\<close>

lemma verify_consistency_run:
  assumes "0 < m" "m < n"
  shows "verify_consistency sha m n old_root new_root proof \<longleftrightarrow>
    (\<exists>seed rest. proof = (if \<exists>j. m = 2 ^ j then [] else [seed]) @ rest \<and>
       ((\<exists>j. m = 2 ^ j) \<longrightarrow> seed = old_root) \<and>
       level_run sha (fst (strip_ones (m - 1) (n - 1))) (snd (strip_ones (m - 1) (n - 1))) seed seed rest =
         Some (old_root, new_root))"
proof -
  obtain f s where fs: "strip_ones (m - 1) (n - 1) = (f, s)" by fastforce
  with assms strip_ones_zero [of "m - 1" "n - 1"] have f: "(\<exists>j. m = 2 ^ j) \<longleftrightarrow> f = 0" by simp
  have acc: "accept_loop r = Some (a, b) \<longleftrightarrow> r = Some (0, a, b)" for r a b
    by (auto simp: accept_loop_def split: option.splits)
  have loop: "(case r of None \<Rightarrow> False | Some (s', a, b) \<Rightarrow> s' = 0 \<and> a = old_root \<and> b = new_root)
      \<longleftrightarrow> r = Some (0, old_root, new_root)" for r :: "(nat \<times> hash \<times> hash) option"
    by (auto split: option.splits)
  show ?thesis
    unfolding f level_run_loop acc
    using assms fs by (cases "f = 0"; cases "proof") (simp_all add: verify_consistency_def loop)
qed

text \<open>
  C3.  For every tree and every prefix of it, \<open>consistency_proof\<close> returns a proof that
  \<open>verify_consistency\<close> accepts against the roots of the prefix and of the tree.
\<close>

theorem consistency_complete:
  assumes "m \<le> length leaves" "length leaves < 2 ^ 64"
  shows "\<exists>proof. consistency_proof sha leaves m = Inr proof \<and>
    verify_consistency sha m (length leaves) (root_from_leaf_hashes sha (take m leaves))
      (root_from_leaf_hashes sha leaves) proof"
proof (cases "m = 0 \<or> m = length leaves")
  case True
  with assms show ?thesis
    by (auto simp: consistency_proof_def verify_consistency_def root_from_leaf_hashes.simps [of sha "[]"])
next
  case False
  with assms have m: "0 < m" "m < length leaves" by auto
  have "left_only m leaves \<longleftrightarrow> (\<exists>j. m = 2 ^ j)"
    using m assms by (intro left_only_power2 [where h = 64]) auto
  with m assms level_run_generated [OF m, of sha] left_only_seed [of m leaves sha] show ?thesis
    by (auto simp: consistency_proof_def verify_consistency_run build_consistency_shape)
qed

theorem consistency_complete_witness:
  "(3::nat) \<le> length (replicate 5 [7::u8]) \<and> length (replicate 5 [7::u8]) < (2::nat) ^ 64 \<and>
   (\<exists>proof. consistency_proof (\<lambda>x. x) (replicate 5 [7]) 3 = Inr proof \<and>
      verify_consistency (\<lambda>x. x) 3 5 (root_from_leaf_hashes (\<lambda>x. x) (take 3 (replicate 5 [7])))
        (root_from_leaf_hashes (\<lambda>x. x) (replicate 5 [7])) proof)"
  using consistency_complete [of 3 "replicate 5 [7::u8]" "\<lambda>x. x"] by simp

section \<open>Verifying consistency proofs are sound\<close>

text \<open>The inputs the verifier hashes on the way to the new root.\<close>

function run_inputs :: "(bytes \<Rightarrow> hash) \<Rightarrow> nat \<Rightarrow> nat \<Rightarrow> hash \<Rightarrow> hash list \<Rightarrow> bytes list" where
  "run_inputs sha f s sr ps =
     (if s = 0 then []
      else if f = s \<and> even f then run_inputs sha (f div 2) (s div 2) sr ps
      else (case ps of
              [] \<Rightarrow> []
            | p # ps' \<Rightarrow>
                if odd f then node_input p sr # run_inputs sha (f div 2) (s div 2) (node_hash sha p sr) ps'
                else node_input sr p # run_inputs sha (f div 2) (s div 2) (node_hash sha sr p) ps'))"
  by pat_completeness auto
termination
  by (relation "measure (\<lambda>(sha, f, s, sr, ps). s)") auto

declare run_inputs.simps [simp del]

definition consistency_inputs :: "(bytes \<Rightarrow> hash) \<Rightarrow> nat \<Rightarrow> nat \<Rightarrow> hash \<Rightarrow> hash list \<Rightarrow> bytes list" where
  "consistency_inputs sha m n old_root proof =
     (case strip_ones (m - 1) (n - 1) of (f, s) \<Rightarrow>
        if f = 0 then run_inputs sha f s old_root proof
        else run_inputs sha f s (hd proof) (tl proof))"

lemma run_inputs_same:
  assumes "s \<noteq> 0" "even s"
  shows "run_inputs sha s s sr ps = run_inputs sha (s div 2) (s div 2) sr ps"
  using assms by (subst run_inputs.simps) simp

lemma run_inputs_step:
  assumes "s \<noteq> 0" "f \<noteq> s \<or> odd f"
  shows "run_inputs sha f s sr (p # ps) =
    (if odd f then node_input p sr # run_inputs sha (f div 2) (s div 2) (node_hash sha p sr) ps
     else node_input sr p # run_inputs sha (f div 2) (s div 2) (node_hash sha sr p) ps)"
  using assms by (auto simp: run_inputs.simps [of sha f s])

lemma level_run_unique:
  "level_run sha f s fr sr ps = Some (a, r) \<Longrightarrow> level_run sha f s gr tr qs = Some (b, r) \<Longrightarrow>
     is_hash sr \<Longrightarrow> is_hash tr \<Longrightarrow> \<forall>x. is_hash (sha x) \<Longrightarrow>
     sr = tr \<and> ps = qs \<or> collision_between sha (run_inputs sha f s sr ps) (run_inputs sha f s tr qs)"
proof (induction sha f s fr sr ps arbitrary: gr tr qs rule: level_run.induct)
  case (1 sha f s fr sr ps)
  consider (zero) "s = 0" | (same) "s \<noteq> 0" "f = s" "even f"
    | (step) "s \<noteq> 0" "f \<noteq> s \<or> odd f"
    by blast
  then show ?case
  proof cases
    case zero
    with "1.prems" show ?thesis by (auto simp: level_run_zero split: if_splits)
  next
    case same
    with "1.prems" "1.IH"(1) [of gr tr qs] show ?thesis
      by (auto simp: level_run_same run_inputs_same)
  next
    case step
    with "1.prems" obtain p ps' q qs' where pq: "ps = p # ps'" "qs = q # qs'"
      by (cases ps; cases qs) (simp_all add: level_run_nil)
    show ?thesis
    proof (cases "odd f")
      case True
      let ?x = "run_inputs sha (f div 2) (s div 2) (node_hash sha p sr) ps'"
        and ?y = "run_inputs sha (f div 2) (s div 2) (node_hash sha q tr) qs'"
      have sub: "node_hash sha p sr = node_hash sha q tr \<and> ps' = qs' \<or> collision_between sha ?x ?y"
        using "1.IH"(2) [OF _ _ pq(1) True, of "node_hash sha q gr" "node_hash sha q tr" qs'] "1.prems" step pq True
        by (simp add: level_run_step node_hash_def)
      have "p = q \<and> sr = tr \<or> collision_between sha [node_input p sr] [node_input q tr]"
        if "node_hash sha p sr = node_hash sha q tr"
        using that "1.prems"(3,4) by (intro node_input_cases) (auto simp: node_hash_input is_hash_def)
      with sub step True pq show ?thesis
        by (auto simp: run_inputs_step collision_between_def)
    next
      case False
      let ?x = "run_inputs sha (f div 2) (s div 2) (node_hash sha sr p) ps'"
        and ?y = "run_inputs sha (f div 2) (s div 2) (node_hash sha tr q) qs'"
      have sub: "node_hash sha sr p = node_hash sha tr q \<and> ps' = qs' \<or> collision_between sha ?x ?y"
        using "1.IH"(3) [OF _ _ pq(1) False, of gr "node_hash sha tr q" qs'] "1.prems" step pq False
        by (simp add: level_run_step node_hash_def)
      have "sr = tr \<and> p = q \<or> collision_between sha [node_input sr p] [node_input tr q]"
        if "node_hash sha sr p = node_hash sha tr q"
        using that "1.prems"(3,4) by (intro node_input_cases) (auto simp: node_hash_input is_hash_def)
      with sub step False pq show ?thesis
        by (auto simp: run_inputs_step collision_between_def)
    qed
  qed
qed

lemma is_hash_proof_seed:
  "\<forall>h \<in> set leaves. is_hash h \<Longrightarrow> \<forall>x. is_hash (sha x) \<Longrightarrow> is_hash (proof_seed sha m leaves)"
proof (induction sha m leaves rule: proof_seed.induct)
  case (1 sha m leaves)
  have "\<forall>h \<in> set (take k leaves). is_hash h" "\<forall>h \<in> set (drop k leaves). is_hash h" for k
    using "1.prems"(1) by (auto dest: in_set_takeD in_set_dropD)
  with 1 show ?case
    by (subst proof_seed.simps) (auto simp: is_hash_root Let_def)
qed

text \<open>
  C4.  If \<open>verify_consistency\<close> accepts an old root for the first \<open>m\<close> leaves against the root of
  a tree, the old root is the root of those leaves, or the verifier hashed an input that
  collides with a different input it hashes for the proof the tree generates.
\<close>

theorem consistency_sound:
  assumes "\<And>x. is_hash (sha x)" "\<forall>h \<in> set leaves. is_hash h" "\<forall>h \<in> set proof. is_hash h" "is_hash old_root"
    and "0 < m" "m < length leaves" "length leaves < 2 ^ 64"
    and "verify_consistency sha m (length leaves) old_root (root_from_leaf_hashes sha leaves) proof"
  shows "old_root = root_from_leaf_hashes sha (take m leaves) \<or>
    (\<exists>generated. consistency_proof sha leaves m = Inr generated \<and>
       collision_between sha
         (consistency_inputs sha m (length leaves) old_root proof)
         (consistency_inputs sha m (length leaves) (root_from_leaf_hashes sha (take m leaves)) generated))"
proof -
  let ?f = "fst (strip_ones (m - 1) (length leaves - 1))" and ?s = "snd (strip_ones (m - 1) (length leaves - 1))"
  let ?root = "root_from_leaf_hashes sha" and ?seed = "proof_seed sha m leaves" and ?tail = "proof_tail sha m leaves"
  have left: "left_only m leaves \<longleftrightarrow> (\<exists>j. m = 2 ^ j)"
    using assms(5-7) by (intro left_only_power2 [where h = 64]) auto
  have zero: "(\<exists>j. m = 2 ^ j) \<longleftrightarrow> ?f = 0" using assms(5) strip_ones_zero [of "m - 1"] by simp
  obtain seed rest where given: "proof = (if ?f = 0 then [] else [seed]) @ rest" "?f = 0 \<longrightarrow> seed = old_root"
      "level_run sha ?f ?s seed seed rest = Some (old_root, ?root leaves)"
    using assms(8) verify_consistency_run [OF assms(5,6), of sha] unfolding zero by blast
  note gen = level_run_generated [OF assms(5,6) less_imp_le [OF assms(7)], of sha]
  have "is_hash seed" using given(1,2) assms(3,4) by (auto split: if_splits)
  moreover have "is_hash ?seed" using assms(1,2,5,6) by (intro is_hash_proof_seed) auto
  ultimately consider (same) "seed = ?seed" "rest = ?tail"
    | (col) "collision_between sha (run_inputs sha ?f ?s seed rest) (run_inputs sha ?f ?s ?seed ?tail)"
    using level_run_unique [OF given(3) gen] assms(1) by blast
  then show ?thesis
  proof cases
    case same
    with given(3) gen show ?thesis by simp
  next
    case col
    let ?gen = "(if ?f = 0 then [] else [?seed]) @ ?tail"
    have "consistency_proof sha leaves m = Inr ?gen"
      using assms(5,6) left zero by (simp add: consistency_proof_def build_consistency_shape)
    moreover have "consistency_inputs sha m (length leaves) (?root (take m leaves)) ?gen = run_inputs sha ?f ?s ?seed ?tail"
      using left zero left_only_seed [of m leaves sha] assms(5,6)
      by (auto simp: consistency_inputs_def split: prod.splits)
    moreover have "consistency_inputs sha m (length leaves) old_root proof = run_inputs sha ?f ?s seed rest"
      using given by (auto simp: consistency_inputs_def split: prod.splits)
    ultimately show ?thesis using col by auto
  qed
qed

theorem consistency_sound_witness:
  "let leaves = [pad_digest [1], pad_digest [2], pad_digest [3]];
       old_root = root_from_leaf_hashes pad_digest (take 2 leaves);
       proof = [pad_digest [3]]
   in verify_consistency pad_digest 2 3 old_root (root_from_leaf_hashes pad_digest leaves) proof \<and>
      (old_root = root_from_leaf_hashes pad_digest (take 2 leaves) \<or>
       (\<exists>generated. consistency_proof pad_digest leaves 2 = Inr generated \<and>
          collision_between pad_digest (consistency_inputs pad_digest 2 3 old_root proof)
            (consistency_inputs pad_digest 2 3 (root_from_leaf_hashes pad_digest (take 2 leaves)) generated)))"
proof -
  let ?leaves = "[pad_digest [1], pad_digest [2], pad_digest [3]]"
  let ?old = "root_from_leaf_hashes pad_digest (take 2 ?leaves)"
  have old: "is_hash ?old"
    by (simp add: root_from_leaf_hashes.simps node_hash_def is_hash_pad_digest
        largest_power_of_two_less_than_def usize_leading_zeros_def bit_len.simps Let_def)
  have v: "verify_consistency pad_digest 2 (length ?leaves) ?old (root_from_leaf_hashes pad_digest ?leaves) [pad_digest [3]]"
    by (simp add: verify_consistency_def consistency_loop.simps strip_ones.simps strip_zeros.simps root_from_leaf_hashes.simps
        largest_power_of_two_less_than_def usize_leading_zeros_def bit_len.simps Let_def)
  show ?thesis
    using v consistency_sound [OF is_hash_pad_digest _ _ old _ _ _ v]
    by (simp add: is_hash_pad_digest Let_def numeral_2_eq_2 numeral_3_eq_3)
qed

end
