(* ===== verification/Ct_V1.thy ===== *)
theory Ct_V1
  imports Merkle
begin

text \<open>
  RFC 6962 wire structures: \<^verbatim>\<open>crates/oxibelt-ct/src/rfc6962.rs\<close>.

  Each structure has its encoder and its decoder; every pair is an instance of \<open>wire_codec\<close>,
  so decoding accepts exactly the encodings and returns what was encoded.  The base64 engine is
  a third-party crate and a parameter of the JSON conversions.
\<close>

section \<open>Log entries\<close>

abbreviation VERSION_V1 :: u8 where "VERSION_V1 \<equiv> 0"
abbreviation SIGNATURE_TYPE_CERTIFICATE_TIMESTAMP :: u8 where "SIGNATURE_TYPE_CERTIFICATE_TIMESTAMP \<equiv> 0"
abbreviation SIGNATURE_TYPE_TREE_HASH :: u8 where "SIGNATURE_TYPE_TREE_HASH \<equiv> 1"
abbreviation LOG_ENTRY_X509 :: u16 where "LOG_ENTRY_X509 \<equiv> 0"
abbreviation LOG_ENTRY_PRECERT :: u16 where "LOG_ENTRY_PRECERT \<equiv> 1"
abbreviation MERKLE_LEAF_TIMESTAMPED_ENTRY :: u8 where "MERKLE_LEAF_TIMESTAMPED_ENTRY \<equiv> 0"
abbreviation HASH_ALGORITHM_SHA256 :: u8 where "HASH_ALGORITHM_SHA256 \<equiv> 4"
abbreviation SIGNATURE_ALGORITHM_RSA :: u8 where "SIGNATURE_ALGORITHM_RSA \<equiv> 1"
abbreviation SIGNATURE_ALGORITHM_ECDSA :: u8 where "SIGNATURE_ALGORITHM_ECDSA \<equiv> 3"

datatype SignedEntryV1 = X509 bytes | Precertificate hash bytes

fun entry_type :: "SignedEntryV1 \<Rightarrow> u16" where
  "entry_type (X509 certificate) = LOG_ENTRY_X509"
| "entry_type (Precertificate issuer_key_hash tbs_certificate) = LOG_ENTRY_PRECERT"

fun signed_entry_encode_to :: "SignedEntryV1 \<Rightarrow> bytes \<Rightarrow> ct_error + bytes" where
  "signed_entry_encode_to (X509 certificate) out = push_vector_u24 out certificate 1"
| "signed_entry_encode_to (Precertificate issuer_key_hash tbs_certificate) out =
     push_vector_u24 (out @ issuer_key_hash) tbs_certificate 1"

definition signed_entry_decode :: "u16 \<Rightarrow> Reader \<Rightarrow> ct_error + SignedEntryV1 \<times> Reader" where
  "signed_entry_decode ty r =
     (if ty = LOG_ENTRY_X509 then
        bindE (reader_vector_u24 1 U24_MAX r) (\<lambda>(certificate, r). Inr (X509 certificate, r))
      else if ty = LOG_ENTRY_PRECERT then
        bindE (reader_take 32 r) (\<lambda>(bs, r).
        bindE (option_okE (CtError ''RFC 6962 issuer key hash must be 32 bytes'') (to_array 32 bs))
          (\<lambda>issuer_key_hash.
        bindE (reader_vector_u24 1 U24_MAX r) (\<lambda>(tbs_certificate, r).
        Inr (Precertificate issuer_key_hash tbs_certificate, r))))
      else Inl (CtError ''unsupported RFC 6962 log entry type''))"

record TimestampedEntryV1 =
  te_timestamp :: u64
  te_signed_entry :: SignedEntryV1
  te_extensions :: bytes

definition timestamped_entry_encode :: "TimestampedEntryV1 \<Rightarrow> ct_error + bytes" where
  "timestamped_entry_encode e =
     bindE (signed_entry_encode_to (te_signed_entry e)
        (be_bytes 8 (unat (te_timestamp e)) @ be_bytes 2 (unat (entry_type (te_signed_entry e))))) (\<lambda>output.
     push_vector_u16 output (te_extensions e) 0)"

definition timestamped_entry_decode_from :: "Reader \<Rightarrow> ct_error + TimestampedEntryV1 \<times> Reader" where
  "timestamped_entry_decode_from r =
     bindE (reader_u64 r) (\<lambda>(timestamp, r).
     bindE (reader_u16 r) (\<lambda>(ty, r).
     bindE (signed_entry_decode ty r) (\<lambda>(signed_entry, r).
     bindE (reader_vector_u16 0 65535 r) (\<lambda>(extensions, r).
     Inr (\<lparr>te_timestamp = timestamp, te_signed_entry = signed_entry, te_extensions = extensions\<rparr>, r)))))"

definition timestamped_entry_decode :: "bytes \<Rightarrow> ct_error + TimestampedEntryV1" where
  "timestamped_entry_decode bs =
     bindE (timestamped_entry_decode_from (reader_new bs)) (\<lambda>(e, r). bindE (reader_finish r) (\<lambda>u. Inr e))"

definition merkle_tree_leaf_encode :: "TimestampedEntryV1 \<Rightarrow> ct_error + bytes" where
  "merkle_tree_leaf_encode leaf =
     bindE (timestamped_entry_encode leaf) (\<lambda>body.
     Inr ([VERSION_V1] @ [MERKLE_LEAF_TIMESTAMPED_ENTRY] @ body))"

definition merkle_tree_leaf_decode :: "bytes \<Rightarrow> ct_error + TimestampedEntryV1" where
  "merkle_tree_leaf_decode bs =
     bindE (reader_u8 (reader_new bs)) (\<lambda>(version, r).
     if version \<noteq> VERSION_V1 then Inl (CtError ''RFC 6962 Merkle leaf is not v1'') else
     bindE (reader_u8 r) (\<lambda>(leaf_type, r).
     if leaf_type \<noteq> MERKLE_LEAF_TIMESTAMPED_ENTRY
     then Inl (CtError ''unsupported RFC 6962 Merkle leaf type'') else
     bindE (timestamped_entry_decode_from r) (\<lambda>(e, r).
     bindE (reader_finish r) (\<lambda>u. Inr e))))"

definition encode_sct_signed_input :: "TimestampedEntryV1 \<Rightarrow> ct_error + bytes" where
  "encode_sct_signed_input entry =
     bindE (signed_entry_encode_to (te_signed_entry entry)
        ([VERSION_V1] @ [SIGNATURE_TYPE_CERTIFICATE_TIMESTAMP] @ be_bytes 8 (unat (te_timestamp entry)) @
         be_bytes 2 (unat (entry_type (te_signed_entry entry))))) (\<lambda>output.
     push_vector_u16 output (te_extensions entry) 0)"

definition encode_sth_signed_input :: "u64 \<Rightarrow> u64 \<Rightarrow> hash \<Rightarrow> bytes" where
  "encode_sth_signed_input timestamp tree_size root_hash =
     [VERSION_V1] @ [SIGNATURE_TYPE_TREE_HASH] @ be_bytes 8 (unat timestamp) @ be_bytes 8 (unat tree_size) @ root_hash"

section \<open>Signatures and signed certificate timestamps\<close>

record DigitallySigned =
  hash_algorithm :: u8
  signature_algorithm :: u8
  signature :: bytes

definition digitally_signed_encode :: "DigitallySigned \<Rightarrow> ct_error + bytes" where
  "digitally_signed_encode d =
     (if hash_algorithm d \<noteq> HASH_ALGORITHM_SHA256
      then Inl (CtError ''RFC 6962 v1 requires SHA-256 signatures'')
      else if \<not> (signature_algorithm d = SIGNATURE_ALGORITHM_RSA \<or> signature_algorithm d = SIGNATURE_ALGORITHM_ECDSA)
      then Inl (CtError ''unsupported RFC 6962 v1 signature algorithm'')
      else push_vector_u16 [hash_algorithm d, signature_algorithm d] (signature d) 1)"

definition digitally_signed_decode_from :: "Reader \<Rightarrow> ct_error + DigitallySigned \<times> Reader" where
  "digitally_signed_decode_from r =
     bindE (reader_u8 r) (\<lambda>(hash_algorithm, r).
     if hash_algorithm \<noteq> HASH_ALGORITHM_SHA256
     then Inl (CtError ''RFC 6962 v1 requires SHA-256 signatures'') else
     bindE (reader_u8 r) (\<lambda>(signature_algorithm, r).
     if \<not> (signature_algorithm = SIGNATURE_ALGORITHM_RSA \<or> signature_algorithm = SIGNATURE_ALGORITHM_ECDSA)
     then Inl (CtError ''unsupported RFC 6962 v1 signature algorithm'') else
     bindE (reader_vector_u16 1 65535 r) (\<lambda>(signature, r).
     Inr (\<lparr>hash_algorithm = hash_algorithm, signature_algorithm = signature_algorithm,
           signature = signature\<rparr>, r))))"

definition digitally_signed_decode :: "bytes \<Rightarrow> ct_error + DigitallySigned" where
  "digitally_signed_decode bs =
     bindE (digitally_signed_decode_from (reader_new bs)) (\<lambda>(d, r). bindE (reader_finish r) (\<lambda>u. Inr d))"

record SignedCertificateTimestampV1 =
  sct_log_id :: hash
  sct_timestamp :: u64
  sct_extensions :: bytes
  sct_signature :: DigitallySigned

definition sct_encode :: "SignedCertificateTimestampV1 \<Rightarrow> ct_error + bytes" where
  "sct_encode s =
     bindE (push_vector_u16 ([VERSION_V1] @ sct_log_id s @ be_bytes 8 (unat (sct_timestamp s)))
        (sct_extensions s) 0) (\<lambda>output.
     bindE (digitally_signed_encode (sct_signature s)) (\<lambda>signature.
     Inr (output @ signature)))"

definition sct_decode :: "bytes \<Rightarrow> ct_error + SignedCertificateTimestampV1" where
  "sct_decode bs =
     bindE (reader_u8 (reader_new bs)) (\<lambda>(version, r).
     if version \<noteq> VERSION_V1 then Inl (CtError ''SCT is not RFC 6962 v1'') else
     bindE (reader_take 32 r) (\<lambda>(bs, r).
     bindE (option_okE (CtError ''RFC 6962 LogID must be 32 bytes'') (to_array 32 bs)) (\<lambda>log_id.
     bindE (reader_u64 r) (\<lambda>(timestamp, r).
     bindE (reader_vector_u16 0 65535 r) (\<lambda>(extensions, r).
     bindE (digitally_signed_decode_from r) (\<lambda>(signature, r).
     bindE (reader_finish r) (\<lambda>u.
     Inr \<lparr>sct_log_id = log_id, sct_timestamp = timestamp, sct_extensions = extensions,
          sct_signature = signature\<rparr>)))))))"

section \<open>JSON responses\<close>

text \<open>\<open>b64_encode\<close> and \<open>b64_decode\<close> are the standard engine of the \<open>base64\<close> crate.\<close>

definition decode_base64 :: "(bytes \<Rightarrow> string) \<Rightarrow> (string \<Rightarrow> bytes option) \<Rightarrow> string \<Rightarrow> ct_error + bytes" where
  "decode_base64 b64_encode b64_decode value =
     bindE (option_okE (CtError ''RFC 6962 JSON field is not base64'') (b64_decode value)) (\<lambda>decoded.
     if b64_encode decoded \<noteq> value
     then Inl (CtError ''RFC 6962 JSON field is not canonical base64'') else Inr decoded)"

record AddChainResponseV1 =
  ac_sct_version :: u8
  ac_id :: string
  ac_timestamp :: u64
  ac_extensions :: string
  ac_signature :: string

definition from_sct :: "(bytes \<Rightarrow> string) \<Rightarrow> SignedCertificateTimestampV1 \<Rightarrow> ct_error + AddChainResponseV1" where
  "from_sct b64_encode sct =
     bindE (digitally_signed_encode (sct_signature sct)) (\<lambda>signature.
     Inr \<lparr>ac_sct_version = VERSION_V1, ac_id = b64_encode (sct_log_id sct),
          ac_timestamp = sct_timestamp sct, ac_extensions = b64_encode (sct_extensions sct),
          ac_signature = b64_encode signature\<rparr>)"

definition into_sct ::
  "(bytes \<Rightarrow> string) \<Rightarrow> (string \<Rightarrow> bytes option) \<Rightarrow> AddChainResponseV1 \<Rightarrow> ct_error + SignedCertificateTimestampV1" where
  "into_sct b64_encode b64_decode response =
     (if ac_sct_version response \<noteq> VERSION_V1
      then Inl (CtError ''add-chain response is not RFC 6962 v1'') else
      bindE (decode_base64 b64_encode b64_decode (ac_id response)) (\<lambda>id.
      bindE (option_okE (CtError ''RFC 6962 response LogID must be 32 bytes'') (to_array 32 id)) (\<lambda>log_id.
      bindE (decode_base64 b64_encode b64_decode (ac_extensions response)) (\<lambda>extensions.
      bindE (decode_base64 b64_encode b64_decode (ac_signature response)) (\<lambda>bs.
      bindE (digitally_signed_decode bs) (\<lambda>signature.
      Inr \<lparr>sct_log_id = log_id, sct_timestamp = ac_timestamp response, sct_extensions = extensions,
           sct_signature = signature\<rparr>))))))"

record GetSthResponseV1 =
  sth_tree_size :: u64
  sth_timestamp :: u64
  sth_sha256_root_hash :: string
  sth_tree_head_signature :: string

definition decode_root_and_signature ::
  "(bytes \<Rightarrow> string) \<Rightarrow> (string \<Rightarrow> bytes option) \<Rightarrow> GetSthResponseV1 \<Rightarrow> ct_error + hash \<times> DigitallySigned" where
  "decode_root_and_signature b64_encode b64_decode response =
     bindE (decode_base64 b64_encode b64_decode (sth_sha256_root_hash response)) (\<lambda>root.
     bindE (option_okE (CtError ''RFC 6962 STH root must be 32 bytes'') (to_array 32 root)) (\<lambda>root.
     bindE (decode_base64 b64_encode b64_decode (sth_tree_head_signature response)) (\<lambda>bs.
     bindE (digitally_signed_decode bs) (\<lambda>signature.
     Inr (root, signature)))))"

section \<open>The structures as wire codecs\<close>

fun signed_entry_ok :: "SignedEntryV1 \<Rightarrow> bool" where
  "signed_entry_ok (X509 certificate) \<longleftrightarrow> True"
| "signed_entry_ok (Precertificate issuer_key_hash tbs_certificate) \<longleftrightarrow> length issuer_key_hash = 32"

abbreviation signed_entry_fits :: "SignedEntryV1 \<Rightarrow> bool" where
  "signed_entry_fits e \<equiv> \<not> isl (signed_entry_encode_to e [])"

abbreviation signed_entry_wire :: "SignedEntryV1 \<Rightarrow> bytes" where
  "signed_entry_wire e \<equiv> projr (signed_entry_encode_to e [])"

lemma signed_entry_encode_to_append:
  "signed_entry_encode_to e out = Inr out' \<longleftrightarrow> (\<exists>bs. signed_entry_encode_to e [] = Inr bs \<and> out' = out @ bs)"
  by (cases e) (auto simp: push_vector_u24_iff)

lemma signed_entry_encode_to_iff [wire_simps]:
  "signed_entry_encode_to e out = Inr out' \<longleftrightarrow> signed_entry_fits e \<and> out' = out @ signed_entry_wire e"
  using signed_entry_encode_to_append [of e out out'] by (auto simp: eq_Inr_iff)

lemma signed_entry_decode_iff [wire_simps]:
  "signed_entry_decode ty r = Inr (e, r') \<longleftrightarrow>
     signed_entry_ok e \<and> ty = entry_type e \<and> signed_entry_fits e \<and> reads r (signed_entry_wire e) r'"
proof -
  have "signed_entry_decode ty r = Inr (e, r') \<longleftrightarrow>
      signed_entry_ok e \<and> ty = entry_type e \<and> (\<exists>bs. signed_entry_encode_to e [] = Inr bs \<and> reads r bs r')"
    by (cases e) (auto simp: signed_entry_decode_def wire_simps result_simps)
  then show ?thesis by (auto simp: eq_Inr_iff)
qed

definition timestamped_entry_ok :: "TimestampedEntryV1 \<Rightarrow> bool" where
  "timestamped_entry_ok e \<longleftrightarrow> signed_entry_ok (te_signed_entry e)"

interpretation te: wire_codec timestamped_entry_encode timestamped_entry_decode_from timestamped_entry_ok
proof
  fix r x r'
  show "timestamped_entry_decode_from r = Inr (x, r') \<longleftrightarrow>
      timestamped_entry_ok x \<and> (\<exists>bs. timestamped_entry_encode x = Inr bs \<and> reads r bs r')"
    by (cases x) (simp add: timestamped_entry_decode_from_def timestamped_entry_encode_def
        timestamped_entry_ok_def wire_simps result_simps, blast)
qed

interpretation ds: wire_codec digitally_signed_encode digitally_signed_decode_from "\<lambda>d. True"
proof
  fix r and x :: DigitallySigned and r'
  show "digitally_signed_decode_from r = Inr (x, r') \<longleftrightarrow>
      True \<and> (\<exists>bs. digitally_signed_encode x = Inr bs \<and> reads r bs r')"
    by (cases x) (simp add: digitally_signed_decode_from_def digitally_signed_encode_def
        wire_simps result_simps, blast)
qed

lemmas wire_v1 = te.get_rule te.put_rule ds.get_rule ds.put_rule

text \<open>Every encoding is far shorter than the address space, so no bound is needed on the input.\<close>

lemma signed_entry_encode_bound:
  "signed_entry_encode_to e out = Inr bs \<Longrightarrow> signed_entry_ok e \<Longrightarrow> length bs \<le> length out + 2 ^ 25"
  by (cases e) (auto simp: push_vector_u24_iff U24_MAX_def)

lemma timestamped_entry_encode_bound:
  assumes "timestamped_entry_encode e = Inr bs" "timestamped_entry_ok e"
  shows "length bs < 2 ^ 26"
proof -
  from assms(1) obtain out where out: "signed_entry_encode_to (te_signed_entry e)
      (be_bytes 8 (unat (te_timestamp e)) @ be_bytes 2 (unat (entry_type (te_signed_entry e)))) = Inr out"
    "push_vector_u16 out (te_extensions e) 0 = Inr bs"
    by (auto simp: timestamped_entry_encode_def bindE_eq_Inr)
  from signed_entry_encode_bound [OF out(1)] assms(2) have "length out \<le> 10 + 2 ^ 25"
    by (simp add: timestamped_entry_ok_def)
  with out(2) show ?thesis by (auto simp: push_vector_u16_iff)
qed

lemma digitally_signed_encode_bound: "digitally_signed_encode d = Inr bs \<Longrightarrow> length bs < 2 ^ 17"
  by (auto simp: digitally_signed_encode_def push_vector_u16_iff split: if_splits)

lemma timestamped_entry_decode_iff:
  "timestamped_entry_decode bs = Inr e \<longleftrightarrow> timestamped_entry_ok e \<and> timestamped_entry_encode e = Inr bs"
  unfolding timestamped_entry_decode_def te.whole_iff using timestamped_entry_encode_bound by fastforce

lemma digitally_signed_decode_iff:
  "digitally_signed_decode bs = Inr d \<longleftrightarrow> digitally_signed_encode d = Inr bs"
  unfolding digitally_signed_decode_def ds.whole_iff using digitally_signed_encode_bound by fastforce

text \<open>
  The Merkle leaf and the signed certificate timestamp put a header before such a structure.
  \<open>get_leaf\<close> and \<open>get_sct\<close> are their decoders up to the final \<open>finish\<close>.
\<close>

definition get_leaf :: "Reader \<Rightarrow> ct_error + TimestampedEntryV1 \<times> Reader" where
  "get_leaf r =
     bindE (reader_u8 r) (\<lambda>(version, r).
     if version \<noteq> VERSION_V1 then Inl (CtError ''RFC 6962 Merkle leaf is not v1'') else
     bindE (reader_u8 r) (\<lambda>(leaf_type, r).
     if leaf_type \<noteq> MERKLE_LEAF_TIMESTAMPED_ENTRY
     then Inl (CtError ''unsupported RFC 6962 Merkle leaf type'') else
     timestamped_entry_decode_from r))"

definition get_sct :: "Reader \<Rightarrow> ct_error + SignedCertificateTimestampV1 \<times> Reader" where
  "get_sct r =
     bindE (reader_u8 r) (\<lambda>(version, r).
     if version \<noteq> VERSION_V1 then Inl (CtError ''SCT is not RFC 6962 v1'') else
     bindE (reader_take 32 r) (\<lambda>(bs, r).
     bindE (option_okE (CtError ''RFC 6962 LogID must be 32 bytes'') (to_array 32 bs)) (\<lambda>log_id.
     bindE (reader_u64 r) (\<lambda>(timestamp, r).
     bindE (reader_vector_u16 0 65535 r) (\<lambda>(extensions, r).
     bindE (digitally_signed_decode_from r) (\<lambda>(signature, r).
     Inr (\<lparr>sct_log_id = log_id, sct_timestamp = timestamp, sct_extensions = extensions,
          sct_signature = signature\<rparr>, r)))))))"

lemma merkle_tree_leaf_decode_get:
  "merkle_tree_leaf_decode bs = bindE (get_leaf (reader_new bs)) (\<lambda>(e, r). bindE (reader_finish r) (\<lambda>u. Inr e))"
  by (auto simp: merkle_tree_leaf_decode_def get_leaf_def bindE_assoc split_beta intro!: bindE_cong)

lemma sct_decode_get:
  "sct_decode bs = bindE (get_sct (reader_new bs)) (\<lambda>(s, r). bindE (reader_finish r) (\<lambda>u. Inr s))"
  by (auto simp: sct_decode_def get_sct_def bindE_assoc split_beta intro!: bindE_cong)

interpretation leaf: wire_codec merkle_tree_leaf_encode get_leaf timestamped_entry_ok
proof
  fix r x r'
  show "get_leaf r = Inr (x, r') \<longleftrightarrow>
      timestamped_entry_ok x \<and> (\<exists>bs. merkle_tree_leaf_encode x = Inr bs \<and> reads r bs r')"
    by (simp add: get_leaf_def merkle_tree_leaf_encode_def wire_simps result_simps wire_v1, blast)
qed

definition sct_ok :: "SignedCertificateTimestampV1 \<Rightarrow> bool" where
  "sct_ok s \<longleftrightarrow> length (sct_log_id s) = 32"

interpretation sct: wire_codec sct_encode get_sct sct_ok
proof
  fix r x r'
  show "get_sct r = Inr (x, r') \<longleftrightarrow> sct_ok x \<and> (\<exists>bs. sct_encode x = Inr bs \<and> reads r bs r')"
    by (cases x) (simp add: get_sct_def sct_encode_def sct_ok_def wire_simps result_simps wire_v1, blast)
qed

section \<open>Properties\<close>

text \<open>
  C15.  \<open>MerkleTreeLeafV1::decode\<close> accepts exactly the byte strings \<open>encode\<close> produces and returns
  the encoded entry: the leaf encoding, which the log hashes and signs, is canonical.
\<close>

theorem merkle_tree_leaf_canonical:
  "merkle_tree_leaf_decode bs = Inr e \<longleftrightarrow> timestamped_entry_ok e \<and> merkle_tree_leaf_encode e = Inr bs"
proof -
  have "length bs < 2 ^ 64" if "timestamped_entry_ok e" "merkle_tree_leaf_encode e = Inr bs"
    using that timestamped_entry_encode_bound [of e] by (fastforce simp: merkle_tree_leaf_encode_def bindE_eq_Inr)
  then show ?thesis unfolding merkle_tree_leaf_decode_get leaf.whole_iff by blast
qed

text \<open>
  C16.  \<open>SignedCertificateTimestampV1::decode\<close> accepts exactly the byte strings \<open>encode\<close> produces
  and returns the encoded timestamp.
\<close>

theorem sct_canonical: "sct_decode bs = Inr s \<longleftrightarrow> sct_ok s \<and> sct_encode s = Inr bs"
proof -
  have "length bs < 2 ^ 64" if "sct_ok s" "sct_encode s = Inr bs"
    using that digitally_signed_encode_bound [of "sct_signature s"]
    by (fastforce simp: sct_encode_def sct_ok_def bindE_eq_Inr push_vector_u16_iff)
  then show ?thesis unfolding sct_decode_get sct.whole_iff by blast
qed

text \<open>
  With a base64 engine that decodes what it encodes, \<open>into_sct\<close> accepts an add-chain response
  exactly when \<open>from_sct\<close> produces it from the timestamp \<open>into_sct\<close> returns; a non-canonical
  base64 field, another version or a truncated signature is rejected.
\<close>

theorem add_chain_response_canonical:
  assumes "\<And>x. b64_decode (b64_encode x) = Some x"
  shows "into_sct b64_encode b64_decode response = Inr s \<longleftrightarrow> sct_ok s \<and> from_sct b64_encode s = Inr response"
proof -
  have b64: "decode_base64 b64_encode b64_decode v = Inr bs \<longleftrightarrow> v = b64_encode bs" for v bs
    using assms by (auto simp: decode_base64_def result_simps)
  show ?thesis
    by (cases response; cases s)
      (auto simp: into_sct_def from_sct_def sct_ok_def result_simps b64 digitally_signed_decode_iff)
qed

definition latin1_encode :: "bytes \<Rightarrow> string" where
  "latin1_encode = map (\<lambda>b. char_of (unat b))"

definition latin1_decode :: "string \<Rightarrow> bytes option" where
  "latin1_decode s = Some (map (\<lambda>c. of_nat (of_char c)) s)"

lemma latin1_decode_encode: "latin1_decode (latin1_encode x) = Some x"
  by (induction x) (auto simp: latin1_decode_def latin1_encode_def of_char_of u8_less)

theorem add_chain_response_canonical_witness:
  "let s = \<lparr>sct_log_id = replicate 32 7, sct_timestamp = 9, sct_extensions = [1],
            sct_signature = \<lparr>hash_algorithm = 4, signature_algorithm = 3, signature = [0x30, 0]\<rparr>\<rparr>
   in \<exists>response. from_sct latin1_encode s = Inr response \<and> into_sct latin1_encode latin1_decode response = Inr s"
  using add_chain_response_canonical [of latin1_decode latin1_encode, OF latin1_decode_encode]
  by (simp add: Let_def sct_ok_def from_sct_def digitally_signed_encode_def push_vector_u16_def)

end
