(* ===== verification/Ct_V2.thy ===== *)
theory Ct_V2
  imports Ct_V1
begin

text \<open>
  RFC 9162 wire structures: \<^verbatim>\<open>crates/oxibelt-ct/src/rfc9162.rs\<close>.

  \<open>TransItemV2\<close> and what it carries: log identifiers (DER object identifiers), sorted extension
  lists, entries, signed certificate timestamps, tree heads and the two proofs.  Every structure
  is an instance of \<open>wire_codec\<close> or \<open>wire_field\<close>, the lists are instances of \<open>reader_loop\<close>;
  \<open>trans_item_decode\<close> and \<open>decode_trans_item_list\<close> accept exactly what the encoders produce.
\<close>

section \<open>Log identifiers\<close>

abbreviation X509_ENTRY_V2 :: u16 where "X509_ENTRY_V2 \<equiv> 0x0100"
abbreviation PRECERT_ENTRY_V2 :: u16 where "PRECERT_ENTRY_V2 \<equiv> 0x0101"
abbreviation X509_SCT_V2 :: u16 where "X509_SCT_V2 \<equiv> 0x0102"
abbreviation PRECERT_SCT_V2 :: u16 where "PRECERT_SCT_V2 \<equiv> 0x0103"
abbreviation SIGNED_TREE_HEAD_V2 :: u16 where "SIGNED_TREE_HEAD_V2 \<equiv> 0x0104"
abbreviation CONSISTENCY_PROOF_V2 :: u16 where "CONSISTENCY_PROOF_V2 \<equiv> 0x0105"
abbreviation INCLUSION_PROOF_V2 :: u16 where "INCLUSION_PROOF_V2 \<equiv> 0x0106"

abbreviation SUBMISSION_TYPE_X509 :: u16 where "SUBMISSION_TYPE_X509 \<equiv> 1"
abbreviation SUBMISSION_TYPE_PRECERT :: u16 where "SUBMISSION_TYPE_PRECERT \<equiv> 2"

type_synonym LogIdV2 = bytes

text \<open>The loop over the octets of the identifier; the flag is \<open>at_subidentifier_start\<close>.\<close>

fun oid_scan :: "bool \<Rightarrow> bytes \<Rightarrow> ct_error + bool" where
  "oid_scan at_subidentifier_start [] = Inr at_subidentifier_start"
| "oid_scan at_subidentifier_start (byte # rest) =
     (if at_subidentifier_start \<and> byte = 0x80
      then Inl (CtError ''RFC 9162 LogID is not a canonical DER OID value'')
      else oid_scan (byte AND 0x80 = 0) rest)"

definition validate_oid_value :: "bytes \<Rightarrow> ct_error + unit" where
  "validate_oid_value value =
     (if \<not> (2 \<le> length value \<and> length value \<le> 127)
      then Inl (CtError ''RFC 9162 LogID OID value must be 2..127 bytes'') else
      bindE (oid_scan True value) (\<lambda>at_subidentifier_start.
      if \<not> at_subidentifier_start
      then Inl (CtError ''RFC 9162 LogID has an unterminated OID subidentifier'') else Inr ()))"

definition log_id_new :: "bytes \<Rightarrow> ct_error + LogIdV2" where
  "log_id_new oid_value = bindE (validate_oid_value oid_value) (\<lambda>u. Inr oid_value)"

definition log_id_encode_to :: "LogIdV2 \<Rightarrow> bytes \<Rightarrow> ct_error + bytes" where
  "log_id_encode_to log_id output =
     bindE (validate_oid_value log_id) (\<lambda>u. push_vector_u8 output log_id 2)"

definition log_id_decode_from :: "Reader \<Rightarrow> ct_error + LogIdV2 \<times> Reader" where
  "log_id_decode_from r =
     bindE (reader_vector_u8 2 127 r) (\<lambda>(bs, r). bindE (log_id_new bs) (\<lambda>log_id. Inr (log_id, r)))"

section \<open>Extensions\<close>

record ExtensionV2 =
  extension_type :: u16
  extension_data :: bytes

fun is_some_and_le :: "u16 \<Rightarrow> u16 option \<Rightarrow> bool" where
  "is_some_and_le ty None \<longleftrightarrow> False"
| "is_some_and_le ty (Some value) \<longleftrightarrow> ty \<le> value"

abbreviation extensions_unsorted :: ct_error where
  "extensions_unsorted \<equiv> CtError ''RFC 9162 extensions must be strictly sorted without duplicates''"

fun encode_extensions_loop :: "u16 option \<Rightarrow> ExtensionV2 list \<Rightarrow> bytes \<Rightarrow> ct_error + bytes" where
  "encode_extensions_loop previous [] contents = Inr contents"
| "encode_extensions_loop previous (extension # extensions) contents =
     (if is_some_and_le (extension_type extension) previous then Inl extensions_unsorted else
      bindE (push_vector_u16 (contents @ be_bytes 2 (unat (extension_type extension)))
        (extension_data extension) 0) (\<lambda>contents.
      encode_extensions_loop (Some (extension_type extension)) extensions contents))"

definition encode_extensions :: "ExtensionV2 list \<Rightarrow> bytes \<Rightarrow> ct_error + bytes" where
  "encode_extensions extensions output =
     bindE (encode_extensions_loop None extensions []) (\<lambda>contents. push_vector_u16 output contents 0)"

lemma reader_u16_le: "reader_u16 r = Inr (w, r') \<Longrightarrow> reader_remaining r' + 2 = reader_remaining r"
  using reads_remaining by (fastforce simp: reader_u16_iff)

lemma reader_vector_u16_le: "reader_vector_u16 lo hi r = Inr (bs, r') \<Longrightarrow> reader_remaining r' + 2 \<le> reader_remaining r"
  using reads_remaining by (fastforce simp: reader_vector_u16_iff)

lemma reader_vector_u8_le: "reader_vector_u8 lo hi r = Inr (bs, r') \<Longrightarrow> reader_remaining r' < reader_remaining r"
  using reads_remaining by (fastforce simp: reader_vector_u8_iff)

function decode_extensions_loop ::
  "Reader \<Rightarrow> u16 option \<Rightarrow> ExtensionV2 list \<Rightarrow> ct_error + ExtensionV2 list" where
  "decode_extensions_loop contents previous extensions =
     (if reader_is_empty contents then Inr extensions else
      bindE (reader_u16 contents) (\<lambda>(ty, contents).
      if is_some_and_le ty previous then Inl extensions_unsorted else
      bindE (reader_vector_u16 0 65535 contents) (\<lambda>(data, contents).
      decode_extensions_loop contents (Some ty)
        (extensions @ [\<lparr>extension_type = ty, extension_data = data\<rparr>]))))"
  by pat_completeness auto
termination
  by (relation "measure (\<lambda>(r, previous, extensions). reader_remaining r)")
    (auto dest!: reader_u16_le reader_vector_u16_le)

declare decode_extensions_loop.simps [simp del]

definition decode_extensions :: "Reader \<Rightarrow> ct_error + ExtensionV2 list \<times> Reader" where
  "decode_extensions r =
     bindE (reader_vector_u16 0 65535 r) (\<lambda>(encoded, r).
     bindE (decode_extensions_loop (reader_new encoded) None []) (\<lambda>extensions.
     Inr (extensions, r)))"

section \<open>Entries, timestamps and tree heads\<close>

record TimestampedCertificateEntryV2 =
  ce_timestamp :: u64
  ce_issuer_key_hash :: bytes
  ce_tbs_certificate :: bytes
  ce_extensions :: "ExtensionV2 list"

definition certificate_entry_encode :: "TimestampedCertificateEntryV2 \<Rightarrow> ct_error + bytes" where
  "certificate_entry_encode e =
     bindE (push_vector_u8 (be_bytes 8 (unat (ce_timestamp e))) (ce_issuer_key_hash e) 32) (\<lambda>output.
     bindE (push_vector_u24 output (ce_tbs_certificate e) 1) (\<lambda>output.
     encode_extensions (ce_extensions e) output))"

definition certificate_entry_decode_from :: "Reader \<Rightarrow> ct_error + TimestampedCertificateEntryV2 \<times> Reader" where
  "certificate_entry_decode_from r =
     bindE (reader_u64 r) (\<lambda>(timestamp, r).
     bindE (reader_vector_u8 32 255 r) (\<lambda>(issuer_key_hash, r).
     bindE (reader_vector_u24 1 U24_MAX r) (\<lambda>(tbs_certificate, r).
     bindE (decode_extensions r) (\<lambda>(extensions, r).
     Inr (\<lparr>ce_timestamp = timestamp, ce_issuer_key_hash = issuer_key_hash,
           ce_tbs_certificate = tbs_certificate, ce_extensions = extensions\<rparr>, r)))))"

record SignedCertificateTimestampV2 =
  sct2_log_id :: LogIdV2
  sct2_timestamp :: u64
  sct2_extensions :: "ExtensionV2 list"
  sct2_signature :: bytes

definition sct2_encode :: "SignedCertificateTimestampV2 \<Rightarrow> ct_error + bytes" where
  "sct2_encode s =
     bindE (log_id_encode_to (sct2_log_id s) []) (\<lambda>output.
     bindE (encode_extensions (sct2_extensions s) (output @ be_bytes 8 (unat (sct2_timestamp s)))) (\<lambda>output.
     push_vector_u16 output (sct2_signature s) 1))"

definition sct2_decode_from :: "Reader \<Rightarrow> ct_error + SignedCertificateTimestampV2 \<times> Reader" where
  "sct2_decode_from r =
     bindE (log_id_decode_from r) (\<lambda>(log_id, r).
     bindE (reader_u64 r) (\<lambda>(timestamp, r).
     bindE (decode_extensions r) (\<lambda>(extensions, r).
     bindE (reader_vector_u16 1 65535 r) (\<lambda>(signature, r).
     Inr (\<lparr>sct2_log_id = log_id, sct2_timestamp = timestamp, sct2_extensions = extensions,
           sct2_signature = signature\<rparr>, r)))))"

record TreeHeadV2 =
  th_timestamp :: u64
  th_tree_size :: u64
  th_root_hash :: bytes
  th_extensions :: "ExtensionV2 list"

definition encode_signed_input :: "TreeHeadV2 \<Rightarrow> ct_error + bytes" where
  "encode_signed_input h =
     bindE (push_vector_u8 (be_bytes 8 (unat (th_timestamp h)) @ be_bytes 8 (unat (th_tree_size h)))
       (th_root_hash h) 32) (\<lambda>output.
     encode_extensions (th_extensions h) output)"

definition tree_head_decode_from :: "Reader \<Rightarrow> ct_error + TreeHeadV2 \<times> Reader" where
  "tree_head_decode_from r =
     bindE (reader_u64 r) (\<lambda>(timestamp, r).
     bindE (reader_u64 r) (\<lambda>(tree_size, r).
     bindE (reader_vector_u8 32 255 r) (\<lambda>(root_hash, r).
     bindE (decode_extensions r) (\<lambda>(extensions, r).
     Inr (\<lparr>th_timestamp = timestamp, th_tree_size = tree_size, th_root_hash = root_hash,
           th_extensions = extensions\<rparr>, r)))))"

record SignedTreeHeadV2 =
  sth2_log_id :: LogIdV2
  sth2_tree_head :: TreeHeadV2
  sth2_signature :: bytes

definition sth2_encode :: "SignedTreeHeadV2 \<Rightarrow> ct_error + bytes" where
  "sth2_encode s =
     bindE (log_id_encode_to (sth2_log_id s) []) (\<lambda>output.
     bindE (encode_signed_input (sth2_tree_head s)) (\<lambda>signed_input.
     push_vector_u16 (output @ signed_input) (sth2_signature s) 1))"

definition sth2_decode_from :: "Reader \<Rightarrow> ct_error + SignedTreeHeadV2 \<times> Reader" where
  "sth2_decode_from r =
     bindE (log_id_decode_from r) (\<lambda>(log_id, r).
     bindE (tree_head_decode_from r) (\<lambda>(tree_head, r).
     bindE (reader_vector_u16 1 65535 r) (\<lambda>(signature, r).
     Inr (\<lparr>sth2_log_id = log_id, sth2_tree_head = tree_head, sth2_signature = signature\<rparr>, r))))"

section \<open>Proofs\<close>

record ConsistencyProofV2 =
  cp_log_id :: LogIdV2
  cp_tree_size_1 :: u64
  cp_tree_size_2 :: u64
  cp_path :: "bytes list"

record InclusionProofV2 =
  ip_log_id :: LogIdV2
  ip_tree_size :: u64
  ip_leaf_index :: u64
  ip_path :: "bytes list"

fun encode_node_path_loop :: "bytes list \<Rightarrow> bytes \<Rightarrow> ct_error + bytes" where
  "encode_node_path_loop [] contents = Inr contents"
| "encode_node_path_loop (hash # path) contents =
     bindE (push_vector_u8 contents hash 32) (\<lambda>contents. encode_node_path_loop path contents)"

definition encode_node_path :: "bytes list \<Rightarrow> bytes \<Rightarrow> ct_error + bytes" where
  "encode_node_path path output =
     bindE (encode_node_path_loop path []) (\<lambda>contents. push_vector_u16 output contents 0)"

function decode_node_path_loop :: "Reader \<Rightarrow> bytes list \<Rightarrow> ct_error + bytes list" where
  "decode_node_path_loop path_reader path =
     (if reader_is_empty path_reader then Inr path else
      bindE (reader_vector_u8 32 255 path_reader) (\<lambda>(hash, path_reader).
      decode_node_path_loop path_reader (path @ [hash])))"
  by pat_completeness auto
termination
  by (relation "measure (\<lambda>(r, path). reader_remaining r)") (auto dest!: reader_vector_u8_le)

declare decode_node_path_loop.simps [simp del]

definition decode_node_path :: "Reader \<Rightarrow> ct_error + bytes list \<times> Reader" where
  "decode_node_path r =
     bindE (reader_vector_u16 0 65535 r) (\<lambda>(encoded, r).
     bindE (decode_node_path_loop (reader_new encoded) []) (\<lambda>path.
     Inr (path, r)))"

definition consistency_proof_encode :: "ConsistencyProofV2 \<Rightarrow> ct_error + bytes" where
  "consistency_proof_encode p =
     (if cp_tree_size_1 p > cp_tree_size_2 p
      then Inl (CtError ''RFC 9162 consistency proof sizes are reversed'') else
      bindE (log_id_encode_to (cp_log_id p) []) (\<lambda>output.
      encode_node_path (cp_path p)
        (output @ be_bytes 8 (unat (cp_tree_size_1 p)) @ be_bytes 8 (unat (cp_tree_size_2 p)))))"

definition consistency_proof_decode_from :: "Reader \<Rightarrow> ct_error + ConsistencyProofV2 \<times> Reader" where
  "consistency_proof_decode_from r =
     bindE (log_id_decode_from r) (\<lambda>(log_id, r).
     bindE (reader_u64 r) (\<lambda>(tree_size_1, r).
     bindE (reader_u64 r) (\<lambda>(tree_size_2, r).
     if tree_size_1 > tree_size_2
     then Inl (CtError ''RFC 9162 consistency proof sizes are reversed'') else
     bindE (decode_node_path r) (\<lambda>(path, r).
     Inr (\<lparr>cp_log_id = log_id, cp_tree_size_1 = tree_size_1, cp_tree_size_2 = tree_size_2,
           cp_path = path\<rparr>, r)))))"

definition inclusion_proof_encode :: "InclusionProofV2 \<Rightarrow> ct_error + bytes" where
  "inclusion_proof_encode p =
     (if ip_leaf_index p \<ge> ip_tree_size p
      then Inl (CtError ''RFC 9162 inclusion proof leaf index is outside the tree'') else
      bindE (log_id_encode_to (ip_log_id p) []) (\<lambda>output.
      encode_node_path (ip_path p)
        (output @ be_bytes 8 (unat (ip_tree_size p)) @ be_bytes 8 (unat (ip_leaf_index p)))))"

definition inclusion_proof_decode_from :: "Reader \<Rightarrow> ct_error + InclusionProofV2 \<times> Reader" where
  "inclusion_proof_decode_from r =
     bindE (log_id_decode_from r) (\<lambda>(log_id, r).
     bindE (reader_u64 r) (\<lambda>(tree_size, r).
     bindE (reader_u64 r) (\<lambda>(leaf_index, r).
     if leaf_index \<ge> tree_size
     then Inl (CtError ''RFC 9162 inclusion proof leaf index is outside the tree'') else
     bindE (decode_node_path r) (\<lambda>(path, r).
     Inr (\<lparr>ip_log_id = log_id, ip_tree_size = tree_size, ip_leaf_index = leaf_index,
           ip_path = path\<rparr>, r)))))"

section \<open>TransItem values\<close>

datatype TransItemV2 =
    X509Entry TimestampedCertificateEntryV2
  | PrecertificateEntry TimestampedCertificateEntryV2
  | X509Sct SignedCertificateTimestampV2
  | PrecertificateSct SignedCertificateTimestampV2
  | SignedTreeHead SignedTreeHeadV2
  | ConsistencyProof ConsistencyProofV2
  | InclusionProof InclusionProofV2
  | Opaque u16 bytes

fun trans_type :: "TransItemV2 \<Rightarrow> u16" where
  "trans_type (X509Entry value) = X509_ENTRY_V2"
| "trans_type (PrecertificateEntry value) = PRECERT_ENTRY_V2"
| "trans_type (X509Sct value) = X509_SCT_V2"
| "trans_type (PrecertificateSct value) = PRECERT_SCT_V2"
| "trans_type (SignedTreeHead value) = SIGNED_TREE_HEAD_V2"
| "trans_type (ConsistencyProof value) = CONSISTENCY_PROOF_V2"
| "trans_type (InclusionProof value) = INCLUSION_PROOF_V2"
| "trans_type (Opaque ty data) = ty"

definition trans_item_encode :: "TransItemV2 \<Rightarrow> ct_error + bytes" where
  "trans_item_encode item =
     bindE (case item of
        X509Entry value \<Rightarrow> certificate_entry_encode value
      | PrecertificateEntry value \<Rightarrow> certificate_entry_encode value
      | X509Sct value \<Rightarrow> sct2_encode value
      | PrecertificateSct value \<Rightarrow> sct2_encode value
      | SignedTreeHead value \<Rightarrow> sth2_encode value
      | ConsistencyProof value \<Rightarrow> consistency_proof_encode value
      | InclusionProof value \<Rightarrow> inclusion_proof_encode value
      | Opaque ty data \<Rightarrow> Inr data) (\<lambda>bs.
     Inr (be_bytes 2 (unat (trans_type item)) @ bs))"

definition trans_item_decode_from :: "Reader \<Rightarrow> ct_error + TransItemV2 \<times> Reader" where
  "trans_item_decode_from r =
     bindE (reader_u16 r) (\<lambda>(ty, r).
     if ty = X509_ENTRY_V2 then bindE (certificate_entry_decode_from r) (\<lambda>(v, r). Inr (X509Entry v, r))
     else if ty = PRECERT_ENTRY_V2 then
       bindE (certificate_entry_decode_from r) (\<lambda>(v, r). Inr (PrecertificateEntry v, r))
     else if ty = X509_SCT_V2 then bindE (sct2_decode_from r) (\<lambda>(v, r). Inr (X509Sct v, r))
     else if ty = PRECERT_SCT_V2 then bindE (sct2_decode_from r) (\<lambda>(v, r). Inr (PrecertificateSct v, r))
     else if ty = SIGNED_TREE_HEAD_V2 then bindE (sth2_decode_from r) (\<lambda>(v, r). Inr (SignedTreeHead v, r))
     else if ty = CONSISTENCY_PROOF_V2 then
       bindE (consistency_proof_decode_from r) (\<lambda>(v, r). Inr (ConsistencyProof v, r))
     else if ty = INCLUSION_PROOF_V2 then
       bindE (inclusion_proof_decode_from r) (\<lambda>(v, r). Inr (InclusionProof v, r))
     else if ty \<le> 0x00ff then Inl (CtError ''RFC 6962 v1 type is not an RFC 9162 TransItem'')
     else bindE (reader_take (reader_remaining r) r) (\<lambda>(data, r). Inr (Opaque ty data, r)))"

definition trans_item_decode :: "bytes \<Rightarrow> ct_error + TransItemV2" where
  "trans_item_decode bs =
     bindE (trans_item_decode_from (reader_new bs)) (\<lambda>(v, r). bindE (reader_finish r) (\<lambda>u. Inr v))"

definition sct_signed_input :: "TransItemV2 \<Rightarrow> ct_error + bytes" where
  "sct_signed_input entry =
     (if \<not> (case entry of X509Entry v \<Rightarrow> True | PrecertificateEntry v \<Rightarrow> True | _ \<Rightarrow> False)
      then Inl (CtError ''RFC 9162 SCT input must be an entry TransItem'')
      else trans_item_encode entry)"

fun encode_trans_item_list_loop :: "TransItemV2 list \<Rightarrow> bytes \<Rightarrow> ct_error + bytes" where
  "encode_trans_item_list_loop [] contents = Inr contents"
| "encode_trans_item_list_loop (item # items) contents =
     bindE (trans_item_encode item) (\<lambda>bs.
     bindE (push_vector_u16 contents bs 1) (\<lambda>contents.
     encode_trans_item_list_loop items contents))"

definition encode_trans_item_list :: "TransItemV2 list \<Rightarrow> ct_error + bytes" where
  "encode_trans_item_list items =
     (if items = [] then Inl (CtError ''RFC 9162 TransItemList must not be empty'') else
      bindE (encode_trans_item_list_loop items []) (\<lambda>contents.
      push_vector_u16 [] contents 1))"

function decode_trans_item_list_loop :: "Reader \<Rightarrow> TransItemV2 list \<Rightarrow> ct_error + TransItemV2 list" where
  "decode_trans_item_list_loop list_reader items =
     (if reader_is_empty list_reader then Inr items else
      bindE (reader_vector_u16 1 65535 list_reader) (\<lambda>(serialized, list_reader).
      bindE (trans_item_decode serialized) (\<lambda>item.
      decode_trans_item_list_loop list_reader (items @ [item]))))"
  by pat_completeness auto
termination
  by (relation "measure (\<lambda>(r, items). reader_remaining r)") (auto dest!: reader_vector_u16_le)

declare decode_trans_item_list_loop.simps [simp del]

definition decode_trans_item_list :: "bytes \<Rightarrow> ct_error + TransItemV2 list" where
  "decode_trans_item_list bs =
     bindE (reader_vector_u16 1 65535 (reader_new bs)) (\<lambda>(contents, r).
     bindE (reader_finish r) (\<lambda>u.
     decode_trans_item_list_loop (reader_new contents) []))"

definition final_sth_encode :: "SignedTreeHeadV2 \<Rightarrow> ct_error + bytes" where
  "final_sth_encode s = trans_item_encode (SignedTreeHead s)"

definition final_sth_decode :: "bytes \<Rightarrow> ct_error + SignedTreeHeadV2" where
  "final_sth_decode bs =
     bindE (trans_item_decode bs) (\<lambda>item. case item of
        SignedTreeHead value \<Rightarrow> Inr value
      | _ \<Rightarrow> Inl (CtError ''RFC 9162 final STH is not a signed_tree_head_v2 TransItem''))"

section \<open>Leaf hashes\<close>

definition entry_issuer_hash_ok :: "TransItemV2 \<Rightarrow> bool" where
  "entry_issuer_hash_ok entry \<longleftrightarrow>
     (case entry of
        X509Entry value \<Rightarrow> length (ce_issuer_key_hash value) = 32
      | PrecertificateEntry value \<Rightarrow> length (ce_issuer_key_hash value) = 32
      | _ \<Rightarrow> True)"

definition merkle_leaf_hash :: "(bytes \<Rightarrow> hash) \<Rightarrow> TransItemV2 \<Rightarrow> ct_error + hash" where
  "merkle_leaf_hash sha entry =
     (if \<not> entry_issuer_hash_ok entry
      then Inl (CtError ''RFC 9162 SHA-256 Merkle helper requires a 32-byte issuer hash'')
      else bindE (sct_signed_input entry) (\<lambda>bs. Inr (leaf_hash sha bs)))"

definition merkle_leaf_hash_serialized :: "(bytes \<Rightarrow> hash) \<Rightarrow> bytes \<Rightarrow> ct_error + hash" where
  "merkle_leaf_hash_serialized sha entry =
     bindE (reader_u16 (reader_new entry)) (\<lambda>(ty, r).
     if ty \<le> 0x00ff then Inl (CtError ''RFC 6962 v1 item is not an RFC 9162 Merkle leaf'')
     else Inr (leaf_hash sha entry))"

fun merkle_leaf_hashes :: "(bytes \<Rightarrow> hash) \<Rightarrow> TransItemV2 list \<Rightarrow> hash list \<Rightarrow> ct_error + hash list" where
  "merkle_leaf_hashes sha [] hashes = Inr hashes"
| "merkle_leaf_hashes sha (entry # entries) hashes =
     bindE (merkle_leaf_hash sha entry) (\<lambda>h. merkle_leaf_hashes sha entries (hashes @ [h]))"

definition merkle_tree_hash :: "(bytes \<Rightarrow> hash) \<Rightarrow> TransItemV2 list \<Rightarrow> ct_error + hash" where
  "merkle_tree_hash sha entries =
     bindE (merkle_leaf_hashes sha entries []) (\<lambda>hashes. Inr (root_from_leaf_hashes sha hashes))"

section \<open>Submissions\<close>

definition decode_base64_v2 :: "(bytes \<Rightarrow> string) \<Rightarrow> (string \<Rightarrow> bytes option) \<Rightarrow> string \<Rightarrow> ct_error + bytes" where
  "decode_base64_v2 b64_encode b64_decode value =
     bindE (option_okE (CtError ''RFC 9162 JSON field is not base64'') (b64_decode value)) (\<lambda>decoded.
     if b64_encode decoded \<noteq> value
     then Inl (CtError ''RFC 9162 JSON field is not canonical base64'') else Inr decoded)"

record SubmitEntryRequestV2 =
  rq_submission :: string
  rq_submission_type :: u16
  rq_chain :: "string list"

fun collectE :: "('a \<Rightarrow> 'e + 'b) \<Rightarrow> 'a list \<Rightarrow> 'e + 'b list" where
  "collectE f [] = Inr []"
| "collectE f (x # xs) = bindE (f x) (\<lambda>y. bindE (collectE f xs) (\<lambda>ys. Inr (y # ys)))"

definition decode_der ::
  "(bytes \<Rightarrow> string) \<Rightarrow> (string \<Rightarrow> bytes option) \<Rightarrow> SubmitEntryRequestV2 \<Rightarrow> ct_error + bytes \<times> bytes list" where
  "decode_der b64_encode b64_decode request =
     (if \<not> (rq_submission_type request = SUBMISSION_TYPE_X509 \<or> rq_submission_type request = SUBMISSION_TYPE_PRECERT)
      then Inl (CtError ''unsupported RFC 9162 submission type'') else
      bindE (decode_base64_v2 b64_encode b64_decode (rq_submission request)) (\<lambda>submission.
      if submission = [] then Inl (CtError ''RFC 9162 submission must not be empty'') else
      bindE (collectE (decode_base64_v2 b64_encode b64_decode) (rq_chain request)) (\<lambda>chain.
      if [] \<in> set chain then Inl (CtError ''RFC 9162 chain certificates must not be empty'') else
      Inr (submission, chain))))"

record SubmitEntryResponseV2 =
  rs_sct :: string
  rs_sth :: "string option"
  rs_inclusion :: "string option"

fun transposeE :: "('e + 'a) option \<Rightarrow> 'e + 'a option" where
  "transposeE None = Inr None"
| "transposeE (Some m) = bindE m (\<lambda>x. Inr (Some x))"

definition receipt_consistent ::
  "LogIdV2 \<Rightarrow> SignedTreeHeadV2 option \<Rightarrow> InclusionProofV2 option \<Rightarrow> ct_error + unit" where
  "receipt_consistent log_id sth inclusion =
     (if (\<exists>value \<in> set_option sth. sth2_log_id value \<noteq> log_id) \<or>
         (\<exists>value \<in> set_option inclusion. ip_log_id value \<noteq> log_id)
      then Inl (CtError ''RFC 9162 receipt items have different LogIDs'')
      else case (sth, inclusion) of
        (Some sth, Some inclusion) \<Rightarrow>
          if th_tree_size (sth2_tree_head sth) \<noteq> ip_tree_size inclusion
          then Inl (CtError ''RFC 9162 receipt STH and inclusion tree sizes differ'') else Inr ()
      | _ \<Rightarrow> Inr ())"

definition from_items ::
  "(bytes \<Rightarrow> string) \<Rightarrow> TransItemV2 \<Rightarrow> SignedTreeHeadV2 option \<Rightarrow> InclusionProofV2 option \<Rightarrow>
   ct_error + SubmitEntryResponseV2" where
  "from_items b64_encode sct sth inclusion =
     bindE (case sct of
        X509Sct value \<Rightarrow> Inr (sct2_log_id value)
      | PrecertificateSct value \<Rightarrow> Inr (sct2_log_id value)
      | _ \<Rightarrow> Inl (CtError ''RFC 9162 submission response requires an SCT TransItem'')) (\<lambda>sct_log_id.
     bindE (receipt_consistent sct_log_id sth inclusion) (\<lambda>u.
     bindE (trans_item_encode sct) (\<lambda>sct.
     bindE (transposeE (map_option (\<lambda>value. trans_item_encode (SignedTreeHead value)) sth)) (\<lambda>sth.
     bindE (transposeE (map_option (\<lambda>value. trans_item_encode (InclusionProof value)) inclusion)) (\<lambda>inclusion.
     Inr \<lparr>rs_sct = b64_encode sct, rs_sth = map_option b64_encode sth,
          rs_inclusion = map_option b64_encode inclusion\<rparr>)))))"

definition decode_items ::
  "(bytes \<Rightarrow> string) \<Rightarrow> (string \<Rightarrow> bytes option) \<Rightarrow> SubmitEntryResponseV2 \<Rightarrow>
   ct_error + TransItemV2 \<times> SignedTreeHeadV2 option \<times> InclusionProofV2 option" where
  "decode_items b64_encode b64_decode response =
     bindE (decode_base64_v2 b64_encode b64_decode (rs_sct response)) (\<lambda>bs.
     bindE (trans_item_decode bs) (\<lambda>sct.
     bindE (case sct of
        X509Sct value \<Rightarrow> Inr (sct2_log_id value)
      | PrecertificateSct value \<Rightarrow> Inr (sct2_log_id value)
      | _ \<Rightarrow> Inl (CtError ''RFC 9162 submission response contains a non-SCT item'')) (\<lambda>log_id.
     bindE (transposeE (map_option (decode_base64_v2 b64_encode b64_decode) (rs_sth response))) (\<lambda>sth.
     bindE (transposeE (map_option trans_item_decode sth)) (\<lambda>sth.
     bindE (transposeE (map_option (\<lambda>item. case item of
        SignedTreeHead value \<Rightarrow> Inr value
      | _ \<Rightarrow> Inl (CtError ''RFC 9162 receipt sth has the wrong TransItem type'')) sth)) (\<lambda>sth.
     bindE (transposeE (map_option (decode_base64_v2 b64_encode b64_decode) (rs_inclusion response))) (\<lambda>inclusion.
     bindE (transposeE (map_option trans_item_decode inclusion)) (\<lambda>inclusion.
     bindE (transposeE (map_option (\<lambda>item. case item of
        InclusionProof value \<Rightarrow> Inr value
      | _ \<Rightarrow> Inl (CtError ''RFC 9162 receipt inclusion has the wrong TransItem type'')) inclusion)) (\<lambda>inclusion.
     bindE (receipt_consistent log_id sth inclusion) (\<lambda>u.
     Inr (sct, sth, inclusion)))))))))))"

section \<open>The structures as wire codecs\<close>

lemma validate_oid_value_length: "validate_oid_value v = Inr u \<Longrightarrow> 2 \<le> length v \<and> length v \<le> 127"
  by (simp add: validate_oid_value_def split: if_splits)

interpretation log_id: wire_field log_id_encode_to log_id_decode_from "\<lambda>i. True"
proof
  fix r x r'
  have "validate_oid_value x = Inr () \<Longrightarrow> 2 \<le> length x \<and> length x \<le> 127" by (rule validate_oid_value_length)
  then show "log_id_decode_from r = Inr (x, r') \<longleftrightarrow> True \<and> (\<exists>bs. log_id_encode_to x [] = Inr bs \<and> reads r bs r')"
    by (auto simp: log_id_decode_from_def log_id_new_def log_id_encode_to_def wire_simps result_simps)
next
  fix x out out'
  show "log_id_encode_to x out = Inr out' \<longleftrightarrow> (\<exists>bs. log_id_encode_to x [] = Inr bs \<and> out' = out @ bs)"
    by (auto simp: log_id_encode_to_def wire_simps result_simps)
qed

definition extension_put :: "u16 option \<Rightarrow> ExtensionV2 \<Rightarrow> ct_error + bytes" where
  "extension_put previous e =
     (if is_some_and_le (extension_type e) previous then Inl extensions_unsorted
      else push_vector_u16 (be_bytes 2 (unat (extension_type e))) (extension_data e) 0)"

definition extension_get :: "u16 option \<Rightarrow> Reader \<Rightarrow> ct_error + ExtensionV2 \<times> Reader" where
  "extension_get previous r =
     bindE (reader_u16 r) (\<lambda>(ty, r).
     if is_some_and_le ty previous then Inl extensions_unsorted else
     bindE (reader_vector_u16 0 65535 r) (\<lambda>(data, r).
     Inr (\<lparr>extension_type = ty, extension_data = data\<rparr>, r)))"

interpretation ext_loop: reader_loop extension_put extension_get "\<lambda>e. True"
  "\<lambda>e. Some (extension_type e)" decode_extensions_loop encode_extensions_loop
proof
  fix previous r x r'
  show "extension_get previous r = Inr (x, r') \<longleftrightarrow> True \<and> (\<exists>bs. extension_put previous x = Inr bs \<and> reads r bs r')"
    by (cases x) (simp add: extension_get_def extension_put_def wire_simps result_simps, blast)
next
  fix previous x bs assume "extension_put previous x = Inr bs"
  then have "length bs \<ge> 2" by (auto simp: extension_put_def wire_simps split: if_splits)
  then show "bs \<noteq> []" by auto
next
  fix r previous acc
  show "decode_extensions_loop r previous acc = (if reader_is_empty r then Inr acc
      else bindE (extension_get previous r) (\<lambda>(x, r). decode_extensions_loop r (Some (extension_type x)) (acc @ [x])))"
    by (subst decode_extensions_loop.simps)
      (auto simp: extension_get_def bindE_assoc bindE_if split_beta intro!: bindE_cong)
next
  fix previous x xs out
  show "encode_extensions_loop previous (x # xs) out =
      bindE (extension_put previous x) (\<lambda>bs. encode_extensions_loop (Some (extension_type x)) xs (out @ bs))"
    by (simp add: extension_put_def push_vector_u16_def)
qed simp

interpretation exts: wire_field encode_extensions decode_extensions "\<lambda>e. True"
proof
  fix r x r'
  have len: "length bs \<le> 65535 \<Longrightarrow> decode_extensions_loop (reader_new bs) None [] = Inr xs \<longleftrightarrow>
      encode_extensions_loop None xs [] = Inr bs" for bs xs
    using ext_loop.get_loop_new [of bs None xs] by (simp add: list_all_iff)
  have "decode_extensions r = Inr (x, r') \<longleftrightarrow>
      (\<exists>bs. length bs \<le> 65535 \<and> encode_extensions_loop None x [] = Inr bs \<and> reads r (be_bytes 2 (length bs) @ bs) r')"
    using len by (auto simp: decode_extensions_def reader_vector_u16_iff bindE_eq_Inr)
  then show "decode_extensions r = Inr (x, r') \<longleftrightarrow> True \<and> (\<exists>bs. encode_extensions x [] = Inr bs \<and> reads r bs r')"
    by (auto simp: encode_extensions_def push_vector_u16_iff bindE_eq_Inr)
next
  fix x out out'
  show "encode_extensions x out = Inr out' \<longleftrightarrow> (\<exists>bs. encode_extensions x [] = Inr bs \<and> out' = out @ bs)"
    by (auto simp: encode_extensions_def push_vector_u16_iff bindE_eq_Inr)
qed

interpretation path_loop: reader_loop "\<lambda>s h. push_vector_u8 [] h 32" "\<lambda>s. reader_vector_u8 32 255" "\<lambda>h. True"
  "\<lambda>h. ()" "\<lambda>r s. decode_node_path_loop r" "\<lambda>s. encode_node_path_loop"
proof
  fix s :: unit and r and x :: bytes and r'
  show "reader_vector_u8 32 255 r = Inr (x, r') \<longleftrightarrow> True \<and> (\<exists>bs. push_vector_u8 [] x 32 = Inr bs \<and> reads r bs r')"
    by (auto simp: reader_vector_u8_iff push_vector_u8_iff)
next
  fix s :: unit and r acc
  show "decode_node_path_loop r acc = (if reader_is_empty r then Inr acc
      else bindE (reader_vector_u8 32 255 r) (\<lambda>(x, r). decode_node_path_loop r (acc @ [x])))"
    by (rule decode_node_path_loop.simps)
qed (auto simp: push_vector_u8_def split: if_splits)

interpretation path: wire_field encode_node_path decode_node_path "\<lambda>p. True"
proof
  fix r x r'
  have len: "length bs \<le> 65535 \<Longrightarrow> decode_node_path_loop (reader_new bs) [] = Inr xs \<longleftrightarrow>
      encode_node_path_loop xs [] = Inr bs" for bs xs
    using path_loop.get_loop_new [of bs xs] by (simp add: list_all_iff)
  have "decode_node_path r = Inr (x, r') \<longleftrightarrow>
      (\<exists>bs. length bs \<le> 65535 \<and> encode_node_path_loop x [] = Inr bs \<and> reads r (be_bytes 2 (length bs) @ bs) r')"
    using len by (auto simp: decode_node_path_def reader_vector_u16_iff bindE_eq_Inr)
  then show "decode_node_path r = Inr (x, r') \<longleftrightarrow> True \<and> (\<exists>bs. encode_node_path x [] = Inr bs \<and> reads r bs r')"
    by (auto simp: encode_node_path_def push_vector_u16_iff bindE_eq_Inr)
next
  fix x out out'
  show "encode_node_path x out = Inr out' \<longleftrightarrow> (\<exists>bs. encode_node_path x [] = Inr bs \<and> out' = out @ bs)"
    by (auto simp: encode_node_path_def push_vector_u16_iff bindE_eq_Inr)
qed

lemmas wire_v2 = log_id.get_rule log_id.put_to_rule exts.get_rule exts.put_to_rule path.get_rule path.put_to_rule

interpretation ce: wire_codec certificate_entry_encode certificate_entry_decode_from "\<lambda>e. True"
proof
  fix r and x :: TimestampedCertificateEntryV2 and r'
  show "certificate_entry_decode_from r = Inr (x, r') \<longleftrightarrow>
      True \<and> (\<exists>bs. certificate_entry_encode x = Inr bs \<and> reads r bs r')"
    by (cases x) (simp add: certificate_entry_decode_from_def certificate_entry_encode_def
        wire_simps result_simps wire_v2, blast)
qed

interpretation sct2: wire_codec sct2_encode sct2_decode_from "\<lambda>s. True"
proof
  fix r and x :: SignedCertificateTimestampV2 and r'
  show "sct2_decode_from r = Inr (x, r') \<longleftrightarrow> True \<and> (\<exists>bs. sct2_encode x = Inr bs \<and> reads r bs r')"
    by (cases x) (simp add: sct2_decode_from_def sct2_encode_def wire_simps result_simps wire_v2, blast)
qed

interpretation th: wire_codec encode_signed_input tree_head_decode_from "\<lambda>h. True"
proof
  fix r and x :: TreeHeadV2 and r'
  show "tree_head_decode_from r = Inr (x, r') \<longleftrightarrow> True \<and> (\<exists>bs. encode_signed_input x = Inr bs \<and> reads r bs r')"
    by (cases x) (simp add: tree_head_decode_from_def encode_signed_input_def wire_simps result_simps wire_v2, blast)
qed

interpretation sth2: wire_codec sth2_encode sth2_decode_from "\<lambda>s. True"
proof
  fix r and x :: SignedTreeHeadV2 and r'
  show "sth2_decode_from r = Inr (x, r') \<longleftrightarrow> True \<and> (\<exists>bs. sth2_encode x = Inr bs \<and> reads r bs r')"
    by (cases x) (simp add: sth2_decode_from_def sth2_encode_def wire_simps result_simps wire_v2
        th.get_rule th.put_rule, blast)
qed

interpretation cp: wire_codec consistency_proof_encode consistency_proof_decode_from "\<lambda>p. True"
proof
  fix r and x :: ConsistencyProofV2 and r'
  show "consistency_proof_decode_from r = Inr (x, r') \<longleftrightarrow>
      True \<and> (\<exists>bs. consistency_proof_encode x = Inr bs \<and> reads r bs r')"
    by (cases x) (simp add: consistency_proof_decode_from_def consistency_proof_encode_def
        wire_simps result_simps wire_v2, blast)
qed

interpretation ip: wire_codec inclusion_proof_encode inclusion_proof_decode_from "\<lambda>p. True"
proof
  fix r and x :: InclusionProofV2 and r'
  show "inclusion_proof_decode_from r = Inr (x, r') \<longleftrightarrow>
      True \<and> (\<exists>bs. inclusion_proof_encode x = Inr bs \<and> reads r bs r')"
    by (cases x) (simp add: inclusion_proof_decode_from_def inclusion_proof_encode_def
        wire_simps result_simps wire_v2, blast)
qed

lemmas wire_v2_items =
  ce.get_rule ce.put_rule sct2.get_rule sct2.put_rule sth2.get_rule sth2.put_rule
  cp.get_rule cp.put_rule ip.get_rule ip.put_rule

text \<open>
  What the type numbers of a preserved item must satisfy to stay opaque: it is not a number with
  a structure of its own and not a v1 number.
\<close>

definition known_trans_types :: "u16 set" where
  "known_trans_types = {X509_ENTRY_V2, PRECERT_ENTRY_V2, X509_SCT_V2, PRECERT_SCT_V2,
     SIGNED_TREE_HEAD_V2, CONSISTENCY_PROOF_V2, INCLUSION_PROOF_V2}"

fun trans_item_ok :: "TransItemV2 \<Rightarrow> bool" where
  "trans_item_ok (Opaque ty data) \<longleftrightarrow> 0x00ff < ty \<and> ty \<notin> known_trans_types"
| "trans_item_ok item \<longleftrightarrow> True"

text \<open>
  For every item but an opaque one decoding is a codec; an opaque item takes the rest of the
  input.
\<close>

lemma reader_take_remaining:
  "reader_take (reader_remaining r) r = Inr (bs, r') \<longleftrightarrow> reads r bs r' \<and> reader_finish r' = Inr ()"
  by (auto simp: reader_take_iff reads_def reader_remaining_def reader_finish_iff)

lemma if_eq_Inr_iff: "(if b then m else n) = Inr y \<longleftrightarrow> b \<and> m = Inr y \<or> \<not> b \<and> n = Inr y"
  by simp

lemma trans_item_decode_from_iff:
  "trans_item_decode_from r = Inr (x, r') \<longleftrightarrow>
     trans_item_ok x \<and> (\<exists>bs. trans_item_encode x = Inr bs \<and> reads r bs r') \<and>
     (\<forall>ty data. x = Opaque ty data \<longrightarrow> reader_finish r' = Inr ())"
proof (cases x)
  case (Opaque ty data)
  then show ?thesis
    by (simp add: trans_item_decode_from_def trans_item_encode_def if_eq_Inr_iff bindE_eq_Inr
        reader_u16_iff reader_take_remaining reads_append known_trans_types_def not_le) blast
qed (simp add: trans_item_decode_from_def trans_item_encode_def if_eq_Inr_iff bindE_eq_Inr wire_simps wire_v2_items, blast)+

lemma trans_item_decode_iff:
  "trans_item_decode bs = Inr x \<longleftrightarrow> trans_item_ok x \<and> trans_item_encode x = Inr bs \<and> length bs < 2 ^ 64"
proof -
  have "trans_item_decode bs = Inr x \<longleftrightarrow>
      (\<exists>r. trans_item_decode_from (reader_new bs) = Inr (x, r) \<and> reader_finish r = Inr ())"
    by (auto simp: trans_item_decode_def bindE_eq_Inr)
  also have "\<dots> \<longleftrightarrow> (\<exists>as r. trans_item_ok x \<and> trans_item_encode x = Inr as \<and>
      reads (reader_new bs) as r \<and> reader_finish r = Inr ())"
    by (auto simp: trans_item_decode_from_iff)
  also have "\<dots> \<longleftrightarrow> trans_item_ok x \<and> trans_item_encode x = Inr bs \<and> length bs < 2 ^ 64"
    by (simp add: reads_whole)
  finally show ?thesis .
qed

definition list_item_put :: "unit \<Rightarrow> TransItemV2 \<Rightarrow> ct_error + bytes" where
  "list_item_put s item = bindE (trans_item_encode item) (\<lambda>bs. push_vector_u16 [] bs 1)"

definition list_item_get :: "unit \<Rightarrow> Reader \<Rightarrow> ct_error + TransItemV2 \<times> Reader" where
  "list_item_get s r =
     bindE (reader_vector_u16 1 65535 r) (\<lambda>(serialized, r).
     bindE (trans_item_decode serialized) (\<lambda>item. Inr (item, r)))"

interpretation items_loop: reader_loop list_item_put list_item_get trans_item_ok "\<lambda>i. ()"
  "\<lambda>r s. decode_trans_item_list_loop r" "\<lambda>s. encode_trans_item_list_loop"
proof
  fix s r x r'
  have "list_item_get s r = Inr (x, r') \<longleftrightarrow> trans_item_ok x \<and> (\<exists>bs. trans_item_encode x = Inr bs \<and>
      1 \<le> length bs \<and> length bs \<le> 65535 \<and> reads r (be_bytes 2 (length bs) @ bs) r')"
    by (auto simp: list_item_get_def bindE_eq_Inr reader_vector_u16_iff trans_item_decode_iff)
  then show "list_item_get s r = Inr (x, r') \<longleftrightarrow> trans_item_ok x \<and> (\<exists>bs. list_item_put s x = Inr bs \<and> reads r bs r')"
    by (auto simp: list_item_put_def bindE_eq_Inr push_vector_u16_iff)
next
  fix s x bs assume "list_item_put s x = Inr bs"
  then have "length bs \<ge> 2" by (auto simp: list_item_put_def bindE_eq_Inr push_vector_u16_iff)
  then show "bs \<noteq> []" by auto
next
  fix s :: unit and r acc
  show "decode_trans_item_list_loop r acc = (if reader_is_empty r then Inr acc
      else bindE (list_item_get s r) (\<lambda>(x, r). decode_trans_item_list_loop r (acc @ [x])))"
    by (subst decode_trans_item_list_loop.simps)
      (auto simp: list_item_get_def bindE_assoc split_beta intro!: bindE_cong)
next
  fix s x xs out
  show "encode_trans_item_list_loop (x # xs) out =
      bindE (list_item_put s x) (\<lambda>bs. encode_trans_item_list_loop xs (out @ bs))"
    unfolding encode_trans_item_list_loop.simps list_item_put_def bindE_assoc
    by (rule bindE_cong) (simp_all add: push_vector_u16_def)
qed simp

section \<open>Properties\<close>

text \<open>
  C17.  \<open>TransItemV2::decode\<close> accepts an input exactly when it is the encoding of the item it
  returns, and a preserved (opaque) item never carries a type number that has a structure of its
  own or belongs to RFC 6962.
\<close>

theorem trans_item_canonical:
  assumes "length bs < 2 ^ 64"
  shows "trans_item_decode bs = Inr x \<longleftrightarrow> trans_item_ok x \<and> trans_item_encode x = Inr bs"
  using assms by (simp add: trans_item_decode_iff)

theorem trans_item_canonical_witness:
  "let x = InclusionProof \<lparr>ip_log_id = [0x2a, 3], ip_tree_size = 5, ip_leaf_index = 2, ip_path = [replicate 32 9]\<rparr>
   in \<exists>bs. trans_item_encode x = Inr bs \<and> length bs = 56 \<and> trans_item_decode bs = Inr x"
proof -
  let ?x = "InclusionProof \<lparr>ip_log_id = [0x2a, 3], ip_tree_size = 5, ip_leaf_index = 2, ip_path = [replicate 32 9]\<rparr>"
  obtain bs where bs: "trans_item_encode ?x = Inr bs" "length bs = 56"
    by (simp add: trans_item_encode_def inclusion_proof_encode_def log_id_encode_to_def validate_oid_value_def
        encode_node_path_def push_vector_u8_def push_vector_u16_def)
  then have "trans_item_decode bs = Inr ?x" using trans_item_canonical [of bs ?x] by simp
  with bs show ?thesis by (simp add: Let_def)
qed

text \<open>
  \<open>decode_trans_item_list\<close> accepts exactly the encodings of non-empty item lists and returns
  the items.
\<close>

theorem trans_item_list_canonical:
  "decode_trans_item_list bs = Inr items \<longleftrightarrow> list_all trans_item_ok items \<and> encode_trans_item_list items = Inr bs"
proof -
  have loop: "length c \<le> 65535 \<Longrightarrow> decode_trans_item_list_loop (reader_new c) [] = Inr items \<longleftrightarrow>
      list_all trans_item_ok items \<and> encode_trans_item_list_loop items [] = Inr c" for c
    using items_loop.get_loop_new [of c items] by simp
  have nil: "encode_trans_item_list_loop items [] = Inr c \<Longrightarrow> 1 \<le> length c \<Longrightarrow> items \<noteq> []" for c
    by auto
  have whole: "(\<exists>r. reads (reader_new bs) w r \<and> reader_finish r = Inr ()) \<longleftrightarrow> w = bs \<and> length bs < 2 ^ 64" for w
    by (simp add: reads_whole)
  have "decode_trans_item_list bs = Inr items \<longleftrightarrow> (\<exists>c. 1 \<le> length c \<and> length c \<le> 65535 \<and>
      (\<exists>r. reads (reader_new bs) (be_bytes 2 (length c) @ c) r \<and> reader_finish r = Inr ()) \<and>
      decode_trans_item_list_loop (reader_new c) [] = Inr items)"
    unfolding decode_trans_item_list_def bindE_eq_Inr split_paired_Ex prod.case reader_vector_u16_iff by auto
  also have "\<dots> \<longleftrightarrow> (\<exists>c. 1 \<le> length c \<and> length c \<le> 65535 \<and> be_bytes 2 (length c) @ c = bs \<and>
      list_all trans_item_ok items \<and> encode_trans_item_list_loop items [] = Inr c)"
    unfolding whole using loop by fastforce
  also have "\<dots> \<longleftrightarrow> list_all trans_item_ok items \<and> encode_trans_item_list items = Inr bs"
    using nil by (auto simp: encode_trans_item_list_def bindE_eq_Inr push_vector_u16_iff)
  finally show ?thesis .
qed

text \<open>Encodings of timestamps, tree heads and proofs are short: the length bound is implied.\<close>

lemma field_bounds:
  "log_id_encode_to i [] = Inr bs \<Longrightarrow> length bs \<le> 256"
  "encode_extensions e [] = Inr bs \<Longrightarrow> length bs \<le> 65537"
  "encode_node_path p [] = Inr bs \<Longrightarrow> length bs \<le> 65537"
  by (auto simp: log_id_encode_to_def encode_extensions_def encode_node_path_def result_simps
      push_vector_u8_iff push_vector_u16_iff)

lemma field_wire_bounds:
  "\<not> isl (log_id_encode_to i []) \<Longrightarrow> length (projr (log_id_encode_to i [])) \<le> 256"
  "\<not> isl (encode_extensions e []) \<Longrightarrow> length (projr (encode_extensions e [])) \<le> 65537"
  "\<not> isl (encode_node_path p []) \<Longrightarrow> length (projr (encode_node_path p [])) \<le> 65537"
  using field_bounds by (metis sum.collapse(2))+

lemma sct2_bound: "sct2_encode s = Inr bs \<Longrightarrow> length bs < 2 ^ 20"
  using field_wire_bounds(1) [of "sct2_log_id s"] field_wire_bounds(2) [of "sct2_extensions s"]
  by (auto simp: sct2_encode_def result_simps wire_simps wire_v2)

lemma sth2_bound: "sth2_encode s = Inr bs \<Longrightarrow> length bs < 2 ^ 20"
  using field_wire_bounds(1) [of "sth2_log_id s"] field_wire_bounds(2) [of "th_extensions (sth2_tree_head s)"]
  by (auto simp: sth2_encode_def encode_signed_input_def result_simps wire_simps wire_v2)

lemma ip_bound: "inclusion_proof_encode s = Inr bs \<Longrightarrow> length bs < 2 ^ 20"
  using field_wire_bounds(1) [of "ip_log_id s"] field_wire_bounds(3) [of "ip_path s"]
  by (auto simp: inclusion_proof_encode_def result_simps wire_simps wire_v2)

lemma ce_bound: "certificate_entry_encode e = Inr bs \<Longrightarrow> length bs < 2 ^ 26"
  using field_wire_bounds(2) [of "ce_extensions e"]
  by (auto simp: certificate_entry_encode_def result_simps wire_simps wire_v2 U24_MAX_def)

lemma entry_bound:
  "trans_item_encode (X509Entry e) = Inr bs \<Longrightarrow> length bs < 2 ^ 64"
  "trans_item_encode (PrecertificateEntry e) = Inr bs \<Longrightarrow> length bs < 2 ^ 64"
  using ce_bound by (fastforce simp: trans_item_encode_def bindE_eq_Inr)+

fun receipt_item :: "TransItemV2 \<Rightarrow> bool" where
  "receipt_item (X509Sct v) \<longleftrightarrow> True"
| "receipt_item (PrecertificateSct v) \<longleftrightarrow> True"
| "receipt_item (SignedTreeHead v) \<longleftrightarrow> True"
| "receipt_item (InclusionProof v) \<longleftrightarrow> True"
| "receipt_item item \<longleftrightarrow> False"

lemma receipt_item_decode: "receipt_item x \<Longrightarrow> trans_item_decode bs = Inr x \<longleftrightarrow> trans_item_encode x = Inr bs"
proof -
  assume "receipt_item x"
  then have "length bs < 2 ^ 64" if "trans_item_encode x = Inr bs"
    using that sct2_bound sth2_bound ip_bound
    by (cases x) (fastforce simp: trans_item_encode_def bindE_eq_Inr)+
  with \<open>receipt_item x\<close> show ?thesis by (cases x) (auto simp: trans_item_decode_iff)
qed

lemma transposeE_iff:
  "transposeE m = Inr None \<longleftrightarrow> m = None"
  "transposeE m = Inr (Some x) \<longleftrightarrow> m = Some (Inr x)"
  by (cases m; auto simp: bindE_eq_Inr)+

lemma receipt_item_cases:
  "(case item of SignedTreeHead value \<Rightarrow> Inr value | _ \<Rightarrow> Inl e) = Inr s \<longleftrightarrow> item = SignedTreeHead s"
  "(case item of InclusionProof value \<Rightarrow> Inr value | _ \<Rightarrow> Inl e) = Inr p \<longleftrightarrow> item = InclusionProof p"
  by (auto split: TransItemV2.splits)

fun sct_log_id_of :: "TransItemV2 \<Rightarrow> LogIdV2 option" where
  "sct_log_id_of (X509Sct v) = Some (sct2_log_id v)"
| "sct_log_id_of (PrecertificateSct v) = Some (sct2_log_id v)"
| "sct_log_id_of item = None"

lemma sct_log_id_cases:
  "(case item of X509Sct v \<Rightarrow> Inr (sct2_log_id v) | PrecertificateSct v \<Rightarrow> Inr (sct2_log_id v) | _ \<Rightarrow> Inl e) =
   option_okE e (sct_log_id_of item)"
  by (cases item) auto

lemma sct_log_id_decode:
  "sct_log_id_of x = Some i \<Longrightarrow> trans_item_decode bs = Inr x \<longleftrightarrow> trans_item_encode x = Inr bs"
  by (rule receipt_item_decode) (cases x; simp)

text \<open>An optional receipt field: its base64 text, its bytes, the item and the unwrapped value.\<close>

definition decode_field ::
  "(string \<Rightarrow> ct_error + bytes) \<Rightarrow> (TransItemV2 \<Rightarrow> ct_error + 'a) \<Rightarrow> string option \<Rightarrow> ct_error + 'a option" where
  "decode_field b64 unwrap field =
     bindE (transposeE (map_option b64 field)) (\<lambda>bs.
     bindE (transposeE (map_option trans_item_decode bs)) (\<lambda>item.
     transposeE (map_option unwrap item)))"

definition encode_field :: "(bytes \<Rightarrow> string) \<Rightarrow> ('a \<Rightarrow> TransItemV2) \<Rightarrow> 'a option \<Rightarrow> ct_error + string option" where
  "encode_field b64 wrap x =
     bindE (transposeE (map_option (\<lambda>v. trans_item_encode (wrap v)) x)) (\<lambda>bs. Inr (map_option b64 bs))"

lemma decode_field_iff:
  assumes "\<And>v bs. b64 v = Inr bs \<longleftrightarrow> v = enc bs" "\<And>item v. unwrap item = Inr v \<longleftrightarrow> item = wrap v"
    and "\<And>v. receipt_item (wrap v)"
  shows "decode_field b64 unwrap f = Inr x \<longleftrightarrow> encode_field enc wrap x = Inr f"
  using assms receipt_item_decode
  by (cases f; cases x) (auto simp: decode_field_def encode_field_def bindE_eq_Inr transposeE_iff)

lemma from_items_fields:
  "from_items b64_encode sct sth inclusion =
     bindE (option_okE (CtError ''RFC 9162 submission response requires an SCT TransItem'') (sct_log_id_of sct)) (\<lambda>i.
     bindE (receipt_consistent i sth inclusion) (\<lambda>u.
     bindE (trans_item_encode sct) (\<lambda>bs.
     bindE (encode_field b64_encode SignedTreeHead sth) (\<lambda>s.
     bindE (encode_field b64_encode InclusionProof inclusion) (\<lambda>p.
     Inr \<lparr>rs_sct = b64_encode bs, rs_sth = s, rs_inclusion = p\<rparr>)))))"
  unfolding from_items_def encode_field_def sct_log_id_cases bindE_assoc bindE_simps ..

text \<open>
  C18.  With a base64 engine that decodes what it encodes, \<open>decode_items\<close> accepts a submission
  receipt exactly when \<open>from_items\<close> builds it from the timestamp, tree head and inclusion proof
  that \<open>decode_items\<close> returns; in particular all items of an accepted receipt carry one log
  identifier and its tree head and inclusion proof speak of one tree size.
\<close>

theorem receipt_canonical:
  assumes "\<And>x. b64_decode (b64_encode x) = Some x"
  shows "decode_items b64_encode b64_decode response = Inr (sct, sth, inclusion) \<longleftrightarrow>
    from_items b64_encode sct sth inclusion = Inr response"
proof -
  let ?dec = "decode_base64_v2 b64_encode b64_decode"
  have b64: "?dec v = Inr bs \<longleftrightarrow> v = b64_encode bs" for v bs
    using assms by (auto simp: decode_base64_v2_def result_simps)
  let ?sth = "\<lambda>item. case item of SignedTreeHead value \<Rightarrow> Inr value
      | _ \<Rightarrow> Inl (CtError ''RFC 9162 receipt sth has the wrong TransItem type'')"
  let ?inc = "\<lambda>item. case item of InclusionProof value \<Rightarrow> Inr value
      | _ \<Rightarrow> Inl (CtError ''RFC 9162 receipt inclusion has the wrong TransItem type'')"
  have fields: "decode_field ?dec ?sth f = Inr s \<longleftrightarrow> encode_field b64_encode SignedTreeHead s = Inr f"
      "decode_field ?dec ?inc g = Inr p \<longleftrightarrow> encode_field b64_encode InclusionProof p = Inr g" for f g s p
    by (rule decode_field_iff; simp add: b64 receipt_item_cases)+
  have "decode_items b64_encode b64_decode response = Inr (sct, sth, inclusion) \<longleftrightarrow>
      (\<exists>bs i. ?dec (rs_sct response) = Inr bs \<and> trans_item_decode bs = Inr sct \<and> sct_log_id_of sct = Some i \<and>
         decode_field ?dec ?sth (rs_sth response) = Inr sth \<and>
         decode_field ?dec ?inc (rs_inclusion response) = Inr inclusion \<and>
         receipt_consistent i sth inclusion = Inr ())"
    unfolding decode_items_def decode_field_def bindE_assoc sct_log_id_cases
    by (auto simp: bindE_eq_Inr option_okE_eq_Inr)
  also have "\<dots> \<longleftrightarrow> (\<exists>bs i. sct_log_id_of sct = Some i \<and> receipt_consistent i sth inclusion = Inr () \<and>
         trans_item_encode sct = Inr bs \<and> rs_sct response = b64_encode bs \<and>
         encode_field b64_encode SignedTreeHead sth = Inr (rs_sth response) \<and>
         encode_field b64_encode InclusionProof inclusion = Inr (rs_inclusion response))"
    unfolding fields b64 using sct_log_id_decode by blast
  also have "\<dots> \<longleftrightarrow> from_items b64_encode sct sth inclusion = Inr response"
    unfolding from_items_fields by (cases response) (auto simp: bindE_eq_Inr option_okE_eq_Inr)
  finally show ?thesis .
qed

theorem receipt_canonical_witness:
  "let sct = X509Sct \<lparr>sct2_log_id = [0x2a, 3], sct2_timestamp = 7, sct2_extensions = [], sct2_signature = [1]\<rparr>
   in \<exists>response. from_items latin1_encode sct None None = Inr response \<and>
        decode_items latin1_encode latin1_decode response = Inr (sct, None, None)"
proof -
  let ?sct = "X509Sct \<lparr>sct2_log_id = [0x2a, 3], sct2_timestamp = 7, sct2_extensions = [], sct2_signature = [1]\<rparr>"
  obtain response where r: "from_items latin1_encode ?sct None None = Inr response"
    by (simp add: from_items_def receipt_consistent_def trans_item_encode_def sct2_encode_def log_id_encode_to_def
        validate_oid_value_def encode_extensions_def push_vector_u8_def push_vector_u16_def)
  with receipt_canonical [of latin1_decode latin1_encode response ?sct None None, OF latin1_decode_encode]
  show ?thesis by (simp add: Let_def)
qed

text \<open>
  C19.  The leaf hash of an entry commits to the entry: two entries with the same leaf hash are
  equal, or their encodings are two different inputs of the digest with one value.
\<close>

theorem merkle_leaf_hash_binding:
  assumes "merkle_leaf_hash sha x = Inr h" "merkle_leaf_hash sha y = Inr h"
  shows "x = y \<or> (\<exists>as bs. sct_signed_input x = Inr as \<and> sct_signed_input y = Inr bs \<and>
    as \<noteq> bs \<and> sha (0x00 # as) = sha (0x00 # bs))"
proof -
  from assms obtain as bs where enc: "sct_signed_input x = Inr as" "sct_signed_input y = Inr bs"
      and hash: "sha (0x00 # as) = h" "sha (0x00 # bs) = h"
    by (auto simp: merkle_leaf_hash_def leaf_hash_def result_simps)
  have "x = y" if "as = bs"
  proof -
    from enc that have put: "trans_item_encode x = Inr as" "trans_item_encode y = Inr as"
      and ok: "trans_item_ok x" "trans_item_ok y" and bound: "length as < 2 ^ 64"
      using entry_bound by (auto simp: sct_signed_input_def split: if_splits TransItemV2.splits)
    then have "trans_item_decode as = Inr x" "trans_item_decode as = Inr y"
      by (simp_all add: trans_item_decode_iff)
    then show ?thesis by simp
  qed
  with enc hash show ?thesis by auto
qed

theorem merkle_leaf_hash_binding_witness:
  "let x = X509Entry \<lparr>ce_timestamp = 7, ce_issuer_key_hash = replicate 32 1, ce_tbs_certificate = [0x30],
        ce_extensions = []\<rparr>
   in \<exists>h. merkle_leaf_hash (\<lambda>b. b) x = Inr h \<and>
        (x = x \<or> (\<exists>as bs. sct_signed_input x = Inr as \<and> sct_signed_input x = Inr bs \<and> as \<noteq> bs \<and>
           (\<lambda>b. b) (0x00 # as) = (\<lambda>b. b) (0x00 # bs)))"
proof -
  let ?x = "X509Entry \<lparr>ce_timestamp = 7, ce_issuer_key_hash = replicate 32 1, ce_tbs_certificate = [0x30],
        ce_extensions = []\<rparr>"
  obtain h where h: "merkle_leaf_hash (\<lambda>b. b) ?x = Inr h"
    by (simp add: merkle_leaf_hash_def entry_issuer_hash_ok_def sct_signed_input_def trans_item_encode_def
        certificate_entry_encode_def encode_extensions_def push_vector_u8_def push_vector_u16_def
        push_vector_u24_def push_u24_def U24_MAX_def)
  from merkle_leaf_hash_binding [OF h h] h show ?thesis by (auto simp: Let_def)
qed

end
