(* ===== verification/Text.thy ===== *)
theory Text
  imports Prelude "HOL-Library.Sublist"
begin

text \<open>
  The string operations of the Rust standard library the sources use.  A \<open>&str\<close> is the
  \<^typ>\<open>string\<close> of its UTF-8 bytes, so \<open>len\<close>, \<open>starts_with\<close>, \<open>split\<close> on an ASCII character and
  slicing are list operations; \<open>str_chars\<close> decodes the scalar values where the code iterates
  over \<open>chars()\<close>.
\<close>

section \<open>Splitting and joining\<close>

text \<open>\<open>s.split(c)\<close>, \<open>parts.join(sep)\<close>, \<open>strip_prefix\<close> and \<open>strip_suffix\<close>.\<close>

fun str_split :: "'a \<Rightarrow> 'a list \<Rightarrow> 'a list list" where
  "str_split c [] = [[]]"
| "str_split c (x # xs) =
     (if x = c then [] # str_split c xs
      else (case str_split c xs of [] \<Rightarrow> [[x]] | y # ys \<Rightarrow> (x # y) # ys))"

fun str_join :: "'a list \<Rightarrow> 'a list list \<Rightarrow> 'a list" where
  "str_join sep [] = []"
| "str_join sep [x] = x"
| "str_join sep (x # y # ys) = x @ sep @ str_join sep (y # ys)"

definition strip_prefix :: "'a list \<Rightarrow> 'a list \<Rightarrow> 'a list option" where
  "strip_prefix p s = (if prefix p s then Some (drop (length p) s) else None)"

definition strip_suffix :: "'a list \<Rightarrow> 'a list \<Rightarrow> 'a list option" where
  "strip_suffix p s = (if suffix p s then Some (take (length s - length p) s) else None)"

text \<open>\<open>s.split_once(c)\<close>: the parts before and after the first \<open>c\<close>.\<close>

fun split_once :: "'a \<Rightarrow> 'a list \<Rightarrow> ('a list \<times> 'a list) option" where
  "split_once c [] = None"
| "split_once c (x # xs) = (if x = c then Some ([], xs) else map_option (\<lambda>(a, b). (x # a, b)) (split_once c xs))"

text \<open>\<open>iter().position(p)\<close>.\<close>

fun position :: "('a \<Rightarrow> bool) \<Rightarrow> 'a list \<Rightarrow> nat option" where
  "position p [] = None"
| "position p (x # xs) = (if p x then Some 0 else map_option Suc (position p xs))"

lemma str_split_nonempty [simp]: "str_split c s \<noteq> []"
  by (induction s) (auto split: list.splits)

lemma str_split_plain: "c \<notin> set x \<Longrightarrow> str_split c x = [x]"
  by (induction x) auto

lemma str_split_append: "c \<notin> set x \<Longrightarrow> str_split c (x @ c # s) = x # str_split c s"
  by (induction x) auto

lemma str_split_join:
  "xs \<noteq> [] \<Longrightarrow> \<forall>x \<in> set xs. c \<notin> set x \<Longrightarrow> str_split c (str_join [c] xs) = xs"
  by (induction "[c]" xs rule: str_join.induct) (auto simp: str_split_plain str_split_append)

lemma str_join_append:
  "xs \<noteq> [] \<Longrightarrow> ys \<noteq> [] \<Longrightarrow> str_join sep (xs @ ys) = str_join sep xs @ sep @ str_join sep ys"
proof (induction sep xs rule: str_join.induct)
  case (2 sep x)
  then show ?case by (cases ys) auto
qed auto

lemma str_join_last: "str_join sep (xs @ [x]) @ s = str_join sep (xs @ [x @ s])"
proof (induction xs)
  case (Cons y xs)
  then show ?case by (cases xs) auto
qed simp

lemma strip_suffix_append [simp]: "strip_suffix p (s @ p) = Some s"
  by (simp add: strip_suffix_def suffix_def)

lemma strip_prefix_append [simp]: "strip_prefix p (p @ s) = Some s"
  by (simp add: strip_prefix_def prefix_def)

lemma split_once_append: "c \<notin> set a \<Longrightarrow> split_once c (a @ c # b) = Some (a, b)"
  by (induction a) auto

lemma position_append: "\<forall>x \<in> set xs. \<not> p x \<Longrightarrow> p y \<Longrightarrow> position p (xs @ y # ys) = Some (length xs)"
  by (induction xs) auto

lemma position_None: "position p xs = None \<longleftrightarrow> (\<forall>x \<in> set xs. \<not> p x)"
  by (induction xs) auto

section \<open>Decimal numbers\<close>

text \<open>\<open>n.to_string()\<close>, the zero-padded form, and \<open>parse\<close> of an unsigned type with the given range.\<close>

definition digit_char :: "nat \<Rightarrow> char" where
  "digit_char d = char_of (48 + d)"

definition digit_value :: "char \<Rightarrow> nat" where
  "digit_value c = of_char c - 48"

definition is_ascii_digit :: "char \<Rightarrow> bool" where
  "is_ascii_digit c \<longleftrightarrow> 48 \<le> (of_char c :: nat) \<and> (of_char c :: nat) \<le> 57"

fun dec_string :: "nat \<Rightarrow> string" where
  "dec_string n = (if n < 10 then [digit_char n] else dec_string (n div 10) @ [digit_char (n mod 10)])"

declare dec_string.simps [simp del]

definition dec_padded :: "nat \<Rightarrow> nat \<Rightarrow> string" where
  "dec_padded width n = replicate (width - length (dec_string n)) CHR ''0'' @ dec_string n"

definition dec_value :: "string \<Rightarrow> nat" where
  "dec_value s = foldl (\<lambda>a c. a * 10 + digit_value c) 0 s"

definition parse_unsigned :: "nat \<Rightarrow> string \<Rightarrow> nat option" where
  "parse_unsigned bound s =
     (let digits = (case s of CHR ''+'' # rest \<Rightarrow> if rest = [] then s else rest | _ \<Rightarrow> s)
      in if digits \<noteq> [] \<and> list_all is_ascii_digit digits \<and> dec_value digits < bound
         then Some (dec_value digits) else None)"

lemma digit_char_simps [simp]:
  assumes "d < 10"
  shows "digit_value (digit_char d) = d" "is_ascii_digit (digit_char d)"
  using assms by (simp_all add: digit_char_def digit_value_def is_ascii_digit_def of_char_of)

lemma dec_value_Nil [simp]: "dec_value [] = 0"
  by (simp add: dec_value_def)

lemma dec_value_snoc [simp]: "dec_value (s @ [c]) = dec_value s * 10 + digit_value c"
  by (simp add: dec_value_def)

lemma dec_string_nonempty [simp]: "dec_string n \<noteq> []"
  by (subst dec_string.simps) simp

lemma dec_string_digits: "list_all is_ascii_digit (dec_string n)"
proof (induction n rule: dec_string.induct)
  case (1 n)
  then show ?case by (subst dec_string.simps) simp
qed

lemma dec_value_dec_string [simp]: "dec_value (dec_string n) = n"
proof (induction n rule: dec_string.induct)
  case (1 n)
  show ?case
  proof (cases "n < 10")
    case True
    then show ?thesis using dec_value_snoc [of "[]" "digit_char n"] by (subst dec_string.simps) simp
  next
    case False
    with 1 show ?thesis by (subst dec_string.simps) simp
  qed
qed

lemma digit_char_zero: "digit_char 0 = CHR ''0''"
proof -
  have "char_of (of_char (CHR ''0'') :: nat) = CHR ''0''" by (rule char_of_char)
  then show ?thesis by (simp add: digit_char_def)
qed

lemma hd_dec_string: "hd (dec_string n) = CHR ''0'' \<longleftrightarrow> n = 0"
proof (induction n rule: dec_string.induct)
  case (1 n)
  show ?case
  proof (cases "n < 10")
    case True
    have "digit_char n = CHR ''0'' \<longleftrightarrow> n = 0"
      using True digit_char_simps(1) [of n] digit_char_zero by (auto simp: digit_value_def)
    with True show ?thesis by (subst dec_string.simps) simp
  next
    case False
    with 1 show ?thesis by (subst dec_string.simps) auto
  qed
qed

text \<open>No leading zero unless the number is zero, which is a single digit.\<close>

lemma dec_string_canonical: "length (dec_string n) > 1 \<Longrightarrow> \<not> prefix ''0'' (dec_string n)"
proof
  assume len: "length (dec_string n) > 1" and "prefix ''0'' (dec_string n)"
  then have "hd (dec_string n) = CHR ''0''" by (cases "dec_string n") (auto simp: prefix_def)
  then have "n = 0" by (simp add: hd_dec_string)
  with len show False by (simp add: dec_string.simps)
qed

lemma dec_value_zeros: "dec_value (replicate k CHR ''0'' @ s) = dec_value s"
  by (induction k) (auto simp: dec_value_def digit_value_def)

lemma dec_padded_simps [simp]:
  "dec_value (dec_padded w n) = n" "list_all is_ascii_digit (dec_padded w n)"
  "length (dec_padded w n) = max w (length (dec_string n))"
  using dec_string_digits by (auto simp: dec_padded_def dec_value_zeros list_all_iff is_ascii_digit_def)

lemma parse_unsigned_digits:
  assumes "list_all is_ascii_digit s" "s \<noteq> []"
  shows "parse_unsigned bound s = (if dec_value s < bound then Some (dec_value s) else None)"
proof -
  from assms have "\<not> (\<exists>rest. s = CHR ''+'' # rest)" by (auto simp: is_ascii_digit_def)
  then have "(case s of CHR ''+'' # rest \<Rightarrow> if rest = [] then s else rest | _ \<Rightarrow> s) = s"
    by (auto split: list.splits char.splits bool.splits)
  with assms show ?thesis by (simp add: parse_unsigned_def)
qed

section \<open>UTF-8\<close>

text \<open>
  \<open>std::str::from_utf8\<close> accepts the well-formed byte sequences of the Unicode standard (shortest
  form, no surrogates, at most U+10FFFF); the scalar values are the characters of the string.
\<close>

definition utf8_cont :: "nat \<Rightarrow> bool" where
  "utf8_cont b \<longleftrightarrow> 0x80 \<le> b \<and> b \<le> 0xBF"

text \<open>The scalar value that starts with byte \<open>a\<close>, and how many bytes of \<open>s\<close> continue it.\<close>

definition utf8_next :: "nat \<Rightarrow> nat list \<Rightarrow> (nat \<times> nat) option" where
  "utf8_next a s =
     (if a < 0x80 then Some (a, 0)
      else if 0xC2 \<le> a \<and> a \<le> 0xDF then
        (case s of
           b # s' \<Rightarrow> if utf8_cont b then Some ((a - 0xC0) * 64 + (b - 0x80), 1) else None
         | _ \<Rightarrow> None)
      else if 0xE0 \<le> a \<and> a \<le> 0xEF then
        (case s of
           b # c # s' \<Rightarrow>
             if utf8_cont b \<and> utf8_cont c \<and> (a = 0xE0 \<longrightarrow> 0xA0 \<le> b) \<and> (a = 0xED \<longrightarrow> b \<le> 0x9F)
             then Some ((a - 0xE0) * 4096 + (b - 0x80) * 64 + (c - 0x80), 2) else None
         | _ \<Rightarrow> None)
      else if 0xF0 \<le> a \<and> a \<le> 0xF4 then
        (case s of
           b # c # d # s' \<Rightarrow>
             if utf8_cont b \<and> utf8_cont c \<and> utf8_cont d \<and> (a = 0xF0 \<longrightarrow> 0x90 \<le> b) \<and> (a = 0xF4 \<longrightarrow> b \<le> 0x8F)
             then Some ((a - 0xF0) * 262144 + (b - 0x80) * 4096 + (c - 0x80) * 64 + (d - 0x80), 3) else None
         | _ \<Rightarrow> None)
      else None)"

fun utf8_scalars :: "nat list \<Rightarrow> nat list option" where
  "utf8_scalars [] = Some []"
| "utf8_scalars (a # s) =
     (case utf8_next a s of
        None \<Rightarrow> None
      | Some (c, k) \<Rightarrow> map_option (Cons c) (utf8_scalars (drop k s)))"

definition utf8_valid :: "bytes \<Rightarrow> bool" where
  "utf8_valid bs \<longleftrightarrow> utf8_scalars (map unat bs) \<noteq> None"

definition str_chars :: "string \<Rightarrow> nat list" where
  "str_chars s = (case utf8_scalars (map of_char s) of Some cs \<Rightarrow> cs | None \<Rightarrow> [])"

text \<open>\<open>char::is_control\<close> (general category Cc) and \<open>char::is_whitespace\<close> (White_Space).\<close>

definition char_is_control :: "nat \<Rightarrow> bool" where
  "char_is_control c \<longleftrightarrow> c < 0x20 \<or> (0x7F \<le> c \<and> c \<le> 0x9F)"

definition char_is_whitespace :: "nat \<Rightarrow> bool" where
  "char_is_whitespace c \<longleftrightarrow>
     (0x09 \<le> c \<and> c \<le> 0x0D) \<or> c = 0x20 \<or> c = 0x85 \<or> c = 0xA0 \<or> c = 0x1680 \<or>
     (0x2000 \<le> c \<and> c \<le> 0x200A) \<or> c = 0x2028 \<or> c = 0x2029 \<or> c = 0x202F \<or> c = 0x205F \<or> c = 0x3000"

text \<open>On ASCII text the characters are the bytes.\<close>

lemma utf8_scalars_ascii: "\<forall>b \<in> set bs. b < 0x80 \<Longrightarrow> utf8_scalars bs = Some bs"
  by (induction bs) (auto simp: utf8_next_def)

lemma utf8_next_append: "utf8_next a s = Some (c, k) \<Longrightarrow> k \<le> length s \<and> utf8_next a (s @ t) = Some (c, k)"
  by (auto simp: utf8_next_def split: if_splits list.splits)

lemma utf8_scalars_append:
  "utf8_scalars as = Some cs \<Longrightarrow> utf8_scalars (as @ bs) = map_option ((@) cs) (utf8_scalars bs)"
proof (induction as arbitrary: cs rule: utf8_scalars.induct)
  case 1
  then show ?case by (simp add: option.map_ident)
next
  case (2 a s)
  then obtain c k cs' where nxt: "utf8_next a s = Some (c, k)" and rest: "utf8_scalars (drop k s) = Some cs'"
      and cs: "cs = c # cs'"
    by (auto split: option.splits)
  from utf8_next_append [OF nxt] have app: "k \<le> length s" "utf8_next a (s @ bs) = Some (c, k)" by auto
  with "2.IH" [OF nxt _ rest] cs show ?case by (simp add: option.map_comp comp_def)
qed

lemma utf8_next_ascii:
  assumes "utf8_next a s = Some (c, k)"
  shows "\<forall>x \<in> set (take k s). 0x80 \<le> x" "a < 0x80 \<longrightarrow> c = a"
proof -
  have "k \<le> length s \<and> (\<forall>i < k. utf8_cont (s ! i))"
    using assms by (auto simp: utf8_next_def less_Suc_eq numeral_3_eq_3 numeral_2_eq_2 split: if_splits list.splits)
  then show "\<forall>x \<in> set (take k s). 0x80 \<le> x" by (auto simp: in_set_conv_nth utf8_cont_def)
  show "a < 0x80 \<longrightarrow> c = a" using assms by (auto simp: utf8_next_def)
qed

text \<open>An ASCII byte of a well-formed string is one of its characters.\<close>

lemma utf8_scalars_ascii_byte:
  "utf8_scalars bs = Some cs \<Longrightarrow> b \<in> set bs \<Longrightarrow> b < 0x80 \<Longrightarrow> b \<in> set cs"
proof (induction bs arbitrary: cs rule: utf8_scalars.induct)
  case (2 a s)
  then obtain c k cs' where nxt: "utf8_next a s = Some (c, k)" and rest: "utf8_scalars (drop k s) = Some cs'"
      and cs: "cs = c # cs'"
    by (auto split: option.splits)
  show ?case
  proof (cases "b \<in> set (drop k s)")
    case True
    with "2.IH" [OF nxt _ rest] "2.prems"(3) cs show ?thesis by simp
  next
    case False
    have "set s = set (take k s) \<union> set (drop k s)" by (metis append_take_drop_id set_append)
    with False "2.prems" utf8_next_ascii(1) [OF nxt] have "b = a" by fastforce
    with utf8_next_ascii(2) [OF nxt] "2.prems"(3) cs show ?thesis by simp
  qed
qed simp

text \<open>\<open>s.rfind(pat)\<close>: the last position where the pattern starts.\<close>

definition str_rfind :: "'a list \<Rightarrow> 'a list \<Rightarrow> nat option" where
  "str_rfind pat s =
     (case filter (\<lambda>i. prefix pat (drop i s)) [0..<Suc (length s)] of [] \<Rightarrow> None | is \<Rightarrow> Some (last is))"

lemma str_rfindI:
  assumes "prefix pat (drop i s)" "i \<le> length s" "\<And>j. i < j \<Longrightarrow> j \<le> length s \<Longrightarrow> \<not> prefix pat (drop j s)"
  shows "str_rfind pat s = Some i"
proof -
  have "[0..<Suc (length s)] = [0..<i] @ i # [Suc i..<Suc (length s)]"
    using assms(2) upt_add_eq_append [of 0 i "Suc (length s) - i"] upt_conv_Cons [of i "Suc (length s)"]
    by (simp del: upt_Suc)
  moreover have "filter (\<lambda>i. prefix pat (drop i s)) [Suc i..<Suc (length s)] = []"
    unfolding filter_empty_conv using assms(3) by (simp del: upt_Suc)
  ultimately have "filter (\<lambda>i. prefix pat (drop i s)) [0..<Suc (length s)] =
      filter (\<lambda>i. prefix pat (drop i s)) [0..<i] @ [i]" using assms(1) by (simp del: upt_Suc)
  moreover have "(case xs @ [i] of [] \<Rightarrow> None | is \<Rightarrow> Some (last is)) = Some i" for xs
    by (cases xs) simp_all
  ultimately show ?thesis by (simp only: str_rfind_def)
qed

lemma str_rfind_pair:
  assumes "n \<notin> set b" "b \<noteq> []"
  shows "str_rfind [n, n] (a @ n # n # b @ [n]) = Some (length a)"
proof (rule str_rfindI)
  fix j assume j: "length a < j" "j \<le> length (a @ n # n # b @ [n])"
  then obtain m where m: "j = length a + Suc m" by (metis less_imp_Suc_add add_Suc_right)
  show "\<not> prefix [n, n] (drop j (a @ n # n # b @ [n]))"
  proof (cases m)
    case 0
    with assms show ?thesis by (cases b) (auto simp: m)
  next
    case (Suc l)
    have "\<not> prefix [n, n] (drop l b @ [n])" for l
      using assms(1) in_set_dropD [of n l b] by (cases "drop l b") (auto simp: prefix_Cons)
    then show ?thesis
      using Suc by (cases "l \<le> length b") (auto simp: m)
  qed
qed simp_all

section \<open>Trimming and words\<close>

text \<open>The characters of a string with their bytes; \<open>trim\<close> and \<open>split_whitespace\<close> work on characters.\<close>

fun str_pieces :: "string \<Rightarrow> (nat \<times> string) list" where
  "str_pieces [] = []"
| "str_pieces (a # s) =
     (case utf8_next (of_char a) (map of_char s) of
        Some (c, k) \<Rightarrow> (c, a # take k s) # str_pieces (drop k s)
      | None \<Rightarrow> (of_char a, [a]) # str_pieces s)"

definition str_trim_end_matches :: "(nat \<Rightarrow> bool) \<Rightarrow> string \<Rightarrow> string" where
  "str_trim_end_matches p s = concat (map snd (rev (dropWhile (p \<circ> fst) (rev (str_pieces s)))))"

definition str_trim_matches :: "(nat \<Rightarrow> bool) \<Rightarrow> string \<Rightarrow> string" where
  "str_trim_matches p s = concat (map snd (rev (dropWhile (p \<circ> fst) (rev (dropWhile (p \<circ> fst) (str_pieces s))))))"

definition str_trim :: "string \<Rightarrow> string" where
  "str_trim s = str_trim_matches char_is_whitespace s"

fun piece_words :: "(nat \<times> string) list \<Rightarrow> string \<Rightarrow> string list" where
  "piece_words [] word = (if word = [] then [] else [word])"
| "piece_words (p # ps) word =
     (if char_is_whitespace (fst p) then (if word = [] then [] else [word]) @ piece_words ps []
      else piece_words ps (word @ snd p))"

definition split_whitespace :: "string \<Rightarrow> string list" where
  "split_whitespace s = piece_words (str_pieces s) []"

definition ascii_lower :: "char \<Rightarrow> char" where
  "ascii_lower c = (if 65 \<le> (of_char c :: nat) \<and> (of_char c :: nat) \<le> 90 then char_of ((of_char c :: nat) + 32) else c)"

definition eq_ignore_ascii_case :: "string \<Rightarrow> string \<Rightarrow> bool" where
  "eq_ignore_ascii_case a b \<longleftrightarrow> map ascii_lower a = map ascii_lower b"

definition str_rsplit_once :: "'a \<Rightarrow> 'a list \<Rightarrow> ('a list \<times> 'a list) option" where
  "str_rsplit_once c s = map_option (\<lambda>(b, a). (rev a, rev b)) (split_once c (rev s))"

definition is_ascii :: "string \<Rightarrow> bool" where
  "is_ascii s \<longleftrightarrow> list_all (\<lambda>c. (of_char c :: nat) < 128) s"

lemma str_pieces_ascii: "is_ascii s \<Longrightarrow> str_pieces s = map (\<lambda>c. (of_char c, [c])) s"
  by (induction s) (simp_all add: is_ascii_def utf8_next_def)

lemma dec_small: "n < 10 \<Longrightarrow> dec_string n = [digit_char n]" by (simp add: dec_string.simps)

lemma digit_chars:
  "digit_char 0 = CHR ''0''" "digit_char (Suc 0) = CHR ''1''" "digit_char 2 = CHR ''2''" "digit_char 3 = CHR ''3''" "digit_char 4 = CHR ''4''"
  "digit_char 5 = CHR ''5''" "digit_char 6 = CHR ''6''" "digit_char 7 = CHR ''7''" "digit_char 8 = CHR ''8''" "digit_char 9 = CHR ''9''"
  by code_simp+

lemma str_trim_matches_plain:
  assumes "is_ascii s" "\<forall>c \<in> set s. \<not> p (of_char c)"
  shows "str_trim_matches p s = s"
proof -
  have "dropWhile (p \<circ> fst) ps = ps" if "\<forall>q \<in> set ps. \<not> p (fst q)" for ps :: "(nat \<times> string) list"
    using that by (cases ps) auto
  from this [of "map (\<lambda>c. (of_char c, [c])) s"] this [of "rev (map (\<lambda>c. (of_char c, [c])) s)"]
  show ?thesis using assms by (simp add: str_trim_matches_def str_pieces_ascii comp_def)
qed

section \<open>Strings and their bytes\<close>

text \<open>\<open>str::as_bytes\<close> and \<open>std::str::from_utf8\<close>.\<close>

definition as_bytes :: "string \<Rightarrow> bytes" where
  "as_bytes s = map of_char s"

definition from_utf8 :: "bytes \<Rightarrow> string option" where
  "from_utf8 bs = (if utf8_valid bs then Some (map (\<lambda>b. char_of (unat b)) bs) else None)"

definition is_utf8 :: "string \<Rightarrow> bool" where
  "is_utf8 s \<longleftrightarrow> utf8_scalars (map of_char s) \<noteq> None"

lemma unat_of_char [simp]: "unat (of_char c :: u8) = of_char c"
proof -
  have "(of_char c :: u8) = of_nat (of_char c)" by (simp add: of_nat_of_char)
  then show ?thesis using nat_of_char_less_256 [of c] by (simp only: unat_of_nat) simp
qed

lemma from_utf8_as_bytes: "is_utf8 s \<Longrightarrow> from_utf8 (as_bytes s) = Some s"
  by (simp add: from_utf8_def utf8_valid_def is_utf8_def as_bytes_def comp_def)

lemma length_as_bytes [simp]: "length (as_bytes s) = length s"
  by (simp add: as_bytes_def)

lemma as_bytes_append [simp]: "as_bytes (s @ t) = as_bytes s @ as_bytes t"
  by (simp add: as_bytes_def)

lemma is_utf8_ascii: "is_ascii s \<Longrightarrow> is_utf8 s"
  by (auto simp: is_ascii_def is_utf8_def list_all_iff utf8_scalars_ascii)

end
