(* ===== verification/Ct_Static.thy ===== *)
theory Ct_Static
  imports Ct_V2 Text
begin

text \<open>
  The Static CT API: \<^verbatim>\<open>crates/oxibelt-ct/src/static_ct.rs\<close>.

  Tile paths and their rendering, hash tiles, the leaf-index extension and data tiles; the
  checkpoints of the same file are in theory \<open>Ct_Checkpoint\<close>.  SHA-256 is a parameter, paths are
  strings of UTF-8 bytes.
\<close>

section \<open>Tile paths\<close>

abbreviation TILE_WIDTH :: nat where "TILE_WIDTH \<equiv> 256"
abbreviation MAX_TILE_LEVEL :: u8 where "MAX_TILE_LEVEL \<equiv> 5"
abbreviation LEAF_INDEX_EXTENSION_TYPE :: u8 where "LEAF_INDEX_EXTENSION_TYPE \<equiv> 0"

datatype TileKind = Hashes u8 | Data

record TilePath =
  tile_kind :: TileKind
  tile_index :: u64
  tile_partial_width :: "u8 option"

definition div_ceil :: "nat \<Rightarrow> nat \<Rightarrow> nat" where
  "div_ceil a b = (a + b - 1) div b"

definition render_tile_index :: "u64 \<Rightarrow> string" where
  "render_tile_index index =
     (let decimal = dec_string (unat index);
          padded_length = div_ceil (length decimal) 3 * 3;
          padded = dec_padded padded_length (unat index);
          groups = map (\<lambda>k. slice (3 * k) (3 * k + 3) padded) [0..<div_ceil (length padded) 3];
          last = length groups - 1
      in str_join ''/'' (map (\<lambda>(position, grp). if position = last then grp else ''x'' @ grp)
           (enumerate 0 groups)))"

definition tile_render :: "TilePath \<Rightarrow> ct_error + string" where
  "tile_render path =
     (if (case tile_kind path of Hashes level \<Rightarrow> level > MAX_TILE_LEVEL | Data \<Rightarrow> False)
      then Inl (CtError ''Static CT tile level exceeds 5'')
      else if tile_partial_width path = Some 0
      then Inl (CtError ''Static CT partial tile width must be positive'')
      else
        let index = render_tile_index (tile_index path);
            kind = (case tile_kind path of Hashes level \<Rightarrow> dec_string (unat level) | Data \<Rightarrow> ''data'');
            suffix = (case tile_partial_width path of
                        Some width \<Rightarrow> ''.p/'' @ dec_string (unat width) | None \<Rightarrow> [])
        in Inr (''tile/'' @ kind @ ''/'' @ index @ suffix))"

fun parse_tile_groups :: "string list \<Rightarrow> string \<Rightarrow> ct_error + string" where
  "parse_tile_groups [] decimal = Inr decimal"
| "parse_tile_groups (grp # groups) decimal =
     bindE (if groups = [] then Inr grp
            else option_okE (CtError ''Static CT tile index prefix is missing'') (strip_prefix ''x'' grp)) (\<lambda>digits.
     if length digits \<noteq> 3 \<or> \<not> list_all is_ascii_digit digits
     then Inl (CtError ''Static CT tile index group is not three decimal digits'')
     else parse_tile_groups groups (decimal @ digits))"

definition parse_tile_index :: "string list \<Rightarrow> ct_error + u64" where
  "parse_tile_index groups =
     (if groups = [] then Inl (CtError ''Static CT tile index is missing'') else
      bindE (parse_tile_groups groups []) (\<lambda>decimal.
      bindE (option_okE (CtError ''Static CT tile index overflows u64'') (parse_unsigned (2 ^ 64) decimal)) (\<lambda>n.
      Inr (of_nat n))))"

definition parse_canonical_decimal_u8 :: "string \<Rightarrow> ct_error + u8" where
  "parse_canonical_decimal_u8 value =
     (if value = [] \<or> (length value > 1 \<and> prefix ''0'' value) \<or> \<not> list_all is_ascii_digit value
      then Inl (CtError ''Static CT decimal value is not canonical'')
      else bindE (option_okE (CtError ''Static CT decimal value overflows u8'') (parse_unsigned 256 value)) (\<lambda>n.
        Inr (of_nat n)))"

definition parse_partial :: "string list \<Rightarrow> ct_error + string list \<times> u8 option" where
  "parse_partial components =
     (case position (suffix ''.p'') components of
        Some pos \<Rightarrow>
          if pos < 2 \<or> pos + 2 \<noteq> length components
          then Inl (CtError ''invalid Static CT partial tile suffix'') else
          let marker = components ! pos in
          if marker = ''.p'' \<or> \<not> suffix ''.p'' marker
          then Inl (CtError ''invalid Static CT partial tile marker'') else
          bindE (option_okE (CtError ''invalid Static CT partial tile marker'') (strip_suffix ''.p'' marker)) (\<lambda>base.
          let index = slice 2 pos components @ [base] in
          bindE (parse_canonical_decimal_u8 (components ! (pos + 1))) (\<lambda>width.
          if width = 0 then Inl (CtError ''Static CT partial tile width must be positive'')
          else Inr (index, Some width)))
      | None \<Rightarrow> Inr (drop 2 components, None))"

definition tile_parse :: "string \<Rightarrow> ct_error + TilePath" where
  "tile_parse path =
     (if prefix ''/'' path \<or> suffix ''/'' path
      then Inl (CtError ''Static CT tile path must be relative and canonical'') else
      let components = str_split (CHR ''/'') path in
      if length components < 3 \<or> components ! 0 \<noteq> ''tile''
      then Inl (CtError ''invalid Static CT tile path'') else
      bindE (if components ! 1 = ''data'' then Inr Data
             else bindE (parse_canonical_decimal_u8 (components ! 1)) (\<lambda>level.
               if level > MAX_TILE_LEVEL then Inl (CtError ''Static CT tile level exceeds 5'')
               else Inr (Hashes level))) (\<lambda>kind.
      bindE (parse_partial components) (\<lambda>(index_components, partial_width).
      bindE (parse_tile_index index_components) (\<lambda>index.
      let value = \<lparr>tile_kind = kind, tile_index = index, tile_partial_width = partial_width\<rparr> in
      bindE (tile_render value) (\<lambda>rendered.
      if rendered \<noteq> path then Inl (CtError ''Static CT tile path is not canonical'')
      else Inr value)))))"

section \<open>Hash tiles, extensions and fingerprints\<close>

definition encode_hash_tile :: "hash list \<Rightarrow> ct_error + bytes" where
  "encode_hash_tile hashes =
     (if hashes = [] \<or> length hashes > TILE_WIDTH
      then Inl (CtError ''Static CT hash tile width must be between 1 and 256'')
      else Inr (concat hashes))"

definition decode_hash_tile :: "bytes \<Rightarrow> nat \<Rightarrow> ct_error + hash list" where
  "decode_hash_tile bs expected_width =
     (if \<not> (1 \<le> expected_width \<and> expected_width \<le> TILE_WIDTH) \<or> length bs \<noteq> expected_width * 32
      then Inl (CtError ''Static CT hash tile has the wrong width'')
      else collectE (\<lambda>chunk. option_okE (CtError ''Static CT tile hash must be 32 bytes'') (to_array 32 chunk))
             (chunks_exact 32 bs))"

definition leaf_index_extension :: "u64 \<Rightarrow> ct_error + bytes" where
  "leaf_index_extension leaf_index = push_u40 [LEAF_INDEX_EXTENSION_TYPE, 0, 5] leaf_index"

lemma reader_u8_le: "reader_u8 r = Inr (b, r') \<Longrightarrow> reader_remaining r' < reader_remaining r"
  using reads_remaining by (fastforce simp: reader_u8_iff)

function parse_leaf_index_loop :: "Reader \<Rightarrow> u64 option \<Rightarrow> ct_error + u64 option" where
  "parse_leaf_index_loop r leaf_index =
     (if reader_is_empty r then Inr leaf_index else
      bindE (reader_u8 r) (\<lambda>(ty, r).
      bindE (reader_vector_u16 0 65535 r) (\<lambda>(data, r).
      if ty = LEAF_INDEX_EXTENSION_TYPE then
        if leaf_index \<noteq> None \<or> length data \<noteq> 5
        then Inl (CtError ''invalid or duplicate Static CT leaf_index extension'') else
        bindE (reader_u40 (reader_new data)) (\<lambda>(index, index_reader).
        bindE (reader_finish index_reader) (\<lambda>u.
        parse_leaf_index_loop r (Some index)))
      else parse_leaf_index_loop r leaf_index)))"
  by pat_completeness auto
termination
  by (relation "measure (\<lambda>(r, leaf_index). reader_remaining r)") (auto dest!: reader_u8_le reader_vector_u16_le)

declare parse_leaf_index_loop.simps [simp del]

definition parse_leaf_index_extension :: "bytes \<Rightarrow> ct_error + u64" where
  "parse_leaf_index_extension extensions =
     bindE (parse_leaf_index_loop (reader_new extensions) None) (\<lambda>leaf_index.
     option_okE (CtError ''Static CT SCT is missing leaf_index extension'') leaf_index)"

definition issuer_fingerprint :: "(bytes \<Rightarrow> hash) \<Rightarrow> bytes \<Rightarrow> hash" where
  "issuer_fingerprint sha certificate_der = sha certificate_der"

definition issuer_fingerprint_hex :: "(bytes \<Rightarrow> hash) \<Rightarrow> bytes \<Rightarrow> string" where
  "issuer_fingerprint_hex sha certificate_der =
     concat (map (\<lambda>byte. [''0123456789abcdef'' ! unat (drop_bit 4 byte), ''0123456789abcdef'' ! unat (byte AND 0x0f)])
       (issuer_fingerprint sha certificate_der))"

section \<open>Data tiles\<close>

record StaticTileLeaf =
  tl_timestamped_entry :: TimestampedEntryV1
  tl_pre_certificate :: "bytes option"
  tl_certificate_chain :: "hash list"

fun is_precertificate :: "SignedEntryV1 \<Rightarrow> bool" where
  "is_precertificate (Precertificate issuer_key_hash tbs_certificate) \<longleftrightarrow> True"
| "is_precertificate (X509 certificate) \<longleftrightarrow> False"

definition tile_leaf_encode :: "StaticTileLeaf \<Rightarrow> ct_error + bytes" where
  "tile_leaf_encode leaf =
     (if is_precertificate (te_signed_entry (tl_timestamped_entry leaf)) \<noteq> (tl_pre_certificate leaf \<noteq> None)
      then Inl (CtError ''Static CT pre_certificate presence does not match entry type'') else
      bindE (timestamped_entry_encode (tl_timestamped_entry leaf)) (\<lambda>output.
      bindE (case tl_pre_certificate leaf of
               Some pre_certificate \<Rightarrow> push_vector_u24 output pre_certificate 1 | None \<Rightarrow> Inr output) (\<lambda>output.
      push_vector_u16 output (concat (tl_certificate_chain leaf)) 0)))"

definition tile_leaf_decode_from :: "Reader \<Rightarrow> ct_error + StaticTileLeaf \<times> Reader" where
  "tile_leaf_decode_from r =
     bindE (timestamped_entry_decode_from r) (\<lambda>(timestamped_entry, r).
     bindE (if is_precertificate (te_signed_entry timestamped_entry)
            then bindE (reader_vector_u24 1 U24_MAX r) (\<lambda>(bs, r). Inr (Some bs, r))
            else Inr (None, r)) (\<lambda>(pre_certificate, r).
     bindE (reader_vector_u16 0 65535 r) (\<lambda>(fingerprints, r).
     if length fingerprints mod 32 \<noteq> 0
     then Inl (CtError ''Static CT certificate chain fingerprint vector is misaligned'') else
     bindE (collectE (\<lambda>chunk. option_okE (CtError ''Static CT issuer fingerprint must be 32 bytes'') (to_array 32 chunk))
       (chunks_exact 32 fingerprints)) (\<lambda>certificate_chain.
     Inr (\<lparr>tl_timestamped_entry = timestamped_entry, tl_pre_certificate = pre_certificate,
           tl_certificate_chain = certificate_chain\<rparr>, r)))))"

fun encode_data_tile_loop :: "StaticTileLeaf list \<Rightarrow> bytes \<Rightarrow> ct_error + bytes" where
  "encode_data_tile_loop [] output = Inr output"
| "encode_data_tile_loop (leaf # leaves) output =
     bindE (tile_leaf_encode leaf) (\<lambda>bs. encode_data_tile_loop leaves (output @ bs))"

definition encode_data_tile :: "StaticTileLeaf list \<Rightarrow> ct_error + bytes" where
  "encode_data_tile leaves =
     (if leaves = [] \<or> length leaves > TILE_WIDTH
      then Inl (CtError ''Static CT data tile width must be between 1 and 256'')
      else encode_data_tile_loop leaves [])"

fun decode_data_tile_loop :: "nat \<Rightarrow> Reader \<Rightarrow> StaticTileLeaf list \<Rightarrow> ct_error + StaticTileLeaf list \<times> Reader" where
  "decode_data_tile_loop 0 r leaves = Inr (leaves, r)"
| "decode_data_tile_loop (Suc n) r leaves =
     bindE (tile_leaf_decode_from r) (\<lambda>(leaf, r). decode_data_tile_loop n r (leaves @ [leaf]))"

definition decode_data_tile :: "bytes \<Rightarrow> nat \<Rightarrow> ct_error + StaticTileLeaf list" where
  "decode_data_tile bs expected_width =
     (if \<not> (1 \<le> expected_width \<and> expected_width \<le> TILE_WIDTH)
      then Inl (CtError ''Static CT data tile expected width is invalid'') else
      bindE (decode_data_tile_loop expected_width (reader_new bs) []) (\<lambda>(leaves, r).
      bindE (reader_finish r) (\<lambda>u. Inr leaves)))"

section \<open>Tiles as codecs\<close>

lemma collect_arrays:
  "collectE (\<lambda>chunk. option_okE e (to_array n chunk)) cs = Inr hs \<longleftrightarrow> hs = cs \<and> (\<forall>c \<in> set cs. length c = n)"
  by (induction cs arbitrary: hs) (auto simp: result_simps)

lemma collect_chunks:
  assumes "length bs mod 32 = 0"
  shows "collectE (\<lambda>chunk. option_okE e (to_array 32 chunk)) (chunks_exact 32 bs) = Inr hs \<longleftrightarrow>
    (\<forall>h \<in> set hs. length h = 32) \<and> bs = concat hs"
  using chunks_exact_iff [of 32 bs hs] length_chunks_exact [of 32 bs] assms
  by (auto simp: collect_arrays mod_eq_0_iff_dvd)

lemma length_concat_hashes: "\<forall>h \<in> set hs. length h = n \<Longrightarrow> length (concat hs) = length hs * n"
  by (induction hs) auto

text \<open>
  \<open>decode_hash_tile\<close> returns the hashes of a tile exactly when the tile is their encoding
  and has the expected width.
\<close>

theorem hash_tile_canonical:
  "decode_hash_tile bs width = Inr hashes \<longleftrightarrow>
     length hashes = width \<and> list_all is_hash hashes \<and> encode_hash_tile hashes = Inr bs"
proof (cases "length bs = width * 32")
  case True
  then show ?thesis
    using length_concat_hashes [of hashes 32]
    by (cases hashes) (auto simp: decode_hash_tile_def encode_hash_tile_def collect_chunks is_hash_def list_all_iff)
next
  case False
  then show ?thesis
    using length_concat_hashes [of hashes 32] by (auto simp: decode_hash_tile_def encode_hash_tile_def is_hash_def list_all_iff split: if_splits)
qed

definition tile_leaf_ok :: "StaticTileLeaf \<Rightarrow> bool" where
  "tile_leaf_ok leaf \<longleftrightarrow>
     timestamped_entry_ok (tl_timestamped_entry leaf) \<and> (\<forall>h \<in> set (tl_certificate_chain leaf). length h = 32)"

text \<open>The optional precertificate and the fingerprint chain as fields of their own.\<close>

definition get_pre :: "bool \<Rightarrow> Reader \<Rightarrow> ct_error + bytes option \<times> Reader" where
  "get_pre present r =
     (if present then bindE (reader_vector_u24 1 U24_MAX r) (\<lambda>(bs, r). Inr (Some bs, r)) else Inr (None, r))"

definition get_chain :: "Reader \<Rightarrow> ct_error + hash list \<times> Reader" where
  "get_chain r =
     bindE (reader_vector_u16 0 65535 r) (\<lambda>(fingerprints, r).
     if length fingerprints mod 32 \<noteq> 0
     then Inl (CtError ''Static CT certificate chain fingerprint vector is misaligned'') else
     bindE (collectE (\<lambda>chunk. option_okE (CtError ''Static CT issuer fingerprint must be 32 bytes'') (to_array 32 chunk))
       (chunks_exact 32 fingerprints)) (\<lambda>chain. Inr (chain, r)))"

lemma get_pre_iff:
  "get_pre True r = Inr (pre, r') \<longleftrightarrow> (\<exists>c. pre = Some c \<and> reader_vector_u24 1 U24_MAX r = Inr (c, r'))"
  "get_pre False r = Inr (pre, r') \<longleftrightarrow> pre = None \<and> r' = r"
  by (auto simp: get_pre_def bindE_eq_Inr)

lemma get_chain_iff:
  "get_chain r = Inr (chain, r') \<longleftrightarrow>
     (\<forall>h \<in> set chain. length h = 32) \<and> length (concat chain) \<le> 65535 \<and>
     reads r (be_bytes 2 (length (concat chain)) @ concat chain) r'"
proof -
  let ?all = "\<lambda>fp. collectE (\<lambda>chunk. option_okE (CtError ''Static CT issuer fingerprint must be 32 bytes'')
      (to_array 32 chunk)) (chunks_exact 32 fp) = Inr chain"
  have "get_chain r = Inr (chain, r') \<longleftrightarrow>
      (\<exists>fp. reader_vector_u16 0 65535 r = Inr (fp, r') \<and> length fp mod 32 = 0 \<and> ?all fp)"
    by (auto simp: get_chain_def bindE_eq_Inr if_eq_Inr)
  also have "\<dots> \<longleftrightarrow> (\<exists>fp. reader_vector_u16 0 65535 r = Inr (fp, r') \<and> length fp mod 32 = 0 \<and>
      (\<forall>h \<in> set chain. length h = 32) \<and> fp = concat chain)"
    by (intro ex_cong1 conj_cong refl collect_chunks)
  also have "\<dots> \<longleftrightarrow> (\<forall>h \<in> set chain. length h = 32) \<and> reader_vector_u16 0 65535 r = Inr (concat chain, r')"
    using length_concat_hashes [of chain 32] by auto
  finally show ?thesis by (auto simp: reader_vector_u16_iff)
qed

lemma tile_leaf_decode_fields:
  "tile_leaf_decode_from r =
     bindE (timestamped_entry_decode_from r) (\<lambda>(e, r).
     bindE (get_pre (is_precertificate (te_signed_entry e)) r) (\<lambda>(pre, r).
     bindE (get_chain r) (\<lambda>(chain, r).
     Inr (\<lparr>tl_timestamped_entry = e, tl_pre_certificate = pre, tl_certificate_chain = chain\<rparr>, r))))"
  unfolding tile_leaf_decode_from_def get_pre_def get_chain_def
  by (auto simp: bindE_assoc bindE_if split_beta intro!: bindE_cong)

interpretation tl: wire_codec tile_leaf_encode tile_leaf_decode_from tile_leaf_ok
proof
  fix r x r'
  obtain e pre chain where x: "x = \<lparr>tl_timestamped_entry = e, tl_pre_certificate = pre, tl_certificate_chain = chain\<rparr>"
    by (cases x) auto
  have dec: "tile_leaf_decode_from r = Inr (x, r') \<longleftrightarrow>
    (\<exists>r1 r2. timestamped_entry_decode_from r = Inr (e, r1) \<and>
      get_pre (is_precertificate (te_signed_entry e)) r1 = Inr (pre, r2) \<and> get_chain r2 = Inr (chain, r'))"
    unfolding tile_leaf_decode_fields x by (auto simp: bindE_eq_Inr)
  show "tile_leaf_decode_from r = Inr (x, r') \<longleftrightarrow> tile_leaf_ok x \<and> (\<exists>bs. tile_leaf_encode x = Inr bs \<and> reads r bs r')"
    unfolding dec get_chain_iff
    by (cases pre; cases "is_precertificate (te_signed_entry e)")
      (simp_all add: x tile_leaf_encode_def tile_leaf_ok_def wire_simps result_simps get_pre_iff
        te.get_rule te.put_rule, blast+)
qed

lemma encode_data_tile_loop_append:
  "encode_data_tile_loop leaves out = Inr out' \<longleftrightarrow>
     (\<exists>bs. encode_data_tile_loop leaves [] = Inr bs \<and> out' = out @ bs)"
proof (induction leaves arbitrary: out out')
  case (Cons leaf leaves)
  have out: "encode_data_tile_loop leaves (out @ bs) = Inr out' \<longleftrightarrow>
      (\<exists>rest. encode_data_tile_loop leaves [] = Inr rest \<and> out' = out @ bs @ rest)" for bs
    using Cons.IH [of "out @ bs" out'] by simp
  have new: "encode_data_tile_loop leaves bs = Inr all \<longleftrightarrow>
      (\<exists>rest. encode_data_tile_loop leaves [] = Inr rest \<and> all = bs @ rest)" for bs all
    by (rule Cons.IH)
  show ?case
    unfolding encode_data_tile_loop.simps bindE_eq_Inr append_Nil out using new by blast
qed auto

lemma encode_data_tile_loop_Cons:
  "encode_data_tile_loop (leaf # leaves) [] = Inr out \<longleftrightarrow>
     (\<exists>bs rest. tile_leaf_encode leaf = Inr bs \<and> encode_data_tile_loop leaves [] = Inr rest \<and> out = bs @ rest)"
proof -
  have "encode_data_tile_loop leaves bs = Inr out \<longleftrightarrow>
      (\<exists>rest. encode_data_tile_loop leaves [] = Inr rest \<and> out = bs @ rest)" for bs
    by (rule encode_data_tile_loop_append)
  then show ?thesis unfolding encode_data_tile_loop.simps bindE_eq_Inr append_Nil by blast
qed

lemma decode_data_tile_loop_iff:
  "offset r \<le> length (input r) \<Longrightarrow> offset r < 2 ^ 64 \<Longrightarrow>
   decode_data_tile_loop n r acc = Inr (ys, r') \<longleftrightarrow>
     (\<exists>xs bs. ys = acc @ xs \<and> length xs = n \<and> list_all tile_leaf_ok xs \<and>
        encode_data_tile_loop xs [] = Inr bs \<and> reads r bs r')"
proof (induction n arbitrary: r acc)
  case 0
  then show ?case by (auto simp: reads_def slice_def)
next
  case (Suc n)
  have IH: "decode_data_tile_loop n m (acc @ [x]) = Inr (ys, r') \<longleftrightarrow>
      (\<exists>xs bs. ys = acc @ x # xs \<and> length xs = n \<and> list_all tile_leaf_ok xs \<and>
         encode_data_tile_loop xs [] = Inr bs \<and> reads m bs r')" if "reads r as m" for as m x
    using Suc.IH [of m "acc @ [x]"] that by (auto simp: reads_def)
  have "decode_data_tile_loop (Suc n) r acc = Inr (ys, r') \<longleftrightarrow>
      (\<exists>x as m. tile_leaf_ok x \<and> tile_leaf_encode x = Inr as \<and> reads r as m \<and>
         decode_data_tile_loop n m (acc @ [x]) = Inr (ys, r'))"
    by (auto simp: bindE_eq_Inr tl.get_iff)
  also have "\<dots> \<longleftrightarrow> (\<exists>x as m xs bs. tile_leaf_ok x \<and> tile_leaf_encode x = Inr as \<and> reads r as m \<and>
         ys = acc @ x # xs \<and> length xs = n \<and> list_all tile_leaf_ok xs \<and>
         encode_data_tile_loop xs [] = Inr bs \<and> reads m bs r')"
    using IH by blast
  also have "\<dots> \<longleftrightarrow> (\<exists>x xs as bs. ys = acc @ x # xs \<and> length xs = n \<and> list_all tile_leaf_ok (x # xs) \<and>
         tile_leaf_encode x = Inr as \<and> encode_data_tile_loop xs [] = Inr bs \<and> reads r (as @ bs) r')"
    unfolding reads_append list.pred_inject by blast
  also have "\<dots> \<longleftrightarrow> (\<exists>x xs bs. ys = acc @ x # xs \<and> length xs = n \<and> list_all tile_leaf_ok (x # xs) \<and>
         encode_data_tile_loop (x # xs) [] = Inr bs \<and> reads r bs r')"
    unfolding encode_data_tile_loop_Cons by blast
  also have "\<dots> \<longleftrightarrow> (\<exists>xs bs. ys = acc @ xs \<and> length xs = Suc n \<and> list_all tile_leaf_ok xs \<and>
         encode_data_tile_loop xs [] = Inr bs \<and> reads r bs r')"
    unfolding length_Suc_conv by blast
  finally show ?case .
qed

text \<open>
  C20.  \<open>decode_data_tile\<close> returns the leaves of a tile exactly when the tile is their encoding and
  has the expected width.
\<close>

theorem data_tile_canonical:
  assumes "length bs < 2 ^ 64"
  shows "decode_data_tile bs width = Inr leaves \<longleftrightarrow>
    length leaves = width \<and> list_all tile_leaf_ok leaves \<and> encode_data_tile leaves = Inr bs"
proof (cases "1 \<le> width \<and> width \<le> TILE_WIDTH")
  case True
  have whole: "(\<exists>r. reads (reader_new bs) w r \<and> reader_finish r = Inr ()) \<longleftrightarrow> w = bs" for w
    using assms by (simp add: reads_whole)
  have "decode_data_tile bs width = Inr leaves \<longleftrightarrow>
      (\<exists>r. decode_data_tile_loop width (reader_new bs) [] = Inr (leaves, r) \<and> reader_finish r = Inr ())"
    using True by (auto simp: decode_data_tile_def bindE_eq_Inr)
  also have "\<dots> \<longleftrightarrow> length leaves = width \<and> list_all tile_leaf_ok leaves \<and> (\<exists>w.
      encode_data_tile_loop leaves [] = Inr w \<and> (\<exists>r. reads (reader_new bs) w r \<and> reader_finish r = Inr ()))"
    using decode_data_tile_loop_iff [of "reader_new bs" width "[]" leaves] by (auto simp: reader_new_def)
  finally show ?thesis
    unfolding whole using True by (auto simp: encode_data_tile_def)
next
  case False
  then show ?thesis by (cases leaves) (auto simp: decode_data_tile_def encode_data_tile_def)
qed

theorem data_tile_canonical_witness:
  "let leaf = \<lparr>tl_timestamped_entry = \<lparr>te_timestamp = 3, te_signed_entry = X509 [0x30, 1], te_extensions = []\<rparr>,
               tl_pre_certificate = None, tl_certificate_chain = [replicate 32 6]\<rparr>
   in \<exists>bs. encode_data_tile [leaf, leaf] = Inr bs \<and> length bs = 102 \<and> decode_data_tile bs 2 = Inr [leaf, leaf]"
proof -
  let ?leaf = "\<lparr>tl_timestamped_entry = \<lparr>te_timestamp = 3, te_signed_entry = X509 [0x30, 1], te_extensions = []\<rparr>,
               tl_pre_certificate = None, tl_certificate_chain = [replicate 32 6]\<rparr>"
  obtain bs where bs: "encode_data_tile [?leaf, ?leaf] = Inr bs" "length bs = 102"
    by (simp add: encode_data_tile_def tile_leaf_encode_def timestamped_entry_encode_def push_vector_u16_def
        push_vector_u24_def push_u24_def U24_MAX_def)
  with data_tile_canonical [of bs 2 "[?leaf, ?leaf]"] show ?thesis
    by (simp add: Let_def tile_leaf_ok_def timestamped_entry_ok_def)
qed

section \<open>The leaf-index extension\<close>

text \<open>What the loop computes on a concatenation of well-formed extensions.\<close>

definition ct_extension :: "u8 \<times> bytes \<Rightarrow> bytes" where
  "ct_extension = (\<lambda>(ty, data). [ty] @ be_bytes 2 (length data) @ data)"

fun find_leaf_index :: "(u8 \<times> bytes) list \<Rightarrow> u64 option \<Rightarrow> ct_error + u64 option" where
  "find_leaf_index [] found = Inr found"
| "find_leaf_index ((ty, data) # exts) found =
     (if ty = LEAF_INDEX_EXTENSION_TYPE then
        if found \<noteq> None \<or> length data \<noteq> 5
        then Inl (CtError ''invalid or duplicate Static CT leaf_index extension'')
        else find_leaf_index exts (Some (word_from_be data))
      else find_leaf_index exts found)"

lemma reader_u40_whole:
  assumes "length data = 5"
  shows "\<exists>r. reader_u40 (reader_new data) = Inr (word_from_be data, r) \<and> reader_finish r = Inr ()"
proof -
  have less: "be_nat data < 2 ^ 40" using be_nat_less [of data] assms by simp
  then have unat: "unat (word_from_be data :: u64) = be_nat data" by (simp add: word_from_be_def unat_of_nat)
  have "be_bytes 5 (be_nat data) = data" using assms by (rule be_bytes_be_nat')
  with unat less have "reader_u40 (reader_new data) = Inr (word_from_be data, \<lparr>input = data, offset = 5\<rparr>)"
    using assms by (simp add: reader_u40_iff reads_new)
  then show ?thesis using assms by (auto simp: reader_finish_iff)
qed

lemma parse_leaf_index_loop_exts:
  "reader_valid r \<Longrightarrow> reader_rest r = concat (map ct_extension exts) \<Longrightarrow>
   \<forall>(ty, data) \<in> set exts. length data \<le> 65535 \<Longrightarrow>
   parse_leaf_index_loop r found = find_leaf_index exts found"
proof (induction exts arbitrary: r found)
  case Nil
  then have "reader_is_empty r" by (simp add: reader_is_empty_def reader_remaining_def reader_rest_def)
  then show ?case by (simp add: parse_leaf_index_loop.simps)
next
  case (Cons e exts)
  obtain ty data where e: "e = (ty, data)" by (cases e)
  let ?rest = "concat (map ct_extension exts)" and ?frame = "be_bytes 2 (length data) @ data"
  have ne: "\<not> reader_is_empty r"
    using Cons.prems(2) by (auto simp: e ct_extension_def reader_is_empty_def reader_remaining_def reader_rest_def)
  let ?r1 = "advance r [ty]" and ?r2 = "advance (advance r [ty]) ?frame"
  have rest: "reader_rest r = [ty] @ ?frame @ ?rest" using Cons.prems(2) by (simp add: e ct_extension_def)
  then have read1: "reads r [ty] ?r1" using Cons.prems(1) reads_rest(1) by blast
  from reads_rest(2) [OF Cons.prems(1) read1] rest
  have v1: "reader_valid ?r1" "reader_rest ?r1 = ?frame @ ?rest" by auto
  then have read2: "reads ?r1 ?frame ?r2" using reads_rest(1) by blast
  from reads_rest(2) [OF v1(1) read2] v1(2)
  have v2: "reader_valid ?r2" "reader_rest ?r2 = ?rest" by auto
  have step: "reader_u8 r = Inr (ty, ?r1)" "reader_vector_u16 0 65535 ?r1 = Inr (data, ?r2)"
    using read1 read2 Cons.prems(3) by (auto simp: reader_u8_iff reader_vector_u16_iff e)
  have IH: "parse_leaf_index_loop ?r2 found = find_leaf_index exts found" for found
    using Cons.IH [OF v2] Cons.prems(3) by simp
  show ?case
    using ne step IH reader_u40_whole [of data]
    by (subst parse_leaf_index_loop.simps) (auto simp: e)
qed

lemma find_leaf_index_skip:
  "\<forall>(ty, data) \<in> set exts. ty \<noteq> LEAF_INDEX_EXTENSION_TYPE \<Longrightarrow>
   find_leaf_index (exts @ others) found = find_leaf_index others found"
  by (induction exts) auto

text \<open>
  The leaf index written by \<open>leaf_index_extension\<close> is read back by
  \<open>parse_leaf_index_extension\<close>, also between any other well-formed extensions.
\<close>

theorem leaf_index_roundtrip:
  assumes "leaf_index_extension i = Inr bs"
    and "\<forall>(ty, data) \<in> set pre \<union> set post. ty \<noteq> LEAF_INDEX_EXTENSION_TYPE \<and> length data \<le> 65535"
    and "all = concat (map ct_extension pre) @ bs @ concat (map ct_extension post)" "length all < 2 ^ 64"
  shows "parse_leaf_index_extension all = Inr i"
proof -
  let ?e = "(LEAF_INDEX_EXTENSION_TYPE, be_bytes 5 (unat i))"
  have i: "unat i < 2 ^ 40" and bs: "bs = [LEAF_INDEX_EXTENSION_TYPE, 0, 5] @ be_bytes 5 (unat i)"
    using assms(1) by (auto simp: leaf_index_extension_def push_u40_iff)
  have five: "be_bytes 2 5 = [0, 5]" by (simp add: numeral_2_eq_2)
  have all: "all = concat (map ct_extension (pre @ ?e # post))"
    using assms(3) bs five by (simp add: ct_extension_def)
  have "(word_from_be (be_bytes 5 (unat i)) :: u64) = i"
    using i by (simp add: word_from_be_def be_nat_be_bytes)
  moreover have "\<forall>(ty, data) \<in> set pre. ty \<noteq> LEAF_INDEX_EXTENSION_TYPE"
    "\<forall>(ty, data) \<in> set post. ty \<noteq> LEAF_INDEX_EXTENSION_TYPE"
    using assms(2) by auto
  ultimately have "find_leaf_index (pre @ ?e # post) None = Inr (Some i)"
    using find_leaf_index_skip [of pre "?e # post" None] find_leaf_index_skip [of post "[]" "Some i"] by auto
  moreover have "parse_leaf_index_loop (reader_new all) None = find_leaf_index (pre @ ?e # post) None"
    using assms(2,4) by (intro parse_leaf_index_loop_exts) (auto simp: reader_valid_def reader_rest_def reader_new_def all)
  ultimately show ?thesis by (simp add: parse_leaf_index_extension_def)
qed

theorem leaf_index_roundtrip_witness:
  "\<exists>bs. leaf_index_extension 7 = Inr bs \<and>
     parse_leaf_index_extension (concat (map ct_extension [(2, [1, 2])]) @ bs @ concat (map ct_extension [])) = Inr 7"
proof -
  obtain bs where bs: "leaf_index_extension 7 = Inr bs" "length bs = 8"
    by (simp add: leaf_index_extension_def push_u40_def push_bit_eq_mult)
  then show ?thesis
    using leaf_index_roundtrip [of 7 bs "[(2, [1, 2])]" "[]"] by (auto simp: ct_extension_def)
qed

section \<open>Tile paths are canonical\<close>

lemma slices_chunks:
  "length xs = 3 * m \<Longrightarrow> map (\<lambda>k. slice (3 * k) (3 * k + 3) xs) [0..<m] = chunks_exact 3 xs"
proof (induction m arbitrary: xs)
  case 0
  then show ?case by (simp add: chunks_exact_short)
next
  case (Suc m)
  have "slice (3 * Suc k) (3 * Suc k + 3) xs = slice (3 * k) (3 * k + 3) (drop 3 xs)" for k
    by (simp add: slice_def add.commute)
  then have "map (\<lambda>k. slice (3 * k) (3 * k + 3) xs) [0..<Suc m] =
      take 3 xs # map (\<lambda>k. slice (3 * k) (3 * k + 3) (drop 3 xs)) [0..<m]"
    by (simp add: upt_conv_Cons map_Suc_upt [symmetric] comp_def slice_def del: upt_Suc)
  with Suc show ?case by (subst chunks_exact.simps) simp
qed

lemma mark_groups:
  "map (\<lambda>(position, g). if position = length (gs @ [g']) - 1 then g else ''x'' @ g) (enumerate 0 (gs @ [g'])) =
   map ((@) ''x'') gs @ [g']"
proof -
  have "map (\<lambda>(position, g). if position = length gs then g else ''x'' @ g) (enumerate 0 gs) = map ((@) ''x'') gs"
    by (rule nth_equalityI) (auto simp: nth_enumerate_eq)
  then show ?thesis by (simp add: enumerate_append_eq)
qed

lemma tile_groups:
  obtains gs g where "render_tile_index i = str_join ''/'' (map ((@) ''x'') gs @ [g])"
    "\<forall>h \<in> set (gs @ [g]). length h = 3 \<and> list_all is_ascii_digit h" "dec_value (concat (gs @ [g])) = unat i"
proof -
  let ?d = "dec_string (unat i)"
  let ?l = "div_ceil (length ?d) 3 * 3"
  let ?p = "dec_padded ?l (unat i)"
  have d: "0 < length ?d" by simp
  then have "length ?d \<le> ?l" "0 < div_ceil (length ?d) 3" unfolding div_ceil_def by linarith+
  then have len: "length ?p = 3 * div_ceil (length ?d) 3" and "0 < div_ceil (length ?d) 3" by simp_all
  then have m: "div_ceil (length ?p) 3 = div_ceil (length ?d) 3" by (simp add: div_ceil_def)
  have "length (chunks_exact 3 ?p) = div_ceil (length ?d) 3"
    using arg_cong [OF slices_chunks [OF len], of length] by simp
  then have "chunks_exact 3 ?p \<noteq> []" using \<open>0 < div_ceil (length ?d) 3\<close> by auto
  then obtain gs g where gs: "chunks_exact 3 ?p = gs @ [g]" by (metis append_butlast_last_id)
  have groups: "map (\<lambda>k. slice (3 * k) (3 * k + 3) ?p) [0..<div_ceil (length ?p) 3] = gs @ [g]"
    unfolding m slices_chunks [OF len] gs ..
  have "render_tile_index i = str_join ''/'' (map ((@) ''x'') gs @ [g])"
    unfolding render_tile_index_def Let_def groups mark_groups ..
  moreover have cat: "concat (gs @ [g]) = ?p"
    using concat_chunks_exact [of 3 ?p] len unfolding gs by simp
  moreover have "\<forall>h \<in> set (gs @ [g]). length h = 3" using length_chunks_exact [of 3 ?p] unfolding gs .
  moreover have "list_all is_ascii_digit h" if "h \<in> set (gs @ [g])" for h
  proof -
    have "set h \<subseteq> set (concat (gs @ [g]))" using that by auto
    then show ?thesis using dec_padded_simps(2) [of ?l "unat i"] unfolding cat list_all_iff by blast
  qed
  ultimately show ?thesis using that by simp
qed

lemma parse_tile_groups_marked:
  "\<forall>h \<in> set (gs @ [g]). length h = 3 \<and> list_all is_ascii_digit h \<Longrightarrow>
   parse_tile_groups (map ((@) ''x'') gs @ [g]) decimal = Inr (decimal @ concat (gs @ [g]))"
proof (induction gs arbitrary: decimal)
  case (Cons h gs)
  have "strip_prefix ''x'' (''x'' @ h) = Some h" by (rule strip_prefix_append)
  with Cons show ?case by simp
qed simp

lemma parse_tile_index_marked:
  assumes "\<forall>h \<in> set (gs @ [g]). length h = 3 \<and> list_all is_ascii_digit h" "dec_value (concat (gs @ [g])) = unat i"
  shows "parse_tile_index (map ((@) ''x'') gs @ [g]) = Inr i"
proof -
  have digits: "list_all is_ascii_digit (concat (gs @ [g]))" using assms(1) by (auto simp: list_all_iff)
  have ne: "concat (gs @ [g]) \<noteq> []" using assms(1) by auto
  have "unat i < 2 ^ 64" using unsigned_less [of i, where ?'a = nat] by simp
  then have "parse_unsigned (2 ^ 64) (concat (gs @ [g])) = Some (unat i)"
    unfolding parse_unsigned_digits [OF digits ne] assms(2) by simp
  then show ?thesis
    by (simp add: parse_tile_index_def parse_tile_groups_marked [OF assms(1)] del: concat_append)
qed

lemma parse_decimal_u8: "parse_canonical_decimal_u8 (dec_string (unat w)) = Inr w"
  using dec_string_canonical [of "unat w"] dec_string_digits [of "unat w"] u8_less [of w]
  by (auto simp: parse_canonical_decimal_u8_def parse_unsigned_digits)

text \<open>The components of a rendered path contain no slash and, but for the marker, do not end in \<open>.p\<close>.\<close>

lemma digits_plain:
  assumes "list_all is_ascii_digit s" "s \<noteq> []"
  shows "CHR ''/'' \<notin> set s" "\<not> suffix ''.p'' (t @ s)" "\<not> suffix ''/'' (t @ s)"
proof -
  obtain u c where s: "s = u @ [c]" using assms(2) by (metis append_butlast_last_id)
  with assms(1) have c: "is_ascii_digit c" by simp
  then have "c \<noteq> CHR ''p''" "c \<noteq> CHR ''/''" by (auto simp: is_ascii_digit_def)
  then show "\<not> suffix ''.p'' (t @ s)" "\<not> suffix ''/'' (t @ s)"
    by (auto simp: s suffix_def dest: arg_cong [where f = rev])
  show "CHR ''/'' \<notin> set s" using assms(1) by (auto simp: list_all_iff is_ascii_digit_def)
qed

definition kind_string :: "TileKind \<Rightarrow> string" where
  "kind_string kind = (case kind of Hashes level \<Rightarrow> dec_string (unat level) | Data \<Rightarrow> ''data'')"

lemma kind_string_plain: "CHR ''/'' \<notin> set (kind_string k)" "\<not> suffix ''.p'' (kind_string k)"
proof -
  have dec: "CHR ''/'' \<notin> set (dec_string n)" "\<not> suffix ''.p'' (dec_string n)" for n
    using digits_plain(1) [of "dec_string n"] digits_plain(2) [of "dec_string n" "[]"] dec_string_digits [of n] by auto
  show "CHR ''/'' \<notin> set (kind_string k)" "\<not> suffix ''.p'' (kind_string k)"
    using dec by (auto simp: kind_string_def suffix_def split: TileKind.splits dest: arg_cong [where f = rev])
qed

lemma parse_partial_components:
  assumes "\<forall>h \<in> set (gs @ [g]). length h = 3 \<and> list_all is_ascii_digit h" "w \<noteq> Some 0"
    and "cs = [''tile'', kind_string k] @ map ((@) ''x'') gs @
           (case w of None \<Rightarrow> [g] | Some v \<Rightarrow> [g @ ''.p'', dec_string (unat v)])"
  shows "parse_partial cs = Inr (map ((@) ''x'') gs @ [g], w)"
proof -
  have ne: "h \<noteq> []" "list_all is_ascii_digit h" if "h \<in> set (gs @ [g])" for h using assms(1) that by auto
  have plain: "\<forall>c \<in> set ([''tile'', kind_string k] @ map ((@) ''x'') gs). \<not> suffix ''.p'' c"
  proof -
    have "\<not> suffix ''.p'' (''x'' @ h)" if "h \<in> set gs" for h
      using that ne [of h] by (intro digits_plain(2)) auto
    moreover have "\<not> suffix ''.p'' ''tile''" by (auto simp: suffix_def dest: arg_cong [where f = rev])
    ultimately show ?thesis using kind_string_plain(2) by auto
  qed
  show ?thesis
  proof (cases w)
    case None
    have "position (suffix ''.p'') cs = None"
      unfolding position_None using plain digits_plain(2) [of g "[]"] ne [of g] by (auto simp: assms(3) None)
    then show ?thesis by (simp add: parse_partial_def assms(3) None)
  next
    case (Some v)
    let ?pre = "[''tile'', kind_string k] @ map ((@) ''x'') gs"
    have cs: "cs = ?pre @ (g @ ''.p'') # [dec_string (unat v)]" by (simp add: assms(3) Some)
    have pos: "position (suffix ''.p'') cs = Some (length ?pre)"
      unfolding cs using plain by (intro position_append) (auto simp: suffixI)
    have "cs ! length ?pre = g @ ''.p''" "cs ! (length ?pre + 1) = dec_string (unat v)"
      "slice 2 (length ?pre) cs = map ((@) ''x'') gs" "length cs = length ?pre + 2"
      unfolding cs by (simp_all add: nth_append slice_def)
    moreover have "strip_suffix ''.p'' (g @ ''.p'') = Some g" "suffix ''.p'' (g @ ''.p'')" "g \<noteq> []"
      using ne [of g] by (simp_all add: suffix_def)
    ultimately show ?thesis
      using pos assms(2) by (simp add: parse_partial_def Some parse_decimal_u8 Let_def)
  qed
qed

lemma tile_path_join:
  "''tile/'' @ kind_string k @ ''/'' @ str_join ''/'' (map ((@) ''x'') gs @ [g]) @
     (case w of Some v \<Rightarrow> ''.p/'' @ dec_string (unat v) | None \<Rightarrow> []) =
   str_join ''/'' ([''tile'', kind_string k] @ map ((@) ''x'') gs @
     (case w of None \<Rightarrow> [g] | Some v \<Rightarrow> [g @ ''.p'', dec_string (unat v)]))"
proof (cases w)
  case None
  then show ?thesis using str_join_append [of "[''tile'', kind_string k]" "map ((@) ''x'') gs @ [g]"] by simp
next
  case (Some v)
  have "str_join ''/'' (map ((@) ''x'') gs @ [g @ ''.p'', dec_string (unat v)]) =
      str_join ''/'' (map ((@) ''x'') gs @ [g]) @ ''.p/'' @ dec_string (unat v)"
    using str_join_append [of "map ((@) ''x'') gs @ [g @ ''.p'']" "[dec_string (unat v)]" "''/''"]
      str_join_last [of "''/''" "map ((@) ''x'') gs" g "''.p''"] by simp
  with Some show ?thesis
    using str_join_append [of "[''tile'', kind_string k]" "map ((@) ''x'') gs @ [g @ ''.p'', dec_string (unat v)]"] by simp
qed

lemma tile_path_plain:
  assumes "\<forall>h \<in> set (gs @ [g]). length h = 3 \<and> list_all is_ascii_digit h"
  shows "\<forall>c \<in> set ([''tile'', kind_string k] @ map ((@) ''x'') gs @
    (case w of None \<Rightarrow> [g] | Some v \<Rightarrow> [g @ ''.p'', dec_string (unat v)])). CHR ''/'' \<notin> set c"
proof -
  have "CHR ''/'' \<notin> set h" if "h \<in> set (gs @ [g])" for h
    using assms that by (intro digits_plain(1)) auto
  moreover have "CHR ''/'' \<notin> set (dec_string n)" for n
    using dec_string_digits [of n] by (intro digits_plain(1)) auto
  ultimately show ?thesis using kind_string_plain(1) [of k] by (auto split: option.splits)
qed

lemma tile_path_suffix:
  assumes "\<forall>h \<in> set (gs @ [g]). length h = 3 \<and> list_all is_ascii_digit h"
  shows "\<not> suffix ''/'' (str_join ''/'' ([''tile'', kind_string k] @ map ((@) ''x'') gs @
    (case w of None \<Rightarrow> [g] | Some v \<Rightarrow> [g @ ''.p'', dec_string (unat v)])))"
proof (cases w)
  case None
  let ?a = "str_join ''/'' ([''tile'', kind_string k] @ map ((@) ''x'') gs)"
  have "\<not> suffix ''/'' ((?a @ ''/'') @ g)" using assms by (intro digits_plain(3)) auto
  moreover have "str_join ''/'' (([''tile'', kind_string k] @ map ((@) ''x'') gs) @ [g]) = ?a @ ''/'' @ str_join ''/'' [g]"
    by (rule str_join_append) simp_all
  ultimately show ?thesis using None by simp
next
  case (Some v)
  let ?cs = "[''tile'', kind_string k] @ map ((@) ''x'') gs @ [g @ ''.p'']"
  have "\<not> suffix ''/'' ((str_join ''/'' ?cs @ ''/'') @ dec_string (unat v))"
    using dec_string_digits by (intro digits_plain(3)) auto
  moreover have "str_join ''/'' (?cs @ [dec_string (unat v)]) = str_join ''/'' ?cs @ ''/'' @ str_join ''/'' [dec_string (unat v)]"
    by (rule str_join_append) simp_all
  ultimately show ?thesis using Some by simp
qed

lemma kind_string_data: "dec_string n \<noteq> ''data''"
proof
  assume "dec_string n = ''data''"
  then have "list_all is_ascii_digit ''data''" using dec_string_digits [of n] by simp
  then show False by (simp add: is_ascii_digit_def)
qed

text \<open>
  C21.  \<open>TilePath::parse\<close> accepts exactly the paths \<open>render\<close> produces and returns the rendered
  tile: level, index, partial width and path determine each other.
\<close>

theorem tile_path_canonical: "tile_parse path = Inr tile \<longleftrightarrow> tile_render tile = Inr path"
proof
  assume "tile_parse path = Inr tile"
  then show "tile_render tile = Inr path"
    by (auto simp: tile_parse_def Let_def result_simps split: if_splits)
next
  assume render: "tile_render tile = Inr path"
  obtain k i w where tile: "tile = \<lparr>tile_kind = k, tile_index = i, tile_partial_width = w\<rparr>" by (cases tile)
  obtain gs g where index: "render_tile_index i = str_join ''/'' (map ((@) ''x'') gs @ [g])"
    and gs: "\<forall>h \<in> set (gs @ [g]). length h = 3 \<and> list_all is_ascii_digit h" "dec_value (concat (gs @ [g])) = unat i"
    by (rule tile_groups)
  let ?cs = "[''tile'', kind_string k] @ map ((@) ''x'') gs @
      (case w of None \<Rightarrow> [g] | Some v \<Rightarrow> [g @ ''.p'', dec_string (unat v)])"
  have level: "\<not> (case k of Hashes l \<Rightarrow> l > MAX_TILE_LEVEL | Data \<Rightarrow> False)" and w: "w \<noteq> Some 0"
    and path: "path = ''tile/'' @ kind_string k @ ''/'' @ render_tile_index i @
        (case w of Some v \<Rightarrow> ''.p/'' @ dec_string (unat v) | None \<Rightarrow> [])"
    using render by (auto simp: tile_render_def tile kind_string_def Let_def split: if_splits)
  have join: "path = str_join ''/'' ?cs" unfolding path index by (rule tile_path_join)
  have "\<forall>c \<in> set ?cs. CHR ''/'' \<notin> set c" using gs(1) by (rule tile_path_plain)
  then have split: "str_split (CHR ''/'') path = ?cs" unfolding join by (intro str_split_join) auto
  have kind: "(if kind_string k = ''data'' then Inr Data
      else bindE (parse_canonical_decimal_u8 (kind_string k)) (\<lambda>level.
        if level > MAX_TILE_LEVEL then Inl (CtError ''Static CT tile level exceeds 5'') else Inr (Hashes level))) = Inr k"
    using level kind_string_data by (cases k) (auto simp: kind_string_def parse_decimal_u8)
  have "\<not> prefix ''/'' path" by (simp add: path)
  moreover have "\<not> suffix ''/'' path" unfolding join using gs(1) by (rule tile_path_suffix)
  moreover have "\<not> length ?cs < 3" by (auto split: option.splits)
  ultimately show "tile_parse path = Inr tile"
    using kind parse_partial_components [OF gs(1) w refl, of k] parse_tile_index_marked [OF gs] render
    unfolding tile_parse_def split Let_def by (auto simp: tile split: if_splits)
qed

end
