(* ===== verification/Ct_Checkpoint.thy ===== *)
theory Ct_Checkpoint
  imports Ct_Static
begin

text \<open>
  Static CT checkpoints: \<^verbatim>\<open>crates/oxibelt-ct/src/static_ct.rs\<close>, \<open>StaticCheckpoint\<close> and the functions
  it uses.  A checkpoint is a signed note: three lines of text, an empty line and signature lines.
  SHA-256 and the base64 engine are parameters.
\<close>

section \<open>Checkpoints\<close>

abbreviation RFC6962_NOTE_SIGNATURE_TYPE :: u8 where "RFC6962_NOTE_SIGNATURE_TYPE \<equiv> 5"

record StaticCheckpoint =
  ck_origin :: string
  ck_tree_size :: u64
  ck_root_hash :: hash
  ck_timestamp :: u64
  ck_tree_head_signature :: DigitallySigned

text \<open>The signature line prefix: an em dash in UTF-8 and a space.\<close>

definition SIGNATURE_LINE_PREFIX :: string where
  "SIGNATURE_LINE_PREFIX = [CHR 0xE2, CHR 0x80, CHR 0x94, CHR '' '']"

definition newline :: char where
  "newline = CHR 0x0A"

definition str_bytes :: "string \<Rightarrow> bytes" where
  "str_bytes s = map (\<lambda>c. of_nat (of_char c)) s"

definition checkpoint_text :: "(bytes \<Rightarrow> string) \<Rightarrow> string \<Rightarrow> u64 \<Rightarrow> hash \<Rightarrow> string" where
  "checkpoint_text b64_encode origin tree_size root_hash =
     origin @ [newline] @ dec_string (unat tree_size) @ [newline] @ b64_encode root_hash @ [newline]"

definition checkpoint_key_id :: "(bytes \<Rightarrow> hash) \<Rightarrow> string \<Rightarrow> hash \<Rightarrow> bytes" where
  "checkpoint_key_id sha origin log_id =
     (let digest = sha (str_bytes origin @ [0x0A] @ [RFC6962_NOTE_SIGNATURE_TYPE] @ log_id)
      in [digest ! 0, digest ! 1, digest ! 2, digest ! 3])"

definition forbidden_key_char :: "nat \<Rightarrow> bool" where
  "forbidden_key_char c \<longleftrightarrow> char_is_control c \<or> char_is_whitespace c \<or> c = 0x2B"

definition validate_origin :: "string \<Rightarrow> ct_error + unit" where
  "validate_origin origin =
     (if origin = [] \<or> length origin > 2048 \<or> sublist ''://'' origin \<or> prefix ''/'' origin \<or> suffix ''/'' origin
         \<or> list_ex forbidden_key_char (str_chars origin)
      then Inl (CtError ''Static CT checkpoint origin is not a schema-less URL'') else Inr ())"

definition validate_key_name :: "string \<Rightarrow> ct_error + unit" where
  "validate_key_name key_name =
     (if key_name = [] \<or> list_ex forbidden_key_char (str_chars key_name)
      then Inl (CtError ''Static CT signed-note key name is invalid'') else Inr ())"

definition parse_canonical_u64 :: "string \<Rightarrow> ct_error + u64" where
  "parse_canonical_u64 value =
     (if value = [] \<or> (length value > 1 \<and> prefix ''0'' value) \<or> \<not> list_all is_ascii_digit value
      then Inl (CtError ''Static CT checkpoint size is not canonical decimal'')
      else bindE (option_okE (CtError ''Static CT checkpoint size overflows u64'') (parse_unsigned (2 ^ 64) value)) (\<lambda>n.
        Inr (of_nat n)))"

definition checkpoint_render ::
  "(bytes \<Rightarrow> hash) \<Rightarrow> (bytes \<Rightarrow> string) \<Rightarrow> StaticCheckpoint \<Rightarrow> hash \<Rightarrow> ct_error + string" where
  "checkpoint_render sha b64_encode cp log_id =
     bindE (validate_origin (ck_origin cp)) (\<lambda>u.
     bindE (digitally_signed_encode (ck_tree_head_signature cp)) (\<lambda>tree_head_signature.
     let text = checkpoint_text b64_encode (ck_origin cp) (ck_tree_size cp) (ck_root_hash cp);
         signature = checkpoint_key_id sha (ck_origin cp) log_id @ be_bytes 8 (unat (ck_timestamp cp)) @ tree_head_signature
     in Inr (text @ [newline] @ SIGNATURE_LINE_PREFIX @ ck_origin cp @ '' '' @ b64_encode signature @ [newline])))"

text \<open>\<open>s.lines()\<close>, which also drops a carriage return before the newline.\<close>

definition strip_cr :: "string \<Rightarrow> string" where
  "strip_cr s = (case strip_suffix [CHR 0x0D] s of Some t \<Rightarrow> t | None \<Rightarrow> s)"

definition str_lines :: "string \<Rightarrow> string list" where
  "str_lines s =
     (let parts = str_split newline s
      in map strip_cr (butlast parts) @ (if last parts = [] then [] else [last parts]))"

fun checkpoint_signatures ::
  "(bytes \<Rightarrow> string) \<Rightarrow> (string \<Rightarrow> bytes option) \<Rightarrow> string \<Rightarrow> bytes \<Rightarrow> string list \<Rightarrow> nat \<Rightarrow>
   (u64 \<times> DigitallySigned) option \<Rightarrow> ct_error + (u64 \<times> DigitallySigned) option" where
  "checkpoint_signatures b64_encode b64_decode origin key_id [] count matching = Inr matching"
| "checkpoint_signatures b64_encode b64_decode origin key_id (line # lines) count matching =
     (let count = count + 1 in
      if count > 16 then Inl (CtError ''Static CT checkpoint has too many signatures'') else
      bindE (option_okE (CtError ''invalid Static CT checkpoint signature line'')
        (strip_prefix SIGNATURE_LINE_PREFIX line)) (\<lambda>rest.
      bindE (option_okE (CtError ''invalid Static CT checkpoint signature fields'')
        (split_once (CHR '' '') rest)) (\<lambda>(key_name, encoded).
      if encoded = [] then Inl (CtError ''empty Static CT checkpoint signature field'') else
      bindE (validate_key_name key_name) (\<lambda>u.
      bindE (option_okE (CtError ''Static CT checkpoint signature is not base64'') (b64_decode encoded)) (\<lambda>decoded.
      if b64_encode decoded \<noteq> encoded
      then Inl (CtError ''Static CT checkpoint signature is not canonical base64'') else
      if key_name \<noteq> origin \<or> get_range 0 4 decoded \<noteq> Some key_id
      then checkpoint_signatures b64_encode b64_decode origin key_id lines count matching else
      if matching \<noteq> None then Inl (CtError ''duplicate Static CT RFC 6962 checkpoint signature'') else
      bindE (reader_u64 (reader_new (drop 4 decoded))) (\<lambda>(timestamp, r).
      bindE (digitally_signed_decode_from r) (\<lambda>(tree_head_signature, r).
      bindE (reader_finish r) (\<lambda>u.
      checkpoint_signatures b64_encode b64_decode origin key_id lines count
        (Some (timestamp, tree_head_signature))))))))))"

definition checkpoint_parse ::
  "(bytes \<Rightarrow> hash) \<Rightarrow> (bytes \<Rightarrow> string) \<Rightarrow> (string \<Rightarrow> bytes option) \<Rightarrow> string \<Rightarrow> hash \<Rightarrow>
   ct_error + StaticCheckpoint" where
  "checkpoint_parse sha b64_encode b64_decode s log_id =
     (if length s > 128 * 1024 \<or> \<not> suffix [newline] s
      then Inl (CtError ''Static CT checkpoint is too large or lacks final newline'') else
      if list_ex (\<lambda>c. c < 0x20 \<and> c \<noteq> 0x0A) (str_chars s)
      then Inl (CtError ''Static CT checkpoint contains forbidden control characters'') else
      bindE (option_okE (CtError ''Static CT checkpoint lacks signed-note separator'')
        (str_rfind [newline, newline] s)) (\<lambda>separator.
      let text = take (separator + 1) s;
          signature_block = drop (separator + 2) s;
          text_lines = str_split newline (take (length text - 1) text)
      in
      if length text_lines \<noteq> 3
      then Inl (CtError ''Static CT checkpoint text must have exactly three lines'') else
      let origin = text_lines ! 0 in
      bindE (validate_origin origin) (\<lambda>u.
      bindE (parse_canonical_u64 (text_lines ! 1)) (\<lambda>tree_size.
      bindE (option_okE (CtError ''Static CT checkpoint root is not base64'') (b64_decode (text_lines ! 2))) (\<lambda>root.
      bindE (option_okE (CtError ''Static CT checkpoint root must be 32 bytes'') (to_array 32 root)) (\<lambda>root_hash.
      if checkpoint_text b64_encode origin tree_size root_hash \<noteq> text
      then Inl (CtError ''Static CT checkpoint text is not canonical'') else
      bindE (checkpoint_signatures b64_encode b64_decode origin (checkpoint_key_id sha origin log_id)
        (str_lines signature_block) 0 None) (\<lambda>matching.
      bindE (option_okE (CtError ''Static CT checkpoint lacks the expected log signature'') matching)
        (\<lambda>(timestamp, tree_head_signature).
      Inr \<lparr>ck_origin = origin, ck_tree_size = tree_size, ck_root_hash = root_hash, ck_timestamp = timestamp,
           ck_tree_head_signature = tree_head_signature\<rparr>))))))))"

definition signed_tree_head_input :: "StaticCheckpoint \<Rightarrow> bytes" where
  "signed_tree_head_input cp = encode_sth_signed_input (ck_timestamp cp) (ck_tree_size cp) (ck_root_hash cp)"

section \<open>Rendered checkpoints parse\<close>

lemma parse_u64: "parse_canonical_u64 (dec_string (unat w)) = Inr w"
proof -
  have "unat w < 2 ^ 64" using unsigned_less [of w, where ?'a = nat] by simp
  then show ?thesis
    using dec_string_canonical [of "unat w"] dec_string_digits [of "unat w"]
    by (auto simp: parse_canonical_u64_def parse_unsigned_digits)
qed

text \<open>What is used of the base64 engine: it decodes what it encodes, into printable ASCII.\<close>

definition base64_engine :: "(bytes \<Rightarrow> string) \<Rightarrow> (string \<Rightarrow> bytes option) \<Rightarrow> bool" where
  "base64_engine b64_encode b64_decode \<longleftrightarrow>
     (\<forall>x. b64_decode (b64_encode x) = Some x) \<and>
     (\<forall>x. \<forall>c \<in> set (b64_encode x). 0x21 \<le> (of_char c :: nat) \<and> (of_char c :: nat) < 0x7F) \<and>
     (\<forall>x. x \<noteq> [] \<longrightarrow> b64_encode x \<noteq> [])"

text \<open>A string whose characters are valid has no separator byte in it.\<close>

lemma key_chars_plain:
  assumes "utf8_scalars (map of_char s) = Some cs" "\<not> list_ex forbidden_key_char cs"
  shows "newline \<notin> set s" "CHR '' '' \<notin> set s"
proof -
  have "c \<notin> set s" if "of_char c < (0x80 :: nat)" "forbidden_key_char (of_char c)" for c
  proof
    assume "c \<in> set s"
    then have "of_char c \<in> set (map of_char s :: nat list)" by simp
    from utf8_scalars_ascii_byte [OF assms(1) this that(1)] assms(2) that(2) show False by (auto simp: list_ex_iff)
  qed
  then show "newline \<notin> set s" "CHR '' '' \<notin> set s"
    by (auto simp: newline_def forbidden_key_char_def char_is_control_def char_is_whitespace_def)
qed

lemma str_lines_single:
  assumes "newline \<notin> set s" "s \<noteq> []" "last s \<noteq> CHR 0x0D"
  shows "str_lines (s @ [newline]) = [s]"
proof -
  have "str_split newline (s @ newline # []) = [s, []]" using assms(1) by (simp add: str_split_append)
  moreover have "strip_cr s = s"
    using assms(2,3) by (auto simp: strip_cr_def strip_suffix_def suffix_def)
  ultimately show ?thesis by (simp add: str_lines_def)
qed

lemma base64_nonempty: "base64_engine enc dec \<Longrightarrow> x \<noteq> [] \<Longrightarrow> enc x \<noteq> []"
  by (simp add: base64_engine_def)

lemma base64_decode: "base64_engine enc dec \<Longrightarrow> dec (enc x) = Some x"
  by (simp add: base64_engine_def)

lemma base64_plain:
  assumes "base64_engine enc dec"
  shows "newline \<notin> set (enc x)" "CHR '' '' \<notin> set (enc x)" "CHR 0x0D \<notin> set (enc x)"
    "utf8_scalars (map of_char (enc x)) = Some (map of_char (enc x))"
proof -
  have c: "0x21 \<le> (of_char c :: nat) \<and> (of_char c :: nat) < 0x7F" if "c \<in> set (enc x)" for c
    using assms that by (simp add: base64_engine_def)
  show "newline \<notin> set (enc x)" "CHR '' '' \<notin> set (enc x)" "CHR 0x0D \<notin> set (enc x)"
    using c [of newline] c [of "CHR '' ''"] c [of "CHR 0x0D"] by (auto simp: newline_def)
  show "utf8_scalars (map of_char (enc x)) = Some (map of_char (enc x))"
    using c by (intro utf8_scalars_ascii) fastforce
qed

lemma dec_string_plain:
  "newline \<notin> set (dec_string n)" "utf8_scalars (map of_char (dec_string n)) = Some (map of_char (dec_string n))"
proof -
  have c: "48 \<le> (of_char c :: nat) \<and> (of_char c :: nat) \<le> 57" if "c \<in> set (dec_string n)" for c
    using dec_string_digits [of n] that by (auto simp: list_all_iff is_ascii_digit_def)
  show "newline \<notin> set (dec_string n)" using c [of newline] by (auto simp: newline_def)
  show "utf8_scalars (map of_char (dec_string n)) = Some (map of_char (dec_string n))"
    using c by (intro utf8_scalars_ascii) fastforce
qed

text \<open>The characters of a rendered note: no control character but the newlines.\<close>

definition note_chars :: "string \<Rightarrow> bool" where
  "note_chars s \<longleftrightarrow> (\<exists>cs. utf8_scalars (map of_char s) = Some cs \<and> (\<forall>c \<in> set cs. c < 0x20 \<longrightarrow> c = 0x0A))"

lemma note_chars_append: "note_chars a \<Longrightarrow> note_chars b \<Longrightarrow> note_chars (a @ b)"
  unfolding note_chars_def using utf8_scalars_append by fastforce

lemma note_chars_parts:
  "note_chars [newline]" "note_chars '' ''" "note_chars SIGNATURE_LINE_PREFIX" "note_chars (dec_string n)"
  "base64_engine enc dec \<Longrightarrow> note_chars (enc x)"
proof -
  show "note_chars [newline]" "note_chars '' ''" "note_chars SIGNATURE_LINE_PREFIX"
    by (simp_all add: note_chars_def newline_def utf8_next_def SIGNATURE_LINE_PREFIX_def utf8_cont_def)
  show "note_chars (dec_string n)"
    using dec_string_plain(2) [of n] dec_string_digits [of n]
    by (auto simp: note_chars_def list_all_iff is_ascii_digit_def)
  show "note_chars (enc x)" if "base64_engine enc dec"
    using base64_plain(4) [OF that, of x] that by (fastforce simp: note_chars_def base64_engine_def)
qed

lemma note_chars_origin:
  assumes "utf8_scalars (map of_char s) = Some cs" "\<not> list_ex forbidden_key_char cs"
  shows "note_chars s"
  using assms by (auto simp: note_chars_def list_ex_iff forbidden_key_char_def char_is_control_def)

lemma checkpoint_signature_line:
  assumes engine: "base64_engine enc dec" and origin: "newline \<notin> set origin" "CHR '' '' \<notin> set origin"
    and name: "validate_key_name origin = Inr ()" and sig: "digitally_signed_encode d = Inr ds" and key: "length key_id = 4"
  shows "checkpoint_signatures enc dec origin key_id
      [SIGNATURE_LINE_PREFIX @ origin @ '' '' @ enc (key_id @ be_bytes 8 (unat ts) @ ds)] 0 None = Inr (Some (ts, d))"
proof -
  let ?b = "key_id @ be_bytes 8 (unat ts) @ ds"
  have "?b \<noteq> []" using key by (cases key_id) auto
  then have "enc ?b \<noteq> []" "dec (enc ?b) = Some ?b"
    by (rule base64_nonempty [OF engine]) (rule base64_decode [OF engine])
  moreover have "split_once (CHR '' '') (origin @ '' '' @ enc ?b) = Some (origin, enc ?b)"
    using origin(2) by (simp add: split_once_append)
  moreover have "get_range 0 4 ?b = Some key_id" "drop 4 ?b = be_bytes 8 (unat ts) @ ds"
    using key by (simp_all add: get_range_def slice_def)
  moreover obtain r where "reader_u64 (reader_new (be_bytes 8 (unat ts) @ ds)) = Inr (ts, r)"
      "\<exists>r'. digitally_signed_decode_from r = Inr (d, r') \<and> reader_finish r' = Inr ()"
  proof -
    have "length ds < 2 ^ 17" using digitally_signed_encode_bound [OF sig] .
    then have "reads (reader_new (be_bytes 8 (unat ts) @ ds)) (be_bytes 8 (unat ts) @ ds)
        \<lparr>input = be_bytes 8 (unat ts) @ ds, offset = 8 + length ds\<rparr>"
      by (simp add: reads_new)
    then obtain m where "reads (reader_new (be_bytes 8 (unat ts) @ ds)) (be_bytes 8 (unat ts)) m"
        "reads m ds \<lparr>input = be_bytes 8 (unat ts) @ ds, offset = 8 + length ds\<rparr>"
      unfolding reads_append by blast
    then have "reader_u64 (reader_new (be_bytes 8 (unat ts) @ ds)) = Inr (ts, m)"
      "digitally_signed_decode_from m = Inr (d, \<lparr>input = be_bytes 8 (unat ts) @ ds, offset = 8 + length ds\<rparr>)"
      using sig by (auto simp: reader_u64_iff ds.get_iff)
    then show ?thesis using that [of m] by (auto simp: reader_finish_iff)
  qed
  ultimately show ?thesis
    using name key strip_prefix_append [of SIGNATURE_LINE_PREFIX "origin @ '' '' @ enc ?b"] by auto
qed

lemma checkpoint_line_plain:
  assumes "base64_engine enc dec" "newline \<notin> set origin" "x \<noteq> []"
  shows "newline \<notin> set (SIGNATURE_LINE_PREFIX @ origin @ '' '' @ enc x)"
    "last (SIGNATURE_LINE_PREFIX @ origin @ '' '' @ enc x) \<noteq> CHR 0x0D"
proof -
  have ne: "enc x \<noteq> []" using assms(1,3) by (rule base64_nonempty)
  show "newline \<notin> set (SIGNATURE_LINE_PREFIX @ origin @ '' '' @ enc x)"
    using assms(2) base64_plain(1) [OF assms(1), of x] by (auto simp: SIGNATURE_LINE_PREFIX_def newline_def)
  have "last (enc x) \<in> set (enc x)" using ne by simp
  then have "last (enc x) \<noteq> CHR 0x0D" using base64_plain(3) [OF assms(1), of x] by metis
  then show "last (SIGNATURE_LINE_PREFIX @ origin @ '' '' @ enc x) \<noteq> CHR 0x0D"
    using ne by simp
qed

text \<open>
  C22.  A rendered checkpoint parses back to the same checkpoint, for every digest and every base64
  engine that decodes what it encodes.
\<close>

theorem checkpoint_roundtrip:
  assumes engine: "base64_engine b64_encode b64_decode"
    and root: "is_hash (ck_root_hash cp)"
    and utf8: "utf8_scalars (map of_char (ck_origin cp)) = Some cs"
    and render: "checkpoint_render sha b64_encode cp log_id = Inr s" "length s \<le> 128 * 1024"
  shows "checkpoint_parse sha b64_encode b64_decode s log_id = Inr cp"
proof -
  obtain origin n h ts d where cp: "cp = \<lparr>ck_origin = origin, ck_tree_size = n, ck_root_hash = h, ck_timestamp = ts,
      ck_tree_head_signature = d\<rparr>" by (cases cp)
  from render(1) obtain ds where valid: "validate_origin origin = Inr ()" and ds: "digitally_signed_encode d = Inr ds"
    by (auto simp: checkpoint_render_def cp bindE_eq_Inr)
  let ?key = "checkpoint_key_id sha origin log_id"
  let ?text = "origin @ [newline] @ dec_string (unat n) @ [newline] @ b64_encode h"
  let ?line = "SIGNATURE_LINE_PREFIX @ origin @ '' '' @ b64_encode (?key @ be_bytes 8 (unat ts) @ ds)"
  have s: "s = ?text @ newline # newline # ?line @ [newline]"
    using render(1) valid ds by (simp add: checkpoint_render_def cp checkpoint_text_def Let_def)
  have chars: "str_chars origin = cs" "origin \<noteq> []" "\<not> list_ex forbidden_key_char cs"
    using utf8 valid by (auto simp: str_chars_def cp validate_origin_def split: if_splits)
  have plain: "newline \<notin> set origin" "CHR '' '' \<notin> set origin"
    using key_chars_plain chars(3) utf8 by (auto simp: cp)
  have key: "length ?key = 4" by (simp add: checkpoint_key_id_def Let_def)
  have name: "validate_key_name origin = Inr ()" using chars by (simp add: validate_key_name_def)
  have ne: "?key @ be_bytes 8 (unat ts) @ ds \<noteq> []" using key by (cases ?key) auto
  have line: "newline \<notin> set ?line" "?line \<noteq> []" "last ?line \<noteq> CHR 0x0D"
    by (rule checkpoint_line_plain [OF engine plain(1) ne], simp, rule checkpoint_line_plain [OF engine plain(1) ne])
  have "note_chars (origin @ [newline] @ dec_string (unat n) @ [newline] @ b64_encode h @ [newline] @ [newline] @
      SIGNATURE_LINE_PREFIX @ origin @ '' '' @ b64_encode (?key @ be_bytes 8 (unat ts) @ ds) @ [newline])"
    using note_chars_origin [of origin cs] chars(3) utf8
    by (intro note_chars_append note_chars_parts(1-4) note_chars_parts(5) [OF engine]) (simp_all add: cp)
  then have "note_chars s" by (simp add: s)
  then have ctl: "\<not> list_ex (\<lambda>c. c < 0x20 \<and> c \<noteq> 0x0A) (str_chars s)"
    by (auto simp: note_chars_def str_chars_def list_ex_iff)
  define T L where T: "T = ?text" and L: "L = ?line"
  have s': "s = T @ newline # newline # L @ [newline]" unfolding s T L ..
  have sep: "str_rfind [newline, newline] s = Some (length T)"
    unfolding s' using line [folded L] by (intro str_rfind_pair)
  have cut: "take (Suc (length T)) s = T @ [newline]" "drop (Suc (Suc (length T))) s = L @ [newline]"
    "min (length s) (Suc (length T)) - Suc 0 = length T" "take (length T) s = T"
    unfolding s' by simp_all
  have split: "str_split newline T = [origin, dec_string (unat n), b64_encode h]"
    unfolding T using plain(1) dec_string_plain(1) base64_plain(1) [OF engine] by (simp add: str_split_append str_split_plain)
  have canonical: "checkpoint_text b64_encode origin n h = T @ [newline]" by (simp add: T checkpoint_text_def)
  have small: "\<not> (length s > 128 * 1024 \<or> \<not> suffix [newline] s)"
    using render(2) by (simp add: s' suffix_def)
  have "length h = 32" using root by (simp add: cp is_hash_def)
  then show ?thesis
    unfolding checkpoint_parse_def
    using small ctl valid checkpoint_signature_line [OF engine plain name ds key, of ts, folded L]
    by (simp add: sep cut Let_def split str_lines_single [OF line [folded L]] canonical to_array_def cp
        parse_u64 base64_decode [OF engine] del: checkpoint_signatures.simps)
qed

text \<open>An engine with two letters per byte, and a checkpoint it renders.\<close>

definition nibbles_encode :: "bytes \<Rightarrow> string" where
  "nibbles_encode bs = concat (map (\<lambda>b. [char_of (97 + unat b div 16), char_of (97 + unat b mod 16)]) bs)"

fun nibbles_decode :: "string \<Rightarrow> bytes option" where
  "nibbles_decode [] = Some []"
| "nibbles_decode [c] = None"
| "nibbles_decode (c # d # s) =
     map_option (Cons (of_nat ((of_char c - 97) * 16 + (of_char d - 97)))) (nibbles_decode s)"

lemma nibbles_engine: "base64_engine nibbles_encode nibbles_decode"
proof -
  have hi: "unat b div 16 < 16" and lo: "unat b mod 16 < 16" for b :: u8
    using u8_less [of b] by auto
  have ch: "of_char (char_of (97 + n) :: char) = 97 + n" if "n < 16" for n :: nat
    using that by (simp add: of_char_of)
  have "nibbles_decode (nibbles_encode x) = Some x" for x
  proof (induction x)
    case (Cons b x)
    have "(of_nat ((of_char (char_of (97 + unat b div 16) :: char) - 97) * 16 +
        (of_char (char_of (97 + unat b mod 16) :: char) - 97)) :: u8) = of_nat (unat b)"
      by (simp only: ch [OF hi] ch [OF lo] add_diff_cancel_left' div_mult_mod_eq)
    moreover have "nibbles_encode (b # x) =
        char_of (97 + unat b div 16) # char_of (97 + unat b mod 16) # nibbles_encode x"
      by (simp add: nibbles_encode_def)
    ultimately show ?case using Cons by (simp only: nibbles_decode.simps option.map) simp
  qed (simp add: nibbles_encode_def)
  moreover have "\<forall>c \<in> set (nibbles_encode x). 0x21 \<le> (of_char c :: nat) \<and> (of_char c :: nat) < 0x7F" for x
  proof -
    have "33 \<le> (of_char (char_of (97 + n) :: char) :: nat) \<and> (of_char (char_of (97 + n) :: char) :: nat) < 127"
      if "n < 16" for n :: nat using that unfolding ch [OF that] by simp
    with hi lo show ?thesis unfolding nibbles_encode_def by (auto simp del: of_char_of)
  qed
  moreover have "x \<noteq> [] \<Longrightarrow> nibbles_encode x \<noteq> []" for x
    by (cases x) (simp_all add: nibbles_encode_def)
  ultimately show ?thesis by (simp add: base64_engine_def)
qed

theorem checkpoint_roundtrip_witness:
  "let cp = \<lparr>ck_origin = ''log'', ck_tree_size = 5, ck_root_hash = replicate 32 1, ck_timestamp = 9,
        ck_tree_head_signature = \<lparr>hash_algorithm = 4, signature_algorithm = 3, signature = [0x30]\<rparr>\<rparr>
   in \<exists>s. checkpoint_render (\<lambda>b. replicate 32 0) nibbles_encode cp (replicate 32 2) = Inr s \<and>
        checkpoint_parse (\<lambda>b. replicate 32 0) nibbles_encode nibbles_decode s (replicate 32 2) = Inr cp"
proof -
  let ?cp = "\<lparr>ck_origin = ''log'', ck_tree_size = 5, ck_root_hash = replicate 32 1, ck_timestamp = 9,
        ck_tree_head_signature = \<lparr>hash_algorithm = 4, signature_algorithm = 3, signature = [0x30]\<rparr>\<rparr>"
  have len: "length (nibbles_encode b) = 2 * length b" for b by (induction b) (simp_all add: nibbles_encode_def)
  have origin: "validate_origin ''log'' = Inr ()" "utf8_scalars (map of_char ''log'') = Some [108, 111, 103]"
    by (simp_all add: validate_origin_def str_chars_def utf8_next_def forbidden_key_char_def char_is_control_def
        char_is_whitespace_def sublist_code suffix_def)
  obtain s where s: "checkpoint_render (\<lambda>b. replicate 32 0) nibbles_encode ?cp (replicate 32 2) = Inr s" "length s \<le> 128 * 1024"
    by (simp add: checkpoint_render_def origin digitally_signed_encode_def push_vector_u16_def checkpoint_text_def
        checkpoint_key_id_def Let_def len SIGNATURE_LINE_PREFIX_def dec_string.simps)
  from checkpoint_roundtrip [OF nibbles_engine _ _ s] origin(2) s(1) show ?thesis
    by (simp add: Let_def is_hash_def)
qed

end
