(* ===== verification/WebTransport.thy ===== *)
theory WebTransport
  imports Text
begin

text \<open>
  The capsule framing of WebTransport over HTTP/2 (\<open>src/webtransport/codec.rs\<close>): QUIC variable-length
  integers, the capsule encoders and the incremental \<open>Decoder\<close>, which takes its input in arbitrary
  fragments and yields bounded events.  An \<open>io::Error\<close> is its message.  \<open>Bytes\<close> and \<open>BytesMut\<close> are
  byte lists; \<open>split_to\<close> and \<open>advance\<close> are \<open>take\<close> and \<open>drop\<close>.  The lemmas show that integers and capsules
  round-trip, that the events do not depend on how the input is fragmented, and that the decoder
  never buffers more than one bounded control capsule or datagram.
\<close>

unbundle bit_operations_syntax

section \<open>Constants and data\<close>

abbreviation (input) VARINT_MAX :: u64 where "VARINT_MAX \<equiv> 0x3fffffffffffffff"
abbreviation (input) PADDING :: u64 where "PADDING \<equiv> 0x190b4d38"
abbreviation (input) RESET_STREAM :: u64 where "RESET_STREAM \<equiv> 0x190b4d39"
abbreviation (input) STOP_SENDING :: u64 where "STOP_SENDING \<equiv> 0x190b4d3a"
abbreviation (input) STREAM_FIN :: u64 where "STREAM_FIN \<equiv> 0x190b4d3b"
abbreviation (input) STREAM :: u64 where "STREAM \<equiv> 0x190b4d3c"
abbreviation (input) MAX_DATA :: u64 where "MAX_DATA \<equiv> 0x190b4d3d"
abbreviation (input) MAX_STREAM_DATA :: u64 where "MAX_STREAM_DATA \<equiv> 0x190b4d3e"
abbreviation (input) MAX_STREAMS_BIDI :: u64 where "MAX_STREAMS_BIDI \<equiv> 0x190b4d3f"
abbreviation (input) MAX_STREAMS_UNI :: u64 where "MAX_STREAMS_UNI \<equiv> 0x190b4d40"
abbreviation (input) DATA_BLOCKED :: u64 where "DATA_BLOCKED \<equiv> 0x190b4d41"
abbreviation (input) STREAM_DATA_BLOCKED :: u64 where "STREAM_DATA_BLOCKED \<equiv> 0x190b4d42"
abbreviation (input) STREAMS_BLOCKED_BIDI :: u64 where "STREAMS_BLOCKED_BIDI \<equiv> 0x190b4d43"
abbreviation (input) STREAMS_BLOCKED_UNI :: u64 where "STREAMS_BLOCKED_UNI \<equiv> 0x190b4d44"
abbreviation (input) DATAGRAM :: u64 where "DATAGRAM \<equiv> 0"
abbreviation (input) CLOSE_SESSION :: u64 where "CLOSE_SESSION \<equiv> 0x2843"
abbreviation (input) DRAIN_SESSION :: u64 where "DRAIN_SESSION \<equiv> 0x78ae"
definition QUANTUM :: nat where "QUANTUM = 16 * 1024"
definition MAX_DATAGRAM :: nat where "MAX_DATAGRAM = 65535"
definition MAX_CLOSE_REASON :: nat where "MAX_CLOSE_REASON = 1024"

datatype wt_event =
    Stream u64 bytes bool bool
  | Control u64 "u64 list"
  | Datagram bytes
  | Close u32 bytes
  | Drain

record Capsule =
  c_kind :: u64
  c_remaining :: u64
  c_small :: bytes
  c_stream_id :: "u64 option"
  c_started :: bool
  c_discard :: bool

record Decoder =
  d_header :: bytes
  d_capsule :: "Capsule option"

definition decoder_default :: Decoder where
  "decoder_default = \<lparr>d_header = [], d_capsule = None\<rparr>"

section \<open>Variable-length integers and the encoders\<close>

definition read_varint :: "bytes \<Rightarrow> (u64 \<times> nat) option" where
  "read_varint bs =
     (case bs of [] \<Rightarrow> None | first # _ \<Rightarrow>
        let sz = 2 ^ unat (drop_bit 6 first) in
        if length bs < sz then None
        else Some (fold (\<lambda>byte value. push_bit 8 value OR ucast byte) (slice 1 sz bs)
                     (ucast (first AND 0x3f)), sz))"

definition put_varint :: "bytes \<Rightarrow> u64 \<Rightarrow> string + bytes" where
  "put_varint out value =
     (if value < push_bit 6 1 then Inr (out @ [ucast value])
      else if value < push_bit 14 1 then Inr (out @ be_bytes 2 (unat ((ucast value :: u16) OR 0x4000)))
      else if value < push_bit 30 1 then Inr (out @ be_bytes 4 (unat ((ucast value :: u32) OR 0x80000000)))
      else if value \<le> VARINT_MAX then Inr (out @ be_bytes 8 (unat (value OR 0xc000000000000000)))
      else Inl ''WebTransport integer overflow'')"

definition wt_encode :: "u64 \<Rightarrow> bytes \<Rightarrow> string + bytes" where
  "wt_encode kind payload =
     bindE (put_varint [] kind) (\<lambda>out.
     bindE (put_varint out (of_nat (length payload))) (\<lambda>out.
     Inr (out @ payload)))"

fun put_varints :: "bytes \<Rightarrow> u64 list \<Rightarrow> string + bytes" where
  "put_varints payload [] = Inr payload"
| "put_varints payload (v # vs) = bindE (put_varint payload v) (\<lambda>payload. put_varints payload vs)"

definition wt_control :: "u64 \<Rightarrow> u64 list \<Rightarrow> string + bytes" where
  "wt_control kind values = bindE (put_varints [] values) (wt_encode kind)"

definition wt_stream :: "u64 \<Rightarrow> bytes \<Rightarrow> bool \<Rightarrow> string + bytes" where
  "wt_stream sid data fin =
     bindE (put_varint [] sid) (\<lambda>payload.
     wt_encode (if fin then STREAM_FIN else STREAM) (payload @ data))"

text \<open>\<open>str::is_char_boundary\<close>, and the loop that moves back to one.\<close>

definition is_char_boundary :: "bytes \<Rightarrow> nat \<Rightarrow> bool" where
  "is_char_boundary s i \<longleftrightarrow> i = 0 \<or> i = length s \<or> (i < length s \<and> \<not> utf8_cont (unat (s ! i)))"

fun char_boundary_before :: "bytes \<Rightarrow> nat \<Rightarrow> nat" where
  "char_boundary_before s 0 = 0"
| "char_boundary_before s (Suc i) = (if is_char_boundary s (Suc i) then Suc i else char_boundary_before s i)"

definition wt_close :: "u32 \<Rightarrow> bytes \<Rightarrow> string + bytes" where
  "wt_close code reason =
     (if \<not> utf8_valid reason then Inl ''invalid close reason UTF-8'' else
      let stop = char_boundary_before reason (min (length reason) MAX_CLOSE_REASON) in
      wt_encode CLOSE_SESSION (be_bytes 4 (unat code) @ take stop reason))"

definition control_values :: "u64 \<Rightarrow> nat option" where
  "control_values kind =
     (if kind = RESET_STREAM then Some 3
      else if kind = STOP_SENDING \<or> kind = MAX_STREAM_DATA \<or> kind = STREAM_DATA_BLOCKED then Some 2
      else if kind = MAX_DATA \<or> kind = MAX_STREAMS_BIDI \<or> kind = MAX_STREAMS_UNI \<or> kind = DATA_BLOCKED \<or>
              kind = STREAMS_BLOCKED_BIDI \<or> kind = STREAMS_BLOCKED_UNI then Some 1
      else None)"

section \<open>The decoder\<close>

text \<open>The kind and the length of the capsule in the header buffer, once both integers are complete.\<close>

definition parse_header :: "bytes \<Rightarrow> (u64 \<times> u64 \<times> nat) option" where
  "parse_header header =
     (case read_varint header of None \<Rightarrow> None | Some (kind, n) \<Rightarrow>
        (case read_varint (drop n header) of None \<Rightarrow> None | Some (len, m) \<Rightarrow> Some (kind, len, n + m)))"

definition capsule_discard :: "u64 \<Rightarrow> u64 \<Rightarrow> string + bool" where
  "capsule_discard kind len =
     (if kind = STREAM \<or> kind = STREAM_FIN then Inr False
      else if kind = DATAGRAM then Inr (len > of_nat MAX_DATAGRAM)
      else if kind = CLOSE_SESSION then
        (if \<not> (4 \<le> len \<and> len \<le> 4 + of_nat MAX_CLOSE_REASON) then Inl ''invalid WebTransport close length'' else Inr False)
      else if kind = DRAIN_SESSION then (if len \<noteq> 0 then Inl ''nonempty drain capsule'' else Inr False)
      else if control_values kind \<noteq> None then
        (if len > 24 then Inl ''oversized WebTransport control'' else Inr False)
      else Inr True)"

definition new_capsule :: "u64 \<Rightarrow> u64 \<Rightarrow> bool \<Rightarrow> Capsule" where
  "new_capsule kind len discard =
     \<lparr>c_kind = kind, c_remaining = len, c_small = [], c_stream_id = None, c_started = False, c_discard = discard\<rparr>"

text \<open>
  The loop that collects the stream identifier byte by byte.  The flag of the result is false when
  the input ran out before the identifier was complete.
\<close>

fun stream_id_loop :: "Capsule \<Rightarrow> bytes \<Rightarrow> string + bool \<times> Capsule \<times> bytes" where
  "stream_id_loop c input =
     (if c_stream_id c \<noteq> None then Inr (True, c, input) else
      case read_varint (c_small c) of
        Some (sid, sz) \<Rightarrow> Inr (True, c\<lparr>c_small := drop sz (c_small c), c_stream_id := Some sid\<rparr>, input)
      | None \<Rightarrow>
          if c_remaining c = 0 then Inl ''missing WebTransport stream ID'' else
          (case input of
             [] \<Rightarrow> Inr (False, c, [])
           | b # rest \<Rightarrow> stream_id_loop (c\<lparr>c_small := c_small c @ [b], c_remaining := c_remaining c - 1\<rparr>) rest))"

declare stream_id_loop.simps [simp del]

text \<open>The rest of the stream branch: the next quantum of stream data as one event.\<close>

definition stream_event ::
  "Decoder \<Rightarrow> Capsule \<Rightarrow> bytes \<Rightarrow> string + wt_event option \<times> Decoder \<times> bytes" where
  "stream_event d c input =
     (if input = [] \<and> c_remaining c \<noteq> 0 then Inr (None, d\<lparr>d_capsule := Some c\<rparr>, input) else
      let count = min (unat (c_remaining c)) (min (length input) QUANTUM);
          data = take count input;
          remaining = c_remaining c - of_nat count in
      bindE (option_okE ''missing WebTransport stream ID'' (c_stream_id c)) (\<lambda>sid.
      let start = \<not> c_started c;
          fin = (c_kind c = STREAM_FIN \<and> remaining = 0);
          c' = c\<lparr>c_remaining := remaining, c_started := True\<rparr> in
      Inr (Some (Stream sid data fin start),
           d\<lparr>d_capsule := (if remaining = 0 then None else Some c')\<rparr>, drop count input)))"

fun read_values :: "nat \<Rightarrow> bytes \<Rightarrow> string + u64 list \<times> bytes" where
  "read_values 0 remaining = Inr ([], remaining)"
| "read_values (Suc n) remaining =
     bindE (option_okE ''truncated control capsule'' (read_varint remaining)) (\<lambda>(value, sz).
     bindE (read_values n (drop sz remaining)) (\<lambda>(values, remaining).
     Inr (value # values, remaining)))"

definition capsule_event :: "u64 \<Rightarrow> bytes \<Rightarrow> string + wt_event" where
  "capsule_event kind small =
     (if kind = DATAGRAM then Inr (Datagram small)
      else if kind = DRAIN_SESSION then Inr Drain
      else if kind = CLOSE_SESSION then
        (if \<not> utf8_valid (drop 4 small) then Inl ''invalid close reason UTF-8''
         else Inr (Close (word_from_be (take 4 small)) (drop 4 small)))
      else
        bindE (option_okE ''unknown control capsule'' (control_values kind)) (\<lambda>count.
        bindE (read_values count small) (\<lambda>(values, remaining).
        if remaining \<noteq> [] then Inl ''trailing control capsule bytes'' else Inr (Control kind values))))"

text \<open>The step of the loop that takes payload bytes of a capsule other than a stream.\<close>

definition fill_capsule :: "Capsule \<Rightarrow> bytes \<Rightarrow> Capsule \<times> bytes" where
  "fill_capsule c input =
     (let count = min (unat (c_remaining c)) (length input);
          bs = take count input in
      (c\<lparr>c_remaining := c_remaining c - of_nat count,
         c_small := (if c_discard c then c_small c else c_small c @ bs)\<rparr>, drop count input))"

definition decoder_measure :: "Decoder \<Rightarrow> bytes \<Rightarrow> nat" where
  "decoder_measure d input =
     2 * length input + length (d_header d) + (case d_capsule d of None \<Rightarrow> 0 | Some c \<Rightarrow> 1)"

lemma read_varint_size: "read_varint bs = Some (v, n) \<Longrightarrow> 1 \<le> n \<and> n \<le> length bs"
  by (auto simp: read_varint_def Let_def split: list.splits if_splits)

lemma parse_header_size: "parse_header h = Some (k, l, n) \<Longrightarrow> 2 \<le> n \<and> n \<le> length h"
  by (auto simp: parse_header_def dest!: read_varint_size split: option.splits)

lemma fill_capsule_less:
  "(c', input') = fill_capsule c input \<Longrightarrow> c_remaining c \<noteq> 0 \<Longrightarrow> input \<noteq> [] \<Longrightarrow> length input' < length input"
  by (simp add: fill_capsule_def Let_def unat_gt_0)

text \<open>
  One call of \<open>next\<close>: a step that leaves the loop returns an event or \<open>None\<close> with the updated decoder
  and the unconsumed input; a \<open>continue\<close> is the recursive call.  Once a header is parsed the code
  falls through to the capsule in the same iteration, which is the recursive call on the decoder
  that now has a capsule.
\<close>

function decoder_next :: "Decoder \<Rightarrow> bytes \<Rightarrow> string + wt_event option \<times> Decoder \<times> bytes" where
  "decoder_next d input =
     (case d_capsule d of
        None \<Rightarrow>
          (case parse_header (d_header d) of
             Some (kind, len, header_len) \<Rightarrow>
               bindE (capsule_discard kind len) (\<lambda>discard.
               decoder_next (d\<lparr>d_header := drop header_len (d_header d),
                               d_capsule := Some (new_capsule kind len discard)\<rparr>) input)
           | None \<Rightarrow>
               if input = [] then Inr (None, d, input)
               else if length (d_header d) \<ge> 16 then Inl ''invalid capsule header''
               else decoder_next (d\<lparr>d_header := d_header d @ take 1 input\<rparr>) (drop 1 input))
      | Some c \<Rightarrow>
          if c_kind c = STREAM \<or> c_kind c = STREAM_FIN then
            bindE (stream_id_loop c input) (\<lambda>(complete, c, input).
            if \<not> complete then Inr (None, d\<lparr>d_capsule := Some c\<rparr>, input)
            else stream_event d c input)
          else if c_remaining c \<noteq> 0 \<and> input = [] then Inr (None, d, input)
          else
            let (c', input') = (if c_remaining c \<noteq> 0 then fill_capsule c input else (c, input)) in
            if c_remaining c' \<noteq> 0 then decoder_next (d\<lparr>d_capsule := Some c'\<rparr>) input'
            else if c_discard c' then decoder_next (d\<lparr>d_capsule := None\<rparr>) input'
            else bindE (capsule_event (c_kind c') (c_small c')) (\<lambda>event.
                 Inr (Some event, d\<lparr>d_capsule := None\<rparr>, input')))"
  by pat_completeness auto
termination
proof (relation "measure (\<lambda>(d, input). decoder_measure d input)")
qed (auto simp: decoder_measure_def neq_Nil_conv dest!: parse_header_size dest: fill_capsule_less split: if_splits)

declare decoder_next.simps [simp del]

definition decoder_finish :: "Decoder \<Rightarrow> string + unit" where
  "decoder_finish d =
     (if d_capsule d \<noteq> None \<or> d_header d \<noteq> [] then Inl ''truncated WebTransport capsule stream'' else Inr ())"

section \<open>Variable-length integers\<close>

lemma unat_push_or:
  assumes "(unat w + 1) * 256 \<le> 2 ^ 64"
  shows "unat (push_bit 8 w OR ucast (b :: u8) :: u64) = unat w * 256 + unat b"
proof -
  have "push_bit 8 (unat w) < 2 ^ 64" "unat b < 2 ^ 64" using assms u8_less [of b] by (simp_all add: push_bit_eq_mult)
  then show ?thesis
    using or_disjoint_nat [of "unat b" 8 "unat w"] u8_less [of b]
    by (simp add: unsigned_or_eq unsigned_push_bit_eq unsigned_ucast_eq take_bit_nat_eq_self)
qed

lemma unat_fold_varint:
  "(unat w + 1) * 256 ^ length bs \<le> 2 ^ 64 \<Longrightarrow>
   unat (fold (\<lambda>byte value. push_bit 8 value OR ucast byte) bs (w :: u64)) = unat w * 256 ^ length bs + be_nat bs"
proof (induction bs arbitrary: w rule: rev_induct)
  case (snoc b bs)
  have "(unat w + 1) * 256 ^ length bs \<le> 2 ^ 64" using snoc.prems by simp
  note IH = snoc.IH [OF this]
  have "(unat w * 256 ^ length bs + be_nat bs + 1) * 256 \<le> (unat w + 1) * 256 ^ length bs * 256"
    using be_nat_less [of bs] by simp
  also have "\<dots> \<le> 2 ^ 64" using snoc.prems by simp
  finally show ?case using IH by (simp add: unat_push_or algebra_simps)
qed simp

lemma be_bytes_hd: "be_bytes (Suc n) v = of_nat (v div 256 ^ n) # be_bytes n v"
proof (induction n arbitrary: v)
  case (Suc n)
  then show ?case using div_mult2_eq [of v 256 "256 ^ n"] by simp
qed simp

text \<open>The encoding of length \<open>2 ^ k\<close>: the two top bits hold \<open>k\<close>.\<close>

definition varint_bytes :: "nat \<Rightarrow> nat \<Rightarrow> bytes" where
  "varint_bytes k v = be_bytes (2 ^ k) (k * (64 * 256 ^ (2 ^ k - 1)) + v)"

lemma length_varint_bytes [simp]: "length (varint_bytes k v) = 2 ^ k"
  by (simp add: varint_bytes_def)

lemma varint_bytes_Cons:
  assumes "k < 4" "v < 64 * 256 ^ (2 ^ k - 1)"
  shows "varint_bytes k v = of_nat (k * 64 + v div 256 ^ (2 ^ k - 1)) # be_bytes (2 ^ k - 1) v"
proof -
  let ?m = "2 ^ k - 1 :: nat"
  have "be_bytes ?m (k * (64 * 256 ^ ?m) + v) = be_bytes ?m v"
    by (simp add: be_bytes_inj mult.assoc [symmetric])
  moreover have "(2 ^ k :: nat) = Suc ?m" by simp
  moreover have "(k * (64 * 256 ^ ?m) + v) div 256 ^ ?m = k * 64 + v div 256 ^ ?m"
    by (simp add: mult.assoc [symmetric])
  ultimately show ?thesis unfolding varint_bytes_def by (metis be_bytes_hd)
qed

lemma read_varint_first:
  "unat b div 64 = k \<Longrightarrow> read_varint (b # bs) =
     (if length bs + 1 < 2 ^ k then None
      else Some (of_nat (unat b mod 64 * 256 ^ (2 ^ k - 1) + be_nat (take (2 ^ k - 1) bs)), 2 ^ k))"
proof -
  assume k: "unat b div 64 = k"
  have "k < 4" using k u8_less [of b] by auto
  have d: "unat (drop_bit 6 b) = k" using k by (simp add: drop_bit_eq_div unat_div)
  have "b AND 0x3f = take_bit 6 b" by (simp add: take_bit_eq_mask mask_eq_exp_minus_1)
  then have m: "unat (b AND 0x3f) = unat b mod 64" by (simp add: take_bit_eq_mod unat_mod)
  show ?thesis
  proof (cases "length bs + 1 < 2 ^ k")
    case True
    with d show ?thesis by (simp add: read_varint_def)
  next
    case False
    let ?w = "ucast (b AND 0x3f) :: u64" and ?bs = "take (2 ^ k - 1) bs"
    have w: "unat ?w = unat b mod 64" using m by (simp add: unsigned_ucast_eq take_bit_nat_eq_self)
    have len: "length ?bs = 2 ^ k - 1" using False by simp
    have "(2::nat) ^ k \<le> 2 ^ 3" using \<open>k < 4\<close> by (intro power_increasing) auto
    then have "length ?bs \<le> 7" using len by simp
    then have "(256::nat) ^ length ?bs \<le> 256 ^ 7" by (rule power_increasing) simp
    moreover have "unat ?w + 1 \<le> 64" using w by (simp add: Suc_le_eq)
    ultimately have "(unat ?w + 1) * 256 ^ length ?bs \<le> 64 * 256 ^ 7" by (intro mult_mono) simp_all
    then have "unat (fold (\<lambda>byte value. push_bit 8 value OR ucast byte) ?bs ?w) = unat b mod 64 * 256 ^ (2 ^ k - 1) + be_nat ?bs"
      using unat_fold_varint [of ?w ?bs] w len by simp
    then have "fold (\<lambda>byte value. push_bit 8 value OR ucast byte) ?bs ?w = of_nat (unat b mod 64 * 256 ^ (2 ^ k - 1) + be_nat ?bs)"
      by (rule word_eq_of_nat)
    with False d show ?thesis by (simp add: read_varint_def slice_def Let_def)
  qed
qed

lemma varint_first_byte:
  assumes "k < 4" "v < 64 * 256 ^ (2 ^ k - 1)"
  shows "unat (of_nat (k * 64 + v div 256 ^ (2 ^ k - 1)) :: u8) div 64 = k"
    "unat (of_nat (k * 64 + v div 256 ^ (2 ^ k - 1)) :: u8) mod 64 = v div 256 ^ (2 ^ k - 1)"
proof -
  let ?q = "v div 256 ^ (2 ^ k - 1)"
  have "?q < 64" using assms(2) by (simp add: less_mult_imp_div_less)
  then have less: "k * 64 + ?q < 256" using assms(1) by simp
  then have "unat (of_nat (k * 64 + ?q) :: u8) = k * 64 + ?q" by (simp only: unat_of_nat) simp
  with \<open>?q < 64\<close> show "unat (of_nat (k * 64 + ?q) :: u8) div 64 = k" "unat (of_nat (k * 64 + ?q) :: u8) mod 64 = ?q"
    by simp_all
qed

lemma read_varint_bytes:
  assumes "k < 4" "v < 64 * 256 ^ (2 ^ k - 1)"
  shows "read_varint (varint_bytes k v @ rest) = Some (of_nat v, 2 ^ k)"
proof -
  have "(256::nat) ^ (2 ^ k - 1) * (v div 256 ^ (2 ^ k - 1)) + v mod 256 ^ (2 ^ k - 1) = v" by (rule mult_div_mod_eq)
  then show ?thesis
    unfolding varint_bytes_Cons [OF assms] append_Cons read_varint_first [OF varint_first_byte(1) [OF assms]]
      varint_first_byte(2) [OF assms]
    by (simp add: be_nat_be_bytes mult.commute flip: of_nat_mult of_nat_add of_nat_power)
qed

lemma read_varint_partial:
  assumes "k < 4" "v < 64 * 256 ^ (2 ^ k - 1)" "varint_bytes k v = p @ q" "q \<noteq> []"
  shows "read_varint p = None"
proof (cases p)
  case (Cons b bs)
  have b: "b = of_nat (k * 64 + v div 256 ^ (2 ^ k - 1))" using assms(3) varint_bytes_Cons [OF assms(1,2)] Cons by simp
  have "length p < 2 ^ k" using assms(3,4) length_varint_bytes [of k v] by (cases q) auto
  with varint_first_byte(1) [OF assms(1,2)] show ?thesis unfolding Cons b by (subst read_varint_first) auto
qed (simp add: read_varint_def)

text \<open>The size class \<open>put_varint\<close> chooses, and what it writes.\<close>

definition varint_class :: "u64 \<Rightarrow> nat" where
  "varint_class v = (if v < 2 ^ 6 then 0 else if v < 2 ^ 14 then 1 else if v < 2 ^ 30 then 2 else 3)"

lemma unat_or_tag:
  fixes w :: "'a::len word"
  assumes "unat w < 2 ^ n" "n < LENGTH('a)" "a * 2 ^ n < 2 ^ LENGTH('a)"
  shows "unat (w OR of_nat (a * 2 ^ n)) = a * 2 ^ n + unat w"
proof -
  have "unat (of_nat (a * 2 ^ n) :: 'a word) = push_bit n a"
    using assms(3) by (simp only: unat_of_nat push_bit_eq_mult) simp
  then show ?thesis using or_disjoint_nat [OF assms(1), of a] by (simp add: unsigned_or_eq or.commute)
qed

lemma put_varint_bytes:
  "put_varint out v =
     (if v \<le> VARINT_MAX then Inr (out @ varint_bytes (varint_class v) (unat v)) else Inl ''WebTransport integer overflow'')"
proof -
  have 1: "unat ((ucast v :: u16) OR 0x4000) = 64 * 256 + unat v" if "v < 2 ^ 14"
  proof -
    have "unat v < 2 ^ 14" using that by (simp add: word_less_nat_alt)
    then show ?thesis using unat_or_tag [of "ucast v :: u16" 14 1] by (simp add: unsigned_ucast_eq take_bit_nat_eq_self)
  qed
  have 2: "unat ((ucast v :: u32) OR 0x80000000) = 2 * (64 * 256 ^ 3) + unat v" if "v < 2 ^ 30"
  proof -
    have "unat v < 2 ^ 30" using that by (simp add: word_less_nat_alt)
    then show ?thesis using unat_or_tag [of "ucast v :: u32" 30 2] by (simp add: unsigned_ucast_eq take_bit_nat_eq_self)
  qed
  have 3: "unat (v OR 0xc000000000000000) = 3 * (64 * 256 ^ 7) + unat v" if "v \<le> VARINT_MAX"
  proof -
    have "unat v < 2 ^ 62" using that by (simp add: word_le_nat_alt)
    then show ?thesis using unat_or_tag [of v 62 3] by simp
  qed
  have 0: "[ucast v] = varint_bytes 0 (unat v)" by (simp add: varint_bytes_def)
  show ?thesis
    using 1 2 3 0 unfolding put_varint_def varint_class_def
    by (simp add: push_bit_eq_mult varint_bytes_def word_le_nat_alt word_less_nat_alt)
qed

lemma varint_class_bounds:
  "varint_class v < 4" "v \<le> VARINT_MAX \<Longrightarrow> unat v < 64 * 256 ^ (2 ^ varint_class v - 1)"
  by (auto simp: varint_class_def word_le_nat_alt word_less_nat_alt)

section \<open>Every event makes progress\<close>

lemma unat_minus_of_nat:
  assumes "n \<le> unat (w :: u64)"
  shows "unat (w - of_nat n) = unat w - n"
proof -
  have "n < 2 ^ 64" using assms unsigned_less [of w, where ?'a = nat] by simp
  then have "unat (of_nat n :: u64) = n" by (simp add: unat_of_nat)
  then show ?thesis using assms by (simp add: unat_sub word_le_nat_alt)
qed

lemma stream_id_loop_length: "stream_id_loop c input = Inr (complete, c', input') \<Longrightarrow> length input' \<le> length input"
proof (induction c input rule: stream_id_loop.induct)
  case (1 c input)
  from "1.prems" show ?case
    by (subst (asm) stream_id_loop.simps)
      (auto split: if_splits option.splits list.splits dest!: "1.IH" [rotated 3])
qed

lemma stream_event_progress:
  assumes "stream_event d c input = Inr (Some e, d', input')"
  shows "decoder_measure d' input' < decoder_measure (d\<lparr>d_capsule := Some c\<rparr>) input"
proof (cases "c_remaining c = 0")
  case True
  with assms show ?thesis
    by (auto simp: stream_event_def Let_def result_simps decoder_measure_def split: if_splits)
next
  case False
  with assms have "input \<noteq> []" by (auto simp: stream_event_def)
  with False assms show ?thesis
    by (auto simp: stream_event_def Let_def result_simps decoder_measure_def unat_gt_0 QUANTUM_def split: if_splits)
qed

text \<open>The unfolding of one iteration, by the state the decoder is in.\<close>

lemma decoder_next_open:
  "d_capsule d = None \<Longrightarrow> parse_header (d_header d) = Some (kind, len, n) \<Longrightarrow>
   decoder_next d input = bindE (capsule_discard kind len) (\<lambda>discard.
     decoder_next (d\<lparr>d_header := drop n (d_header d), d_capsule := Some (new_capsule kind len discard)\<rparr>) input)"
  by (subst decoder_next.simps) simp

lemma decoder_next_header:
  "d_capsule d = None \<Longrightarrow> parse_header (d_header d) = None \<Longrightarrow>
   decoder_next d input =
     (case input of [] \<Rightarrow> Inr (None, d, [])
      | b # bs \<Rightarrow> if 16 \<le> length (d_header d) then Inl ''invalid capsule header''
                  else decoder_next (d\<lparr>d_header := d_header d @ [b]\<rparr>) bs)"
  by (subst decoder_next.simps) (simp split: list.split)

abbreviation is_stream :: "u64 \<Rightarrow> bool" where
  "is_stream kind \<equiv> kind = STREAM \<or> kind = STREAM_FIN"

lemma decoder_next_stream:
  "d_capsule d = Some c \<Longrightarrow> is_stream (c_kind c) \<Longrightarrow>
   decoder_next d input = bindE (stream_id_loop c input) (\<lambda>(complete, c, input).
     if \<not> complete then Inr (None, d\<lparr>d_capsule := Some c\<rparr>, input) else stream_event d c input)"
  by (subst decoder_next.simps) auto

lemma decoder_next_complete:
  "d_capsule d = Some c \<Longrightarrow> \<not> is_stream (c_kind c) \<Longrightarrow> c_remaining c = 0 \<Longrightarrow>
   decoder_next d input =
     (if c_discard c then decoder_next (d\<lparr>d_capsule := None\<rparr>) input
      else bindE (capsule_event (c_kind c) (c_small c)) (\<lambda>event. Inr (Some event, d\<lparr>d_capsule := None\<rparr>, input)))"
  by (subst decoder_next.simps) auto

lemma decoder_next_payload:
  "d_capsule d = Some c \<Longrightarrow> \<not> is_stream (c_kind c) \<Longrightarrow> c_remaining c \<noteq> 0 \<Longrightarrow>
   decoder_next d input =
     (if input = [] then Inr (None, d, [])
      else case fill_capsule c input of (c', input') \<Rightarrow> decoder_next (d\<lparr>d_capsule := Some c'\<rparr>) input')"
  using decoder_next_complete [of "d\<lparr>d_capsule := Some (fst (fill_capsule c input))\<rparr>" "fst (fill_capsule c input)"]
  by (subst decoder_next.simps) (auto simp: Let_def fill_capsule_def)

text \<open>Every state of the decoder falls in exactly one of the five unfoldings.\<close>

lemma decoder_state_cases:
  obtains (Open) kind len n where "d_capsule d = None" "parse_header (d_header d) = Some (kind, len, n)"
  | (Header) "d_capsule d = None" "parse_header (d_header d) = None"
  | (Stream) c where "d_capsule d = Some c" "is_stream (c_kind c)"
  | (Complete) c where "d_capsule d = Some c" "\<not> is_stream (c_kind c)" "c_remaining c = 0"
  | (Payload) c where "d_capsule d = Some c" "\<not> is_stream (c_kind c)" "c_remaining c \<noteq> 0"
proof (cases "d_capsule d")
  case None
  then show ?thesis using Open Header by (cases "parse_header (d_header d)") (auto simp: split_paired_all)
next
  case (Some c)
  then show ?thesis using Stream Complete Payload by blast
qed

lemma decoder_next_progress:
  "decoder_next d input = Inr (Some e, d', input') \<Longrightarrow> decoder_measure d' input' < decoder_measure d input"
proof (induction "decoder_measure d input" arbitrary: d input rule: less_induct)
  case less
  have IH: "decoder_next d\<^sub>1 i\<^sub>1 = Inr (Some e, d', input') \<Longrightarrow> decoder_measure d\<^sub>1 i\<^sub>1 < decoder_measure d input \<Longrightarrow>
      decoder_measure d' input' < decoder_measure d input" for d\<^sub>1 i\<^sub>1
    using less.hyps less_trans by blast
  show ?case
  proof (cases rule: decoder_state_cases [of d])
    case (Open kind len n)
    then show ?thesis using less.prems parse_header_size [OF Open(2)]
      by (auto simp: decoder_next_open result_simps elim!: IH) (simp add: decoder_measure_def)
  next
    case Header
    then obtain b bs where input: "input = b # bs"
        and nxt: "decoder_next (d\<lparr>d_header := d_header d @ [b]\<rparr>) bs = Inr (Some e, d', input')"
      using less.prems by (auto simp: decoder_next_header split: list.splits if_splits)
    from nxt show ?thesis by (rule IH) (simp add: decoder_measure_def input)
  next
    case (Stream c)
    then obtain c' input'' where loop: "stream_id_loop c input = Inr (True, c', input'')"
        and ev: "stream_event d c' input'' = Inr (Some e, d', input')"
      using less.prems by (auto simp: decoder_next_stream result_simps split: if_splits)
    from stream_event_progress [OF ev] stream_id_loop_length [OF loop] Stream(1)
    show ?thesis by (simp add: decoder_measure_def)
  next
    case (Complete c)
    then show ?thesis using less.prems
      by (auto simp: decoder_next_complete result_simps elim!: IH split: if_splits) (simp_all add: decoder_measure_def)
  next
    case (Payload c)
    then obtain c' i where fill: "fill_capsule c input = (c', i)" "input \<noteq> []"
        and nxt: "decoder_next (d\<lparr>d_capsule := Some c'\<rparr>) i = Inr (Some e, d', input')"
      using less.prems by (auto simp: decoder_next_payload split: if_splits prod.splits)
    then have "decoder_measure (d\<lparr>d_capsule := Some c'\<rparr>) i < decoder_measure d input"
      using fill_capsule_less [OF fill(1) [symmetric]] Payload by (simp add: decoder_measure_def)
    with nxt show ?thesis by (rule IH)
  qed
qed

section \<open>The events of a whole input\<close>

text \<open>
  What the events say about the session, with the borders of the data chunks forgotten: a stream
  capsule opens, carries bytes and may end its stream; the other events stand for themselves.
\<close>

datatype wt_token = StreamStart u64 | StreamByte u64 u8 | StreamFin u64 | Whole wt_event

fun event_tokens :: "wt_event \<Rightarrow> wt_token list" where
  "event_tokens (Stream sid data fin start) =
     (if start then [StreamStart sid] else []) @ map (StreamByte sid) data @ (if fin then [StreamFin sid] else [])"
| "event_tokens e = [Whole e]"

text \<open>Calling \<open>next\<close> until it asks for more input or fails.\<close>

function decode_all :: "Decoder \<Rightarrow> bytes \<Rightarrow> wt_token list \<times> (string + Decoder)" where
  "decode_all d input =
     (case decoder_next d input of
        Inl e \<Rightarrow> ([], Inl e)
      | Inr (None, d', rest) \<Rightarrow> ([], Inr d')
      | Inr (Some ev, d', rest) \<Rightarrow> map_prod ((@) (event_tokens ev)) id (decode_all d' rest))"
  by pat_completeness auto
termination
  by (relation "measure (\<lambda>(d, input). decoder_measure d input)") (auto dest: decoder_next_progress)

declare decode_all.simps [simp del]

definition decode_rest :: "string + wt_event option \<times> Decoder \<times> bytes \<Rightarrow> wt_token list \<times> (string + Decoder)" where
  "decode_rest r =
     (case r of
        Inl e \<Rightarrow> ([], Inl e)
      | Inr (None, d', rest) \<Rightarrow> ([], Inr d')
      | Inr (Some ev, d', rest) \<Rightarrow> map_prod ((@) (event_tokens ev)) id (decode_all d' rest))"

lemma decode_all_rest: "decode_all d input = decode_rest (decoder_next d input)"
  unfolding decode_rest_def by (rule decode_all.simps)

definition tokens_then :: "wt_token list \<Rightarrow> wt_token list \<times> 'a \<Rightarrow> wt_token list \<times> 'a" where
  "tokens_then ts = map_prod ((@) ts) id"

lemma tokens_then_simps [simp]:
  "tokens_then ts (us, r) = (ts @ us, r)" "tokens_then [] p = p"
  "tokens_then ts (tokens_then us p) = tokens_then (ts @ us) p"
  by (cases p; simp add: tokens_then_def)+

lemma decode_rest_simps [simp]:
  "decode_rest (Inl e) = ([], Inl e)" "decode_rest (Inr (None, d, rest)) = ([], Inr d)"
  "decode_rest (Inr (Some ev, d, rest)) = tokens_then (event_tokens ev) (decode_all d rest)"
  by (simp_all add: decode_rest_def tokens_then_def)

text \<open>\<open>then_decode p input\<close> goes on with more input after the outcome \<open>p\<close>.\<close>

fun then_decode :: "wt_token list \<times> (string + Decoder) \<Rightarrow> bytes \<Rightarrow> wt_token list \<times> (string + Decoder)" where
  "then_decode (ts, Inl e) input = (ts, Inl e)"
| "then_decode (ts, Inr d) input = tokens_then ts (decode_all d input)"

lemma then_decode_tokens [simp]: "then_decode (tokens_then ts p) input = tokens_then ts (then_decode p input)"
  by (cases p rule: prod.exhaust; cases "snd p") auto

text \<open>The unfoldings of \<open>decode_all\<close>.\<close>

lemma decode_all_open:
  "d_capsule d = None \<Longrightarrow> parse_header (d_header d) = Some (kind, len, n) \<Longrightarrow>
   decode_all d input = (case capsule_discard kind len of Inl e \<Rightarrow> ([], Inl e) | Inr discard \<Rightarrow>
     decode_all (d\<lparr>d_header := drop n (d_header d), d_capsule := Some (new_capsule kind len discard)\<rparr>) input)"
  by (cases "capsule_discard kind len") (simp_all add: decode_all_rest decoder_next_open)

lemma decode_all_header:
  "d_capsule d = None \<Longrightarrow> parse_header (d_header d) = None \<Longrightarrow>
   decode_all d input =
     (case input of [] \<Rightarrow> ([], Inr d)
      | b # bs \<Rightarrow> if 16 \<le> length (d_header d) then ([], Inl ''invalid capsule header'')
                  else decode_all (d\<lparr>d_header := d_header d @ [b]\<rparr>) bs)"
  by (cases input) (simp_all add: decode_all_rest decoder_next_header)

lemma decode_all_payload:
  "d_capsule d = Some c \<Longrightarrow> \<not> is_stream (c_kind c) \<Longrightarrow> c_remaining c \<noteq> 0 \<Longrightarrow>
   decode_all d input =
     (if input = [] then ([], Inr d)
      else case fill_capsule c input of (c', input') \<Rightarrow> decode_all (d\<lparr>d_capsule := Some c'\<rparr>) input')"
  by (cases "input = []")
    (auto simp: decode_all_rest decoder_next_payload split: prod.splits)

lemma decode_all_complete:
  "d_capsule d = Some c \<Longrightarrow> \<not> is_stream (c_kind c) \<Longrightarrow> c_remaining c = 0 \<Longrightarrow>
   decode_all d input =
     (if c_discard c then decode_all (d\<lparr>d_capsule := None\<rparr>) input
      else case capsule_event (c_kind c) (c_small c) of
             Inl e \<Rightarrow> ([], Inl e)
           | Inr ev \<Rightarrow> tokens_then (event_tokens ev) (decode_all (d\<lparr>d_capsule := None\<rparr>) input))"
  by (cases "c_discard c"; cases "capsule_event (c_kind c) (c_small c)")
    (simp_all add: decode_all_rest [of d] decoder_next_complete decode_all_rest [symmetric])

lemma d_capsule_same [simp]: "d_capsule d = Some c \<Longrightarrow> d\<lparr>d_capsule := Some c\<rparr> = d"
  by (cases d) simp

lemma stream_event_capsule [simp]: "stream_event (d\<lparr>d_capsule := x\<rparr>) c input = stream_event d c input"
  by (simp add: stream_event_def Let_def)

lemma decode_all_stream_id:
  "d_capsule d = Some c \<Longrightarrow> is_stream (c_kind c) \<Longrightarrow> c_stream_id c = None \<Longrightarrow> read_varint (c_small c) = Some (sid, n) \<Longrightarrow>
   decode_all d input = decode_all (d\<lparr>d_capsule := Some (c\<lparr>c_small := drop n (c_small c), c_stream_id := Some sid\<rparr>)\<rparr>) input"
  by (auto simp: decode_all_rest decoder_next_stream stream_id_loop.simps stream_event_def Let_def)

lemma decode_all_stream_header:
  "d_capsule d = Some c \<Longrightarrow> is_stream (c_kind c) \<Longrightarrow> c_stream_id c = None \<Longrightarrow> read_varint (c_small c) = None \<Longrightarrow>
   decode_all d input =
     (if c_remaining c = 0 then ([], Inl ''missing WebTransport stream ID'')
      else case input of [] \<Rightarrow> ([], Inr d)
        | b # bs \<Rightarrow> decode_all (d\<lparr>d_capsule := Some (c\<lparr>c_small := c_small c @ [b], c_remaining := c_remaining c - 1\<rparr>)\<rparr>) bs)"
  by (cases input) (auto simp: decode_all_rest decoder_next_stream stream_id_loop.simps [of c] cong: if_cong)

text \<open>The tokens of the next bytes of a stream capsule whose identifier is known.\<close>

definition data_tokens :: "Capsule \<Rightarrow> u64 \<Rightarrow> bytes \<Rightarrow> bool \<Rightarrow> wt_token list" where
  "data_tokens c sid data complete =
     event_tokens (Stream sid data (c_kind c = STREAM_FIN \<and> complete) (\<not> c_started c))"

lemma decode_all_quantum:
  assumes "d_capsule d = Some c" "is_stream (c_kind c)" "c_stream_id c = Some sid" "input \<noteq> [] \<or> c_remaining c = 0"
    and n: "n = min (unat (c_remaining c)) (min (length input) QUANTUM)"
  shows "decode_all d input = tokens_then (data_tokens c sid (take n input) (n = unat (c_remaining c)))
    (decode_all (d\<lparr>d_capsule := (if n = unat (c_remaining c) then None
       else Some (c\<lparr>c_remaining := c_remaining c - of_nat n, c_started := True\<rparr>))\<rparr>) (drop n input))"
proof -
  have "c_remaining c - of_nat n = 0 \<longleftrightarrow> n = unat (c_remaining c)"
    using unat_minus_of_nat [of n "c_remaining c"] n by (auto simp: unat_eq_0 [symmetric])
  then have "decoder_next d input =
      Inr (Some (Stream sid (take n input) (c_kind c = STREAM_FIN \<and> n = unat (c_remaining c)) (\<not> c_started c)),
           d\<lparr>d_capsule := (if n = unat (c_remaining c) then None
             else Some (c\<lparr>c_remaining := c_remaining c - of_nat n, c_started := True\<rparr>))\<rparr>, drop n input)"
    using assms by (auto simp: decoder_next_stream stream_id_loop.simps stream_event_def Let_def)
  then show ?thesis by (simp only: decode_all_rest [of d] decode_rest_simps data_tokens_def)
qed

lemma decode_all_data:
  assumes "d_capsule d = Some c" "is_stream (c_kind c)" "c_stream_id c = Some sid" "input \<noteq> [] \<or> c_remaining c = 0"
  shows "decode_all d input =
    (if unat (c_remaining c) \<le> length input
     then tokens_then (data_tokens c sid (take (unat (c_remaining c)) input) True)
            (decode_all (d\<lparr>d_capsule := None\<rparr>) (drop (unat (c_remaining c)) input))
     else (data_tokens c sid input False,
           Inr (d\<lparr>d_capsule := Some (c\<lparr>c_remaining := c_remaining c - of_nat (length input), c_started := True\<rparr>)\<rparr>)))"
  using assms
proof (induction "length input" arbitrary: d c input rule: less_induct)
  case less
  let ?r = "unat (c_remaining c)"
  define n where "n = min ?r (min (length input) QUANTUM)"
  note step = decode_all_quantum [OF less.prems n_def]
  show ?case
  proof (cases "n = ?r")
    case True
    then have "?r \<le> length input" using n_def by simp
    with step True show ?thesis by simp
  next
    case False
    then have rem: "c_remaining c \<noteq> 0" by (auto simp: n_def)
    then have "input \<noteq> []" using less.prems(4) by simp
    let ?c = "c\<lparr>c_remaining := c_remaining c - of_nat n, c_started := True\<rparr>"
    let ?d = "d\<lparr>d_capsule := Some ?c\<rparr>"
    have n: "0 < n" "n < ?r" "n \<le> length input" using False rem \<open>input \<noteq> []\<close> by (auto simp: n_def QUANTUM_def unat_gt_0)
    then have r: "unat (c_remaining ?c) = ?r - n" "c_remaining ?c \<noteq> 0"
      using unat_minus_of_nat [of n "c_remaining c"] by (auto simp: unat_eq_0 [symmetric] simp del: unat_eq_0)
    have minus: "c_remaining c - of_nat n - of_nat (length input - n) = c_remaining c - of_nat (length input)"
      using n by (simp add: of_nat_diff)
    have toks: "data_tokens c sid (take n input) False @ data_tokens ?c sid rest complete =
        data_tokens c sid (take n input @ rest) complete" for rest complete
      by (simp add: data_tokens_def)
    show ?thesis
    proof (cases "drop n input = []")
      case True
      then have "n = length input" using n by simp
      moreover have "decode_all ?d [] = ([], Inr ?d)"
        using less.prems r(2) by (auto simp: decode_all_rest decoder_next_stream stream_id_loop.simps stream_event_def)
      ultimately show ?thesis using step False n by simp
    next
      case drop: False
      have "length (drop n input) < length input" using n drop by simp
      from less.hyps [OF this, of ?d ?c] less.prems(2,3) drop
      have IH: "decode_all ?d (drop n input) =
          (if ?r - n \<le> length (drop n input)
           then tokens_then (data_tokens ?c sid (take (?r - n) (drop n input)) True) (decode_all (d\<lparr>d_capsule := None\<rparr>) (drop ?r input))
           else (data_tokens ?c sid (drop n input) False,
                 Inr (d\<lparr>d_capsule := Some (c\<lparr>c_remaining := c_remaining c - of_nat (length input), c_started := True\<rparr>)\<rparr>)))"
        using r(1) n minus by simp
      have "take n input @ take (?r - n) (drop n input) = take ?r input" using n by (simp flip: take_add)
      with step False IH n toks show ?thesis by auto
    qed
  qed
qed

section \<open>Fragmentation\<close>

lemma fill_capsule_append:
  assumes "unat (c_remaining c) \<le> length a"
  shows "fill_capsule c (a @ b) = (case fill_capsule c a of (c', a') \<Rightarrow> (c', a' @ b))"
    "c_remaining (fst (fill_capsule c a)) = 0"
  using assms by (simp_all add: fill_capsule_def Let_def min_def)

lemma fill_capsule_short:
  assumes "length a < unat (c_remaining c)"
  shows "snd (fill_capsule c a) = []" "c_remaining (fst (fill_capsule c a)) \<noteq> 0"
    "fill_capsule (fst (fill_capsule c a)) b = fill_capsule c (a @ b)"
proof -
  note rem = unat_minus_of_nat [of "length a" "c_remaining c"]
  show "snd (fill_capsule c a) = []" using assms by (simp add: fill_capsule_def Let_def)
  show "c_remaining (fst (fill_capsule c a)) \<noteq> 0"
    using assms rem by (auto simp: fill_capsule_def Let_def min_def unat_eq_0 [symmetric] simp del: unat_eq_0)
  have "min (unat (c_remaining c)) (length a + length b) = length a + min (unat (c_remaining c) - length a) (length b)"
    using assms by simp
  then show "fill_capsule (fst (fill_capsule c a)) b = fill_capsule c (a @ b)"
    using assms rem by (simp add: fill_capsule_def Let_def)
qed

lemma decode_all_payload_append:
  assumes c: "d_capsule d = Some c" "\<not> is_stream (c_kind c)" "c_remaining c \<noteq> 0"
    and IH: "\<And>d' a'. decoder_measure d' a' < decoder_measure d a \<Longrightarrow>
      decode_all d' (a' @ b) = then_decode (decode_all d' a') b"
  shows "decode_all d (a @ b) = then_decode (decode_all d a) b"
proof (cases "a = []")
  case True
  with c show ?thesis by (simp add: decode_all_payload)
next
  case False
  obtain c' a' where fill: "fill_capsule c a = (c', a')" by fastforce
  have kind: "c_kind c' = c_kind c" using fill by (auto simp: fill_capsule_def Let_def)
  have less: "decoder_measure (d\<lparr>d_capsule := Some c'\<rparr>) a' < decoder_measure d a"
    using fill_capsule_less [OF fill [symmetric] c(3) False] c(1) by (simp add: decoder_measure_def)
  show ?thesis
  proof (cases "unat (c_remaining c) \<le> length a")
    case True
    from fill_capsule_append(1) [OF True, of b] fill IH [OF less] False c show ?thesis by (simp add: decode_all_payload [OF c])
  next
    case short: False
    then have s: "length a < unat (c_remaining c)" by simp
    from fill_capsule_short(1,2) [OF s] fill_capsule_short(3) [OF s, of b] fill have c': "a' = []" "c_remaining c' \<noteq> 0" "fill_capsule c' b = fill_capsule c (a @ b)"
      by simp_all
    have "decode_all (d\<lparr>d_capsule := Some c'\<rparr>) [] = ([], Inr (d\<lparr>d_capsule := Some c'\<rparr>))"
      using c'(2) c(2) kind by (simp add: decode_all_payload)
    moreover have "decode_all d (a @ b) = decode_all (d\<lparr>d_capsule := Some c'\<rparr>) b"
    proof (cases "b = []")
      case True
      with False fill c'(1) show ?thesis by (simp add: decode_all_payload [OF c])
    next
      case b: False
      then show ?thesis
        using False c' c(2) kind
        by (simp add: decode_all_payload [OF c] decode_all_payload [of "d\<lparr>d_capsule := Some c'\<rparr>" c'] split: prod.split)
    qed
    ultimately show ?thesis using False fill c'(1) by (simp add: decode_all_payload [OF c])
  qed
qed

lemma data_tokens_append:
  "data_tokens c sid a False @ data_tokens (c\<lparr>c_remaining := r, c_started := True\<rparr>) sid b complete =
   data_tokens c sid (a @ b) complete"
  by (simp add: data_tokens_def)

lemma decode_all_data_append:
  assumes c: "d_capsule d = Some c" "is_stream (c_kind c)" "c_stream_id c = Some sid"
    and IH: "\<And>d' a'. decoder_measure d' a' < decoder_measure d a \<Longrightarrow>
      decode_all d' (a' @ b) = then_decode (decode_all d' a') b"
  shows "decode_all d (a @ b) = then_decode (decode_all d a) b"
proof (cases "a = [] \<and> c_remaining c \<noteq> 0")
  case True
  with c have "decode_all d a = ([], Inr d)"
    by (auto simp: decode_all_rest decoder_next_stream stream_id_loop.simps stream_event_def)
  with True show ?thesis by simp
next
  case False
  then have ne: "a \<noteq> [] \<or> c_remaining c = 0" "a @ b \<noteq> [] \<or> c_remaining c = 0" by auto
  let ?r = "unat (c_remaining c)"
  show ?thesis
  proof (cases "?r \<le> length a")
    case True
    have "decoder_measure (d\<lparr>d_capsule := None\<rparr>) (drop ?r a) < decoder_measure d a"
      using c(1) by (simp add: decoder_measure_def)
    with True show ?thesis
      using decode_all_data [OF c ne(1)] decode_all_data [OF c ne(2)] IH by simp
  next
    case short: False
    let ?c = "c\<lparr>c_remaining := c_remaining c - of_nat (length a), c_started := True\<rparr>"
    have r: "unat (c_remaining c - of_nat (length a)) = ?r - length a" "c_remaining c - of_nat (length a) \<noteq> 0"
      using unat_minus_of_nat [of "length a" "c_remaining c"] short by (auto simp: unat_eq_0 [symmetric] simp del: unat_eq_0)
    have a: "decode_all d a = (data_tokens c sid a False, Inr (d\<lparr>d_capsule := Some ?c\<rparr>))"
      using decode_all_data [OF c ne(1)] short by simp
    show ?thesis
    proof (cases "b = []")
      case True
      then have "decode_all (d\<lparr>d_capsule := Some ?c\<rparr>) b = ([], Inr (d\<lparr>d_capsule := Some ?c\<rparr>))"
        using c r by (auto simp: decode_all_rest decoder_next_stream stream_id_loop.simps stream_event_def)
      with True a show ?thesis by simp
    next
      case b: False
      have "decode_all (d\<lparr>d_capsule := Some ?c\<rparr>) b =
          (if ?r - length a \<le> length b
           then tokens_then (data_tokens ?c sid (take (?r - length a) b) True)
                  (decode_all (d\<lparr>d_capsule := None\<rparr>) (drop (?r - length a) b))
           else (data_tokens ?c sid b False,
                 Inr (d\<lparr>d_capsule := Some (c\<lparr>c_remaining := c_remaining c - of_nat (length (a @ b)), c_started := True\<rparr>)\<rparr>)))"
        using decode_all_data [of "d\<lparr>d_capsule := Some ?c\<rparr>" ?c sid b] c b r(1) by (simp add: algebra_simps)
      with decode_all_data [OF c ne(2)] a short show ?thesis
        by (auto simp: data_tokens_append simp flip: append_assoc)
    qed
  qed
qed

lemma decode_all_append: "decode_all d (a @ b) = then_decode (decode_all d a) b"
proof (induction "decoder_measure d a" arbitrary: d a rule: less_induct)
  case less
  show ?case
  proof (cases rule: decoder_state_cases [of d])
    case (Open kind len n)
    have n: "2 \<le> n" "n \<le> length (d_header d)" using parse_header_size [OF Open(2)] by simp_all
    have "decoder_measure (d\<lparr>d_header := drop n (d_header d), d_capsule := Some c\<rparr>) a < decoder_measure d a" for c
      using n Open(1) by (simp add: decoder_measure_def)
    note IH = less.hyps [OF this]
    show ?thesis by (simp add: decode_all_open [OF Open] IH split: sum.split)
  next
    case Header
    show ?thesis
    proof (cases a)
      case (Cons x xs)
      have IH: "decode_all (d\<lparr>d_header := d_header d @ [x]\<rparr>) (xs @ b) =
          then_decode (decode_all (d\<lparr>d_header := d_header d @ [x]\<rparr>) xs) b"
        by (rule less.hyps) (simp add: decoder_measure_def Cons)
      show ?thesis by (simp add: decode_all_header [OF Header] Cons IH)
    qed (simp add: decode_all_header [OF Header])
  next
    case (Complete c)
    have IH: "decode_all (d\<lparr>d_capsule := None\<rparr>) (a @ b) = then_decode (decode_all (d\<lparr>d_capsule := None\<rparr>) a) b"
      by (rule less.hyps) (simp add: decoder_measure_def Complete)
    show ?thesis by (simp add: decode_all_complete [OF Complete] IH split: sum.split)
  next
    case (Payload c)
    then show ?thesis by (rule decode_all_payload_append) (rule less.hyps)
  next
    case (Stream c)
    show ?thesis
    proof (cases "c_stream_id c")
      case (Some sid)
      show ?thesis by (rule decode_all_data_append [OF Stream Some]) (rule less.hyps)
    next
      case None
      show ?thesis
      proof (cases "read_varint (c_small c)")
        case None': None
        note unfold = decode_all_stream_header [OF Stream None None']
        show ?thesis
        proof (cases a)
          case (Cons x xs)
          let ?d = "d\<lparr>d_capsule := Some (c\<lparr>c_small := c_small c @ [x], c_remaining := c_remaining c - 1\<rparr>)\<rparr>"
          have IH: "decode_all ?d (xs @ b) = then_decode (decode_all ?d xs) b"
            by (rule less.hyps) (simp add: decoder_measure_def Cons Stream)
          show ?thesis by (simp add: unfold Cons IH)
        qed (simp add: unfold)
      next
        case (Some p)
        then obtain sid n where p: "read_varint (c_small c) = Some (sid, n)" by (cases p) simp
        let ?d = "d\<lparr>d_capsule := Some (c\<lparr>c_small := drop n (c_small c), c_stream_id := Some sid\<rparr>)\<rparr>"
        have "decoder_measure ?d a = decoder_measure d a" using Stream(1) by (simp add: decoder_measure_def)
        note hyps = less.hyps [folded this]
        have "decode_all ?d (a @ b) = then_decode (decode_all ?d a) b"
          by (rule decode_all_data_append [of ?d "c\<lparr>c_small := drop n (c_small c), c_stream_id := Some sid\<rparr>" sid, OF _ _ _ hyps])
            (use Stream(2) in simp_all)
        with decode_all_stream_id [OF Stream None p] show ?thesis by simp
      qed
    qed
  qed
qed

text \<open>Feeding the decoder one fragment after the other.\<close>

fun decode_chunks :: "Decoder \<Rightarrow> bytes list \<Rightarrow> wt_token list \<times> (string + Decoder)" where
  "decode_chunks d [] = ([], Inr d)"
| "decode_chunks d (a # as) =
     (case decode_all d a of (ts, Inl e) \<Rightarrow> (ts, Inl e) | (ts, Inr d') \<Rightarrow> tokens_then ts (decode_chunks d' as))"

lemma decode_all_quiescent:
  assumes "decode_all d a = (ts, Inr d')"
  shows "decode_all d' [] = ([], Inr d')"
proof (cases "decode_all d' []")
  case (Pair us r)
  with decode_all_append [of d a "[]"] assms show ?thesis by simp
qed

lemma decode_chunks_concat:
  "decode_all d [] = ([], Inr d) \<Longrightarrow> decode_chunks d chunks = decode_all d (concat chunks)"
proof (induction chunks arbitrary: d)
  case (Cons a as)
  show ?case
  proof (cases "decode_all d a")
    case (Pair ts r)
    then show ?thesis
      using Cons.IH decode_all_quiescent [of d a] by (cases r) (auto simp: decode_all_append)
  qed
qed simp

lemma decode_default_Nil: "decode_all decoder_default [] = ([], Inr decoder_default)"
  by (simp add: decode_all_header decoder_default_def parse_header_def read_varint_def)

section \<open>Round trip of capsules\<close>

lemma varint_encoding:
  assumes "put_varint out v = Inr bs"
  obtains e where "bs = out @ e" "length e \<le> 8" "e \<noteq> []" "\<And>rest. read_varint (e @ rest) = Some (v, length e)"
    "\<And>p q. e = p @ q \<Longrightarrow> q \<noteq> [] \<Longrightarrow> read_varint p = None"
proof -
  let ?k = "varint_class v"
  let ?e = "varint_bytes ?k (unat v)"
  have v: "v \<le> VARINT_MAX" "bs = out @ ?e" using assms by (auto simp: put_varint_bytes split: if_splits)
  note b = varint_class_bounds(1) [of v] varint_class_bounds(2) [OF v(1)]
  have "(2::nat) ^ ?k \<le> 2 ^ 3" using b(1) by (intro power_increasing) auto
  then have len: "length ?e \<le> 8" "?e \<noteq> []" using length_varint_bytes [of ?k "unat v"] by (simp_all flip: length_greater_0_conv)
  have "read_varint (?e @ rest) = Some (v, length ?e)" for rest using read_varint_bytes [OF b] by simp
  from that [OF v(2) len this read_varint_partial [OF b]] show ?thesis .
qed

lemma decode_all_header_bytes:
  assumes "\<And>p' q'. h = p' @ q' \<Longrightarrow> q' \<noteq> [] \<Longrightarrow> parse_header p' = None" "length h \<le> 16" "h = p @ q"
  shows "decode_all \<lparr>d_header = p, d_capsule = None\<rparr> (q @ rest) = decode_all \<lparr>d_header = h, d_capsule = None\<rparr> rest"
  using assms(3)
proof (induction q arbitrary: p)
  case (Cons x q)
  have "parse_header p = None" "length p < 16" using assms(1) [of p "x # q"] assms(2) Cons.prems by auto
  then show ?case using Cons.IH [of "p @ [x]"] Cons.prems by (simp add: decode_all_header)
qed simp

lemma decode_all_capsule:
  assumes "wt_encode kind payload = Inr bs" "length payload < 2 ^ 64"
  shows "decode_all decoder_default (bs @ rest) =
    (case capsule_discard kind (of_nat (length payload)) of Inl e \<Rightarrow> ([], Inl e) | Inr discard \<Rightarrow>
       decode_all \<lparr>d_header = [], d_capsule = Some (new_capsule kind (of_nat (length payload)) discard)\<rparr> (payload @ rest))"
proof -
  from assms(1) obtain x y where x: "put_varint [] kind = Inr x" and y: "put_varint x (of_nat (length payload)) = Inr y"
      and bs: "bs = y @ payload"
    by (auto simp: wt_encode_def result_simps)
  obtain a where a: "x = [] @ a" "length a \<le> 8" "a \<noteq> []" "\<And>rest. read_varint (a @ rest) = Some (kind, length a)"
      "\<And>p q. a = p @ q \<Longrightarrow> q \<noteq> [] \<Longrightarrow> read_varint p = None"
    using varint_encoding [OF x] by blast
  obtain b where b: "y = x @ b" "length b \<le> 8" "b \<noteq> []"
      "\<And>rest. read_varint (b @ rest) = Some (of_nat (length payload), length b)"
      "\<And>p q. b = p @ q \<Longrightarrow> q \<noteq> [] \<Longrightarrow> read_varint p = None"
    using varint_encoding [OF y] by blast
  have partial: "parse_header p = None" if "a @ b = p @ q" "q \<noteq> []" for p q
  proof -
    from that(1) consider us where "p = a @ us" "b = us @ q" | us where "a = p @ us" "us \<noteq> []" | "p = a" "b = q"
      by (auto simp: append_eq_append_conv2) blast
    then show ?thesis
    proof cases
      case 1
      with a(4) [of us] b(5) [of us q] that(2) show ?thesis by (simp add: parse_header_def)
    next
      case 2
      with a(5) [of p us] show ?thesis by (simp add: parse_header_def)
    next
      case 3
      with a(4) [of "[]"] show ?thesis by (simp add: parse_header_def read_varint_def)
    qed
  qed
  have "parse_header (a @ b) = Some (kind, of_nat (length payload), length a + length b)"
    using a(4) b(4) [of "[]"] by (simp add: parse_header_def)
  moreover have "decode_all decoder_default (bs @ rest) = decode_all \<lparr>d_header = a @ b, d_capsule = None\<rparr> (payload @ rest)"
    using decode_all_header_bytes [of "a @ b" "[]" "a @ b" "payload @ rest", OF partial] a(1,2) b(1,2) bs
    by (simp add: decoder_default_def)
  ultimately show ?thesis by (simp add: decode_all_open split: sum.split)
qed

lemma decode_all_small_capsule:
  assumes "\<not> is_stream kind" "length payload < 2 ^ 64"
  shows "decode_all \<lparr>d_header = [], d_capsule = Some (new_capsule kind (of_nat (length payload)) False)\<rparr> (payload @ rest) =
    (case capsule_event kind payload of Inl e \<Rightarrow> ([], Inl e)
     | Inr ev \<Rightarrow> tokens_then (event_tokens ev) (decode_all decoder_default rest))"
proof (cases "payload = []")
  case True
  with assms(1) show ?thesis by (simp add: decode_all_complete new_capsule_def decoder_default_def split: sum.split)
next
  case False
  have len: "unat (of_nat (length payload) :: u64) = length payload" using assms(2) by (simp add: unat_of_nat)
  then have "(of_nat (length payload) :: u64) \<noteq> 0" using False by (metis length_0_conv unat_0)
  with False assms(1) len show ?thesis
    by (simp add: decode_all_payload decode_all_complete new_capsule_def fill_capsule_def Let_def decoder_default_def split: sum.split)
qed

lemma decode_all_stream_id_bytes:
  assumes e: "\<And>p' q'. e = p' @ q' \<Longrightarrow> q' \<noteq> [] \<Longrightarrow> read_varint p' = None" and c: "is_stream kind"
    and "e = p @ q" "length q + n < 2 ^ 64"
  shows "decode_all \<lparr>d_header = [], d_capsule = Some \<lparr>c_kind = kind, c_remaining = of_nat (length q + n), c_small = p,
            c_stream_id = None, c_started = False, c_discard = False\<rparr>\<rparr> (q @ rest) =
         decode_all \<lparr>d_header = [], d_capsule = Some \<lparr>c_kind = kind, c_remaining = of_nat n, c_small = e,
            c_stream_id = None, c_started = False, c_discard = False\<rparr>\<rparr> rest"
  using assms(3,4)
proof (induction q arbitrary: p)
  case (Cons x q)
  have p: "read_varint p = None" using e [of p "x # q"] Cons.prems by auto
  have r: "(of_nat (length (x # q) + n) :: u64) \<noteq> 0"
    using Cons.prems(2) by (simp only: word_unat_eq_iff unat_of_nat) simp
  show ?case using Cons.IH [of "p @ [x]"] Cons.prems c p r by (simp add: decode_all_stream_header)
qed simp

lemma decode_all_stream_capsule:
  assumes "wt_stream sid data fin = Inr bs" "length data + 8 < 2 ^ 64"
  shows "decode_all decoder_default (bs @ rest) =
    tokens_then (event_tokens (Stream sid data fin True)) (decode_all decoder_default rest)"
proof -
  let ?kind = "if fin then STREAM_FIN else STREAM"
  from assms(1) obtain x where x: "put_varint [] sid = Inr x" and bs: "wt_encode ?kind (x @ data) = Inr bs"
    by (auto simp: wt_stream_def result_simps)
  obtain e where e: "x = [] @ e" "length e \<le> 8" "e \<noteq> []" "\<And>rest. read_varint (e @ rest) = Some (sid, length e)"
      "\<And>p q. e = p @ q \<Longrightarrow> q \<noteq> [] \<Longrightarrow> read_varint p = None"
    using varint_encoding [OF x] by blast
  let ?n = "length e + length data"
  let ?c = "\<lambda>small r sid. \<lparr>c_kind = ?kind, c_remaining = of_nat r, c_small = small, c_stream_id = sid,
            c_started = False, c_discard = False\<rparr>"
  have n: "?n < 2 ^ 64" using e(2) assms(2) by simp
  have "decode_all decoder_default (bs @ rest) = decode_all \<lparr>d_header = [], d_capsule = Some (?c [] ?n None)\<rparr> (e @ data @ rest)"
    using decode_all_capsule [OF bs, of rest] n e(1) by (simp add: capsule_discard_def new_capsule_def)
  also have "\<dots> = decode_all \<lparr>d_header = [], d_capsule = Some (?c e (length data) None)\<rparr> (data @ rest)"
    using decode_all_stream_id_bytes [OF e(5), where p = "[]" and q = e and kind = ?kind and n = "length data"] n by simp
  also have "\<dots> = decode_all \<lparr>d_header = [], d_capsule = Some (?c [] (length data) (Some sid))\<rparr> (data @ rest)"
    using e(4) [of "[]"] by (simp add: decode_all_stream_id)
  also have "\<dots> = tokens_then (data_tokens (?c [] (length data) (Some sid)) sid data True) (decode_all decoder_default rest)"
  proof -
    have len: "unat (of_nat (length data) :: u64) = length data" using assms(2) by (simp add: unat_of_nat)
    then have "data @ rest \<noteq> [] \<or> (of_nat (length data) :: u64) = 0" by auto
    with len show ?thesis
      using decode_all_data [of "\<lparr>d_header = [], d_capsule = Some (?c [] (length data) (Some sid))\<rparr>"
          "?c [] (length data) (Some sid)" sid "data @ rest"] by (simp add: decoder_default_def)
  qed
  also have "\<dots> = tokens_then (event_tokens (Stream sid data fin True)) (decode_all decoder_default rest)"
    by (simp add: data_tokens_def)
  finally show ?thesis .
qed

lemma put_varints_values:
  "put_varints out vs = Inr bs \<Longrightarrow>
   \<exists>e. bs = out @ e \<and> length e \<le> 8 * length vs \<and> (\<forall>rest. read_values (length vs) (e @ rest) = Inr (vs, rest))"
proof (induction vs arbitrary: out)
  case (Cons v vs)
  from Cons.prems obtain out' where v: "put_varint out v = Inr out'" and vs: "put_varints out' vs = Inr bs"
    by (auto simp: result_simps)
  obtain e where e: "out' = out @ e" "length e \<le> 8" "\<And>rest. read_varint (e @ rest) = Some (v, length e)"
    using varint_encoding [OF v] by blast
  from Cons.IH [OF vs] obtain e' where e': "bs = out' @ e'" "length e' \<le> 8 * length vs"
      "\<forall>rest. read_values (length vs) (e' @ rest) = Inr (vs, rest)" by blast
  show ?case by (rule exI [of _ "e @ e'"]) (use e e' in simp)
qed simp

lemma utf8_next_take:
  "utf8_next a s = Some (c, k) \<Longrightarrow> k \<le> i \<Longrightarrow> utf8_next a (take i s) = Some (c, k)"
  by (auto simp: utf8_next_def take_Cons' numeral_2_eq_2 numeral_3_eq_3 split: if_splits list.splits)

lemma utf8_next_cont:
  "utf8_next a s = Some (c, k) \<Longrightarrow> k \<le> length s \<and> (\<forall>i < k. utf8_cont (s ! i))"
  by (auto simp: utf8_next_def less_Suc_eq numeral_3_eq_3 numeral_2_eq_2 split: if_splits list.splits)

lemma utf8_scalars_take:
  "utf8_scalars bs \<noteq> None \<Longrightarrow> i \<le> length bs \<Longrightarrow> i = length bs \<or> \<not> utf8_cont (bs ! i) \<or> i = 0 \<Longrightarrow>
   utf8_scalars (take i bs) \<noteq> None"
proof (induction bs arbitrary: i rule: utf8_scalars.induct)
  case (2 a s)
  show ?case
  proof (cases i)
    case (Suc j)
    from "2.prems"(1) obtain c k where nxt: "utf8_next a s = Some (c, k)" and rest: "utf8_scalars (drop k s) \<noteq> None"
      by (auto split: option.splits)
    note cont = utf8_next_cont [OF nxt]
    have "k \<le> j" using cont "2.prems"(2,3) Suc by (cases "k \<le> j") auto
    then have "utf8_scalars (take (j - k) (drop k s)) \<noteq> None"
      using "2.IH" [OF nxt refl rest, of "j - k"] "2.prems"(2,3) Suc cont by (cases "j = k") auto
    then show ?thesis using Suc utf8_next_take [OF nxt \<open>k \<le> j\<close>] by (simp add: drop_take)
  qed simp
qed simp

lemma char_boundary_before:
  "char_boundary_before s i \<le> i" "is_char_boundary s (char_boundary_before s i)"
  by (induction i) (auto simp: is_char_boundary_def)

lemma close_reason_valid: "utf8_valid reason \<Longrightarrow> utf8_valid (take (char_boundary_before reason (min (length reason) m)) reason)"
  using utf8_scalars_take [of "map unat reason" "char_boundary_before reason (min (length reason) m)"]
    char_boundary_before [of reason "min (length reason) m"]
  by (auto simp: utf8_valid_def is_char_boundary_def take_map)

text \<open>
  What a peer sends, as the event it should become: stream data opens its capsule, a close reason
  is cut at the last character border within the limit.
\<close>

fun send_event :: "wt_event \<Rightarrow> string + bytes" where
  "send_event (Stream sid data fin start) = wt_stream sid data fin"
| "send_event (Control kind values) = wt_control kind values"
| "send_event (Datagram payload) = wt_encode DATAGRAM payload"
| "send_event (Close code reason) = wt_close code reason"
| "send_event Drain = wt_encode DRAIN_SESSION []"

fun sendable :: "wt_event \<Rightarrow> bool" where
  "sendable (Stream sid data fin start) \<longleftrightarrow> start \<and> length data + 8 < 2 ^ 64"
| "sendable (Control kind values) \<longleftrightarrow> control_values kind = Some (length values)"
| "sendable (Datagram payload) \<longleftrightarrow> length payload \<le> MAX_DATAGRAM"
| "sendable (Close code reason) \<longleftrightarrow> True"
| "sendable Drain \<longleftrightarrow> True"

fun received_event :: "wt_event \<Rightarrow> wt_event" where
  "received_event (Close code reason) =
     Close code (take (char_boundary_before reason (min (length reason) MAX_CLOSE_REASON)) reason)"
| "received_event e = e"

lemma control_values_cases:
  "control_values kind = Some n \<Longrightarrow> n \<le> 3 \<and> \<not> is_stream kind \<and> kind \<noteq> DATAGRAM \<and> kind \<noteq> CLOSE_SESSION \<and> kind \<noteq> DRAIN_SESSION"
  by (auto simp: control_values_def split: if_splits)

lemma decode_all_small_encoded:
  assumes "wt_encode kind payload = Inr bs" "\<not> is_stream kind" "length payload < 2 ^ 64"
    and "capsule_discard kind (of_nat (length payload)) = Inr False" "capsule_event kind payload = Inr ev"
  shows "decode_all decoder_default (bs @ rest) = tokens_then (event_tokens ev) (decode_all decoder_default rest)"
  using assms by (simp add: decode_all_capsule decode_all_small_capsule)

lemma send_event_decode:
  assumes "sendable e" "send_event e = Inr bs"
  shows "decode_all decoder_default (bs @ rest) = tokens_then (event_tokens (received_event e)) (decode_all decoder_default rest)"
proof (cases e)
  case (Stream sid data fin start)
  with assms decode_all_stream_capsule [of sid data fin bs] show ?thesis by simp
next
  case (Control kind vs)
  with assms obtain payload where p: "put_varints [] vs = Inr payload" and bs: "wt_encode kind payload = Inr bs"
    by (auto simp: wt_control_def result_simps)
  from assms Control have count: "control_values kind = Some (length vs)" by simp
  from put_varints_values [OF p] obtain e' where e': "payload = [] @ e'" "length e' \<le> 8 * length vs"
      "\<forall>rest. read_values (length vs) (e' @ rest) = Inr (vs, rest)" by blast
  have "read_values (length vs) payload = Inr (vs, [])" using e' spec [OF e'(3), of "[]"] by simp
  moreover have len: "length payload \<le> 24" using e' control_values_cases [OF count] by simp
  then have "(of_nat (length payload) :: u64) \<le> 24" by (simp add: word_le_nat_alt unat_of_nat)
  ultimately show ?thesis
    using decode_all_small_encoded [OF bs, of "Control kind vs"] control_values_cases [OF count] count len Control
    by (simp add: capsule_discard_def capsule_event_def)
next
  case (Datagram payload)
  then have len: "length payload \<le> 65535" using assms(1) by (simp add: MAX_DATAGRAM_def)
  then have "(of_nat (length payload) :: u64) \<le> 65535" by (simp add: word_le_nat_alt unat_of_nat)
  then show ?thesis
    using decode_all_small_encoded [of DATAGRAM payload bs "Datagram payload"] assms(2) len Datagram
    by (simp add: capsule_discard_def capsule_event_def MAX_DATAGRAM_def)
next
  case (Close code reason)
  define r where "r = take (char_boundary_before reason (min (length reason) MAX_CLOSE_REASON)) reason"
  let ?p = "be_bytes 4 (unat code) @ r"
  from assms(2) Close have utf8: "utf8_valid reason" and bs: "wt_encode CLOSE_SESSION ?p = Inr bs"
    by (auto simp: wt_close_def r_def split: if_splits)
  have "length r \<le> 1024"
    using char_boundary_before(1) [of reason "min (length reason) MAX_CLOSE_REASON"] by (simp add: r_def MAX_CLOSE_REASON_def)
  then have len: "length ?p \<le> 1028" "4 \<le> length ?p" by simp_all
  then have "(of_nat (length ?p) :: u64) \<le> 1028" "4 \<le> (of_nat (length ?p) :: u64)"
    by (simp_all only: word_le_nat_alt unat_of_nat) simp_all
  then have "capsule_discard CLOSE_SESSION (of_nat (length ?p)) = Inr False"
    by (simp add: capsule_discard_def MAX_CLOSE_REASON_def)
  moreover have "capsule_event CLOSE_SESSION ?p = Inr (Close code r)"
    using close_reason_valid [OF utf8] by (simp add: capsule_event_def r_def byte_simps)
  ultimately show ?thesis
    using decode_all_small_encoded [OF bs, of "Close code r"] len Close by (simp add: r_def)
next
  case Drain
  with assms decode_all_small_encoded [of DRAIN_SESSION "[]" bs Drain] show ?thesis
    by (simp add: capsule_discard_def capsule_event_def)
qed

fun send_all :: "wt_event list \<Rightarrow> string + bytes" where
  "send_all [] = Inr []"
| "send_all (e # es) = bindE (send_event e) (\<lambda>bs. bindE (send_all es) (\<lambda>rest. Inr (bs @ rest)))"

lemma send_all_decode:
  "list_all sendable es \<Longrightarrow> send_all es = Inr bs \<Longrightarrow>
   decode_all decoder_default bs = (concat (map (event_tokens \<circ> received_event) es), Inr decoder_default)"
proof (induction es arbitrary: bs)
  case (Cons e es)
  then show ?case by (auto simp: result_simps send_event_decode)
qed (simp add: decode_default_Nil)

section \<open>Buffer bounds\<close>

lemma read_varint_None_length: "read_varint bs = None \<Longrightarrow> length bs < 8"
proof (cases bs)
  case (Cons b rest)
  assume none: "read_varint bs = None"
  have "unat b div 64 \<le> 3" using u8_less [of b] by simp
  then have "(2::nat) ^ (unat b div 64) \<le> 2 ^ 3" by (intro power_increasing) auto
  with none read_varint_first [of b "unat b div 64" rest] Cons show ?thesis by (simp split: if_splits)
qed simp

lemma read_varint_le: "read_varint bs = Some (v, n) \<Longrightarrow> n \<le> 8"
proof (cases bs)
  case (Cons b rest)
  assume some: "read_varint bs = Some (v, n)"
  have "unat b div 64 \<le> 3" using u8_less [of b] by simp
  then have "(2::nat) ^ (unat b div 64) \<le> 2 ^ 3" by (intro power_increasing) auto
  with some read_varint_first [of b "unat b div 64" rest] Cons show ?thesis by (simp split: if_splits)
qed (simp add: read_varint_def)

lemma parse_header_None_length: "parse_header h = None \<Longrightarrow> length h < 16"
  by (auto simp: parse_header_def dest!: read_varint_None_length split: option.splits) (fastforce dest: read_varint_le)

text \<open>The most payload a capsule of each kind may buffer.\<close>

definition capsule_limit :: "u64 \<Rightarrow> nat" where
  "capsule_limit kind =
     (if kind = DATAGRAM then MAX_DATAGRAM else if kind = CLOSE_SESSION then 4 + MAX_CLOSE_REASON
      else if kind = DRAIN_SESSION then 0 else 24)"

definition capsule_inv :: "Capsule \<Rightarrow> bool" where
  "capsule_inv c \<longleftrightarrow>
     (if is_stream (c_kind c) then length (c_small c) \<le> 8
      else if c_discard c then c_small c = []
      else length (c_small c) + unat (c_remaining c) \<le> capsule_limit (c_kind c) \<and>
        (c_kind c = CLOSE_SESSION \<longrightarrow> 4 \<le> length (c_small c) + unat (c_remaining c)))"

definition decoder_inv :: "Decoder \<Rightarrow> bool" where
  "decoder_inv d \<longleftrightarrow> length (d_header d) \<le> 16 \<and> (case d_capsule d of None \<Rightarrow> True | Some c \<Rightarrow> capsule_inv c)"

fun event_bounded :: "wt_event \<Rightarrow> bool" where
  "event_bounded (Stream sid data fin start) \<longleftrightarrow> length data \<le> QUANTUM"
| "event_bounded (Control kind values) \<longleftrightarrow> length values \<le> 3"
| "event_bounded (Datagram payload) \<longleftrightarrow> length payload \<le> MAX_DATAGRAM"
| "event_bounded (Close code reason) \<longleftrightarrow> length reason \<le> MAX_CLOSE_REASON"
| "event_bounded Drain \<longleftrightarrow> True"

lemma capsule_inv_new: "capsule_discard kind len = Inr discard \<Longrightarrow> capsule_inv (new_capsule kind len discard)"
  by (auto simp: capsule_discard_def capsule_inv_def new_capsule_def capsule_limit_def word_le_nat_alt word_less_nat_alt
      MAX_DATAGRAM_def MAX_CLOSE_REASON_def split: if_splits)

lemma capsule_inv_fill:
  assumes "capsule_inv c" "\<not> is_stream (c_kind c)" "fill_capsule c input = (c', input')"
  shows "capsule_inv c'"
proof -
  let ?n = "min (unat (c_remaining c)) (length input)"
  have "unat (c_remaining c - of_nat ?n) = unat (c_remaining c) - ?n" by (rule unat_minus_of_nat) simp
  then show ?thesis using assms by (auto simp: fill_capsule_def Let_def capsule_inv_def simp del: unat_of_nat)
qed

lemma read_values_length: "read_values n bs = Inr (vs, rest) \<Longrightarrow> length vs = n"
  by (induction n arbitrary: bs vs) (auto simp: result_simps)

lemma capsule_event_bounded:
  assumes "capsule_inv c" "\<not> is_stream (c_kind c)" "\<not> c_discard c" "capsule_event (c_kind c) (c_small c) = Inr ev"
  shows "event_bounded ev"
  using assms control_values_cases [of "c_kind c"]
  by (auto simp: capsule_event_def capsule_inv_def capsule_limit_def result_simps dest!: read_values_length split: if_splits)

lemma stream_id_loop_inv:
  "length (c_small c) \<le> 8 \<Longrightarrow> stream_id_loop c input = Inr (complete, c', input') \<Longrightarrow>
   length (c_small c') \<le> 8 \<and> c_kind c' = c_kind c"
proof (induction c input rule: stream_id_loop.induct)
  case (1 c input)
  from "1.prems"(2) show ?case
    using "1.IH" "1.prems"(1) read_varint_None_length [of "c_small c"]
    by (subst (asm) stream_id_loop.simps) (auto split: if_splits option.splits list.splits)
qed

definition decoder_good :: "string + wt_event option \<times> Decoder \<times> bytes \<Rightarrow> bool" where
  "decoder_good r \<longleftrightarrow>
     (case r of Inl e \<Rightarrow> e \<noteq> ''invalid capsule header''
      | Inr (ev, d, rest) \<Rightarrow> decoder_inv d \<and> (case ev of None \<Rightarrow> True | Some e \<Rightarrow> event_bounded e))"

lemma read_values_error: "read_values n bs = Inl e \<Longrightarrow> e = ''truncated control capsule''"
  by (induction n arbitrary: bs) (auto simp: result_simps)

lemma capsule_event_error: "capsule_event kind small = Inl e \<Longrightarrow> e \<noteq> ''invalid capsule header''"
  by (auto simp: capsule_event_def result_simps dest!: read_values_error split: if_splits)

lemma capsule_discard_error: "capsule_discard kind len = Inl e \<Longrightarrow> e \<noteq> ''invalid capsule header''"
  by (auto simp: capsule_discard_def split: if_splits)

lemma stream_id_loop_error: "stream_id_loop c input = Inl e \<Longrightarrow> e = ''missing WebTransport stream ID''"
proof (induction c input rule: stream_id_loop.induct)
  case (1 c input)
  from "1.prems" show ?case
    using "1.IH" by (subst (asm) stream_id_loop.simps) (auto split: if_splits option.splits list.splits)
qed

lemma stream_event_good:
  assumes "decoder_inv d" "length (c_small c) \<le> 8" "is_stream (c_kind c)"
  shows "decoder_good (stream_event d c input)"
  using assms
  by (cases "c_stream_id c") (auto simp: stream_event_def decoder_good_def decoder_inv_def capsule_inv_def Let_def)

lemma stream_good:
  assumes "decoder_inv d" "d_capsule d = Some c" "is_stream (c_kind c)"
  shows "decoder_good (decoder_next d input)"
proof (cases "stream_id_loop c input")
  case (Inl e)
  with assms stream_id_loop_error [OF Inl] show ?thesis by (simp add: decoder_next_stream decoder_good_def)
next
  case (Inr r)
  obtain complete c' input' where r: "r = (complete, c', input')" by (cases r) auto
  have "length (c_small c') \<le> 8 \<and> c_kind c' = c_kind c"
    using assms Inr r by (intro stream_id_loop_inv) (auto simp: decoder_inv_def capsule_inv_def)
  with assms stream_event_good [OF assms(1), of c' input'] Inr r show ?thesis
    by (auto simp: decoder_next_stream decoder_good_def decoder_inv_def capsule_inv_def)
qed

lemma decoder_next_good: "decoder_inv d \<Longrightarrow> decoder_good (decoder_next d input)"
proof (induction "decoder_measure d input" arbitrary: d input rule: less_induct)
  case less
  show ?case
  proof (cases rule: decoder_state_cases [of d])
    case (Open kind len n)
    have n: "2 \<le> n" "n \<le> length (d_header d)" using parse_header_size [OF Open(2)] by simp_all
    have "decoder_good (decoder_next (d\<lparr>d_header := drop n (d_header d), d_capsule := Some (new_capsule kind len b)\<rparr>) input)"
      if "capsule_discard kind len = Inr b" for b
      by (rule less.hyps) (use n Open(1) less.prems capsule_inv_new [OF that] in \<open>simp_all add: decoder_measure_def decoder_inv_def\<close>)
    then show ?thesis
      using capsule_discard_error [of kind len] by (cases "capsule_discard kind len") (simp_all add: decoder_next_open [OF Open] decoder_good_def [of "Inl _"])
  next
    case Header
    show ?thesis
    proof (cases input)
      case (Cons b bs)
      have len: "length (d_header d) < 16" using Header(2) by (rule parse_header_None_length)
      have "decoder_good (decoder_next (d\<lparr>d_header := d_header d @ [b]\<rparr>) bs)"
        by (rule less.hyps) (use len less.prems Header(1) Cons in \<open>simp_all add: decoder_measure_def decoder_inv_def\<close>)
      with len show ?thesis by (simp add: decoder_next_header [OF Header] Cons)
    qed (use less.prems in \<open>simp add: decoder_next_header [OF Header] decoder_good_def\<close>)
  next
    case (Stream c)
    with less.prems show ?thesis by (rule stream_good)
  next
    case (Complete c)
    have inv: "capsule_inv c" "decoder_inv (d\<lparr>d_capsule := None\<rparr>)" using less.prems Complete(1) by (simp_all add: decoder_inv_def)
    have "decoder_good (decoder_next (d\<lparr>d_capsule := None\<rparr>) input)"
      by (rule less.hyps) (use inv Complete(1) in \<open>simp_all add: decoder_measure_def\<close>)
    with inv show ?thesis
      using capsule_event_bounded [OF inv(1) Complete(2)] capsule_event_error
      by (cases "capsule_event (c_kind c) (c_small c)") (auto simp: decoder_next_complete [OF Complete] decoder_good_def [of "Inl _"] decoder_good_def [of "Inr (Some _, _)"])
  next
    case (Payload c)
    obtain c' input' where fill: "fill_capsule c input = (c', input')" by fastforce
    show ?thesis
    proof (cases "input = []")
      case False
      have "capsule_inv c" using less.prems Payload(1) by (simp add: decoder_inv_def)
      then have "capsule_inv c'" by (rule capsule_inv_fill [OF _ Payload(2) fill])
      moreover have "length input' < length input" by (rule fill_capsule_less [OF fill [symmetric] Payload(3) False])
      ultimately have "decoder_good (decoder_next (d\<lparr>d_capsule := Some c'\<rparr>) input')"
        by (intro less.hyps) (use less.prems Payload(1) in \<open>simp_all add: decoder_measure_def decoder_inv_def\<close>)
      then show ?thesis by (simp add: decoder_next_payload [OF Payload] False fill)
    qed (use less.prems in \<open>simp add: decoder_next_payload [OF Payload] decoder_good_def\<close>)
  qed
qed

lemma stream_event_None: "stream_event d c input = Inr (None, d', rest) \<Longrightarrow> rest = []"
  by (auto simp: stream_event_def Let_def result_simps split: if_splits)

lemma stream_id_loop_incomplete: "stream_id_loop c input = Inr (False, c', rest) \<Longrightarrow> rest = []"
proof (induction c input rule: stream_id_loop.induct)
  case (1 c input)
  from "1.prems" show ?case
    using "1.IH" by (subst (asm) stream_id_loop.simps) (auto split: if_splits option.splits list.splits)
qed

lemma decoder_next_None: "decoder_next d input = Inr (None, d', rest) \<Longrightarrow> rest = []"
proof (induction "decoder_measure d input" arbitrary: d input rule: less_induct)
  case less
  show ?case
  proof (cases rule: decoder_state_cases [of d])
    case (Open kind len n)
    have n: "2 \<le> n" "n \<le> length (d_header d)" using parse_header_size [OF Open(2)] by simp_all
    then have "decoder_measure (d\<lparr>d_header := drop n (d_header d), d_capsule := Some c\<rparr>) input < decoder_measure d input" for c
      using Open(1) by (simp add: decoder_measure_def)
    note IH = less.hyps [OF this]
    show ?thesis using less.prems by (auto simp: decoder_next_open [OF Open] result_simps dest: IH)
  next
    case Header
    show ?thesis
    proof (cases input)
      case (Cons b bs)
      then have "decoder_measure (d\<lparr>d_header := d_header d @ [b]\<rparr>) bs < decoder_measure d input"
        by (simp add: decoder_measure_def)
      note IH = less.hyps [OF this]
      show ?thesis using less.prems by (auto simp: decoder_next_header [OF Header] Cons dest: IH split: if_splits)
    qed (use less.prems in \<open>simp add: decoder_next_header [OF Header]\<close>)
  next
    case (Stream c)
    with less.prems show ?thesis
      by (auto simp: decoder_next_stream result_simps dest: stream_event_None stream_id_loop_incomplete split: if_splits)
  next
    case (Complete c)
    then have "decoder_measure (d\<lparr>d_capsule := None\<rparr>) input < decoder_measure d input" by (simp add: decoder_measure_def)
    note IH = less.hyps [OF this]
    show ?thesis using less.prems by (auto simp: decoder_next_complete [OF Complete] result_simps dest: IH split: if_splits)
  next
    case (Payload c)
    obtain c' input' where fill: "fill_capsule c input = (c', input')" by fastforce
    have "input \<noteq> [] \<Longrightarrow> decoder_measure (d\<lparr>d_capsule := Some c'\<rparr>) input' < decoder_measure d input"
      using fill_capsule_less [OF fill [symmetric] Payload(3)] Payload(1) by (simp add: decoder_measure_def)
    note IH = less.hyps [OF this]
    show ?thesis using less.prems by (auto simp: decoder_next_payload [OF Payload] fill dest: IH split: if_splits)
  qed
qed

section \<open>Properties\<close>

text \<open>The decoders a session can hold: the default one, and what successful calls of \<open>next\<close> leave.\<close>

inductive decoder_reachable :: "Decoder \<Rightarrow> bool" where
  start: "decoder_reachable decoder_default"
| step: "decoder_reachable d \<Longrightarrow> decoder_next d input = Inr (ev, d', rest) \<Longrightarrow> decoder_reachable d'"

lemma decoder_reachable_inv: "decoder_reachable d \<Longrightarrow> decoder_inv d"
proof (induction rule: decoder_reachable.induct)
  case (step d input ev d' rest)
  with decoder_next_good [of d input] show ?case by (simp add: decoder_good_def)
qed (simp add: decoder_inv_def decoder_default_def)

lemma capsule_inv_small: "capsule_inv c \<Longrightarrow> length (c_small c) \<le> MAX_DATAGRAM"
  by (auto simp: capsule_inv_def capsule_limit_def MAX_DATAGRAM_def MAX_CLOSE_REASON_def split: if_splits)

text \<open>
  C23.  However the byte stream is cut into fragments, feeding them one after the other gives the
  same stream bytes, stream ends, control events, error and final decoder as the whole input at once.
\<close>

theorem fragmentation_independence:
  "decode_chunks decoder_default chunks = decode_all decoder_default (concat chunks)"
  by (rule decode_chunks_concat [OF decode_default_Nil])

text \<open>
  C24.  Capsules written by \<open>stream\<close>, \<open>control\<close>, \<open>encode\<close> and \<open>close\<close> and received in any fragmentation
  are decoded to exactly the events sent, in order, and leave the decoder at a capsule border, so
  that \<open>finish\<close> succeeds.  A close reason arrives cut at a character border.
\<close>

theorem capsules_roundtrip:
  assumes "list_all sendable es" "send_all es = Inr (concat chunks)"
  shows "decode_chunks decoder_default chunks =
           (concat (map (event_tokens \<circ> received_event) es), Inr decoder_default) \<and>
         decoder_finish decoder_default = Inr ()"
  using decode_chunks_concat [OF decode_default_Nil, of chunks] send_all_decode [OF assms]
  by (simp_all add: decoder_finish_def decoder_default_def)

theorem capsules_roundtrip_witness:
  "decode_chunks decoder_default [[0x99, 0x0b, 0x4d], [0x3b, 0x03, 0x07, 0x61], [0x62]] =
     ([StreamStart 7, StreamByte 7 0x61, StreamByte 7 0x62, StreamFin 7], Inr decoder_default)"
proof -
  have "send_all [Stream 7 [0x61, 0x62] True True] =
      Inr (concat [[0x99, 0x0b, 0x4d], [0x3b, 0x03, 0x07, 0x61], [0x62]])"
    by (simp add: wt_stream_def wt_encode_def put_varint_def push_bit_eq_mult be_bytes_4)
  from capsules_roundtrip [OF _ this] show ?thesis by simp
qed

text \<open>
  C25.  Whatever the peer sends, a decoder in use holds at most 16 header bytes and 65535 payload
  bytes, every event it yields is within its limit, and the header can never grow into the error
  that guards it.
\<close>

theorem decoder_bounded:
  assumes "decoder_reachable d"
  shows "decoder_next d input \<noteq> Inl ''invalid capsule header'' \<and>
    (decoder_next d input = Inr (ev, d', rest) \<longrightarrow>
      length (d_header d') \<le> 16 \<and> pred_option (\<lambda>c. length (c_small c) \<le> MAX_DATAGRAM) (d_capsule d') \<and>
      pred_option event_bounded ev)"
  using decoder_next_good [OF decoder_reachable_inv [OF assms], of input]
  by (auto simp: decoder_good_def decoder_inv_def capsule_inv_small split: option.splits sum.splits)

theorem decoder_bounded_witness:
  "decoder_next decoder_default [0, 1, 5] = Inr (Some (Datagram [5]), decoder_default, []) \<and> event_bounded (Datagram [5])"
proof -
  have run: "decoder_next decoder_default [0, 1, 5] = Inr (Some (Datagram [5]), decoder_default, [])" by (simp add: decoder_default_def decoder_next_header decoder_next_open decoder_next_payload decoder_next_complete
      parse_header_def read_varint_def slice_def capsule_discard_def new_capsule_def fill_capsule_def capsule_event_def MAX_DATAGRAM_def)
  with decoder_bounded [OF decoder_reachable.start, of "[0, 1, 5]" "Some (Datagram [5])" decoder_default "[]"] show ?thesis by simp
qed

text \<open>
  C26.  \<open>next\<close> asks for more input only after it has consumed all it was given, and every event it
  yields makes progress, so the loop that calls it until it asks for more ends.
\<close>

theorem decoder_progress:
  assumes "decoder_next d input = Inr (ev, d', rest)"
  shows "if ev = None then rest = [] else decoder_measure d' rest < decoder_measure d input"
  using assms decoder_next_None decoder_next_progress by (cases ev) auto

theorem decoder_progress_witness:
  "decoder_next decoder_default [0, 1, 5, 7] = Inr (Some (Datagram [5]), decoder_default, [7]) \<and>
   decoder_measure decoder_default [7] < decoder_measure decoder_default [0, 1, 5, 7]"
proof -
  have run: "decoder_next decoder_default [0, 1, 5, 7] = Inr (Some (Datagram [5]), decoder_default, [7])" by (simp add: decoder_default_def decoder_next_header decoder_next_open decoder_next_payload decoder_next_complete
      parse_header_def read_varint_def slice_def capsule_discard_def new_capsule_def fill_capsule_def capsule_event_def MAX_DATAGRAM_def)
  with decoder_progress [OF run] show ?thesis by simp
qed

end
