(* ===== verification/Net.thy ===== *)
theory Net
  imports Text
begin

text \<open>
  Network vocabulary the components share: IP and socket addresses with the textual forms of the
  standard library, big-endian fields inside byte strings, and exact reads from a byte stream.
\<close>

section \<open>Big-endian fields\<close>

definition u16_at :: "bytes \<Rightarrow> nat \<Rightarrow> u16" where
  "u16_at bs i = word_from_be [bs ! i, bs ! (i + 1)]"

lemma word_from_be_2: "word_from_be [of_nat (unat w div 256), of_nat (unat w)] = (w :: u16)"
  using word_from_be_be_bytes [of 2 w] unfolding be_bytes_2 by simp

lemma u16_at_append: "length pre = i \<Longrightarrow> u16_at (pre @ be_bytes 2 (unat w) @ post) i = w"
  unfolding be_bytes_2 u16_at_def by (auto simp: nth_append word_from_be_2 simp del: of_nat_unat)

lemma take_drop_2: "i + 2 \<le> length v \<Longrightarrow> take 2 (drop i v) = [v ! i, v ! (i + 1)]"
  by (rule nth_equalityI) (auto simp: less_Suc_eq numeral_2_eq_2)

lemma take_drop_4: "i + 4 \<le> length v \<Longrightarrow> take 4 (drop i v) = [v ! i, v ! (i + 1), v ! (i + 2), v ! (i + 3)]"
  by (rule nth_equalityI) (auto simp: less_Suc_eq numeral_eq_Suc)

lemma be_bytes_u16_at: "i + 2 \<le> length v \<Longrightarrow> be_bytes 2 (unat (u16_at v i)) = take 2 (drop i v)"
  by (simp only: u16_at_def take_drop_2 [symmetric]) (simp add: byte_simps)

lemma word_128_be [simp]:
  "word_from_be (be_bytes 16 (unat (w :: 128 word))) = w"
  "length bs = 16 \<Longrightarrow> be_bytes 16 (unat (word_from_be bs :: 128 word)) = bs"
  by (rule word_from_be_be_bytes be_bytes_word_from_be; simp)+

section \<open>Reading from a stream\<close>

text \<open>
  \<open>AsyncReadExt::read_exact\<close> on the bytes of the connection: it takes exactly \<open>n\<close> bytes or fails.
\<close>

definition read_exact :: "string \<Rightarrow> nat \<Rightarrow> bytes \<Rightarrow> string + bytes \<times> bytes" where
  "read_exact context n stream = (if length stream < n then Inl context else Inr (take n stream, drop n stream))"

section \<open>Addresses\<close>

text \<open>\<open>IpAddr\<close> and \<open>SocketAddr\<close> of the standard library; \<open>octets\<close> of an address are its big-endian bytes.\<close>

datatype IpAddr = V4 "32 word" | V6 "128 word"

record SocketAddr =
  sock_ip :: IpAddr
  sock_port :: u16

section \<open>Addresses as text\<close>

text \<open>
  \<open>str::parse::<IpAddr>\<close> of the standard library: its parser reads the bytes of the string, an IPv4
  address as four decimal groups without leading zeros, an IPv6 address as groups of up to four
  hexadecimal digits with one \<open>::\<close> and an optional embedded IPv4 address at the end of a part.
\<close>

definition to_digit :: "nat \<Rightarrow> char \<Rightarrow> nat option" where
  "to_digit radix c =
     (let b = (of_char c :: nat);
          v = (if 48 \<le> b \<and> b \<le> 57 then b - 48 else if 97 \<le> b \<and> b \<le> 122 then b - 87
               else if 65 \<le> b \<and> b \<le> 90 then b - 55 else radix)
      in if v < radix then Some v else None)"

definition read_number :: "nat \<Rightarrow> nat \<Rightarrow> bool \<Rightarrow> nat \<Rightarrow> string \<Rightarrow> (nat \<times> string) option" where
  "read_number radix max_digits allow_zero_prefix bound s =
     (let ds = takeWhile (\<lambda>c. to_digit radix c \<noteq> None) s;
          n = foldl (\<lambda>r c. r * radix + (case to_digit radix c of Some d \<Rightarrow> d | None \<Rightarrow> 0)) 0 ds
      in if ds = [] \<or> length ds > max_digits \<or> (\<not> allow_zero_prefix \<and> hd ds = CHR ''0'' \<and> length ds > 1) \<or> n \<ge> bound
         then None else Some (n, drop (length ds) s))"

definition read_separator :: "char \<Rightarrow> nat \<Rightarrow> (string \<Rightarrow> ('a \<times> string) option) \<Rightarrow> string \<Rightarrow> ('a \<times> string) option" where
  "read_separator sep index read s =
     (if index = 0 then read s else case s of [] \<Rightarrow> None | c # rest \<Rightarrow> if c = sep then read rest else None)"

fun read_ipv4_groups :: "nat \<Rightarrow> nat \<Rightarrow> string \<Rightarrow> (nat list \<times> string) option" where
  "read_ipv4_groups 0 i s = Some ([], s)"
| "read_ipv4_groups (Suc n) i s =
     (case read_separator (CHR ''.'') i (read_number 10 3 False 256) s of
        None \<Rightarrow> None
      | Some (g, rest) \<Rightarrow> map_option (\<lambda>(gs, rest). (g # gs, rest)) (read_ipv4_groups n (i + 1) rest))"

definition read_ipv4_addr :: "string \<Rightarrow> (32 word \<times> string) option" where
  "read_ipv4_addr s = map_option (\<lambda>(gs, rest). (word_from_be (map of_nat gs), rest)) (read_ipv4_groups 4 0 s)"

fun read_groups :: "nat \<Rightarrow> nat \<Rightarrow> string \<Rightarrow> u16 list \<times> bool \<times> string" where
  "read_groups 0 i s = ([], False, s)"
| "read_groups (Suc n) i s =
     (case (if n = 0 then None else read_separator (CHR '':'') i read_ipv4_addr s) of
        Some (v4, rest) \<Rightarrow> ([ucast (drop_bit 16 v4), ucast v4], True, rest)
      | None \<Rightarrow>
          (case read_separator (CHR '':'') i (read_number 16 4 True 65536) s of
             None \<Rightarrow> ([], False, s)
           | Some (g, rest) \<Rightarrow>
               (case read_groups n (i + 1) rest of (gs, ipv4, rest) \<Rightarrow> (of_nat g # gs, ipv4, rest))))"

definition segments_addr :: "u16 list \<Rightarrow> 128 word" where
  "segments_addr gs = word_from_be (concat (map (\<lambda>g. be_bytes 2 (unat g)) gs))"

definition read_ipv6_addr :: "string \<Rightarrow> (128 word \<times> string) option" where
  "read_ipv6_addr s =
     (case read_groups 8 0 s of (head, ipv4, s) \<Rightarrow>
        if length head = 8 then Some (segments_addr head, s)
        else if ipv4 then None
        else (case s of
                c # c' # s' \<Rightarrow>
                  if c = CHR '':'' \<and> c' = CHR '':'' then
                    (case read_groups (8 - (length head + 1)) 0 s' of (tail, ipv4, rest) \<Rightarrow>
                       Some (segments_addr (head @ replicate (8 - length head - length tail) 0 @ tail), rest))
                  else None
              | _ \<Rightarrow> None))"

definition parse_ip_addr :: "string \<Rightarrow> IpAddr option" where
  "parse_ip_addr s =
     (case (case read_ipv4_addr s of
              Some (v4, rest) \<Rightarrow> Some (V4 v4, rest)
            | None \<Rightarrow> map_option (\<lambda>(v6, rest). (V6 v6, rest)) (read_ipv6_addr s)) of
        Some (ip, rest) \<Rightarrow> if rest = [] then Some ip else None
      | None \<Rightarrow> None)"

text \<open>\<open>Display\<close> of the addresses: IPv6 compresses the first longest run of at least two zero segments.\<close>

definition ipv4_octets :: "32 word \<Rightarrow> nat list" where
  "ipv4_octets ip = map unat (be_bytes 4 (unat ip))"

definition ipv4_string :: "32 word \<Rightarrow> string" where
  "ipv4_string ip = str_join ''.'' (map dec_string (ipv4_octets ip))"

fun hex_string :: "nat \<Rightarrow> string" where
  "hex_string n = (if n < 16 then [''0123456789abcdef'' ! n] else hex_string (n div 16) @ [''0123456789abcdef'' ! (n mod 16)])"

declare hex_string.simps [simp del]

definition addr_segments :: "128 word \<Rightarrow> u16 list" where
  "addr_segments ip = map (\<lambda>i. ucast (drop_bit (112 - 16 * i) ip)) [0..<8]"

fun longest_zeros :: "nat \<Rightarrow> nat \<times> nat \<Rightarrow> nat \<times> nat \<Rightarrow> u16 list \<Rightarrow> nat \<times> nat" where
  "longest_zeros i longest current [] = longest"
| "longest_zeros i longest (start, len) (seg # segs) =
     (if seg = 0 then
        let current = (if len = 0 then i else start, len + 1);
            longest = (if snd current > snd longest then current else longest)
        in longest_zeros (i + 1) longest current segs
      else longest_zeros (i + 1) longest (0, 0) segs)"

definition segments_string :: "u16 list \<Rightarrow> string" where
  "segments_string segs = str_join '':'' (map (hex_string \<circ> unat) segs)"

definition ipv6_string :: "128 word \<Rightarrow> string" where
  "ipv6_string ip =
     (let segs = addr_segments ip in
      if take 5 segs = replicate 5 0 \<and> segs ! 5 = 0xffff then ''::ffff:'' @ ipv4_string (ucast ip)
      else case longest_zeros 0 (0, 0) (0, 0) segs of (start, len) \<Rightarrow>
        if len > 1 then segments_string (take start segs) @ ''::'' @ segments_string (drop (start + len) segs)
        else segments_string segs)"

fun ip_string :: "IpAddr \<Rightarrow> string" where
  "ip_string (V4 ip) = ipv4_string ip"
| "ip_string (V6 ip) = ipv6_string ip"

text \<open>An IPv4 address is recovered from its text.\<close>

lemma to_digit_ascii: "to_digit 10 c = (if is_ascii_digit c then Some (digit_value c) else None)"
  by (auto simp: to_digit_def is_ascii_digit_def digit_value_def Let_def)

lemma foldl_dec_value:
  "list_all is_ascii_digit ds \<Longrightarrow>
   foldl (\<lambda>r c. r * 10 + (case to_digit 10 c of Some d \<Rightarrow> d | None \<Rightarrow> 0)) a ds = foldl (\<lambda>r c. r * 10 + digit_value c) a ds"
  by (induction ds arbitrary: a) (simp_all add: to_digit_ascii)

lemma dec_string_length: "n < 1000 \<Longrightarrow> length (dec_string n) \<le> 3"
  by (simp add: dec_string.simps [of n] dec_string.simps [of "n div 10"] dec_string.simps [of "n div 10 div 10"])

lemma read_number_dec:
  assumes "n < 256" "case s of [] \<Rightarrow> True | c # _ \<Rightarrow> \<not> is_ascii_digit c"
  shows "read_number 10 3 False 256 (dec_string n @ s) = Some (n, s)"
proof -
  have digits: "list_all is_ascii_digit (dec_string n)" by (rule dec_string_digits)
  have take: "takeWhile (\<lambda>c. to_digit 10 c \<noteq> None) (dec_string n @ s) = dec_string n"
    using digits assms(2) by (cases s) (auto simp: to_digit_ascii takeWhile_append list_all_iff)
  have "foldl (\<lambda>r c. r * 10 + (case to_digit 10 c of Some d \<Rightarrow> d | None \<Rightarrow> 0)) 0 (dec_string n) = n"
    using foldl_dec_value [OF digits] dec_value_dec_string [of n] by (simp add: dec_value_def)
  moreover have "\<not> (hd (dec_string n) = CHR ''0'' \<and> length (dec_string n) > 1)"
    using hd_dec_string [of n] by (auto simp: dec_string.simps [of 0])
  moreover have "length (dec_string n) \<le> 3" using assms(1) by (intro dec_string_length) simp
  ultimately show ?thesis using assms(1) unfolding read_number_def take by (simp add: Let_def)
qed

lemma read_ipv4_string:
  assumes "case s of [] \<Rightarrow> True | c # _ \<Rightarrow> \<not> is_ascii_digit c"
  shows "read_ipv4_addr (ipv4_string ip @ s) = Some (ip, s)"
proof -
  obtain a b c d where abcd: "be_bytes 4 (unat ip) = [a, b, c, d]" by (simp add: be_bytes_4)
  have dot: "\<not> is_ascii_digit (CHR ''.'')" by (simp add: is_ascii_digit_def)
  have oct: "ipv4_octets ip = map unat [a, b, c, d]" unfolding ipv4_octets_def abcd ..
  have four: "(4::nat) = Suc (Suc (Suc (Suc 0)))" by simp
  have "read_ipv4_groups 4 0 (ipv4_string ip @ s) = Some (map unat [a, b, c, d], s)"
    unfolding ipv4_string_def oct four
    using assms by (simp add: read_separator_def read_number_dec u8_less dot)
  moreover have "word_from_be [a, b, c, d] = ip" using abcd [symmetric] by (simp add: byte_simps)
  ultimately show ?thesis by (simp add: read_ipv4_addr_def)
qed

lemma parse_ipv4_string: "parse_ip_addr (ipv4_string ip) = Some (V4 ip)"
  using read_ipv4_string [of "[]" ip] by (simp add: parse_ip_addr_def)

lemma ipv4_string_chars:
  assumes "c \<in> set (ipv4_string ip)"
  shows "is_ascii_digit c \<or> c = CHR ''.''"
proof -
  obtain x where "c = CHR ''.'' \<or> c \<in> set (dec_string x)"
    using assms by (auto simp: ipv4_string_def ipv4_octets_def be_bytes_4)
  then show ?thesis using dec_string_digits [of x] by (auto simp: list_all_iff)
qed

end
