(* ===== verification/Stun.thy ===== *)
theory Stun
  imports Net
begin

text \<open>
  STUN and TURN messages (\<open>src/turn/protocol.rs\<close>): parsing and encoding of messages, attributes,
  XOR-mapped addresses and ChannelData, integrity and fingerprint trailers, and the frame reader of
  stream transports.  The HMAC functions of the crypto primitives and the CRC-32 of \<open>crc32fast\<close> are
  parameters; an \<open>anyhow\<close> error is its message.  The lemmas show that encoded messages parse back,
  that protected messages verify, that the integrity tag covers everything the handlers read, and
  that frames are recovered from a stream.
\<close>

unbundle bit_operations_syntax

section \<open>Constants and data\<close>

abbreviation (input) MAGIC_COOKIE :: u32 where "MAGIC_COOKIE \<equiv> 0x2112A442"
abbreviation (input) HEADER_LEN :: nat where "HEADER_LEN \<equiv> 20"
abbreviation (input) BINDING_REQUEST :: u16 where "BINDING_REQUEST \<equiv> 0x0001"
abbreviation (input) DATA_INDICATION :: u16 where "DATA_INDICATION \<equiv> 0x0017"
abbreviation (input) ATTR_USERNAME :: u16 where "ATTR_USERNAME \<equiv> 0x0006"
abbreviation (input) ATTR_MESSAGE_INTEGRITY :: u16 where "ATTR_MESSAGE_INTEGRITY \<equiv> 0x0008"
abbreviation (input) ATTR_ERROR_CODE :: u16 where "ATTR_ERROR_CODE \<equiv> 0x0009"
abbreviation (input) ATTR_MESSAGE_INTEGRITY_SHA256 :: u16 where "ATTR_MESSAGE_INTEGRITY_SHA256 \<equiv> 0x001c"
abbreviation (input) ATTR_PASSWORD_ALGORITHM :: u16 where "ATTR_PASSWORD_ALGORITHM \<equiv> 0x001d"
abbreviation (input) ATTR_USERHASH :: u16 where "ATTR_USERHASH \<equiv> 0x001e"
abbreviation (input) ATTR_XOR_PEER_ADDRESS :: u16 where "ATTR_XOR_PEER_ADDRESS \<equiv> 0x0012"
abbreviation (input) ATTR_DATA :: u16 where "ATTR_DATA \<equiv> 0x0013"
abbreviation (input) ATTR_REALM :: u16 where "ATTR_REALM \<equiv> 0x0014"
abbreviation (input) ATTR_NONCE :: u16 where "ATTR_NONCE \<equiv> 0x0015"
abbreviation (input) ATTR_PASSWORD_ALGORITHMS :: u16 where "ATTR_PASSWORD_ALGORITHMS \<equiv> 0x8002"
abbreviation (input) ATTR_SOFTWARE :: u16 where "ATTR_SOFTWARE \<equiv> 0x8022"
abbreviation (input) ATTR_FINGERPRINT :: u16 where "ATTR_FINGERPRINT \<equiv> 0x8028"
abbreviation (input) SOFTWARE_VALUE :: bytes where
  "SOFTWARE_VALUE \<equiv> [0x4f, 0x78, 0x69, 0x42, 0x65, 0x6c, 0x74]"

record StunAttribute =
  sa_kind :: u16
  sa_value :: bytes
  sa_offset :: nat

record StunMessage =
  sm_message_type :: u16
  sm_transaction_id :: bytes
  sm_attrs :: "StunAttribute list"
  sm_raw :: bytes

record ChannelData =
  cd_channel :: u16
  cd_payload :: bytes

section \<open>Parsing\<close>

definition padding :: "nat \<Rightarrow> nat" where
  "padding len = (4 - len mod 4) mod 4"

definition is_stun_message :: "bytes \<Rightarrow> bool" where
  "is_stun_message bs \<longleftrightarrow>
     length bs \<ge> HEADER_LEN \<and> bs ! 0 AND 0xc0 = 0 \<and>
     (word_from_be [bs ! 4, bs ! 5, bs ! 6, bs ! 7] :: u32) = MAGIC_COOKIE"

function parse_attrs :: "bytes \<Rightarrow> nat \<Rightarrow> string + StunAttribute list \<times> nat" where
  "parse_attrs raw offset =
     (if offset < length raw then
        if offset + 4 > length raw then Inl ''truncated STUN attribute header'' else
        let kind = u16_at raw offset;
            attr_len = unat (u16_at raw (offset + 2));
            value_start = offset + 4;
            value_end = value_start + attr_len in
        bindE (option_okE ''STUN attribute length overflow'' (usize_checked_add value_end (padding attr_len))) (\<lambda>nxt.
        if nxt > length raw then Inl ''truncated STUN attribute value'' else
        bindE (parse_attrs raw nxt) (\<lambda>(attrs, offset').
        Inr (\<lparr>sa_kind = kind, sa_value = slice value_start value_end raw, sa_offset = offset\<rparr> # attrs, offset')))
      else Inr ([], offset))"
  by pat_completeness auto
termination
  by (relation "measure (\<lambda>(raw, offset). length raw - offset)")
    (auto simp: result_simps split: sum.splits)

declare parse_attrs.simps [simp del]

definition parse_stun :: "bytes \<Rightarrow> string + StunMessage" where
  "parse_stun bs =
     (if \<not> is_stun_message bs then Inl ''not a STUN message'' else
      let len = unat (u16_at bs 2) in
      if len mod 4 \<noteq> 0 \<or> length bs \<noteq> HEADER_LEN + len then Inl ''invalid STUN message length'' else
      let raw = take (HEADER_LEN + len) bs;
          transaction_id = slice 8 20 raw in
      bindE (parse_attrs raw HEADER_LEN) (\<lambda>(attrs, offset).
      if offset \<noteq> length raw then Inl ''invalid STUN attribute padding'' else
      Inr \<lparr>sm_message_type = u16_at raw 0, sm_transaction_id = transaction_id, sm_attrs = attrs, sm_raw = raw\<rparr>))"

definition parse_channel_data :: "bytes \<Rightarrow> string + ChannelData" where
  "parse_channel_data bs =
     (if length bs < 4 \<or> bs ! 0 AND 0xc0 \<noteq> 0x40 then Inl ''not TURN ChannelData'' else
      let channel = u16_at bs 0; len = unat (u16_at bs 2) in
      if \<not> (0x4000 \<le> channel \<and> channel \<le> 0x4fff) \<or> length bs < 4 + len then Inl ''invalid TURN ChannelData'' else
      Inr \<lparr>cd_channel = channel, cd_payload = slice 4 (4 + len) bs\<rparr>)"

section \<open>Attributes\<close>

definition is_integrity :: "u16 \<Rightarrow> bool" where
  "is_integrity kind \<longleftrightarrow> kind = ATTR_MESSAGE_INTEGRITY \<or> kind = ATTR_MESSAGE_INTEGRITY_SHA256"

definition semantic_attributes :: "StunMessage \<Rightarrow> StunAttribute list" where
  "semantic_attributes message =
     (let stop = (case position (\<lambda>a. is_integrity (sa_kind a)) (sm_attrs message) of
                    Some i \<Rightarrow> i | None \<Rightarrow> length (sm_attrs message))
      in take stop (sm_attrs message))"

text \<open>A Rust string is its UTF-8 bytes.\<close>

definition attr_string :: "StunMessage \<Rightarrow> u16 \<Rightarrow> bytes option" where
  "attr_string message kind =
     (case find (\<lambda>a. sa_kind a = kind) (semantic_attributes message) of
        None \<Rightarrow> None | Some a \<Rightarrow> if utf8_valid (sa_value a) then Some (sa_value a) else None)"

definition attr_u32 :: "StunMessage \<Rightarrow> u16 \<Rightarrow> u32 option" where
  "attr_u32 message kind =
     map_option (\<lambda>a. word_from_be (sa_value a))
       (find (\<lambda>a. sa_kind a = kind \<and> length (sa_value a) = 4) (semantic_attributes message))"

definition attr_bytes :: "StunMessage \<Rightarrow> u16 \<Rightarrow> bytes option" where
  "attr_bytes message kind = map_option sa_value (find (\<lambda>a. sa_kind a = kind) (semantic_attributes message))"

definition known_attribute :: "u16 \<Rightarrow> bool" where
  "known_attribute kind \<longleftrightarrow> kind \<in> set
     [0x0006, 0x0008, 0x000a, 0x0009, 0x000c, 0x000d, 0x0012, 0x0013, 0x0014, 0x0015, 0x0016, 0x0017, 0x0018,
      0x0019, 0x001a, 0x0020, 0x0022, 0x002a, 0x001c, 0x001d, 0x001e, 0x8000, 0x8001, 0x8002, 0x8022, 0x8028]"

definition unknown_required_attributes :: "StunMessage \<Rightarrow> u16 list" where
  "unknown_required_attributes message =
     List.map_filter (\<lambda>a. if sa_kind a < 0x8000 \<and> \<not> known_attribute (sa_kind a) then Some (sa_kind a) else None)
       (semantic_attributes message)"

text \<open>The error of a duplicate names the attribute; the message keeps only its fixed part.\<close>

fun reject_duplicates :: "u16 list \<Rightarrow> StunAttribute list \<Rightarrow> string + unit" where
  "reject_duplicates [] attrs = Inr ()"
| "reject_duplicates (singleton # rest) attrs =
     (if length (filter (\<lambda>a. sa_kind a = singleton) attrs) > 1
      then Inl ''duplicate singleton STUN security attribute'' else reject_duplicates rest attrs)"

fun check_ordering :: "nat \<Rightarrow> nat \<Rightarrow> bool \<Rightarrow> bool \<Rightarrow> StunAttribute list \<Rightarrow> string + unit" where
  "check_ordering count index legacy_seen sha256_seen [] = Inr ()"
| "check_ordering count index legacy_seen sha256_seen (a # attrs) =
     (if sa_kind a = ATTR_MESSAGE_INTEGRITY_SHA256 then
        if legacy_seen \<or> sha256_seen \<or> length (sa_value a) \<noteq> 32
        then Inl ''invalid STUN MESSAGE-INTEGRITY-SHA256 ordering''
        else check_ordering count (index + 1) legacy_seen True attrs
      else if sa_kind a = ATTR_MESSAGE_INTEGRITY then
        if length (sa_value a) \<noteq> 20 \<or> legacy_seen then Inl ''invalid STUN MESSAGE-INTEGRITY ordering''
        else check_ordering count (index + 1) True sha256_seen attrs
      else if sa_kind a = ATTR_FINGERPRINT \<and> (length (sa_value a) \<noteq> 4 \<or> index + 1 \<noteq> count)
      then Inl ''STUN FINGERPRINT must be the final attribute''
      else check_ordering count (index + 1) legacy_seen sha256_seen attrs)"

definition validate_attribute_ordering :: "StunMessage \<Rightarrow> string + unit" where
  "validate_attribute_ordering message =
     bindE (reject_duplicates [ATTR_USERNAME, ATTR_USERHASH, ATTR_REALM, ATTR_NONCE, ATTR_PASSWORD_ALGORITHM,
              ATTR_PASSWORD_ALGORITHMS] (semantic_attributes message)) (\<lambda>_.
     bindE (reject_duplicates [ATTR_MESSAGE_INTEGRITY_SHA256, ATTR_MESSAGE_INTEGRITY, ATTR_FINGERPRINT]
              (sm_attrs message)) (\<lambda>_.
     check_ordering (length (sm_attrs message)) 0 False False (sm_attrs message)))"

section \<open>Addresses\<close>

definition xor_port_mask :: u16 where
  "xor_port_mask = ucast (drop_bit 16 MAGIC_COOKIE)"

definition xor_mask :: "bytes \<Rightarrow> bytes" where
  "xor_mask transaction_id = be_bytes 4 (unat MAGIC_COOKIE) @ transaction_id"

definition encode_xor_address :: "SocketAddr \<Rightarrow> bytes \<Rightarrow> bytes" where
  "encode_xor_address addr transaction_id =
     [0] @ (case sock_ip addr of
        V4 ip \<Rightarrow> [0x01] @ be_bytes 2 (unat (sock_port addr XOR xor_port_mask)) @ be_bytes 4 (unat (ip XOR MAGIC_COOKIE))
      | V6 ip \<Rightarrow> [0x02] @ be_bytes 2 (unat (sock_port addr XOR xor_port_mask)) @
                 map2 (XOR) (be_bytes 16 (unat ip)) (xor_mask transaction_id))"

definition decode_xor_address :: "bytes \<Rightarrow> bytes \<Rightarrow> string + SocketAddr" where
  "decode_xor_address value transaction_id =
     (if length value < 8 \<or> value ! 0 \<noteq> 0 then Inl ''invalid XOR address'' else
      let port = u16_at value 2 XOR xor_port_mask in
      if value ! 1 = 0x01 \<and> length value = 8 then
        let raw = word_from_be [value ! 4, value ! 5, value ! 6, value ! 7] XOR MAGIC_COOKIE in
        Inr \<lparr>sock_ip = V4 raw, sock_port = port\<rparr>
      else if value ! 1 = 0x02 \<and> length value = 20 then
        let mask = xor_mask transaction_id;
            addr = map (\<lambda>index. value ! (4 + index) XOR mask ! index) [0..<16] in
        Inr \<lparr>sock_ip = V6 (word_from_be addr), sock_port = port\<rparr>
      else Inl ''unsupported XOR address family'')"

definition attr_xor_addr :: "StunMessage \<Rightarrow> u16 \<Rightarrow> string + SocketAddr option" where
  "attr_xor_addr message kind =
     (case find (\<lambda>a. sa_kind a = kind) (semantic_attributes message) of
        None \<Rightarrow> Inr None
      | Some a \<Rightarrow> bindE (decode_xor_address (sa_value a) (sm_transaction_id message)) (\<lambda>addr. Inr (Some addr)))"

fun decode_xor_addrs :: "StunAttribute list \<Rightarrow> bytes \<Rightarrow> string + SocketAddr list" where
  "decode_xor_addrs [] transaction_id = Inr []"
| "decode_xor_addrs (a # attrs) transaction_id =
     bindE (decode_xor_address (sa_value a) transaction_id) (\<lambda>addr.
     bindE (decode_xor_addrs attrs transaction_id) (\<lambda>addrs. Inr (addr # addrs)))"

definition attr_xor_addrs :: "StunMessage \<Rightarrow> u16 \<Rightarrow> string + SocketAddr list" where
  "attr_xor_addrs message kind =
     decode_xor_addrs (filter (\<lambda>a. sa_kind a = kind) (semantic_attributes message)) (sm_transaction_id message)"

section \<open>Encoding\<close>

definition success_type :: "u16 \<Rightarrow> u16" where
  "success_type request_type = request_type OR 0x0100"

definition error_type :: "u16 \<Rightarrow> u16" where
  "error_type request_type = request_type OR 0x0110"

text \<open>\<open>x as u16\<close> keeps the low 16 bits; \<open>patch_len\<close> overwrites bytes 2 and 3.\<close>

definition as_u16 :: "nat \<Rightarrow> u16" where
  "as_u16 n = of_nat n"

definition patch_len :: "bytes \<Rightarrow> u16 \<Rightarrow> bytes" where
  "patch_len message len = take 2 message @ be_bytes 2 (unat len) @ drop 4 message"

definition append_attr :: "bytes \<Rightarrow> u16 \<Rightarrow> bytes \<Rightarrow> bytes" where
  "append_attr out kind value =
     out @ be_bytes 2 (unat kind) @ be_bytes 2 (unat (as_u16 (length value))) @ value @ replicate (padding (length value)) 0"

definition encode_message :: "u16 \<Rightarrow> bytes \<Rightarrow> (u16 \<times> bytes) list \<Rightarrow> bytes" where
  "encode_message message_type transaction_id attrs =
     (let out = be_bytes 2 (unat message_type) @ be_bytes 2 0 @ be_bytes 4 (unat MAGIC_COOKIE) @ transaction_id;
          out = foldl (\<lambda>out (kind, value). append_attr out kind value) out attrs
      in patch_len out (as_u16 (length out - HEADER_LEN)))"

definition encode_binding_request :: "bytes \<Rightarrow> bytes" where
  "encode_binding_request transaction_id = encode_message BINDING_REQUEST transaction_id []"

definition with_message_integrity :: "(bytes \<Rightarrow> bytes \<Rightarrow> bytes) \<Rightarrow> bytes \<Rightarrow> bytes \<Rightarrow> bytes" where
  "with_message_integrity hmac_sha1 message key =
     (let message = patch_len message (as_u16 (length message + 24 - HEADER_LEN))
      in append_attr message ATTR_MESSAGE_INTEGRITY (hmac_sha1 key message))"

definition with_message_integrity_sha256 :: "(bytes \<Rightarrow> bytes \<Rightarrow> bytes) \<Rightarrow> bytes \<Rightarrow> bytes \<Rightarrow> bytes" where
  "with_message_integrity_sha256 hmac_sha256 message key =
     (let message = patch_len message (as_u16 (length message + 36 - HEADER_LEN))
      in append_attr message ATTR_MESSAGE_INTEGRITY_SHA256 (hmac_sha256 key message))"

definition with_fingerprint :: "(bytes \<Rightarrow> u32) \<Rightarrow> bytes \<Rightarrow> bytes" where
  "with_fingerprint crc32 message =
     (let message = patch_len message (as_u16 (length message + 8 - HEADER_LEN))
      in append_attr message ATTR_FINGERPRINT (be_bytes 4 (unat (crc32 message XOR 0x5354554e))))"

definition encode_error_code :: "u16 \<Rightarrow> bytes \<Rightarrow> bytes" where
  "encode_error_code code reason = [0, 0, ucast (code div 100), ucast (code mod 100)] @ reason"

definition encode_error ::
  "(bytes \<Rightarrow> u32) \<Rightarrow> u16 \<Rightarrow> bytes \<Rightarrow> u16 \<Rightarrow> bytes \<Rightarrow> bytes option \<Rightarrow> bytes option \<Rightarrow> bytes" where
  "encode_error crc32 request_type transaction_id code reason realm nonce =
     (let attrs = [(ATTR_ERROR_CODE, encode_error_code code reason)];
          attrs = attrs @ (case realm of Some realm \<Rightarrow> [(ATTR_REALM, realm)] | None \<Rightarrow> []);
          attrs = attrs @ (case nonce of Some nonce \<Rightarrow> [(ATTR_NONCE, nonce)] | None \<Rightarrow> []);
          attrs = attrs @ [(ATTR_SOFTWARE, SOFTWARE_VALUE)]
      in with_fingerprint crc32 (encode_message (error_type request_type) transaction_id attrs))"

definition encode_success :: "(bytes \<Rightarrow> u32) \<Rightarrow> u16 \<Rightarrow> bytes \<Rightarrow> (u16 \<times> bytes) list \<Rightarrow> bytes" where
  "encode_success crc32 request_type transaction_id attrs =
     with_fingerprint crc32 (encode_message (success_type request_type) transaction_id
       (attrs @ [(ATTR_SOFTWARE, SOFTWARE_VALUE)]))"

definition encode_data_indication :: "(bytes \<Rightarrow> u32) \<Rightarrow> bytes \<Rightarrow> SocketAddr \<Rightarrow> bytes \<Rightarrow> bytes" where
  "encode_data_indication crc32 transaction_id peer data =
     with_fingerprint crc32 (encode_message DATA_INDICATION transaction_id
       [(ATTR_XOR_PEER_ADDRESS, encode_xor_address peer transaction_id), (ATTR_DATA, data)])"

definition encode_channel_data :: "u16 \<Rightarrow> bytes \<Rightarrow> string + bytes" where
  "encode_channel_data channel payload =
     (if \<not> (0x4000 \<le> channel \<and> channel \<le> 0x4fff) then Inl ''invalid TURN channel number''
      else if length payload \<ge> 2 ^ 16 then Inl ''TURN ChannelData payload is too large''
      else Inr (be_bytes 2 (unat channel) @ be_bytes 2 (length payload) @ payload @ replicate (padding (length payload)) 0))"

definition encode_password_algorithm :: "u16 \<Rightarrow> bytes" where
  "encode_password_algorithm algorithm = be_bytes 2 (unat algorithm) @ be_bytes 2 0"

definition encode_password_algorithms :: "u16 list \<Rightarrow> bytes" where
  "encode_password_algorithms algorithms = concat (map encode_password_algorithm algorithms)"

definition password_algorithm_selection :: "bytes \<Rightarrow> u16 option" where
  "password_algorithm_selection value =
     (if length value = 4 \<and> drop 2 value = [0, 0] then Some (u16_at value 0) else None)"

function algorithms_loop :: "bytes \<Rightarrow> u16 \<Rightarrow> nat \<Rightarrow> bool" where
  "algorithms_loop value selected offset =
     (if offset < length value then
        if offset + 4 > length value then False else
        let algorithm = u16_at value offset;
            parameter_len = unat (u16_at value (offset + 2)) in
        (case Option.bind (Option.bind (usize_checked_add offset 4) (\<lambda>nxt. usize_checked_add nxt parameter_len))
                (\<lambda>nxt. usize_checked_add nxt (padding parameter_len)) of
           None \<Rightarrow> False
         | Some nxt \<Rightarrow>
             if nxt > length value then False
             else if algorithm = selected \<and> parameter_len = 0 then True
             else algorithms_loop value selected nxt)
      else False)"
  by pat_completeness auto
termination
  by (relation "measure (\<lambda>(value, selected, offset). length value - offset)")
    (auto simp: Option.bind_eq_Some_conv result_simps)

declare algorithms_loop.simps [simp del]

definition password_algorithms_contains :: "bytes \<Rightarrow> u16 \<Rightarrow> bool" where
  "password_algorithms_contains value selected = algorithms_loop value selected 0"

text \<open>\<open>sort_unstable\<close> and \<open>dedup\<close>: ascending codes, each once.\<close>

definition encode_unknown_attributes :: "u16 list \<Rightarrow> bytes" where
  "encode_unknown_attributes attributes = concat (map (\<lambda>a. be_bytes 2 (unat a)) (remdups_adj (sort attributes)))"

section \<open>Verification\<close>

definition integrity_input :: "StunMessage \<Rightarrow> StunAttribute \<Rightarrow> nat \<Rightarrow> bytes" where
  "integrity_input message a extra =
     patch_len (take (sa_offset a) (sm_raw message)) (as_u16 (sa_offset a + extra - HEADER_LEN))"

definition verify_message_integrity ::
  "(bytes \<Rightarrow> bytes \<Rightarrow> bytes \<Rightarrow> bool) \<Rightarrow> StunMessage \<Rightarrow> bytes \<Rightarrow> bool" where
  "verify_message_integrity verify_hmac_sha1 message key =
     (case find (\<lambda>a. sa_kind a = ATTR_MESSAGE_INTEGRITY) (sm_attrs message) of
        None \<Rightarrow> False
      | Some a \<Rightarrow>
          if length (sa_value a) \<noteq> 20 then False
          else verify_hmac_sha1 key (integrity_input message a 24) (sa_value a))"

text \<open>\<open>ct_eq\<close> of the \<open>subtle\<close> crate is equality.\<close>

definition constant_time_eq :: "bytes \<Rightarrow> bytes \<Rightarrow> bool" where
  "constant_time_eq left right \<longleftrightarrow> length left = length right \<and> left = right"

definition verify_message_integrity_sha256 :: "(bytes \<Rightarrow> bytes \<Rightarrow> bytes) \<Rightarrow> StunMessage \<Rightarrow> bytes \<Rightarrow> bool" where
  "verify_message_integrity_sha256 hmac_sha256 message key =
     (case find (\<lambda>a. sa_kind a = ATTR_MESSAGE_INTEGRITY_SHA256) (sm_attrs message) of
        None \<Rightarrow> False
      | Some a \<Rightarrow>
          if length (sa_value a) \<noteq> 32 then False
          else constant_time_eq (hmac_sha256 key (integrity_input message a 36)) (sa_value a))"

definition verify_fingerprint :: "(bytes \<Rightarrow> u32) \<Rightarrow> StunMessage \<Rightarrow> bool" where
  "verify_fingerprint crc32 message =
     (case find (\<lambda>a. sa_kind a = ATTR_FINGERPRINT) (sm_attrs message) of
        None \<Rightarrow> False
      | Some a \<Rightarrow>
          if length (sa_value a) \<noteq> 4 then False
          else crc32 (integrity_input message a 8) XOR 0x5354554e = word_from_be (sa_value a))"

section \<open>Frames of a stream transport\<close>

definition read_turn_frame :: "bytes \<Rightarrow> string + bytes \<times> bytes" where
  "read_turn_frame stream =
     bindE (read_exact ''failed to read TURN frame header'' 4 stream) (\<lambda>(header, stream).
     let len = unat (u16_at header 2) in
     if header ! 0 AND 0xc0 = 0x40 then
       bindE (read_exact ''failed to read TURN ChannelData frame'' (len + padding len) stream) (\<lambda>(body, stream).
       Inr (header @ body, stream))
     else
       bindE (read_exact ''failed to read STUN frame'' (HEADER_LEN + len - 4) stream) (\<lambda>(body, stream).
       Inr (header @ body, stream)))"

section \<open>Messages as headers and attributes\<close>

definition attr_wire :: "u16 \<times> bytes \<Rightarrow> bytes" where
  "attr_wire kv = append_attr [] (fst kv) (snd kv)"

abbreviation attrs_wire :: "(u16 \<times> bytes) list \<Rightarrow> bytes" where
  "attrs_wire kvs \<equiv> concat (map attr_wire kvs)"

lemma append_attr_wire: "append_attr out kind value = out @ attr_wire (kind, value)"
  by (simp add: append_attr_def attr_wire_def)

lemma length_attr_wire: "length (attr_wire kv) = 4 + length (snd kv) + padding (length (snd kv))"
  by (simp add: attr_wire_def append_attr_def)

lemma padding_numerals [simp]: "padding 20 = 0" "padding 32 = 0" "padding 4 = 0" "padding 0 = 0"
  by (simp_all add: padding_def)

lemma padded_length: "(n + padding n) mod 4 = 0"
proof (cases "n mod 4 = 0")
  case False
  then have "padding n = 4 - n mod 4" by (simp add: padding_def)
  moreover have "n + (4 - n mod 4) = 4 * (n div 4) + 4" using mult_div_mod_eq [of 4 n] mod_less_divisor [of 4 n] by linarith
  ultimately show ?thesis by simp
qed (simp add: padding_def)

lemma length_attrs_wire_mod: "length (attrs_wire kvs) mod 4 = 0"
proof -
  have "4 dvd length (attrs_wire kvs)"
  proof (induction kvs)
    case (Cons kv kvs)
    have "4 dvd 4 + (length (snd kv) + padding (length (snd kv)))"
      by (rule dvd_add) (simp_all add: padded_length [unfolded mod_eq_0_iff_dvd])
    from dvd_add [OF this Cons] show ?case by (simp add: length_attr_wire add.assoc)
  qed simp
  then show ?thesis by (simp add: mod_eq_0_iff_dvd)
qed

text \<open>The parsed form of attributes that start at a given offset.\<close>

fun stun_attrs :: "nat \<Rightarrow> (u16 \<times> bytes) list \<Rightarrow> StunAttribute list" where
  "stun_attrs offset [] = []"
| "stun_attrs offset (kv # kvs) =
     \<lparr>sa_kind = fst kv, sa_value = snd kv, sa_offset = offset\<rparr> # stun_attrs (offset + length (attr_wire kv)) kvs"

lemma parse_attrs_wire:
  assumes "list_all (\<lambda>kv. length (snd kv) < 2 ^ 16) kvs" "length (pre @ attrs_wire kvs) < 2 ^ 64"
  shows "parse_attrs (pre @ attrs_wire kvs) (length pre) = Inr (stun_attrs (length pre) kvs, length (pre @ attrs_wire kvs))"
  using assms
proof (induction kvs arbitrary: pre)
  case Nil
  then show ?case by (simp add: parse_attrs.simps)
next
  case (Cons kv kvs)
  obtain k v where kv: "kv = (k, v)" by (cases kv)
  define raw where "raw = pre @ attrs_wire (kv # kvs)"
  have len: "length v < 2 ^ 16" using Cons.prems(1) kv by simp
  then have vlen: "unat (as_u16 (length v)) = length v" by (simp add: as_u16_def unat_of_nat)
  have raw: "raw = pre @ be_bytes 2 (unat k) @ (be_bytes 2 (unat (as_u16 (length v))) @ v @ replicate (padding (length v)) 0 @ attrs_wire kvs)"
    by (simp add: raw_def kv attr_wire_def append_attr_def)
  then have raw': "raw = (pre @ be_bytes 2 (unat k)) @ be_bytes 2 (unat (as_u16 (length v))) @ (v @ replicate (padding (length v)) 0 @ attrs_wire kvs)"
    "raw = (pre @ be_bytes 2 (unat k) @ be_bytes 2 (unat (as_u16 (length v)))) @ v @ (replicate (padding (length v)) 0 @ attrs_wire kvs)"
    by simp_all
  have kind: "u16_at raw (length pre) = k" unfolding raw by (rule u16_at_append) simp
  have alen: "u16_at raw (length pre + 2) = as_u16 (length v)" unfolding raw'(1) by (rule u16_at_append) simp
  then have alen': "u16_at raw (Suc (Suc (length pre))) = as_u16 (length v)" by simp
  have val: "slice (length pre + 4) (length pre + 4 + length v) raw = v"
    unfolding raw'(2) by (simp add: slice_def)
  have lraw: "length raw = length pre + 4 + length v + padding (length v) + length (attrs_wire kvs)"
    by (simp add: raw)
  let ?nxt = "length pre + 4 + length v + padding (length v)"
  have "length raw < 2 ^ 64" using Cons.prems(2) by (simp only: raw_def)
  then have chk: "usize_checked_add (length pre + 4 + length v) (padding (length v)) = Some ?nxt"
    using lraw by (simp add: usize_checked_add_def)
  have pre': "raw = (pre @ attr_wire kv) @ attrs_wire kvs" "length (pre @ attr_wire kv) = ?nxt"
    by (simp_all add: raw_def length_attr_wire kv)
  have "parse_attrs raw ?nxt = Inr (stun_attrs ?nxt kvs, length raw)"
    using Cons.IH [of "pre @ attr_wire kv"] Cons.prems pre' by (simp add: add.assoc)
  then have "parse_attrs raw (length pre) = Inr (\<lparr>sa_kind = k, sa_value = v, sa_offset = length pre\<rparr> # stun_attrs ?nxt kvs, length raw)"
    by (subst parse_attrs.simps) (simp add: kind alen' vlen val chk lraw Let_def)
  then show ?case by (simp add: raw_def kv length_attr_wire add.assoc)
qed

text \<open>A message: type, length, cookie, transaction identifier and body.\<close>

definition message_bytes :: "u16 \<Rightarrow> u16 \<Rightarrow> bytes \<Rightarrow> bytes \<Rightarrow> bytes" where
  "message_bytes ty len tid body =
     be_bytes 2 (unat ty) @ be_bytes 2 (unat len) @ be_bytes 4 (unat MAGIC_COOKIE) @ tid @ body"

lemma patch_len_message [simp]: "patch_len (message_bytes ty len tid body) len' = message_bytes ty len' tid body"
  by (simp add: patch_len_def message_bytes_def)

lemma append_attr_message [simp]:
  "append_attr (message_bytes ty len tid body) kind value = message_bytes ty len tid (body @ attr_wire (kind, value))"
  by (simp add: append_attr_wire message_bytes_def)

lemma length_message_bytes: "length tid = 12 \<Longrightarrow> length (message_bytes ty len tid body) = 20 + length body"
  by (simp add: message_bytes_def)

lemma encode_message_bytes:
  assumes "length tid = 12"
  shows "encode_message ty tid kvs = message_bytes ty (as_u16 (length (attrs_wire kvs))) tid (attrs_wire kvs)"
proof -
  have fold: "foldl (\<lambda>out (kind, value). append_attr out kind value) out kvs = out @ attrs_wire kvs" for out
    by (induction kvs arbitrary: out) (auto simp: append_attr_wire)
  have "be_bytes 2 (unat ty) @ be_bytes 2 0 @ be_bytes 4 (unat MAGIC_COOKIE) @ tid @ attrs_wire kvs =
      message_bytes ty 0 tid (attrs_wire kvs)"
    by (simp add: message_bytes_def)
  then show ?thesis using assms by (simp add: encode_message_def fold length_message_bytes Let_def)
qed

section \<open>Round trip\<close>

lemma unat_as_u16: "n < 2 ^ 16 \<Longrightarrow> unat (as_u16 n) = n"
  by (simp add: as_u16_def unat_of_nat)

lemma and_c0: "(x :: u8) AND 0xc0 = push_bit 6 (drop_bit 6 x)"
proof -
  have "push_bit 6 (drop_bit 6 x) = x AND NOT (mask 6)" by (rule bit_eqI) (auto simp: bit_simps)
  moreover have "NOT (mask 6) = (0xc0 :: u8)" using eq_neg_iff_add_eq_0 [of "0xc0 :: u8" 64] by (simp add: mask_eq_exp_minus_1)
  ultimately show ?thesis by (simp only:)
qed

lemma drop_bit_u8: "unat (drop_bit 6 (x :: u8)) = unat x div 64"
  by (simp add: drop_bit_eq_div unat_div)

lemma and_c0_zero:
  assumes "unat (x :: u8) < 64"
  shows "x AND 0xc0 = 0"
proof -
  have "drop_bit 6 x = 0" using drop_bit_u8 [of x] assms by (simp add: word_unat_eq_iff)
  then show ?thesis by (simp add: and_c0)
qed

lemma message_bytes_is_stun:
  assumes "ty < 0x4000" "length tid = 12"
  shows "is_stun_message (message_bytes ty len tid body)"
proof -
  have "unat ty < 16384" using assms(1) by (simp add: word_less_nat_alt)
  then have "unat (of_nat (unat ty div 256) :: u8) < 64" by (simp add: unat_of_nat)
  then have "(of_nat (unat ty div 256) :: u8) AND 0xc0 = 0" by (rule and_c0_zero)
  moreover have "be_bytes 4 (unat MAGIC_COOKIE) = [0x21, 0x12, 0xA4, 0x42]" by (simp add: be_bytes_4)
  moreover have "(word_from_be [0x21, 0x12, 0xA4, 0x42] :: u32) = MAGIC_COOKIE" by (simp add: word_from_be_def be_nat_def)
  ultimately show ?thesis using assms(2)
    unfolding is_stun_message_def message_bytes_def be_bytes_2 by simp
qed

lemma parse_message_bytes:
  assumes "ty < 0x4000" "length tid = 12" "list_all (\<lambda>kv. length (snd kv) < 2 ^ 16) kvs" "length (attrs_wire kvs) < 2 ^ 16"
  shows "parse_stun (message_bytes ty (as_u16 (length (attrs_wire kvs))) tid (attrs_wire kvs)) =
    Inr \<lparr>sm_message_type = ty, sm_transaction_id = tid, sm_attrs = stun_attrs 20 kvs,
         sm_raw = message_bytes ty (as_u16 (length (attrs_wire kvs))) tid (attrs_wire kvs)\<rparr>"
proof -
  let ?len = "as_u16 (length (attrs_wire kvs))"
  let ?raw = "message_bytes ty ?len tid (attrs_wire kvs)"
  let ?pre = "be_bytes 2 (unat ty) @ be_bytes 2 (unat ?len) @ be_bytes 4 (unat MAGIC_COOKIE) @ tid"
  have pre: "?raw = ?pre @ attrs_wire kvs" "length ?pre = 20" using assms(2) by (simp_all add: message_bytes_def)
  have ty: "u16_at ?raw 0 = ty" using u16_at_append [of "[]" 0 ty] by (simp add: message_bytes_def)
  have len: "u16_at ?raw 2 = ?len" using u16_at_append [of "be_bytes 2 (unat ty)" 2 ?len] by (simp add: message_bytes_def)
  have tid: "slice 8 20 ?raw = tid" using assms(2) by (simp add: message_bytes_def slice_def)
  have "parse_attrs ?raw 20 = Inr (stun_attrs 20 kvs, length ?raw)"
    using parse_attrs_wire [OF assms(3), of ?pre] assms(4) pre by simp
  then show ?thesis
    using message_bytes_is_stun [OF assms(1,2)] assms(2,4) ty len tid
    by (simp add: parse_stun_def unat_as_u16 length_attrs_wire_mod length_message_bytes Let_def)
qed

section \<open>Protected messages\<close>

lemma stun_attrs_append: "stun_attrs offset (as @ bs) = stun_attrs offset as @ stun_attrs (offset + length (attrs_wire as)) bs"
  by (induction as arbitrary: offset) (simp_all add: add.assoc)

lemma length_stun_attrs [simp]: "length (stun_attrs offset as) = length as"
  by (induction as arbitrary: offset) simp_all

lemma stun_attrs_fields [simp]:
  "map sa_kind (stun_attrs offset as) = map fst as" "map (\<lambda>a. (sa_kind a, sa_value a)) (stun_attrs offset as) = as"
  by (induction as arbitrary: offset) simp_all

lemma set_stun_attrs_kind: "a \<in> set (stun_attrs offset as) \<Longrightarrow> sa_kind a \<in> fst ` set as"
  using stun_attrs_fields(1) [of offset as] by (metis image_eqI list.set_map)

lemma find_append_first: "\<forall>x \<in> set xs. \<not> p x \<Longrightarrow> p y \<Longrightarrow> find p (xs @ y # ys) = Some y"
  by (induction xs) simp_all

lemma find_stun_attr:
  assumes "kind \<notin> fst ` set as"
  shows "find (\<lambda>a. sa_kind a = kind) (stun_attrs offset (as @ (kind, v) # bs)) =
    Some \<lparr>sa_kind = kind, sa_value = v, sa_offset = offset + length (attrs_wire as)\<rparr>"
  using assms set_stun_attrs_kind by (auto simp: stun_attrs_append intro!: find_append_first)

lemma semantic_stun_attrs:
  assumes "\<forall>k \<in> fst ` set as. \<not> is_integrity k" "is_integrity kind" "sm_attrs m = stun_attrs offset (as @ (kind, v) # bs)"
  shows "semantic_attributes m = stun_attrs offset as"
proof -
  have "\<forall>a \<in> set (stun_attrs offset as). \<not> is_integrity (sa_kind a)" using assms(1) set_stun_attrs_kind by blast
  then have "position (\<lambda>a. is_integrity (sa_kind a)) (sm_attrs m) = Some (length (stun_attrs offset as))"
    unfolding assms(3) stun_attrs_append stun_attrs.simps
    by (rule position_append) (use assms(2) in simp)
  then show ?thesis by (simp add: semantic_attributes_def assms(3) stun_attrs_append)
qed

lemma integrity_input_wire:
  assumes "length tid = 12" "sm_raw m = message_bytes ty len tid (attrs_wire (as @ bs))" "sa_offset a = 20 + length (attrs_wire as)"
  shows "integrity_input m a extra = message_bytes ty (as_u16 (length (attrs_wire as) + extra)) tid (attrs_wire as)"
proof -
  have "take (20 + length (attrs_wire as)) (message_bytes ty len tid (attrs_wire (as @ bs))) = message_bytes ty len tid (attrs_wire as)"
    using assms(1) by (simp add: message_bytes_def)
  then show ?thesis by (simp add: integrity_input_def assms(2,3))
qed

lemma reject_duplicates_iff:
  "reject_duplicates ks attrs = Inr u \<longleftrightarrow> (\<forall>k \<in> set ks. length (filter (\<lambda>a. sa_kind a = k) attrs) \<le> 1)"
  by (induction ks) auto

lemma filter_kind_count: "length (filter (\<lambda>a. sa_kind a = k) attrs) = count_list (map sa_kind attrs) k"
  by (induction attrs) auto

definition credential_kinds :: "u16 list" where
  "credential_kinds = [ATTR_USERNAME, ATTR_USERHASH, ATTR_REALM, ATTR_NONCE, ATTR_PASSWORD_ALGORITHM, ATTR_PASSWORD_ALGORITHMS]"

definition is_trailer :: "u16 \<Rightarrow> bool" where
  "is_trailer kind \<longleftrightarrow> is_integrity kind \<or> kind = ATTR_FINGERPRINT"

lemma check_ordering_skip:
  "\<forall>a \<in> set xs. \<not> is_trailer (sa_kind a) \<Longrightarrow>
   check_ordering n i legacy sha (xs @ ys) = check_ordering n (i + length xs) legacy sha ys"
  by (induction xs arbitrary: i) (auto simp: is_trailer_def is_integrity_def)

text \<open>What a message with an integrity attribute and a fingerprint looks like to the receiver.\<close>

lemma protected_attrs:
  assumes as: "\<forall>k \<in> fst ` set as. \<not> is_trailer k" "\<forall>k \<in> set credential_kinds. count_list (map fst as) k \<le> 1"
    and kind: "kind = ATTR_MESSAGE_INTEGRITY \<and> length tag = 20 \<or> kind = ATTR_MESSAGE_INTEGRITY_SHA256 \<and> length tag = 32"
    and fp: "length fp = 4" and m: "sm_attrs m = stun_attrs 20 (as @ [(kind, tag), (ATTR_FINGERPRINT, fp)])"
  shows "semantic_attributes m = stun_attrs 20 as" "validate_attribute_ordering m = Inr ()"
proof -
  show sem: "semantic_attributes m = stun_attrs 20 as"
    using as(1) kind by (intro semantic_stun_attrs [where bs = "[(ATTR_FINGERPRINT, fp)]", OF _ _ m]) (auto simp: is_trailer_def is_integrity_def)
  have nt: "\<forall>a \<in> set (stun_attrs 20 as). \<not> is_trailer (sa_kind a)" using as(1) set_stun_attrs_kind by blast
  have "is_trailer k \<Longrightarrow> k \<notin> set (map fst as)" for k using as(1) by auto
  then have none: "is_trailer k \<Longrightarrow> count_list (map fst as) k = 0" for k by (simp only: count_list_0_iff not_False_eq_True)
  have "k \<in> set [ATTR_MESSAGE_INTEGRITY_SHA256, ATTR_MESSAGE_INTEGRITY, ATTR_FINGERPRINT] \<Longrightarrow> count_list (map sa_kind (sm_attrs m)) k \<le> 1" for k
    using none [of k] kind unfolding m stun_attrs_fields by (auto simp: is_trailer_def is_integrity_def)
  then have dup: "reject_duplicates [ATTR_MESSAGE_INTEGRITY_SHA256, ATTR_MESSAGE_INTEGRITY, ATTR_FINGERPRINT] (sm_attrs m) = Inr ()"
    unfolding reject_duplicates_iff filter_kind_count by blast
  have dup': "reject_duplicates credential_kinds (semantic_attributes m) = Inr ()"
    unfolding reject_duplicates_iff filter_kind_count sem stun_attrs_fields by (rule as(2))
  have "check_ordering (length (sm_attrs m)) 0 False False (sm_attrs m) = Inr ()"
    unfolding m stun_attrs_append check_ordering_skip [OF nt] using kind fp by auto
  then show "validate_attribute_ordering m = Inr ()"
    unfolding validate_attribute_ordering_def dup dup' [unfolded credential_kinds_def] by simp
qed

text \<open>The two ways the code protects a message, as attribute lists.\<close>

lemma with_integrity_wire:
  assumes "length tid = 12" "l = as_u16 (length (attrs_wire as) + 24)" "tag = hmac key (message_bytes ty l tid (attrs_wire as))"
  shows "with_message_integrity hmac (encode_message ty tid as) key = message_bytes ty l tid (attrs_wire (as @ [(ATTR_MESSAGE_INTEGRITY, tag)]))"
  using assms by (simp add: with_message_integrity_def encode_message_bytes length_message_bytes Let_def add.commute)

lemma with_integrity_sha256_wire:
  assumes "length tid = 12" "l = as_u16 (length (attrs_wire as) + 36)" "tag = hmac key (message_bytes ty l tid (attrs_wire as))"
  shows "with_message_integrity_sha256 hmac (encode_message ty tid as) key =
    message_bytes ty l tid (attrs_wire (as @ [(ATTR_MESSAGE_INTEGRITY_SHA256, tag)]))"
  using assms by (simp add: with_message_integrity_sha256_def encode_message_bytes length_message_bytes Let_def add.commute)

lemma with_fingerprint_wire:
  assumes "length tid = 12" "l' = as_u16 (length (attrs_wire as) + 8)"
    "fp = be_bytes 4 (unat (crc32 (message_bytes ty l' tid (attrs_wire as)) XOR 0x5354554e))"
  shows "with_fingerprint crc32 (message_bytes ty l tid (attrs_wire as)) =
    message_bytes ty l' tid (attrs_wire (as @ [(ATTR_FINGERPRINT, fp)]))"
  using assms by (simp add: with_fingerprint_def length_message_bytes Let_def add.commute)

text \<open>The receiver's view of such a message, and that its fingerprint verifies.\<close>

lemma protected_receive:
  assumes "length tid = 12" "ty < 0x4000" "\<forall>k \<in> fst ` set as. \<not> is_trailer k" "\<forall>k \<in> set credential_kinds. count_list (map fst as) k \<le> 1"
    and small: "list_all (\<lambda>kv. length (snd kv) < 2 ^ 16) as"
    and kind: "kind = ATTR_MESSAGE_INTEGRITY \<and> length tag = 20 \<or> kind = ATTR_MESSAGE_INTEGRITY_SHA256 \<and> length tag = 32"
    and len: "length (attrs_wire as) + length tag + 12 < 2 ^ 16"
  obtains m where
    "parse_stun (with_fingerprint crc32 (message_bytes ty l tid (attrs_wire (as @ [(kind, tag)])))) = Inr m"
    "sm_message_type m = ty" "sm_transaction_id m = tid" "semantic_attributes m = stun_attrs 20 as"
    "validate_attribute_ordering m = Inr ()" "verify_fingerprint crc32 m"
    "find (\<lambda>a. sa_kind a = kind) (sm_attrs m) = Some \<lparr>sa_kind = kind, sa_value = tag, sa_offset = 20 + length (attrs_wire as)\<rparr>"
    "\<And>a extra. sa_offset a = 20 + length (attrs_wire as) \<Longrightarrow>
       integrity_input m a extra = message_bytes ty (as_u16 (length (attrs_wire as) + extra)) tid (attrs_wire as)"
proof -
  let ?ib = "as @ [(kind, tag)]"
  define l' where "l' = as_u16 (length (attrs_wire ?ib) + 8)"
  define crc where "crc = crc32 (message_bytes ty l' tid (attrs_wire ?ib)) XOR 0x5354554e"
  define fp where "fp = be_bytes 4 (unat crc)"
  let ?all = "as @ [(kind, tag), (ATTR_FINGERPRINT, fp)]"
  have tag: "length (attr_wire (kind, tag)) = length tag + 4" "length (attr_wire (ATTR_FINGERPRINT, fp)) = 8"
    using kind by (auto simp: length_attr_wire fp_def)
  define m where "m = \<lparr>sm_message_type = ty, sm_transaction_id = tid, sm_attrs = stun_attrs 20 ?all,
    sm_raw = message_bytes ty l' tid (attrs_wire ?all)\<rparr>"
  have l': "l' = as_u16 (length (attrs_wire ?all))" by (simp add: l'_def tag ac_simps)
  have "parse_stun (with_fingerprint crc32 (message_bytes ty l tid (attrs_wire ?ib))) = Inr m"
    using parse_message_bytes [OF assms(2,1), of ?all] small kind len tag l'
      with_fingerprint_wire [OF assms(1) l'_def, of fp crc32 ty l, folded crc_def, OF fp_def]
    by (auto simp: m_def fp_def)
  moreover have "semantic_attributes m = stun_attrs 20 as" "validate_attribute_ordering m = Inr ()"
    using protected_attrs [OF assms(3,4) kind, of fp m] by (simp_all add: m_def fp_def)
  moreover have "kind \<notin> fst ` set as" using assms(3) kind by (auto simp: is_trailer_def is_integrity_def)
  then have "find (\<lambda>a. sa_kind a = kind) (sm_attrs m) = Some \<lparr>sa_kind = kind, sa_value = tag, sa_offset = 20 + length (attrs_wire as)\<rparr>"
    using find_stun_attr [of kind as 20 tag "[(ATTR_FINGERPRINT, fp)]"] by (simp add: m_def)
  moreover have "integrity_input m a extra = message_bytes ty (as_u16 (length (attrs_wire as) + extra)) tid (attrs_wire as)"
    if "sa_offset a = 20 + length (attrs_wire as)" for a extra
    by (rule integrity_input_wire [OF assms(1) _ that]) (simp only: m_def StunMessage.simps)
  moreover have "verify_fingerprint crc32 m"
  proof -
    let ?a = "\<lparr>sa_kind = ATTR_FINGERPRINT, sa_value = fp, sa_offset = 20 + length (attrs_wire ?ib)\<rparr>"
    have "ATTR_FINGERPRINT \<notin> fst ` set ?ib" using assms(3) kind by (auto simp: is_trailer_def)
    from find_stun_attr [OF this, of 20 fp "[]"] have "find (\<lambda>a. sa_kind a = ATTR_FINGERPRINT) (sm_attrs m) = Some ?a"
      by (simp add: m_def)
    moreover have "integrity_input m ?a 8 = message_bytes ty l' tid (attrs_wire ?ib)"
      unfolding l'_def by (rule integrity_input_wire [OF assms(1), of m ty l' ?ib "[(ATTR_FINGERPRINT, fp)]"]) (simp_all add: m_def)
    ultimately show ?thesis by (simp add: verify_fingerprint_def fp_def byte_simps) (simp add: crc_def)
  qed
  ultimately show ?thesis using that [of m] by (simp add: m_def)
qed

section \<open>Authenticated prefix\<close>

text \<open>The attributes before one of them depend only on the bytes before its offset.\<close>

lemma parse_attrs_Cons:
  assumes "parse_attrs raw offset = Inr (a # as, e)"
  shows "offset + 4 + length (sa_value a) + padding (length (sa_value a)) \<le> length raw" "sa_offset a = offset"
    "parse_attrs raw (offset + 4 + length (sa_value a) + padding (length (sa_value a))) = Inr (as, e)"
    "u16_at raw offset = sa_kind a" "unat (u16_at raw (offset + 2)) = length (sa_value a)"
    "slice (offset + 4) (offset + 4 + length (sa_value a)) raw = sa_value a"
    "offset + 4 + length (sa_value a) + padding (length (sa_value a)) < 2 ^ 64"
  using assms
  by (subst (asm) parse_attrs.simps, auto simp: Let_def result_simps split: if_splits)+

lemma parse_attrs_ConsI:
  assumes "offset + 4 + length (sa_value a) + padding (length (sa_value a)) \<le> length raw" "sa_offset a = offset"
    "parse_attrs raw (offset + 4 + length (sa_value a) + padding (length (sa_value a))) = Inr (as, e)"
    "u16_at raw offset = sa_kind a" "unat (u16_at raw (offset + 2)) = length (sa_value a)"
    "slice (offset + 4) (offset + 4 + length (sa_value a)) raw = sa_value a"
    "offset + 4 + length (sa_value a) + padding (length (sa_value a)) < 2 ^ 64"
  shows "parse_attrs raw offset = Inr (a # as, e)"
proof -
  have "\<lparr>sa_kind = u16_at raw offset, sa_value = slice (offset + 4) (offset + 4 + length (sa_value a)) raw, sa_offset = offset\<rparr> = a"
    using assms(2,4,6) by (cases a) simp
  then show ?thesis
    using assms(1,3,5,7) by (subst parse_attrs.simps) (simp add: Let_def usize_checked_add_def)
qed

lemma u16_at_take: "i + 2 \<le> n \<Longrightarrow> u16_at (take n raw) i = u16_at raw i"
  by (simp add: u16_at_def)

lemma slice_take: "j \<le> n \<Longrightarrow> slice i j (take n raw) = slice i j raw"
  by (simp add: slice_def drop_take min_def)

lemma parse_attrs_prefix:
  "parse_attrs raw offset = Inr (as @ a # bs, e) \<Longrightarrow>
   offset \<le> sa_offset a \<and> sa_offset a \<le> length raw \<and> parse_attrs (take (sa_offset a) raw) offset = Inr (as, sa_offset a)"
proof (induction as arbitrary: offset)
  case Nil
  from parse_attrs_Cons [OF Nil [unfolded append_Nil]] show ?case by (simp add: parse_attrs.simps)
next
  case (Cons b as)
  note b = parse_attrs_Cons [OF Cons.prems [unfolded append_Cons]]
  from Cons.IH [OF b(3)] have IH: "offset + 4 + length (sa_value b) + padding (length (sa_value b)) \<le> sa_offset a"
      "sa_offset a \<le> length raw"
      "parse_attrs (take (sa_offset a) raw) (offset + 4 + length (sa_value b) + padding (length (sa_value b))) = Inr (as, sa_offset a)"
    by simp_all
  have "parse_attrs (take (sa_offset a) raw) offset = Inr (b # as, sa_offset a)"
    using b IH by (intro parse_attrs_ConsI) (simp_all add: u16_at_take slice_take)
  with IH show ?case by simp
qed

text \<open>Parsing from an offset does not look at the bytes before it.\<close>

lemma parse_attrs_drop:
  assumes eq: "drop n raw = drop n raw'" "length raw = length raw'"
  shows "parse_attrs raw offset = Inr (as, e) \<Longrightarrow> n \<le> offset \<Longrightarrow> offset \<le> length raw \<Longrightarrow> parse_attrs raw' offset = Inr (as, e)"
proof (induction as arbitrary: offset)
  case Nil
  then have "\<not> offset < length raw" by (subst (asm) parse_attrs.simps) (auto simp: Let_def result_simps split: if_splits)
  with Nil eq(2) show ?case by (simp add: parse_attrs.simps)
next
  case (Cons b as)
  note b = parse_attrs_Cons [OF Cons.prems(1)]
  have nth: "raw ! i = raw' ! i" if "n \<le> i" "i < length raw" for i
    using arg_cong [OF eq(1), of "\<lambda>xs. xs ! (i - n)"] that eq(2) by simp
  have u16: "u16_at raw i = u16_at raw' i" if "n \<le> i" "i + 2 \<le> length raw" for i
    using that by (simp add: u16_at_def nth)
  have sl: "slice i j raw = slice i j raw'" if "n \<le> i" for i j
    using arg_cong [OF eq(1), of "drop (i - n)"] that by (simp add: slice_def)
  have "parse_attrs raw' (offset + 4 + length (sa_value b) + padding (length (sa_value b))) = Inr (as, e)"
    using Cons.IH [OF b(3)] b(1) Cons.prems(2) by simp
  then show ?case
    using b Cons.prems(2) eq(2) by (intro parse_attrs_ConsI) (simp_all add: u16 [symmetric] sl [symmetric])
qed

lemma semantic_takeWhile: "semantic_attributes m = takeWhile (\<lambda>a. \<not> is_integrity (sa_kind a)) (sm_attrs m)"
proof -
  have "take (case position p xs of Some i \<Rightarrow> i | None \<Rightarrow> length xs) xs = takeWhile (\<lambda>a. \<not> p a) xs" for p :: "StunAttribute \<Rightarrow> bool" and xs
    by (induction xs) (auto split: option.splits)
  then show ?thesis by (simp add: semantic_attributes_def)
qed

lemma find_split: "find p xs = Some x \<Longrightarrow> \<exists>as bs. xs = as @ x # bs \<and> p x"
proof (induction xs)
  case (Cons y ys)
  show ?case
  proof (cases "p y")
    case True
    with Cons.prems show ?thesis by (intro exI [of _ "[]"] exI [of _ ys]) simp
  next
    case False
    with Cons obtain as bs where "ys = as @ x # bs" "p x" by auto
    then show ?thesis by (intro exI [of _ "y # as"] exI [of _ bs]) simp
  qed
qed simp

lemma parse_stun_parts:
  assumes "parse_stun bs = Inr m"
  shows "parse_attrs (sm_raw m) 20 = Inr (sm_attrs m, length (sm_raw m))" "20 \<le> length (sm_raw m)"
    "sm_message_type m = u16_at (sm_raw m) 0" "sm_transaction_id m = slice 8 20 (sm_raw m)" "sm_raw m = bs"
  using assms by (auto simp: parse_stun_def is_stun_message_def Let_def result_simps split: if_splits)

lemma patch_len_inject:
  assumes "patch_len x l = patch_len y l'" "4 \<le> length x" "4 \<le> length y"
  shows "length x = length y" "take 2 x = take 2 y" "drop 4 x = drop 4 y"
proof -
  have "length (patch_len x l) = length x" "length (patch_len y l') = length y" using assms(2,3) by (simp_all add: patch_len_def)
  with assms(1) show "length x = length y" by metis
  have "take 2 (patch_len x l) = take 2 x" "take 2 (patch_len y l') = take 2 y"
    "drop 4 (patch_len x l) = drop 4 x" "drop 4 (patch_len y l') = drop 4 y"
    using assms(2,3) by (simp_all add: patch_len_def)
  with assms(1) show "take 2 x = take 2 y" "drop 4 x = drop 4 y" by metis+
qed

lemma integrity_input_semantics:
  assumes p: "parse_stun b\<^sub>1 = Inr m\<^sub>1" "parse_stun b\<^sub>2 = Inr m\<^sub>2" and kind: "is_integrity kind"
    and f: "find (\<lambda>a. sa_kind a = kind) (sm_attrs m\<^sub>1) = Some a\<^sub>1" "find (\<lambda>a. sa_kind a = kind) (sm_attrs m\<^sub>2) = Some a\<^sub>2"
    and eq: "integrity_input m\<^sub>1 a\<^sub>1 extra = integrity_input m\<^sub>2 a\<^sub>2 extra"
  shows "sm_message_type m\<^sub>1 = sm_message_type m\<^sub>2 \<and> sm_transaction_id m\<^sub>1 = sm_transaction_id m\<^sub>2 \<and>
         semantic_attributes m\<^sub>1 = semantic_attributes m\<^sub>2"
proof -
  note r1 = parse_stun_parts [OF p(1)] and r2 = parse_stun_parts [OF p(2)]
  from find_split [OF f(1)] obtain as\<^sub>1 bs\<^sub>1 where s1: "sm_attrs m\<^sub>1 = as\<^sub>1 @ a\<^sub>1 # bs\<^sub>1" "sa_kind a\<^sub>1 = kind" by blast
  from find_split [OF f(2)] obtain as\<^sub>2 bs\<^sub>2 where s2: "sm_attrs m\<^sub>2 = as\<^sub>2 @ a\<^sub>2 # bs\<^sub>2" "sa_kind a\<^sub>2 = kind" by blast
  define x where "x = take (sa_offset a\<^sub>1) (sm_raw m\<^sub>1)"
  define y where "y = take (sa_offset a\<^sub>2) (sm_raw m\<^sub>2)"
  from parse_attrs_prefix [OF r1(1) [unfolded s1(1)]] have x: "20 \<le> length x" "parse_attrs x 20 = Inr (as\<^sub>1, length x)"
    by (simp_all add: x_def min_absorb2)
  from parse_attrs_prefix [OF r2(1) [unfolded s2(1)]] have y: "20 \<le> length y" "parse_attrs y 20 = Inr (as\<^sub>2, length y)"
    by (simp_all add: y_def min_absorb2)
  have "patch_len x (as_u16 (sa_offset a\<^sub>1 + extra - 20)) = patch_len y (as_u16 (sa_offset a\<^sub>2 + extra - 20))"
    using eq by (simp only: integrity_input_def x_def y_def)
  from patch_len_inject [OF this] x(1) y(1)
  have xy: "length x = length y" "take 2 x = take 2 y" "drop 4 x = drop 4 y" by simp_all
  from arg_cong [OF xy(3), of "drop 16"] have "drop 20 x = drop 20 y" by simp
  from parse_attrs_drop [OF this xy(1) x(2)] y(2) x(1) have "as\<^sub>1 = as\<^sub>2" by simp
  then have "semantic_attributes m\<^sub>1 = semantic_attributes m\<^sub>2"
    using s1 s2 kind by (simp add: semantic_takeWhile takeWhile_append)
  moreover have "u16_at x 0 = u16_at y 0"
    using arg_cong [OF xy(2), of "\<lambda>z. z ! 0"] arg_cong [OF xy(2), of "\<lambda>z. z ! 1"] by (simp add: u16_at_def)
  moreover have "slice 8 20 x = slice 8 20 y"
    using arg_cong [OF xy(3), of "\<lambda>z. take 12 (drop 4 z)"] by (simp add: slice_def)
  ultimately show ?thesis
    using r1(3,4) r2(3,4) x(1) y(1) by (simp add: x_def y_def u16_at_take slice_take)
qed

section \<open>XOR-mapped addresses\<close>

lemma map2_xor_cancel: "length a \<le> length m \<Longrightarrow> map2 (XOR) (map2 (XOR) a m) m = (a :: bytes)"
proof (induction a arbitrary: m)
  case (Cons x a)
  then show ?case by (cases m) (simp_all add: xor.assoc)
qed simp

lemma xor_bytes: "length t = n \<Longrightarrow> length m = n \<Longrightarrow> map (\<lambda>i. t ! i XOR m ! i) [0..<n] = map2 (XOR) t (m :: bytes)"
  by (rule nth_equalityI) simp_all

lemma length_xor_mask [simp]: "length tid = 12 \<Longrightarrow> length (xor_mask tid) = 16"
  by (simp add: xor_mask_def)

lemma decode_encode_xor_address:
  assumes "length tid = 12"
  shows "decode_xor_address (encode_xor_address addr tid) tid = Inr addr"
proof -
  obtain ip port where addr: "addr = \<lparr>sock_ip = ip, sock_port = port\<rparr>" by (cases addr)
  let ?p = "be_bytes 2 (unat (port XOR xor_port_mask))"
  have port: "u16_at ([0, b] @ ?p @ rest) 2 = port XOR xor_port_mask" for b rest by (rule u16_at_append) simp
  show ?thesis
  proof (cases ip)
    case (V4 x)
    have "word_from_be (be_bytes 4 (unat (x XOR MAGIC_COOKIE))) = x XOR MAGIC_COOKIE" by (simp add: byte_simps)
    then show ?thesis using port [of 1] unfolding addr V4
      by (simp add: decode_xor_address_def encode_xor_address_def be_bytes_2 be_bytes_4 xor.assoc)
  next
    case (V6 x)
    let ?t = "map2 (XOR) (be_bytes 16 (unat x)) (xor_mask tid)"
    have len: "length ?t = 16" using assms by simp
    let ?v = "[0, 2] @ ?p @ ?t"
    have "map (\<lambda>i. ?v ! (4 + i) XOR xor_mask tid ! i) [0..<16] = map (\<lambda>i. ?t ! i XOR xor_mask tid ! i) [0..<16]"
      by (rule map_cong) (simp_all add: nth_append be_bytes_2)
    also have "\<dots> = be_bytes 16 (unat x)" using len assms by (subst xor_bytes) (simp_all add: map2_xor_cancel)
    finally show ?thesis using port [of 2 ?t] len unfolding addr V6
      by (simp add: decode_xor_address_def encode_xor_address_def be_bytes_2 xor.assoc Let_def)
  qed
qed

lemma encode_decode_xor_address:
  assumes tid: "length tid = 12" and dec: "decode_xor_address v tid = Inr addr"
  shows "encode_xor_address addr tid = v"
proof -
  have v: "8 \<le> length v" "v ! 0 = 0" using dec by (auto simp: decode_xor_address_def split: if_splits)
  have port: "be_bytes 2 (unat (u16_at v 2)) = take 2 (drop 2 v)" using v(1) by (simp add: be_bytes_u16_at)
  have "drop 2 v = take 2 (drop 2 v) @ drop 4 v" using append_take_drop_id [of 2 "drop 2 v", symmetric] by simp
  moreover have "v = [v ! 0, v ! 1] @ drop 2 v" using append_take_drop_id [of 2 v] take_drop_2 [of 0 v] v(1) by (metis add_0 drop0 le_trans numeral_le_iff semiring_norm(68,71))
  ultimately have head: "v = [v ! 0, v ! 1] @ take 2 (drop 2 v) @ drop 4 v" by metis
  consider (four) "v ! 1 = 1" "length v = 8" | (six) "v ! 1 = 2" "length v = 20"
    using dec by (auto simp: decode_xor_address_def Let_def split: if_splits)
  then show ?thesis
  proof cases
    case four
    have "[v ! 4, v ! 5, v ! 6, v ! 7] = drop 4 v" using take_drop_4 [of 4 v] four(2) by simp
    with dec v four have addr: "addr = \<lparr>sock_ip = V4 (word_from_be (drop 4 v) XOR MAGIC_COOKIE), sock_port = u16_at v 2 XOR xor_port_mask\<rparr>"
      by (simp add: decode_xor_address_def Let_def)
    have "be_bytes 4 (unat (word_from_be (drop 4 v) :: u32)) = drop 4 v" using four by (simp add: byte_simps)
    with head v four port show ?thesis by (simp add: addr encode_xor_address_def xor.assoc)
  next
    case six
    let ?t = "drop 4 v"
    have "map (\<lambda>i. v ! (4 + i) XOR xor_mask tid ! i) [0..<16] = map2 (XOR) ?t (xor_mask tid)"
      using six tid xor_bytes [of ?t 16 "xor_mask tid"] by simp
    with dec v six have addr: "addr = \<lparr>sock_ip = V6 (word_from_be (map2 (XOR) ?t (xor_mask tid))), sock_port = u16_at v 2 XOR xor_port_mask\<rparr>"
      by (simp add: decode_xor_address_def Let_def)
    have "map2 (XOR) (map2 (XOR) ?t (xor_mask tid)) (xor_mask tid) = ?t" using six tid by (intro map2_xor_cancel) simp
    with head v six port tid show ?thesis by (simp add: addr encode_xor_address_def xor.assoc)
  qed
qed

section \<open>Password algorithms\<close>

lemma algorithms_loop_encoded:
  assumes "length (pre @ encode_password_algorithms algs) < 2 ^ 64"
  shows "algorithms_loop (pre @ encode_password_algorithms algs) selected (length pre) \<longleftrightarrow> selected \<in> set algs"
  using assms
proof (induction algs arbitrary: pre)
  case Nil
  then show ?case by (simp add: algorithms_loop.simps encode_password_algorithms_def)
next
  case (Cons a algs)
  let ?rest = "encode_password_algorithms algs"
  let ?v = "pre @ encode_password_algorithms (a # algs)"
  have v: "?v = pre @ be_bytes 2 (unat a) @ (be_bytes 2 0 @ ?rest)" "?v = (pre @ be_bytes 2 (unat a)) @ be_bytes 2 (unat (0 :: u16)) @ ?rest"
    "?v = (pre @ encode_password_algorithm a) @ ?rest"
    by (simp_all add: encode_password_algorithms_def encode_password_algorithm_def)
  have alg: "u16_at ?v (length pre) = a" unfolding v(1) by (rule u16_at_append) simp
  have par: "u16_at ?v (length pre + 2) = 0" unfolding v(2) by (rule u16_at_append) simp
  then have par': "u16_at ?v (Suc (Suc (length pre))) = 0" by simp
  have len: "length ?v = length pre + 4 + length ?rest" by (simp add: v(1))
  have "algorithms_loop ?v selected (length pre + 4) \<longleftrightarrow> selected \<in> set algs"
    using Cons.IH [of "pre @ encode_password_algorithm a"] Cons.prems by (simp add: v(3) encode_password_algorithm_def)
  then show ?case
    using Cons.prems alg par' len by (subst algorithms_loop.simps) (simp add: Let_def usize_checked_add_def)
qed

section \<open>Frames on a stream\<close>

text \<open>What travels on a TURN stream connection, and how the receiver classifies a frame.\<close>

datatype turn_packet = StunPacket u16 bytes "(u16 \<times> bytes) list" | ChannelPacket u16 bytes

fun packet_bytes :: "turn_packet \<Rightarrow> string + bytes" where
  "packet_bytes (StunPacket ty tid kvs) = Inr (encode_message ty tid kvs)"
| "packet_bytes (ChannelPacket channel payload) = encode_channel_data channel payload"

fun packet_ok :: "turn_packet \<Rightarrow> bool" where
  "packet_ok (StunPacket ty tid kvs) \<longleftrightarrow>
     ty < 0x4000 \<and> length tid = 12 \<and> list_all (\<lambda>kv. length (snd kv) < 2 ^ 16) kvs \<and> length (attrs_wire kvs) < 2 ^ 16"
| "packet_ok (ChannelPacket channel payload) \<longleftrightarrow> True"

definition parse_packet :: "bytes \<Rightarrow> string + turn_packet" where
  "parse_packet frame =
     (if is_stun_message frame
      then bindE (parse_stun frame) (\<lambda>m.
           Inr (StunPacket (sm_message_type m) (sm_transaction_id m) (map (\<lambda>a. (sa_kind a, sa_value a)) (sm_attrs m))))
      else bindE (parse_channel_data frame) (\<lambda>c. Inr (ChannelPacket (cd_channel c) (cd_payload c))))"

lemma and_c0_channel:
  assumes "unat (x :: u8) div 16 = 4"
  shows "x AND 0xc0 = 0x40"
proof -
  have "unat x div 64 = 1" using assms by simp
  then have "drop_bit 6 x = 1" using drop_bit_u8 [of x] by (simp add: word_unat_eq_iff)
  then show ?thesis by (simp add: and_c0 push_bit_eq_mult)
qed

lemma channel_first_byte:
  assumes "0x4000 \<le> channel" "channel \<le> (0x4fff :: u16)"
  shows "(of_nat (unat channel div 256) :: u8) AND 0xc0 = 0x40"
proof (rule and_c0_channel)
  have "0x4000 \<le> unat channel" "unat channel \<le> 0x4fff" using assms by (simp_all add: word_le_nat_alt)
  then show "unat (of_nat (unat channel div 256) :: u8) div 16 = 4" by (simp add: unat_of_nat)
qed

lemma read_channel_frame:
  assumes "encode_channel_data channel payload = Inr frame"
  shows "read_turn_frame (frame @ rest) = Inr (frame, rest)" "\<not> is_stun_message frame"
    "parse_channel_data frame = Inr \<lparr>cd_channel = channel, cd_payload = payload\<rparr>"
proof -
  let ?n = "length payload"
  have ch: "0x4000 \<le> channel" "channel \<le> 0x4fff" and n: "?n < 2 ^ 16"
    and frame: "frame = be_bytes 2 (unat channel) @ be_bytes 2 ?n @ payload @ replicate (padding ?n) 0"
    using assms by (auto simp: encode_channel_data_def split: if_splits)
  have len: "be_bytes 2 ?n = be_bytes 2 (unat (as_u16 ?n))" "unat (as_u16 ?n) = ?n" using n by (simp_all add: unat_as_u16)
  have first: "frame ! 0 AND 0xc0 = 0x40" using channel_first_byte [OF ch] by (simp add: frame be_bytes_2)
  have at2: "u16_at (be_bytes 2 (unat channel) @ be_bytes 2 ?n @ tl) 2 = as_u16 ?n" for tl unfolding len(1) by (rule u16_at_append) simp
  have at0: "u16_at frame 0 = channel" using u16_at_append [of "[]" 0 channel] by (simp add: frame)
  let ?h = "be_bytes 2 (unat channel) @ be_bytes 2 ?n"
  have h: "read_exact c 4 (frame @ rest) = Inr (?h, payload @ replicate (padding ?n) 0 @ rest)" for c
    by (simp add: read_exact_def frame)
  have "?h ! 0 AND 0xc0 = 0x40" using first by (simp add: frame be_bytes_2)
  moreover have "read_exact c (?n + padding ?n) (payload @ replicate (padding ?n) 0 @ rest) = Inr (payload @ replicate (padding ?n) 0, rest)" for c
    by (simp add: read_exact_def)
  ultimately show "read_turn_frame (frame @ rest) = Inr (frame, rest)"
    using at2 [of "[]"] len(2) by (simp add: read_turn_frame_def h Let_def) (simp add: frame)
  show "\<not> is_stun_message frame" using first by (auto simp: is_stun_message_def)
  have "slice 4 (4 + ?n) frame = payload" by (simp add: frame slice_def)
  then show "parse_channel_data frame = Inr \<lparr>cd_channel = channel, cd_payload = payload\<rparr>"
    using first at0 at2 ch len(2) by (simp add: parse_channel_data_def Let_def) (simp add: frame)
qed

lemma read_stun_frame:
  assumes "packet_ok (StunPacket ty tid kvs)"
  shows "read_turn_frame (encode_message ty tid kvs @ rest) = Inr (encode_message ty tid kvs, rest)"
proof -
  have ok: "ty < 0x4000" "length tid = 12" "length (attrs_wire kvs) < 2 ^ 16" using assms by simp_all
  let ?len = "as_u16 (length (attrs_wire kvs))"
  let ?m = "message_bytes ty ?len tid (attrs_wire kvs)"
  let ?h = "be_bytes 2 (unat ty) @ be_bytes 2 (unat ?len)"
  let ?body = "be_bytes 4 (unat MAGIC_COOKIE) @ tid @ attrs_wire kvs"
  have "?m ! 0 AND 0xc0 = 0" using message_bytes_is_stun [OF ok(1,2)] by (simp add: is_stun_message_def)
  then have first: "?h ! 0 AND 0xc0 = 0" by (simp add: message_bytes_def be_bytes_2)
  have at2: "u16_at ?h 2 = ?len" using u16_at_append [of "be_bytes 2 (unat ty)" 2 ?len "[]"] by simp
  have h: "read_exact c 4 (?m @ rest) = Inr (?h, ?body @ rest)" for c by (simp add: read_exact_def message_bytes_def)
  have "read_exact c (16 + length (attrs_wire kvs)) (?body @ rest) = Inr (?body, rest)" for c
    using ok(2) by (simp add: read_exact_def)
  then have "read_turn_frame (?m @ rest) = Inr (?m, rest)"
    using first at2 ok(3) by (simp add: read_turn_frame_def h Let_def unat_as_u16) (simp add: message_bytes_def unat_as_u16)
  then show ?thesis by (simp add: encode_message_bytes [OF ok(2)])
qed

text \<open>The receiving loop over a connection: frames are read until the stream ends.\<close>

lemma read_turn_frame_length: "read_turn_frame stream = Inr (frame, rest) \<Longrightarrow> length rest < length stream"
  by (auto simp: read_turn_frame_def read_exact_def Let_def result_simps split: if_splits)

function read_packets :: "bytes \<Rightarrow> string + turn_packet list" where
  "read_packets stream =
     (if stream = [] then Inr [] else
      bindE (read_turn_frame stream) (\<lambda>(frame, rest).
      bindE (parse_packet frame) (\<lambda>p.
      bindE (read_packets rest) (\<lambda>ps. Inr (p # ps)))))"
  by pat_completeness auto
termination
  by (relation "measure length") (auto dest: read_turn_frame_length)

declare read_packets.simps [simp del]

fun packets_bytes :: "turn_packet list \<Rightarrow> string + bytes" where
  "packets_bytes [] = Inr []"
| "packets_bytes (p # ps) = bindE (packet_bytes p) (\<lambda>bs. bindE (packets_bytes ps) (\<lambda>rest. Inr (bs @ rest)))"

lemma packet_frame:
  assumes "packet_ok p" "packet_bytes p = Inr frame"
  shows "read_turn_frame (frame @ rest) = Inr (frame, rest)" "parse_packet frame = Inr p" "frame \<noteq> []"
proof -
  show "read_turn_frame (frame @ rest) = Inr (frame, rest)"
    using assms read_stun_frame read_channel_frame(1) by (cases p) auto
  show "parse_packet frame = Inr p"
  proof (cases p)
    case (StunPacket ty tid kvs)
    with assms show ?thesis
      using message_bytes_is_stun [of ty tid] parse_message_bytes [of ty tid kvs]
      by (auto simp: parse_packet_def encode_message_bytes)
  next
    case (ChannelPacket channel payload)
    with assms show ?thesis using read_channel_frame(2,3) [of channel payload frame] by (simp add: parse_packet_def)
  qed
  then show "frame \<noteq> []" by (auto simp: parse_packet_def is_stun_message_def parse_channel_data_def)
qed

section \<open>Ordering of the security attributes\<close>

lemma all_splits_Cons:
  "(\<forall>as a bs. c # cs = as @ a # bs \<longrightarrow> P as a bs) \<longleftrightarrow> P [] c cs \<and> (\<forall>as a bs. cs = as @ a # bs \<longrightarrow> P (c # as) a bs)"
  by (auto simp: Cons_eq_append_conv)

definition well_placed :: "nat \<Rightarrow> nat \<Rightarrow> bool \<Rightarrow> bool \<Rightarrow> StunAttribute list \<Rightarrow> StunAttribute \<Rightarrow> bool" where
  "well_placed count index legacy sha as a \<longleftrightarrow>
     (sa_kind a = ATTR_MESSAGE_INTEGRITY_SHA256 \<longrightarrow>
        length (sa_value a) = 32 \<and> \<not> legacy \<and> \<not> sha \<and> (\<forall>b \<in> set as. \<not> is_integrity (sa_kind b))) \<and>
     (sa_kind a = ATTR_MESSAGE_INTEGRITY \<longrightarrow>
        length (sa_value a) = 20 \<and> \<not> legacy \<and> (\<forall>b \<in> set as. sa_kind b \<noteq> ATTR_MESSAGE_INTEGRITY)) \<and>
     (sa_kind a = ATTR_FINGERPRINT \<longrightarrow> length (sa_value a) = 4 \<and> index + length as + 1 = count)"

lemma well_placed_Cons:
  "well_placed count index legacy sha (c # as) a \<longleftrightarrow>
     well_placed count (index + 1) (legacy \<or> sa_kind c = ATTR_MESSAGE_INTEGRITY)
       (sha \<or> sa_kind c = ATTR_MESSAGE_INTEGRITY_SHA256) as a"
  by (auto simp: well_placed_def is_integrity_def)

lemma check_ordering_iff:
  "check_ordering count index legacy sha attrs = Inr u \<longleftrightarrow>
     (\<forall>as a bs. attrs = as @ a # bs \<longrightarrow> well_placed count index legacy sha as a)"
proof (induction attrs arbitrary: index legacy sha)
  case (Cons c attrs)
  have "check_ordering count index legacy sha (c # attrs) = Inr u \<longleftrightarrow>
      well_placed count index legacy sha [] c \<and>
      check_ordering count (index + 1) (legacy \<or> sa_kind c = ATTR_MESSAGE_INTEGRITY)
        (sha \<or> sa_kind c = ATTR_MESSAGE_INTEGRITY_SHA256) attrs = Inr u"
    by (auto simp: well_placed_def)
  then show ?case
    by (simp only: Cons.IH all_splits_Cons [where P = "\<lambda>as a bs. well_placed count index legacy sha as a"] well_placed_Cons)
qed simp

section \<open>Properties\<close>

text \<open>
  C27.  Every message that \<open>encode_message\<close> builds from a method type and attributes that fit the
  16-bit length fields is parsed back by \<open>parse_stun\<close> to the same type, transaction and attributes.
\<close>

theorem stun_message_roundtrip:
  assumes "ty < 0x4000" "length tid = 12" "list_all (\<lambda>kv. length (snd kv) < 2 ^ 16) kvs" "length (attrs_wire kvs) < 2 ^ 16"
  shows "\<exists>m. parse_stun (encode_message ty tid kvs) = Inr m \<and> sm_message_type m = ty \<and> sm_transaction_id m = tid \<and>
           map (\<lambda>a. (sa_kind a, sa_value a)) (sm_attrs m) = kvs"
  using parse_message_bytes [OF assms] by (simp add: encode_message_bytes [OF assms(2)])

theorem stun_message_roundtrip_witness:
  "\<exists>m. parse_stun (encode_message 1 (replicate 12 7) [(0x8022, [0x4f, 0x78])]) = Inr m \<and> sm_message_type m = 1 \<and>
       sm_transaction_id m = replicate 12 7 \<and> map (\<lambda>a. (sa_kind a, sa_value a)) (sm_attrs m) = [(0x8022, [0x4f, 0x78])]"
  by (rule stun_message_roundtrip) (simp_all add: length_attr_wire padding_def)

text \<open>The receiver accepts a message as the given type, transaction and attributes.\<close>

definition received_as :: "(bytes \<Rightarrow> u32) \<Rightarrow> u16 \<Rightarrow> bytes \<Rightarrow> (u16 \<times> bytes) list \<Rightarrow> StunMessage \<Rightarrow> bool" where
  "received_as crc32 ty tid kvs m \<longleftrightarrow>
     sm_message_type m = ty \<and> sm_transaction_id m = tid \<and> validate_attribute_ordering m = Inr () \<and>
     verify_fingerprint crc32 m \<and> map (\<lambda>a. (sa_kind a, sa_value a)) (semantic_attributes m) = kvs"

text \<open>
  C28.  A message protected with MESSAGE-INTEGRITY or MESSAGE-INTEGRITY-SHA256 and a FINGERPRINT is
  accepted by the receiver that holds the key: it parses, its attributes are well ordered, integrity
  and fingerprint verify, and the attributes the method handlers see are exactly the ones encoded.
  The attributes must fit the 16-bit length fields, must not be integrity or fingerprint attributes themselves,
  and must have each of the six credential attributes at most once; any other kind may repeat, like the
  relayed addresses of an allocation for both address families.
\<close>

theorem protected_message_accepted:
  assumes "\<And>key value. length (hmac_sha1 key value) = 20" "\<And>key value. length (hmac_sha256 key value) = 32"
    and "\<And>key value tag. verify_hmac_sha1 key value tag \<longleftrightarrow> tag = hmac_sha1 key value"
    and "ty < 0x4000" "length tid = 12" "\<forall>k \<in> fst ` set kvs. \<not> is_trailer k"
    and "\<forall>k \<in> set credential_kinds. count_list (map fst kvs) k \<le> 1"
    and "list_all (\<lambda>kv. length (snd kv) < 2 ^ 16) kvs" "length (attrs_wire kvs) + 44 < 2 ^ 16"
  shows "(\<exists>m. parse_stun (with_fingerprint crc32 (with_message_integrity hmac_sha1 (encode_message ty tid kvs) key)) = Inr m \<and>
            received_as crc32 ty tid kvs m \<and> verify_message_integrity verify_hmac_sha1 m key) \<and>
         (\<exists>m. parse_stun (with_fingerprint crc32 (with_message_integrity_sha256 hmac_sha256 (encode_message ty tid kvs) key)) = Inr m \<and>
            received_as crc32 ty tid kvs m \<and> verify_message_integrity_sha256 hmac_sha256 m key)"
proof (intro conjI)
  define l where "l = as_u16 (length (attrs_wire kvs) + 24)"
  define tag where "tag = hmac_sha1 key (message_bytes ty l tid (attrs_wire kvs))"
  have len: "length tag = 20" "length (attrs_wire kvs) + length tag + 12 < 2 ^ 16" using assms(1,9) by (simp_all add: tag_def)
  show "\<exists>m. parse_stun (with_fingerprint crc32 (with_message_integrity hmac_sha1 (encode_message ty tid kvs) key)) = Inr m \<and>
            received_as crc32 ty tid kvs m \<and> verify_message_integrity verify_hmac_sha1 m key"
    unfolding with_integrity_wire [where hmac = hmac_sha1 and key = key and ty = ty, OF assms(5) l_def tag_def]
    by (rule protected_receive [where kind = ATTR_MESSAGE_INTEGRITY and tag = tag, OF assms(5,4,6,7,8) _ len(2), of crc32 l])
      (use len assms(3) in \<open>simp_all add: received_as_def verify_message_integrity_def l_def [symmetric] tag_def\<close>)
next
  define l where "l = as_u16 (length (attrs_wire kvs) + 36)"
  define tag where "tag = hmac_sha256 key (message_bytes ty l tid (attrs_wire kvs))"
  have len: "length tag = 32" "length (attrs_wire kvs) + length tag + 12 < 2 ^ 16" using assms(2,9) by (simp_all add: tag_def)
  show "\<exists>m. parse_stun (with_fingerprint crc32 (with_message_integrity_sha256 hmac_sha256 (encode_message ty tid kvs) key)) = Inr m \<and>
            received_as crc32 ty tid kvs m \<and> verify_message_integrity_sha256 hmac_sha256 m key"
    unfolding with_integrity_sha256_wire [where hmac = hmac_sha256 and key = key and ty = ty, OF assms(5) l_def tag_def]
    by (rule protected_receive [where kind = ATTR_MESSAGE_INTEGRITY_SHA256 and tag = tag, OF assms(5,4,6,7,8) _ len(2), of crc32 l])
      (use len in \<open>simp_all add: received_as_def verify_message_integrity_sha256_def constant_time_eq_def l_def [symmetric] tag_def\<close>)
qed

theorem protected_message_accepted_witness:
  "\<exists>m. parse_stun (with_fingerprint (\<lambda>bs. of_nat (length bs)) (with_message_integrity (\<lambda>key bs. replicate 20 (of_nat (length bs)))
         (encode_message 3 (replicate 12 7) [(6, [0x75]), (0x16, [1]), (0x16, [2])]) [1, 2])) = Inr m \<and>
       received_as (\<lambda>bs. of_nat (length bs)) 3 (replicate 12 7) [(6, [0x75]), (0x16, [1]), (0x16, [2])] m \<and>
       verify_message_integrity (\<lambda>key bs tag. tag = replicate 20 (of_nat (length bs))) m [1, 2]"
proof -
  let ?kvs = "[(6, [0x75]), (0x16, [1]), (0x16, [2])] :: (u16 \<times> bytes) list"
  have "(\<exists>m. parse_stun (with_fingerprint (\<lambda>bs. of_nat (length bs)) (with_message_integrity (\<lambda>key bs. replicate 20 (of_nat (length bs)))
         (encode_message 3 (replicate 12 7) ?kvs) [1, 2])) = Inr m \<and>
       received_as (\<lambda>bs. of_nat (length bs)) 3 (replicate 12 7) ?kvs m \<and>
       verify_message_integrity (\<lambda>key bs tag. tag = replicate 20 (of_nat (length bs))) m [1, 2]) \<and>
     (\<exists>m. parse_stun (with_fingerprint (\<lambda>bs. of_nat (length bs)) (with_message_integrity_sha256 (\<lambda>key bs. replicate 32 0)
         (encode_message 3 (replicate 12 7) ?kvs) [1, 2])) = Inr m \<and>
       received_as (\<lambda>bs. of_nat (length bs)) 3 (replicate 12 7) ?kvs m \<and>
       verify_message_integrity_sha256 (\<lambda>key bs. replicate 32 0) m [1, 2])"
    by (rule protected_message_accepted) (simp_all add: is_trailer_def is_integrity_def credential_kinds_def length_attr_wire padding_def)
  then show ?thesis by blast
qed

text \<open>
  C29.  Integrity covers the semantics: if two messages verify under the same key with the same
  MESSAGE-INTEGRITY tag, then they agree on method, transaction and every attribute the handlers
  read, or the two authenticated byte strings are a collision of the keyed hash.
\<close>

theorem integrity_covers_semantics:
  assumes "\<And>key value tag. verify_hmac_sha1 key value tag \<longleftrightarrow> tag = hmac_sha1 key value"
    and "parse_stun b\<^sub>1 = Inr m\<^sub>1" "parse_stun b\<^sub>2 = Inr m\<^sub>2"
    and "find (\<lambda>a. sa_kind a = ATTR_MESSAGE_INTEGRITY) (sm_attrs m\<^sub>1) = Some a\<^sub>1"
    and "find (\<lambda>a. sa_kind a = ATTR_MESSAGE_INTEGRITY) (sm_attrs m\<^sub>2) = Some a\<^sub>2"
    and "verify_message_integrity verify_hmac_sha1 m\<^sub>1 key" "verify_message_integrity verify_hmac_sha1 m\<^sub>2 key"
    and "sa_value a\<^sub>1 = sa_value a\<^sub>2"
  shows "sm_message_type m\<^sub>1 = sm_message_type m\<^sub>2 \<and> sm_transaction_id m\<^sub>1 = sm_transaction_id m\<^sub>2 \<and>
           semantic_attributes m\<^sub>1 = semantic_attributes m\<^sub>2 \<or>
         integrity_input m\<^sub>1 a\<^sub>1 24 \<noteq> integrity_input m\<^sub>2 a\<^sub>2 24 \<and>
           hmac_sha1 key (integrity_input m\<^sub>1 a\<^sub>1 24) = hmac_sha1 key (integrity_input m\<^sub>2 a\<^sub>2 24)"
proof (cases "integrity_input m\<^sub>1 a\<^sub>1 24 = integrity_input m\<^sub>2 a\<^sub>2 24")
  case True
  from integrity_input_semantics [OF assms(2,3) _ assms(4,5) True] show ?thesis by (simp add: is_integrity_def)
next
  case False
  with assms(1,4-8) show ?thesis by (simp add: verify_message_integrity_def split: if_splits)
qed

definition sample_request :: "u8 \<Rightarrow> StunMessage" where
  "sample_request user =
     (let kvs = [(ATTR_USERNAME, [user]), (ATTR_MESSAGE_INTEGRITY, replicate 20 0)]
      in \<lparr>sm_message_type = 3, sm_transaction_id = replicate 12 7, sm_attrs = stun_attrs 20 kvs,
          sm_raw = message_bytes 3 (as_u16 (length (attrs_wire kvs))) (replicate 12 7) (attrs_wire kvs)\<rparr>)"

lemma sample_request:
  "parse_stun (sm_raw (sample_request user)) = Inr (sample_request user)"
  "find (\<lambda>a. sa_kind a = ATTR_MESSAGE_INTEGRITY) (sm_attrs (sample_request user)) =
     Some \<lparr>sa_kind = ATTR_MESSAGE_INTEGRITY, sa_value = replicate 20 0, sa_offset = 28\<rparr>"
  "verify_message_integrity (\<lambda>key value tag. tag = replicate 20 0) (sample_request user) key"
proof -
  let ?kvs = "[(ATTR_USERNAME, [user]), (ATTR_MESSAGE_INTEGRITY, replicate 20 0)] :: (u16 \<times> bytes) list"
  show "parse_stun (sm_raw (sample_request user)) = Inr (sample_request user)"
    using parse_message_bytes [of 3 "replicate 12 7" ?kvs] by (simp add: sample_request_def Let_def length_attr_wire padding_def)
  show f: "find (\<lambda>a. sa_kind a = ATTR_MESSAGE_INTEGRITY) (sm_attrs (sample_request user)) =
     Some \<lparr>sa_kind = ATTR_MESSAGE_INTEGRITY, sa_value = replicate 20 0, sa_offset = 28\<rparr>"
    by (simp add: sample_request_def Let_def length_attr_wire padding_def)
  show "verify_message_integrity (\<lambda>key value tag. tag = replicate 20 0) (sample_request user) key"
    unfolding verify_message_integrity_def f by simp
qed

theorem integrity_covers_semantics_witness:
  "integrity_input (sample_request 1) \<lparr>sa_kind = ATTR_MESSAGE_INTEGRITY, sa_value = replicate 20 0, sa_offset = 28\<rparr> 24 \<noteq>
   integrity_input (sample_request 2) \<lparr>sa_kind = ATTR_MESSAGE_INTEGRITY, sa_value = replicate 20 0, sa_offset = 28\<rparr> 24"
proof -
  have "semantic_attributes (sample_request 1) \<noteq> semantic_attributes (sample_request 2)"
    by (simp add: sample_request_def Let_def semantic_takeWhile is_integrity_def)
  with integrity_covers_semantics [of "\<lambda>key value tag. tag = replicate 20 0" "\<lambda>key value. replicate 20 0", OF refl
      sample_request(1) [of 1] sample_request(1) [of 2] sample_request(2) sample_request(2) sample_request(3) sample_request(3) refl]
  show ?thesis by simp
qed

text \<open>
  C31.  XOR-mapped addresses have exactly one encoding, for both address families and every transaction: \<open>decode_xor_address\<close>
  accepts exactly what \<open>encode_xor_address\<close> writes, and returns the address that was written.
\<close>

theorem xor_address_canonical:
  assumes "length tid = 12"
  shows "decode_xor_address v tid = Inr addr \<longleftrightarrow> v = encode_xor_address addr tid"
  using decode_encode_xor_address [OF assms] encode_decode_xor_address [OF assms] by auto

theorem xor_address_canonical_witness:
  "decode_xor_address (encode_xor_address \<lparr>sock_ip = V4 0x7f000001, sock_port = 3478\<rparr> (replicate 12 9)) (replicate 12 9) =
     Inr \<lparr>sock_ip = V4 0x7f000001, sock_port = 3478\<rparr>"
  by (rule xor_address_canonical [THEN iffD2]) simp_all

text \<open>
  C30.  STUN messages and ChannelData written back to back on a stream connection are cut into the
  same frames by \<open>read_turn_frame\<close>, and every frame parses to the packet that was sent.
\<close>

theorem turn_stream_roundtrip:
  "list_all packet_ok ps \<Longrightarrow> packets_bytes ps = Inr stream \<Longrightarrow> read_packets stream = Inr ps"
proof (induction ps arbitrary: stream)
  case (Cons p ps)
  then obtain frame rest where p: "packet_bytes p = Inr frame" and ps: "packets_bytes ps = Inr rest" and stream: "stream = frame @ rest"
    by (auto simp: result_simps)
  from Cons.prems(1) have ok: "packet_ok p" "list_all packet_ok ps" by simp_all
  note frame = packet_frame [OF ok(1) p]
  show ?case using frame Cons.IH [OF ok(2) ps] unfolding stream by (subst read_packets.simps) simp
qed (simp add: read_packets.simps)

theorem turn_stream_roundtrip_witness:
  "\<exists>stream. packets_bytes [ChannelPacket 0x4001 [1, 2, 3], StunPacket 1 (replicate 12 5) []] = Inr stream \<and>
            read_packets stream = Inr [ChannelPacket 0x4001 [1, 2, 3], StunPacket 1 (replicate 12 5) []]"
proof -
  let ?ps = "[ChannelPacket 0x4001 [1, 2, 3], StunPacket 1 (replicate 12 5) []]"
  obtain stream where "packets_bytes ?ps = Inr stream" by (simp add: encode_channel_data_def)
  with turn_stream_roundtrip [of ?ps stream] show ?thesis by simp
qed

text \<open>
  The PASSWORD-ALGORITHMS list a server advertises contains an algorithm, as seen by
  \<open>password_algorithms_contains\<close>, exactly when the server encoded it.
\<close>

theorem password_algorithms_equivalence:
  assumes "4 * length algorithms < 2 ^ 64"
  shows "password_algorithms_contains (encode_password_algorithms algorithms) selected \<longleftrightarrow> selected \<in> set algorithms"
proof -
  have "length (encode_password_algorithms algorithms) = 4 * length algorithms"
    by (induction algorithms) (simp_all add: encode_password_algorithms_def encode_password_algorithm_def)
  with assms algorithms_loop_encoded [of "[]" algorithms selected] show ?thesis by (simp add: password_algorithms_contains_def)
qed

theorem password_algorithms_equivalence_witness:
  "password_algorithms_contains (encode_password_algorithms [2, 1]) 1 \<and> \<not> password_algorithms_contains (encode_password_algorithms [2]) 1"
  using password_algorithms_equivalence [of "[2, 1]" 1] password_algorithms_equivalence [of "[2]" 1] by simp

text \<open>
  \<open>validate_attribute_ordering\<close> accepts exactly the messages whose credential attributes and
  trailers are unique, whose integrity values have the right size, whose SHA-256 integrity comes
  first and whose FINGERPRINT is last.
\<close>

lemma attribute_ordering_spec:
  "validate_attribute_ordering m = Inr () \<longleftrightarrow>
     (\<forall>k \<in> set credential_kinds. length (filter (\<lambda>a. sa_kind a = k) (semantic_attributes m)) \<le> 1) \<and>
     (\<forall>k \<in> {ATTR_MESSAGE_INTEGRITY_SHA256, ATTR_MESSAGE_INTEGRITY, ATTR_FINGERPRINT}.
        length (filter (\<lambda>a. sa_kind a = k) (sm_attrs m)) \<le> 1) \<and>
     (\<forall>as a bs. sm_attrs m = as @ a # bs \<longrightarrow> well_placed (length (sm_attrs m)) 0 False False as a)"
  by (auto simp: validate_attribute_ordering_def credential_kinds_def result_simps reject_duplicates_iff check_ordering_iff)

text \<open>
  The comment on the function asks for integrity attributes to be terminal apart from FINGERPRINT.  The code does not:
  an attribute after MESSAGE-INTEGRITY is accepted, and then ignored by the handlers.
\<close>

lemma attribute_after_integrity:
  defines "m \<equiv> \<lparr>sm_message_type = 1, sm_transaction_id = replicate 12 0, sm_attrs =
    [\<lparr>sa_kind = ATTR_MESSAGE_INTEGRITY, sa_value = replicate 20 0, sa_offset = 20\<rparr>,
     \<lparr>sa_kind = ATTR_USERNAME, sa_value = [0x75], sa_offset = 44\<rparr>], sm_raw = []\<rparr>"
  shows "validate_attribute_ordering m = Inr ()" "semantic_attributes m = []"
  by (simp_all add: m_def validate_attribute_ordering_def semantic_takeWhile is_integrity_def result_simps)

end
