(* ===== verification/Identity.thy ===== *)
theory Identity
  imports Net
begin

text \<open>
  Network identity (\<open>src/identity.rs\<close>): CIDR blocks, the check that a list of blocks covers a whole
  address family, and the client address resolved from forwarding headers.  A \<open>HeaderMap\<close> is the
  function that gives the first value of a header; \<open>to_str\<close> of the \<open>http\<close> crate is a parameter.  The
  lemmas show that blocks mean sets of addresses, that overlap and coverage are exactly those of the
  sets, and that only a trusted peer can change the client address.
\<close>

unbundle bit_operations_syntax

section \<open>CIDR blocks\<close>

record Cidr =
  cidr_network :: IpAddr
  cidr_prefix :: nat

definition mask_v4 :: "32 word \<Rightarrow> nat \<Rightarrow> 32 word" where
  "mask_v4 ip plen = (if plen = 0 then 0 else ip AND push_bit (32 - plen) (NOT 0))"

definition mask_v6 :: "128 word \<Rightarrow> nat \<Rightarrow> 128 word" where
  "mask_v6 ip plen = (if plen = 0 then 0 else ip AND push_bit (128 - plen) (NOT 0))"

definition cidr_parse :: "string \<Rightarrow> string + Cidr" where
  "cidr_parse raw =
     bindE (case split_once (CHR ''/'') raw of
              Some (ip, plen) \<Rightarrow>
                bindE (option_okE (''invalid CIDR IP address '' @ raw) (parse_ip_addr ip)) (\<lambda>ip.
                bindE (option_okE (''invalid CIDR prefix '' @ raw) (parse_unsigned 256 plen)) (\<lambda>plen.
                Inr (ip, plen)))
            | None \<Rightarrow>
                bindE (option_okE (''invalid IP address '' @ raw) (parse_ip_addr raw)) (\<lambda>ip.
                Inr (ip, case ip of V4 _ \<Rightarrow> 32 | V6 _ \<Rightarrow> 128))) (\<lambda>(ip, plen).
     case ip of
       V4 ip \<Rightarrow> if plen \<le> 32 then Inr \<lparr>cidr_network = V4 (mask_v4 ip plen), cidr_prefix = plen\<rparr>
                else Inl (''IPv4 CIDR prefix must be <= 32 in '' @ raw)
     | V6 ip \<Rightarrow> if plen \<le> 128 then Inr \<lparr>cidr_network = V6 (mask_v6 ip plen), cidr_prefix = plen\<rparr>
                else Inl (''IPv6 CIDR prefix must be <= 128 in '' @ raw))"

definition cidr_contains :: "Cidr \<Rightarrow> IpAddr \<Rightarrow> bool" where
  "cidr_contains c ip =
     (case (cidr_network c, ip) of
        (V4 network, V4 ip) \<Rightarrow> mask_v4 ip (cidr_prefix c) = network
      | (V6 network, V6 ip) \<Rightarrow> mask_v6 ip (cidr_prefix c) = network
      | _ \<Rightarrow> False)"

definition cidr_overlaps :: "Cidr \<Rightarrow> Cidr \<Rightarrow> bool" where
  "cidr_overlaps c d =
     (case (cidr_network c, cidr_network d) of
        (V4 _, V4 network) \<Rightarrow>
          if cidr_prefix c \<le> cidr_prefix d then cidr_contains c (V4 network) else cidr_contains d (cidr_network c)
      | (V6 _, V6 network) \<Rightarrow>
          if cidr_prefix c \<le> cidr_prefix d then cidr_contains c (V6 network) else cidr_contains d (cidr_network c)
      | _ \<Rightarrow> False)"

definition cidr_canonical :: "Cidr \<Rightarrow> string" where
  "cidr_canonical c = ip_string (cidr_network c) @ ''/'' @ dec_string (cidr_prefix c)"

section \<open>Coverage of an address family\<close>

type_synonym u128 = "128 word"

definition cidr_range_v4 :: "32 word \<Rightarrow> nat \<Rightarrow> u128 \<times> u128" where
  "cidr_range_v4 network plen =
     (let start = ucast network;
          host_mask = (if plen = 0 then NOT 0 else if plen = 32 then 0 else drop_bit plen (NOT 0)) :: 32 word
      in (start, start OR ucast host_mask))"

definition cidr_range_v6 :: "128 word \<Rightarrow> nat \<Rightarrow> u128 \<times> u128" where
  "cidr_range_v6 network plen =
     (let start = network;
          host_mask = (if plen = 0 then NOT 0 else if plen = 128 then 0 else drop_bit plen (NOT 0))
      in (start, start OR host_mask))"

fun cidr_ranges :: "Cidr list \<Rightarrow> (u128 \<times> u128) list \<times> (u128 \<times> u128) list" where
  "cidr_ranges [] = ([], [])"
| "cidr_ranges (c # cs) =
     (case cidr_ranges cs of (ipv4_ranges, ipv6_ranges) \<Rightarrow>
        (case cidr_network c of
           V4 network \<Rightarrow> (cidr_range_v4 network (cidr_prefix c) # ipv4_ranges, ipv6_ranges)
         | V6 network \<Rightarrow> (ipv4_ranges, cidr_range_v6 network (cidr_prefix c) # ipv6_ranges)))"

definition u128_saturating_add :: "u128 \<Rightarrow> u128 \<Rightarrow> u128" where
  "u128_saturating_add a b = (if unat a + unat b < 2 ^ 128 then a + b else NOT 0)"

fun ranges_loop :: "u128 \<Rightarrow> u128 option \<Rightarrow> (u128 \<times> u128) list \<Rightarrow> bool" where
  "ranges_loop maximum covered_end [] = False"
| "ranges_loop maximum None ((start, stop) # ranges) =
     (if start \<noteq> 0 then False
      else if stop = maximum then True
      else ranges_loop maximum (Some stop) ranges)"
| "ranges_loop maximum (Some current_end) ((start, stop) # ranges) =
     (if start > u128_saturating_add current_end 1 then False
      else let stop = max current_end stop in
           if stop = maximum then True else ranges_loop maximum (Some stop) ranges)"

text \<open>\<open>sort_unstable_by_key\<close> leaves the order of equal keys open; the stable sort is one such order.\<close>

definition ranges_cover_entire_address_family :: "(u128 \<times> u128) list \<Rightarrow> u128 \<Rightarrow> bool" where
  "ranges_cover_entire_address_family ranges maximum = ranges_loop maximum None (sort_key fst ranges)"

definition cidrs_cover_entire_address_family :: "Cidr list \<Rightarrow> bool" where
  "cidrs_cover_entire_address_family cidrs =
     (case cidr_ranges cidrs of (ipv4_ranges, ipv6_ranges) \<Rightarrow>
        ranges_cover_entire_address_family ipv4_ranges (ucast (NOT 0 :: 32 word)) \<or>
        ranges_cover_entire_address_family ipv6_ranges (NOT 0))"

section \<open>Trusted proxies and the client address\<close>

fun trusted_parse :: "string list \<Rightarrow> string + Cidr list" where
  "trusted_parse [] = Inr []"
| "trusted_parse (v # vs) = bindE (cidr_parse v) (\<lambda>c. bindE (trusted_parse vs) (\<lambda>cs. Inr (c # cs)))"

definition trusted_contains :: "Cidr list \<Rightarrow> IpAddr \<Rightarrow> bool" where
  "trusted_contains cidrs ip = list_ex (\<lambda>c. cidr_contains c ip) cidrs"

datatype RealIpHeader = XForwardedFor | XRealIp | Forwarded | CfConnectingIp

fun header_name :: "RealIpHeader \<Rightarrow> string" where
  "header_name XForwardedFor = ''x-forwarded-for''"
| "header_name XRealIp = ''x-real-ip''"
| "header_name Forwarded = ''forwarded''"
| "header_name CfConnectingIp = ''cf-connecting-ip''"

record RealIpConfig =
  ri_enabled :: bool
  ri_trusted_proxies :: "string list"
  ri_header :: RealIpHeader
  ri_recursive :: bool
  ri_fail_on_untrusted :: bool

definition parse_ip_token :: "string \<Rightarrow> IpAddr option" where
  "parse_ip_token raw =
     (let token = str_trim_matches (\<lambda>c. c = 34) (str_trim raw) in
      if token = [] \<or> eq_ignore_ascii_case token ''unknown'' then None else
      case parse_ip_addr token of
        Some ip \<Rightarrow> Some ip
      | None \<Rightarrow>
          if prefix ''['' token then
            (case position (\<lambda>c. c = CHR '']'') token of
               None \<Rightarrow> None | Some i \<Rightarrow> parse_ip_addr (slice 1 i token))
          else
            (case str_rsplit_once (CHR '':'') token of
               Some (host, port) \<Rightarrow>
                 if CHR '':'' \<notin> set host \<and> list_all is_ascii_digit port then parse_ip_addr host else None
             | None \<Rightarrow> None))"

definition parse_csv_ips :: "string \<Rightarrow> IpAddr list" where
  "parse_csv_ips raw = List.map_filter parse_ip_token (str_split (CHR '','') raw)"

definition parse_forwarded_part :: "string \<Rightarrow> IpAddr option" where
  "parse_forwarded_part part =
     (case split_once (CHR ''='') (str_trim part) of
        None \<Rightarrow> None
      | Some (name, val) \<Rightarrow>
          if \<not> eq_ignore_ascii_case (str_trim name) ''for'' then None
          else parse_ip_token (str_trim_matches (\<lambda>c. c = 34) (str_trim val)))"

definition parse_forwarded_for_ips :: "string \<Rightarrow> IpAddr list" where
  "parse_forwarded_for_ips raw =
     List.map_filter parse_forwarded_part (concat (map (str_split (CHR '';'')) (str_split (CHR '','') raw)))"

definition has_real_ip_header :: "(string \<Rightarrow> 'v option) \<Rightarrow> RealIpHeader \<Rightarrow> bool" where
  "has_real_ip_header headers header \<longleftrightarrow> headers (header_name header) \<noteq> None"

definition header_candidate_ips :: "('v \<Rightarrow> string option) \<Rightarrow> (string \<Rightarrow> 'v option) \<Rightarrow> RealIpHeader \<Rightarrow> IpAddr list" where
  "header_candidate_ips to_str headers header =
     (case Option.bind (headers (header_name header)) to_str of
        None \<Rightarrow> []
      | Some v \<Rightarrow>
          (case header of
             XForwardedFor \<Rightarrow> parse_csv_ips v
           | XRealIp \<Rightarrow> (case parse_ip_token v of Some ip \<Rightarrow> [ip] | None \<Rightarrow> [])
           | CfConnectingIp \<Rightarrow> (case parse_ip_token v of Some ip \<Rightarrow> [ip] | None \<Rightarrow> [])
           | Forwarded \<Rightarrow> parse_forwarded_for_ips v))"

definition resolve_client_addr ::
  "('v \<Rightarrow> string option) \<Rightarrow> (string \<Rightarrow> 'v option) \<Rightarrow> SocketAddr \<Rightarrow> RealIpConfig \<Rightarrow> string + SocketAddr" where
  "resolve_client_addr to_str headers peer_addr config =
     (if \<not> ri_enabled config then Inr peer_addr else
      bindE (trusted_parse (ri_trusted_proxies config)) (\<lambda>trusted.
      let has_forwarded = has_real_ip_header headers (ri_header config) in
      if \<not> trusted_contains trusted (sock_ip peer_addr) then
        if ri_fail_on_untrusted config \<and> has_forwarded
        then Inl ''untrusted peer sent forwarded client IP metadata'' else Inr peer_addr
      else
        let candidates = header_candidate_ips to_str headers (ri_header config) in
        if candidates = [] then Inr peer_addr else
        let selected =
          (if ri_recursive config then
             (case find (\<lambda>ip. \<not> trusted_contains trusted ip) (rev candidates) of
                Some ip \<Rightarrow> Some ip | None \<Rightarrow> Some (hd candidates))
           else Some (hd candidates)) in
        Inr (case selected of
               Some ip \<Rightarrow> \<lparr>sock_ip = ip, sock_port = sock_port peer_addr\<rparr> | None \<Rightarrow> peer_addr)))"

section \<open>Masks of either family\<close>

text \<open>
  What the two mask functions have in common: they clear the host bits.  The facts about blocks are
  proved once from this law.
\<close>

locale address_mask =
  fixes mask :: "'a::len word \<Rightarrow> nat \<Rightarrow> 'a word"
  assumes mask_bits: "p \<le> LENGTH('a) \<Longrightarrow> mask w p = push_bit (LENGTH('a) - p) (drop_bit (LENGTH('a) - p) w)"
begin

lemma mask_mask: "p \<le> q \<Longrightarrow> q \<le> LENGTH('a) \<Longrightarrow> mask (mask w q) p = mask w p"
  by (rule bit_eqI) (auto simp: mask_bits bit_simps)

lemma unat_mask:
  assumes "p \<le> LENGTH('a)"
  shows "unat (mask w p) = unat w div 2 ^ (LENGTH('a) - p) * 2 ^ (LENGTH('a) - p)"
proof -
  let ?k = "LENGTH('a) - p"
  have d: "unat (drop_bit ?k w) = unat w div 2 ^ ?k" 
    by (simp only: unsigned_drop_bit_eq) (simp add: take_bit_nat_eq_self unsigned_less drop_bit_eq_div)
  have "unat w div 2 ^ ?k * 2 ^ ?k \<le> unat w" by simp
  also have "unat w < 2 ^ LENGTH('a)" by (rule unsigned_less)
  finally have "take_bit LENGTH('a) (push_bit ?k (unat w div 2 ^ ?k)) = unat w div 2 ^ ?k * 2 ^ ?k"
    by (simp add: push_bit_eq_mult take_bit_nat_eq_self)
  then show ?thesis using assms d by (simp add: mask_bits unsigned_push_bit_eq)
qed

lemma mask_interval:
  assumes "p \<le> LENGTH('a)" "mask n p = n"
  shows "mask w p = n \<longleftrightarrow> unat n \<le> unat w \<and> unat w \<le> unat n + (2 ^ (LENGTH('a) - p) - 1)"
proof -
  let ?d = "2 ^ (LENGTH('a) - p) :: nat"
  have n: "unat n div ?d * ?d = unat n" using unat_mask [OF assms(1), of n] assms(2) by simp
  have "mask w p = n \<longleftrightarrow> unat w div ?d * ?d = unat n"
    using unat_mask [OF assms(1), of w] by (simp add: word_unat_eq_iff)
  also have "\<dots> \<longleftrightarrow> unat n \<le> unat w \<and> unat w \<le> unat n + (?d - 1)"
  proof
    assume "unat w div ?d * ?d = unat n"
    moreover have "unat w mod ?d < ?d" by simp
    ultimately show "unat n \<le> unat w \<and> unat w \<le> unat n + (?d - 1)" using div_mult_mod_eq [of "unat w" ?d] by linarith
  next
    assume "unat n \<le> unat w \<and> unat w \<le> unat n + (?d - 1)"
    moreover have "0 < ?d" by simp
    ultimately have "unat w = unat n div ?d * ?d + (unat w - unat n)" "unat w - unat n < ?d" using n by linarith+
    then have "unat w div ?d = unat n div ?d" by (metis \<open>0 < ?d\<close> div_mult_self3 div_less add_0_right less_numeral_extra(3) add.commute)
    with n show "unat w div ?d * ?d = unat n" by simp
  qed
  finally show ?thesis .
qed

lemma mask_common:
  assumes "p \<le> q" "q \<le> LENGTH('a)" "mask m q = m"
  shows "mask m p = n \<longleftrightarrow> (\<exists>w. mask w p = n \<and> mask w q = m)"
  using mask_mask [OF assms(1,2)] assms(3) by metis

end

lemma mask_not_zero: "(w :: 'a::len word) AND push_bit k (NOT 0) = push_bit k (drop_bit k w)"
  by (rule bit_eqI) (auto simp: bit_simps)

interpretation v4: address_mask mask_v4
proof
  show "mask_v4 w p = push_bit (LENGTH(32) - p) (drop_bit (LENGTH(32) - p) w)" if "p \<le> LENGTH(32)" for p w
    by (cases "p = 0") (auto simp: mask_v4_def mask_not_zero bit_simps intro!: bit_eqI)
qed

interpretation v6: address_mask mask_v6
proof
  show "mask_v6 w p = push_bit (LENGTH(128) - p) (drop_bit (LENGTH(128) - p) w)" if "p \<le> LENGTH(128)" for p w
    by (cases "p = 0") (auto simp: mask_v6_def mask_not_zero bit_simps intro!: bit_eqI)
qed

section \<open>Blocks as sets of addresses\<close>

text \<open>The invariant of a block: the prefix fits the family and the network has no host bits.\<close>

definition cidr_wf :: "Cidr \<Rightarrow> bool" where
  "cidr_wf c \<longleftrightarrow>
     (case cidr_network c of
        V4 n \<Rightarrow> cidr_prefix c \<le> 32 \<and> mask_v4 n (cidr_prefix c) = n
      | V6 n \<Rightarrow> cidr_prefix c \<le> 128 \<and> mask_v6 n (cidr_prefix c) = n)"

lemma cidr_parse_wf:
  assumes "cidr_parse raw = Inr c"
  shows "cidr_wf c"
proof -
  from assms obtain ip p where
    "(case ip of
        V4 ip \<Rightarrow> if p \<le> 32 then Inr \<lparr>cidr_network = V4 (mask_v4 ip p), cidr_prefix = p\<rparr> else Inl (''IPv4 CIDR prefix must be <= 32 in '' @ raw)
      | V6 ip \<Rightarrow> if p \<le> 128 then Inr \<lparr>cidr_network = V6 (mask_v6 ip p), cidr_prefix = p\<rparr> else Inl (''IPv6 CIDR prefix must be <= 128 in '' @ raw)) = Inr c"
    unfolding cidr_parse_def bindE_eq_Inr by (auto simp: split_paired_all)
  then show ?thesis by (cases ip) (auto simp: cidr_wf_def v4.mask_mask v6.mask_mask split: if_splits)
qed

lemma trusted_parse_wf: "trusted_parse vs = Inr cs \<Longrightarrow> list_all cidr_wf cs"
  by (induction vs arbitrary: cs) (auto simp: result_simps dest: cidr_parse_wf)

lemma ex_ip: "(\<exists>ip. P ip) \<longleftrightarrow> (\<exists>w. P (V4 w)) \<or> (\<exists>w. P (V6 w))"
  by (metis IpAddr.exhaust)

lemma cidr_overlaps_iff:
  assumes "cidr_wf c" "cidr_wf d"
  shows "cidr_overlaps c d \<longleftrightarrow> (\<exists>ip. cidr_contains c ip \<and> cidr_contains d ip)"
proof (cases "cidr_network c"; cases "cidr_network d")
  fix m n assume c: "cidr_network c = V4 m" and d: "cidr_network d = V4 n"
  have ex: "(\<exists>ip. cidr_contains c ip \<and> cidr_contains d ip) \<longleftrightarrow> (\<exists>w. mask_v4 w (cidr_prefix c) = m \<and> mask_v4 w (cidr_prefix d) = n)"
    using c d by (auto simp: cidr_contains_def ex_ip)
  show ?thesis
    using assms c d ex v4.mask_common [of "cidr_prefix c" "cidr_prefix d" n m] v4.mask_common [of "cidr_prefix d" "cidr_prefix c" m n]
    by (auto simp: cidr_overlaps_def cidr_contains_def cidr_wf_def)
next
  fix m n assume c: "cidr_network c = V6 m" and d: "cidr_network d = V6 n"
  have ex: "(\<exists>ip. cidr_contains c ip \<and> cidr_contains d ip) \<longleftrightarrow> (\<exists>w. mask_v6 w (cidr_prefix c) = m \<and> mask_v6 w (cidr_prefix d) = n)"
    using c d by (auto simp: cidr_contains_def ex_ip)
  show ?thesis
    using assms c d ex v6.mask_common [of "cidr_prefix c" "cidr_prefix d" n m] v6.mask_common [of "cidr_prefix d" "cidr_prefix c" m n]
    by (auto simp: cidr_overlaps_def cidr_contains_def cidr_wf_def)
qed (simp_all add: cidr_overlaps_def cidr_contains_def ex_ip)

section \<open>Coverage\<close>

definition in_range :: "nat \<Rightarrow> u128 \<times> u128 \<Rightarrow> bool" where
  "in_range x r \<longleftrightarrow> unat (fst r) \<le> x \<and> x \<le> unat (snd r)"

lemma unat_succ: "c < (m :: u128) \<Longrightarrow> unat (u128_saturating_add c 1) = unat c + 1"
proof -
  assume "c < m"
  then have "unat c + 1 < 2 ^ 128" using unsigned_less [of m, where ?'a = nat] by (simp add: word_less_nat_alt)
  then show ?thesis by (simp add: u128_saturating_add_def unat_word_ariths)
qed

lemma ranges_loop_Some:
  assumes "sorted (map fst rs)" "\<forall>r \<in> set rs. snd r \<le> m" "c < m"
  shows "ranges_loop m (Some c) rs \<longleftrightarrow> (\<forall>x. unat c < x \<and> x \<le> unat m \<longrightarrow> (\<exists>r \<in> set rs. in_range x r))"
  using assms
proof (induction rs arbitrary: c)
  case Nil
  then show ?case by (auto simp: word_less_nat_alt)
next
  case (Cons r rs)
  obtain a b where r: "r = (a, b)" by (cases r)
  have ge: "\<forall>r \<in> set rs. unat a \<le> unat (fst r)" using Cons.prems(1) r by (auto simp: word_le_nat_alt)
  have m: "unat c < unat m" "unat b \<le> unat m" using Cons.prems(2,3) r by (simp_all add: word_less_nat_alt word_le_nat_alt)
  show ?case
  proof (cases "a > u128_saturating_add c 1")
    case True
    then have "unat c + 1 < unat a" using unat_succ [OF Cons.prems(3)] by (simp add: word_less_nat_alt)
    then have "\<not> (\<exists>r' \<in> set (r # rs). in_range (unat c + 1) r')" using ge r by (auto simp: in_range_def)
    moreover have "unat c < unat c + 1 \<and> unat c + 1 \<le> unat m" using m by simp
    ultimately have "\<not> (\<forall>x. unat c < x \<and> x \<le> unat m \<longrightarrow> (\<exists>r' \<in> set (r # rs). in_range x r'))" by blast
    moreover have "\<not> ranges_loop m (Some c) (r # rs)" using True r by simp
    ultimately show ?thesis by blast
  next
    case False
    then have a: "unat a \<le> unat c + 1" using unat_succ [OF Cons.prems(3)] by (simp add: word_less_nat_alt)
    let ?e = "max c b"
    have e: "unat ?e = max (unat c) (unat b)" by (simp add: max_def word_le_nat_alt)
    show ?thesis
    proof (cases "?e = m")
      case True
      then have "unat b = unat m" using e m by (auto simp: max_def split: if_splits)
      with a r have "\<forall>x. unat c < x \<and> x \<le> unat m \<longrightarrow> in_range x r" by (auto simp: in_range_def)
      moreover have "ranges_loop m (Some c) (r # rs)" using False True r by (simp add: Let_def)
      ultimately show ?thesis by auto
    next
      case ne: False
      have "unat ?e \<le> unat m" using m e by simp
      with ne have "?e < m" by (simp add: word_le_nat_alt [symmetric] order.strict_iff_order)
      with Cons.prems(1,2) have IH: "ranges_loop m (Some ?e) rs \<longleftrightarrow> (\<forall>x. unat ?e < x \<and> x \<le> unat m \<longrightarrow> (\<exists>r' \<in> set rs. in_range x r'))"
        by (intro Cons.IH) simp_all
      have "ranges_loop m (Some c) (r # rs) = ranges_loop m (Some ?e) rs" using False ne r by (simp add: Let_def)
      moreover have "(\<forall>x. unat c < x \<and> x \<le> unat m \<longrightarrow> (\<exists>r' \<in> set (r # rs). in_range x r')) \<longleftrightarrow>
          (\<forall>x. unat ?e < x \<and> x \<le> unat m \<longrightarrow> (\<exists>r' \<in> set rs. in_range x r'))"
      proof (intro iffI allI impI)
        fix x assume all: "\<forall>x. unat c < x \<and> x \<le> unat m \<longrightarrow> (\<exists>r' \<in> set (r # rs). in_range x r')" and x: "unat ?e < x \<and> x \<le> unat m"
        then have "unat c < x \<and> x \<le> unat m" using e by linarith
        with all obtain r' where "r' \<in> set (r # rs)" "in_range x r'" by blast
        moreover have "\<not> in_range x r" using x e r by (simp add: in_range_def)
        ultimately show "\<exists>r' \<in> set rs. in_range x r'" by auto
      next
        fix x assume all: "\<forall>x. unat ?e < x \<and> x \<le> unat m \<longrightarrow> (\<exists>r' \<in> set rs. in_range x r')" and x: "unat c < x \<and> x \<le> unat m"
        show "\<exists>r' \<in> set (r # rs). in_range x r'"
        proof (cases "unat ?e < x")
          case True
          with all x show ?thesis by auto
        next
          case False
          then have "in_range x r" using x e a r by (auto simp: in_range_def)
          then show ?thesis by simp
        qed
      qed
      ultimately show ?thesis using IH by blast
    qed
  qed
qed

lemma ranges_loop_None:
  assumes "sorted (map fst rs)" "\<forall>r \<in> set rs. snd r \<le> m"
  shows "ranges_loop m None rs \<longleftrightarrow> (\<forall>x \<le> unat m. \<exists>r \<in> set rs. in_range x r)"
proof (cases rs)
  case (Cons r rest)
  obtain a b where r: "r = (a, b)" by (cases r)
  show ?thesis
  proof (cases "a = 0")
    case False
    then have "0 < unat a" by (simp add: unat_gt_0)
    moreover have "\<forall>r' \<in> set rs. unat a \<le> unat (fst r')" using assms(1) Cons r by (auto simp: word_le_nat_alt)
    ultimately have "\<not> (\<exists>r' \<in> set rs. in_range 0 r')" by (auto simp: in_range_def)
    moreover have "\<not> ranges_loop m None rs" using False Cons r by simp
    ultimately show ?thesis by blast
  next
    case True
    have b: "b \<le> m" using assms(2) Cons r by simp
    show ?thesis
    proof (cases "b = m")
      case eq: True
      have "in_range x r" if "x \<le> unat m" for x using that r True eq by (simp add: in_range_def)
      with True eq Cons r show ?thesis by auto
    next
      case False
      with b have "b < m" by (simp add: order.strict_iff_order)
      with assms Cons have "ranges_loop m (Some b) rest \<longleftrightarrow> (\<forall>x. unat b < x \<and> x \<le> unat m \<longrightarrow> (\<exists>r' \<in> set rest. in_range x r'))"
        by (intro ranges_loop_Some) auto
      moreover have "ranges_loop m None rs = ranges_loop m (Some b) rest" using True False Cons r by simp
      moreover have "in_range x r \<longleftrightarrow> x \<le> unat b" for x using r True by (simp add: in_range_def)
      ultimately show ?thesis unfolding Cons by (auto simp: not_le)
    qed
  qed
qed auto

lemma ranges_cover_iff:
  assumes "\<forall>r \<in> set ranges. snd r \<le> m"
  shows "ranges_cover_entire_address_family ranges m \<longleftrightarrow> (\<forall>x \<le> unat m. \<exists>r \<in> set ranges. in_range x r)"
  using ranges_loop_None [of "sort_key fst ranges" m] assms by (simp add: ranges_cover_entire_address_family_def)

text \<open>The range of a block holds exactly its addresses.\<close>

lemma host_mask_nat: "unat (drop_bit p (NOT 0 :: 'a::len word)) = 2 ^ (LENGTH('a) - p) - 1"
proof -
  have "unat (drop_bit p (- 1 :: 'a word)) = mask (LENGTH('a) - p)"
    by (simp only: unsigned_drop_bit_eq unsigned_minus_1_eq_mask take_bit_of_mask drop_bit_mask_eq min.idem)
  then show ?thesis by (simp add: mask_eq_exp_minus_1)
qed

lemma or_host_mask:
  assumes "unat n div 2 ^ k * 2 ^ k = unat (n :: 'a::len word)" "unat h = 2 ^ k - 1"
  shows "unat (n OR h) = unat n + (2 ^ k - 1)"
proof -
  have "unat h < 2 ^ k" using assms(2) by simp
  from or_disjoint_nat [OF this, of "unat n div 2 ^ k"] show ?thesis
    using assms by (simp add: unsigned_or_eq push_bit_eq_mult)
qed

lemma cidr_range_v4:
  assumes "p \<le> 32" "mask_v4 n p = n"
  shows "in_range x (cidr_range_v4 n p) \<longleftrightarrow> unat n \<le> x \<and> x \<le> unat n + (2 ^ (32 - p) - 1)"
    "snd (cidr_range_v4 n p) \<le> ucast (NOT 0 :: 32 word)"
proof -
  have n: "unat n div 2 ^ (32 - p) * 2 ^ (32 - p) = unat n" using v4.unat_mask [of p n] assms by simp
  define h :: "32 word" where "h = drop_bit p (NOT 0)"
  have h: "unat h = 2 ^ (32 - p) - 1" using host_mask_nat [where 'a = 32, of p] by (simp add: h_def)
  have "(if p = 0 then NOT 0 else if p = 32 then 0 else drop_bit p (NOT 0)) = h" by (auto simp: h_def mask_eq_exp_minus_1)
  then have r: "cidr_range_v4 n p = (ucast n, ucast (n OR h))" unfolding cidr_range_v4_def by (simp only: Let_def unsigned_or_eq)
  have u: "unat (ucast w :: u128) = unat (w :: 32 word)" for w
    by (simp add: unsigned_ucast_eq take_bit_nat_eq_self unsigned_less less_trans [OF unsigned_less])
  show "in_range x (cidr_range_v4 n p) \<longleftrightarrow> unat n \<le> x \<and> x \<le> unat n + (2 ^ (32 - p) - 1)"
    using or_host_mask [OF n h] by (simp only: in_range_def r fst_conv snd_conv u)
  show "snd (cidr_range_v4 n p) \<le> ucast (NOT 0 :: 32 word)"
    by (simp only: r snd_conv word_le_nat_alt u) (simp add: word_le_nat_alt [symmetric])
qed

lemma cidr_range_v6:
  assumes "p \<le> 128" "mask_v6 n p = n"
  shows "in_range x (cidr_range_v6 n p) \<longleftrightarrow> unat n \<le> x \<and> x \<le> unat n + (2 ^ (128 - p) - 1)"
proof -
  have n: "unat n div 2 ^ (128 - p) * 2 ^ (128 - p) = unat n" using v6.unat_mask [of p n] assms by simp
  define h :: u128 where "h = drop_bit p (NOT 0)"
  have h: "unat h = 2 ^ (128 - p) - 1" using host_mask_nat [where 'a = 128, of p] by (simp add: h_def)
  have "(if p = 0 then NOT 0 else if p = 128 then 0 else drop_bit p (NOT 0)) = h" by (auto simp: h_def mask_eq_exp_minus_1)
  then have r: "cidr_range_v6 n p = (n, n OR h)" unfolding cidr_range_v6_def by (simp only: Let_def unsigned_or_eq)
  show ?thesis using or_host_mask [OF n h] by (simp only: in_range_def r fst_conv snd_conv)
qed

lemma cidr_ranges_members:
  "r \<in> set (fst (cidr_ranges cs)) \<longleftrightarrow> (\<exists>c \<in> set cs. \<exists>n. cidr_network c = V4 n \<and> r = cidr_range_v4 n (cidr_prefix c))"
  "r \<in> set (snd (cidr_ranges cs)) \<longleftrightarrow> (\<exists>c \<in> set cs. \<exists>n. cidr_network c = V6 n \<and> r = cidr_range_v6 n (cidr_prefix c))"
  by (induction cs) (simp_all add: case_prod_unfold split: IpAddr.split)

lemma contains_v4_range:
  assumes "list_all cidr_wf cs"
  shows "(\<exists>c \<in> set cs. cidr_contains c (V4 ip)) \<longleftrightarrow> (\<exists>r \<in> set (fst (cidr_ranges cs)). in_range (unat ip) r)"
proof -
  have "cidr_contains c (V4 ip) \<longleftrightarrow> (\<exists>n. cidr_network c = V4 n \<and> in_range (unat ip) (cidr_range_v4 n (cidr_prefix c)))"
    if "c \<in> set cs" for c
  proof (cases "cidr_network c")
    case (V4 n)
    with that assms have wf: "cidr_prefix c \<le> 32" "mask_v4 n (cidr_prefix c) = n" by (auto simp: cidr_wf_def list_all_iff)
    show ?thesis using v4.mask_interval [of "cidr_prefix c" n ip] cidr_range_v4(1) [OF wf, of "unat ip"] wf V4 by (simp add: cidr_contains_def)
  qed (simp add: cidr_contains_def)
  then show ?thesis unfolding Bex_def cidr_ranges_members by blast
qed

lemma contains_v6_range:
  assumes "list_all cidr_wf cs"
  shows "(\<exists>c \<in> set cs. cidr_contains c (V6 ip)) \<longleftrightarrow> (\<exists>r \<in> set (snd (cidr_ranges cs)). in_range (unat ip) r)"
proof -
  have "cidr_contains c (V6 ip) \<longleftrightarrow> (\<exists>n. cidr_network c = V6 n \<and> in_range (unat ip) (cidr_range_v6 n (cidr_prefix c)))"
    if "c \<in> set cs" for c
  proof (cases "cidr_network c")
    case (V6 n)
    with that assms have wf: "cidr_prefix c \<le> 128" "mask_v6 n (cidr_prefix c) = n" by (auto simp: cidr_wf_def list_all_iff)
    show ?thesis using v6.mask_interval [of "cidr_prefix c" n ip] cidr_range_v6 [OF wf, of "unat ip"] wf V6 by (simp add: cidr_contains_def)
  qed (simp add: cidr_contains_def)
  then show ?thesis unfolding Bex_def cidr_ranges_members by blast
qed

lemma all_words: "(\<forall>x \<le> 2 ^ LENGTH('a) - 1. P x) \<longleftrightarrow> (\<forall>w :: 'a::len word. P (unat w))"
proof
  assume all: "\<forall>x \<le> 2 ^ LENGTH('a) - 1. P x"
  show "\<forall>w :: 'a word. P (unat w)"
  proof
    fix w :: "'a word"
    have "unat w < 2 ^ LENGTH('a)" by (rule unsigned_less)
    then have "unat w \<le> 2 ^ LENGTH('a) - 1" by linarith
    with all show "P (unat w)" by blast
  qed
next
  assume all: "\<forall>w :: 'a word. P (unat w)"
  show "\<forall>x \<le> 2 ^ LENGTH('a) - 1. P x"
  proof (intro allI impI)
    fix x :: nat assume "x \<le> 2 ^ LENGTH('a) - 1"
    then have "x < 2 ^ LENGTH('a)" by (metis One_nat_def Suc_pred less_Suc_eq_le zero_less_numeral zero_less_power)
    then have "unat (of_nat x :: 'a word) = x" by (simp add: unat_of_nat)
    with all show "P x" by metis
  qed
qed

lemma cover_iff:
  assumes wf: "list_all cidr_wf cs"
  shows "cidrs_cover_entire_address_family cs \<longleftrightarrow>
    (\<forall>ip. \<exists>c \<in> set cs. cidr_contains c (V4 ip)) \<or> (\<forall>ip. \<exists>c \<in> set cs. cidr_contains c (V6 ip))"
proof -
  obtain r4 r6 where r: "cidr_ranges cs = (r4, r6)" by (cases "cidr_ranges cs")
  have le: "\<forall>r \<in> set r4. snd r \<le> ucast (NOT 0 :: 32 word)"
  proof
    fix r assume "r \<in> set r4"
    then obtain c n where "c \<in> set cs" "cidr_network c = V4 n" "r = cidr_range_v4 n (cidr_prefix c)"
      using cidr_ranges_members(1) [of r cs] r by auto
    with wf show "snd r \<le> ucast (NOT 0 :: 32 word)"
      using cidr_range_v4(2) [of "cidr_prefix c" n] by (auto simp: cidr_wf_def list_all_iff)
  qed
  have le6: "\<forall>r \<in> set r6. snd r \<le> NOT 0" by simp
  have m4: "unat (ucast (NOT 0 :: 32 word) :: u128) = 2 ^ LENGTH(32) - 1"
    using unsigned_minus_1_eq_mask [where 'a = nat and 'b = 32] by (simp add: unsigned_ucast_eq mask_eq_exp_minus_1)
  have m6: "unat (NOT 0 :: u128) = 2 ^ LENGTH(128) - 1"
    using unsigned_minus_1_eq_mask [where 'a = nat and 'b = 128] by (simp add: mask_eq_exp_minus_1)
  have "ranges_cover_entire_address_family r4 (ucast (NOT 0 :: 32 word)) \<longleftrightarrow> (\<forall>ip :: 32 word. \<exists>r \<in> set r4. in_range (unat ip) r)"
    unfolding ranges_cover_iff [OF le] m4 by (rule all_words)
  moreover have "ranges_cover_entire_address_family r6 (NOT 0) \<longleftrightarrow> (\<forall>ip :: 128 word. \<exists>r \<in> set r6. in_range (unat ip) r)"
    unfolding ranges_cover_iff [OF le6] m6 by (rule all_words)
  ultimately show ?thesis
    using contains_v4_range [OF wf] contains_v6_range [OF wf] r by (simp add: cidrs_cover_entire_address_family_def)
qed

section \<open>Selecting the client address\<close>

lemma find_SomeD:
  assumes "find P xs = Some x"
  shows "\<exists>us vs. xs = us @ x # vs \<and> P x \<and> (\<forall>u \<in> set us. \<not> P u)"
  using assms
proof (induction xs)
  case (Cons a xs)
  show ?case
  proof (cases "P a")
    case True
    with Cons.prems show ?thesis by (intro exI [of _ "[]"] exI [of _ xs]) simp
  next
    case False
    with Cons obtain us vs where "xs = us @ x # vs" "P x" "\<forall>u \<in> set us. \<not> P u" by auto
    with False show ?thesis by (intro exI [of _ "a # us"] exI [of _ vs]) simp
  qed
qed simp

lemma find_append: "find P (xs @ ys) = (case find P xs of Some x \<Rightarrow> Some x | None \<Rightarrow> find P ys)"
  by (induction xs) auto

lemma str_split_sep: "str_split c (xs @ c # ys) = str_split c xs @ str_split c ys"
proof (induction xs)
  case (Cons a xs)
  have "str_split c xs \<noteq> []" by (induction xs) (auto split: list.splits)
  with Cons show ?case by (auto split: list.splits)
qed simp

lemma map_filter_append: "List.map_filter f (xs @ ys) = List.map_filter f xs @ List.map_filter f ys"
  by (induction xs) (auto split: option.splits)

lemma parse_ip_token_ipv4: "parse_ip_token (ipv4_string ip) = Some (V4 ip)"
proof -
  have ascii: "is_ascii (ipv4_string ip)" 
    unfolding is_ascii_def list_all_iff using ipv4_string_chars by (fastforce simp: is_ascii_digit_def)
  have nw: "\<forall>c \<in> set (ipv4_string ip). \<not> char_is_whitespace (of_char c) \<and> (of_char c :: nat) \<noteq> 34"
    using ipv4_string_chars by (fastforce simp: is_ascii_digit_def char_is_whitespace_def)
  have lower: "ascii_lower c = c" if "c \<in> set (ipv4_string ip)" for c
    using ipv4_string_chars [OF that] by (auto simp: ascii_lower_def is_ascii_digit_def)
  have ne: "\<not> eq_ignore_ascii_case (ipv4_string ip) ''unknown''"
  proof
    assume "eq_ignore_ascii_case (ipv4_string ip) ''unknown''"
    then have eq: "map ascii_lower (ipv4_string ip) = map ascii_lower ''unknown''" by (simp only: eq_ignore_ascii_case_def)
    have "ascii_lower (CHR ''u'') \<in> set (map ascii_lower ''unknown'')" by simp
    then have "ascii_lower (CHR ''u'') \<in> ascii_lower ` set (ipv4_string ip)" unfolding eq [symmetric] set_map .
    then have "CHR ''u'' \<in> ascii_lower ` set (ipv4_string ip)" by (simp add: ascii_lower_def [of "CHR ''u''"])
    then have "CHR ''u'' \<in> set (ipv4_string ip)" using lower by auto
    then show False using ipv4_string_chars by (fastforce simp: is_ascii_digit_def)
  qed
  have "ipv4_string ip \<noteq> []" by (simp add: ipv4_string_def ipv4_octets_def be_bytes_4)
  with ne show ?thesis using parse_ipv4_string [of ip]
    by (simp add: parse_ip_token_def str_trim_def str_trim_matches_plain [OF ascii] nw)
qed

text \<open>
  C35.  Two parsed blocks overlap, by the prefix comparison of \<open>Cidr::overlaps\<close>, exactly when some
  address lies in both: the shortcut of testing one network address against the shorter prefix is exact
  in both address families and across them.
\<close>

theorem cidr_overlaps_exact:
  assumes "cidr_parse a = Inr c" "cidr_parse b = Inr d"
  shows "cidr_overlaps c d \<longleftrightarrow> (\<exists>ip. cidr_contains c ip \<and> cidr_contains d ip)"
  using assms by (intro cidr_overlaps_iff cidr_parse_wf)

text \<open>
  C34.  The sweep over sorted ranges answers exactly the question it is asked for: a list of trusted
  blocks is reported as covering a whole address family if and only if every IPv4 address, or every
  IPv6 address, is trusted.
\<close>

theorem cover_exact:
  assumes "trusted_parse vs = Inr cs"
  shows "cidrs_cover_entire_address_family cs \<longleftrightarrow>
    (\<forall>ip. trusted_contains cs (V4 ip)) \<or> (\<forall>ip. trusted_contains cs (V6 ip))"
  using cover_iff [OF trusted_parse_wf [OF assms]] by (simp add: trusted_contains_def list_ex_iff)

text \<open>
  C32.  Where the client address comes from.  The port is always the peer's.  An address other than the
  peer's is only taken when the policy is enabled and the peer is a trusted proxy, and then it is named
  by the configured header: without \<open>recursive\<close> it is the first candidate; with \<open>recursive\<close> it is an
  untrusted candidate with only trusted ones to its right, or the first one when all are trusted.
\<close>

theorem client_address_provenance:
  assumes "resolve_client_addr to_str headers peer config = Inr addr"
  shows "sock_port addr = sock_port peer \<and>
    (addr = peer \<or>
     ri_enabled config \<and>
      (\<exists>trusted first rest. trusted_parse (ri_trusted_proxies config) = Inr trusted \<and>
        trusted_contains trusted (sock_ip peer) \<and>
        header_candidate_ips to_str headers (ri_header config) = first # rest \<and>
        (if ri_recursive config
         then (\<exists>us vs. first # rest = us @ sock_ip addr # vs \<and> \<not> trusted_contains trusted (sock_ip addr) \<and>
                 list_all (trusted_contains trusted) vs) \<or>
              list_all (trusted_contains trusted) (first # rest) \<and> sock_ip addr = first
         else sock_ip addr = first)))"
proof (cases "ri_enabled config")
  case True
  from assms True obtain trusted where t: "trusted_parse (ri_trusted_proxies config) = Inr trusted"
    by (auto simp: resolve_client_addr_def bindE_eq_Inr)
  show ?thesis
  proof (cases "trusted_contains trusted (sock_ip peer) \<and> header_candidate_ips to_str headers (ri_header config) \<noteq> []")
    case peer: True
    then obtain first rest where c: "header_candidate_ips to_str headers (ri_header config) = first # rest" by (meson neq_Nil_conv)
    let ?sel = "if ri_recursive config then
       (case find (\<lambda>ip. \<not> trusted_contains trusted ip) (rev (first # rest)) of Some ip \<Rightarrow> ip | None \<Rightarrow> first) else first"
    have addr: "addr = \<lparr>sock_ip = ?sel, sock_port = sock_port peer\<rparr>"
      using assms True t peer c by (auto simp: resolve_client_addr_def result_simps Let_def split: option.splits if_splits)
    have "(\<exists>us vs. first # rest = us @ ?sel # vs \<and> \<not> trusted_contains trusted ?sel \<and> list_all (trusted_contains trusted) vs) \<or>
        list_all (trusted_contains trusted) (first # rest) \<and> ?sel = first" if "ri_recursive config"
    proof (cases "find (\<lambda>ip. \<not> trusted_contains trusted ip) (rev (first # rest))")
      case None
      then have "list_all (trusted_contains trusted) (first # rest)" by (auto simp: find_None_iff list_all_iff)
      with None that show ?thesis by simp
    next
      case (Some ip)
      then obtain us vs where uv: "rev (first # rest) = us @ ip # vs" "\<not> trusted_contains trusted ip" "\<forall>u \<in> set us. trusted_contains trusted u"
        using find_SomeD [OF Some] by auto
      then have "first # rest = rev vs @ ip # rev us" by (metis rev_rev_ident rev_append rev.simps(2) append_assoc append_Cons append_Nil)
      moreover have "list_all (trusted_contains trusted) (rev us)" using uv(3) by (simp add: list_all_iff)
      moreover have "?sel = ip" using Some that by simp
      ultimately have "first # rest = rev vs @ ?sel # rev us \<and> \<not> trusted_contains trusted ?sel \<and> list_all (trusted_contains trusted) (rev us)"
        using uv(2) by (simp only: not_False_eq_True simp_thms)
      then show ?thesis by blast
    qed
    then show ?thesis using True t peer c addr by auto
  next
    case False
    then have "addr = peer" using assms True t by (auto simp: resolve_client_addr_def result_simps Let_def split: if_splits)
    then show ?thesis by simp
  qed
qed (use assms in \<open>simp add: resolve_client_addr_def\<close>)

text \<open>
  C33.  A client behind proxies that name it cannot spoof its address.  When trusted proxies have appended \<open>hops\<close> with at least one
  untrusted address in it, the recursive policy resolves to the last untrusted address of \<open>hops\<close>, whatever characters \<open>spoof\<close>
  come in front, so the result does not depend on \<open>spoof\<close>.  When every address the proxies appended is trusted there is no
  such guarantee: the search then goes on into \<open>spoof\<close>, as \<open>all_trusted_hops_spoofable\<close> shows.
\<close>

theorem forwarded_for_not_spoofable:
  assumes "ri_enabled config" "ri_recursive config" "ri_header config = XForwardedFor"
    and "trusted_parse (ri_trusted_proxies config) = Inr trusted" "trusted_contains trusted (sock_ip peer)"
    and "Option.bind (headers (header_name XForwardedFor)) to_str = Some (spoof @ CHR '','' # hops)"
    and "parse_csv_ips hops = us @ client # vs" "\<not> trusted_contains trusted client" "list_all (trusted_contains trusted) vs"
  shows "resolve_client_addr to_str headers peer config = Inr \<lparr>sock_ip = client, sock_port = sock_port peer\<rparr>"
proof -
  have c: "header_candidate_ips to_str headers XForwardedFor = parse_csv_ips spoof @ us @ client # vs"
    using assms(6,7) by (simp add: header_candidate_ips_def parse_csv_ips_def str_split_sep map_filter_append)
  have "find (\<lambda>ip. \<not> trusted_contains trusted ip) (rev vs) = None"
    using assms(9) by (auto simp: find_None_iff list_all_iff)
  then have "find (\<lambda>ip. \<not> trusted_contains trusted ip) (rev (header_candidate_ips to_str headers XForwardedFor)) = Some client"
    using assms(8) by (simp add: c find_append)
  then show ?thesis using assms(1-5) c by (simp add: resolve_client_addr_def result_simps Let_def)
qed

lemma all_trusted_hops_spoofable:
  assumes "ri_enabled config" "ri_recursive config" "ri_header config = XForwardedFor"
    and "trusted_parse (ri_trusted_proxies config) = Inr trusted" "trusted_contains trusted (sock_ip peer)"
    and "Option.bind (headers (header_name XForwardedFor)) to_str = Some (spoof @ CHR '','' # hops)"
    and "list_all (trusted_contains trusted) (parse_csv_ips hops)" "parse_csv_ips spoof = [victim]" "\<not> trusted_contains trusted victim"
  shows "resolve_client_addr to_str headers peer config = Inr \<lparr>sock_ip = victim, sock_port = sock_port peer\<rparr>"
proof -
  have c: "header_candidate_ips to_str headers XForwardedFor = victim # parse_csv_ips hops"
    using assms(6,8) by (simp add: header_candidate_ips_def parse_csv_ips_def str_split_sep map_filter_append)
  have "find (\<lambda>ip. \<not> trusted_contains trusted ip) (rev (parse_csv_ips hops)) = None"
    using assms(7) by (auto simp: find_None_iff list_all_iff)
  then have "find (\<lambda>ip. \<not> trusted_contains trusted ip) (rev (victim # parse_csv_ips hops)) = Some victim"
    using assms(9) by (simp add: find_append)
  then show ?thesis using assms(1-5) c by (simp add: resolve_client_addr_def result_simps Let_def)
qed

section \<open>Witnesses\<close>

lemma ten_text: "ipv4_string 0x0A000000 = ''10.0.0.0''" "ipv4_string 0x0A010000 = ''10.1.0.0''"
  by (simp_all add: ipv4_string_def ipv4_octets_def be_bytes_4 dec_string.simps [of 10] dec_small digit_chars)

lemma half_text: "ipv4_string 0 = ''0.0.0.0''" "ipv4_string 0x80000000 = ''128.0.0.0''"
  by (simp_all add: ipv4_string_def ipv4_octets_def be_bytes_4 dec_string.simps [of 128] dec_string.simps [of 12] dec_small digit_chars)

lemma cidr_parse_ipv4:
  assumes "raw = ipv4_string ip @ CHR ''/'' # s" "list_all is_ascii_digit s" "s \<noteq> []" "dec_value s \<le> 32"
  shows "cidr_parse raw = Inr \<lparr>cidr_network = V4 (mask_v4 ip (dec_value s)), cidr_prefix = dec_value s\<rparr>"
proof -
  have "CHR ''/'' \<notin> set (ipv4_string ip)" using ipv4_string_chars [of "CHR ''/''" ip] by (auto simp: is_ascii_digit_def)
  then show ?thesis using assms by (simp add: cidr_parse_def split_once_append parse_ipv4_string parse_unsigned_digits)
qed

lemmas cidr_literal = is_ascii_digit_def dec_value_def digit_value_def mask_v4_def mask_eq_exp_minus_1

lemma ten_parse:
  "cidr_parse ''10.0.0.0/8'' = Inr \<lparr>cidr_network = V4 0x0A000000, cidr_prefix = 8\<rparr>"
  "cidr_parse ''10.1.0.0/16'' = Inr \<lparr>cidr_network = V4 0x0A010000, cidr_prefix = 16\<rparr>"
  using cidr_parse_ipv4 [where ip = "0x0A000000" and s = "''8''", OF refl] cidr_parse_ipv4 [where ip = "0x0A010000" and s = "''16''", OF refl]
  unfolding ten_text by (simp_all add: cidr_literal)

lemma half_parse:
  "cidr_parse ''0.0.0.0/1'' = Inr \<lparr>cidr_network = V4 0, cidr_prefix = 1\<rparr>"
  "cidr_parse ''128.0.0.0/1'' = Inr \<lparr>cidr_network = V4 0x80000000, cidr_prefix = 1\<rparr>"
  using cidr_parse_ipv4 [where ip = "0" and s = "''1''", OF refl] cidr_parse_ipv4 [where ip = "0x80000000" and s = "''1''", OF refl]
  unfolding half_text by (simp_all add: cidr_literal)

theorem cidr_overlaps_exact_witness:
  "\<exists>c d. cidr_parse ''10.0.0.0/8'' = Inr c \<and> cidr_parse ''10.1.0.0/16'' = Inr d \<and> cidr_overlaps c d \<and>
    (\<exists>ip. cidr_contains c ip \<and> cidr_contains d ip)"
  using cidr_overlaps_exact [OF ten_parse] ten_parse
  by (simp add: cidr_overlaps_def cidr_contains_def cidr_literal)

theorem cover_exact_witness:
  "\<exists>cs. trusted_parse [''0.0.0.0/1'', ''128.0.0.0/1''] = Inr cs \<and> (\<forall>ip. trusted_contains cs (V4 ip))"
proof -
  let ?cs = "[\<lparr>cidr_network = V4 0, cidr_prefix = 1\<rparr>, \<lparr>cidr_network = V4 0x80000000, cidr_prefix = 1\<rparr>]"
  have t: "trusted_parse [''0.0.0.0/1'', ''128.0.0.0/1''] = Inr ?cs" by (simp only: trusted_parse.simps half_parse bindE_simps)
  have ones: "mask 31 = (0x7FFFFFFF :: 32 word)" "ucast (- 1 :: 32 word) = (0xFFFFFFFF :: u128)"
    using arg_cong [where f = ucast, of "- 1" "0xFFFFFFFF :: 32 word"] by (simp_all add: mask_eq_exp_minus_1)
  have "cidrs_cover_entire_address_family ?cs"
    by (simp add: ones cidrs_cover_entire_address_family_def cidr_range_v4_def ranges_cover_entire_address_family_def
        u128_saturating_add_def)
  moreover have "\<not> trusted_contains ?cs (V6 0)" by (simp add: trusted_contains_def cidr_contains_def)
  ultimately show ?thesis using cover_exact [OF t] t by auto
qed

definition sample_config :: "bool \<Rightarrow> RealIpHeader \<Rightarrow> RealIpConfig" where
  "sample_config recursive header =
     \<lparr>ri_enabled = True, ri_trusted_proxies = [''10.0.0.0/8''], ri_header = header, ri_recursive = recursive,
      ri_fail_on_untrusted = True\<rparr>"

definition sample_peer :: SocketAddr where
  "sample_peer = \<lparr>sock_ip = V4 0x0A000001, sock_port = 443\<rparr>"

lemma sample_trusted:
  "trusted_parse (ri_trusted_proxies (sample_config r h)) = Inr [\<lparr>cidr_network = V4 0x0A000000, cidr_prefix = 8\<rparr>]"
  unfolding sample_config_def by (simp only: RealIpConfig.simps trusted_parse.simps ten_parse bindE_simps)

lemma sample_contains: "trusted_contains [\<lparr>cidr_network = V4 0x0A000000, cidr_prefix = 8\<rparr>] (V4 ip) \<longleftrightarrow> mask_v4 ip 8 = 0x0A000000"
  by (simp add: trusted_contains_def cidr_contains_def)

theorem client_address_provenance_witness:
  "resolve_client_addr Some [''x-real-ip'' \<mapsto> ipv4_string 0xC6336407] sample_peer (sample_config False XRealIp) =
     Inr \<lparr>sock_ip = V4 0xC6336407, sock_port = 443\<rparr> \<and>
   (\<exists>trusted. trusted_parse (ri_trusted_proxies (sample_config False XRealIp)) = Inr trusted \<and>
      trusted_contains trusted (sock_ip sample_peer))"
proof -
  have c: "header_candidate_ips Some [''x-real-ip'' \<mapsto> ipv4_string 0xC6336407] XRealIp = [V4 0xC6336407]"
    by (simp add: header_candidate_ips_def parse_ip_token_ipv4)
  have r: "resolve_client_addr Some [''x-real-ip'' \<mapsto> ipv4_string 0xC6336407] sample_peer (sample_config False XRealIp) =
     Inr \<lparr>sock_ip = V4 0xC6336407, sock_port = 443\<rparr>"
    unfolding resolve_client_addr_def sample_trusted
    by (simp add: sample_config_def sample_peer_def sample_contains c cidr_literal Let_def)
  then show ?thesis using client_address_provenance [OF r] by (simp add: sample_peer_def) blast
qed

theorem forwarded_for_not_spoofable_witness:
  "resolve_client_addr Some [''x-forwarded-for'' \<mapsto> ''127.0.0.1, unknown'' @ CHR '','' # ipv4_string 0xC6336407] sample_peer
     (sample_config True XForwardedFor) = Inr \<lparr>sock_ip = V4 0xC6336407, sock_port = 443\<rparr>"
proof -
  have "CHR '','' \<notin> set (ipv4_string 0xC6336407)" using ipv4_string_chars [of "CHR '',''" "0xC6336407"] by (auto simp: is_ascii_digit_def)
  then have hops: "parse_csv_ips (ipv4_string 0xC6336407) = [] @ V4 0xC6336407 # []"
    by (simp add: parse_csv_ips_def str_split_plain parse_ip_token_ipv4)
  have "resolve_client_addr Some [''x-forwarded-for'' \<mapsto> ''127.0.0.1, unknown'' @ CHR '','' # ipv4_string 0xC6336407] sample_peer
     (sample_config True XForwardedFor) = Inr \<lparr>sock_ip = V4 0xC6336407, sock_port = sock_port sample_peer\<rparr>"
    by (rule forwarded_for_not_spoofable [where spoof = "''127.0.0.1, unknown''", OF _ _ _ sample_trusted _ _ hops])
      (simp_all add: sample_config_def sample_peer_def sample_contains cidr_literal)
  then show ?thesis by (simp add: sample_peer_def)
qed

end
