(* ===== verification/Proxy_Protocol.thy ===== *)
theory Proxy_Protocol
  imports Identity
begin

text \<open>
  The PROXY protocol: the header a trusted peer sends in front of a connection
  (\<open>src/proxy_protocol.rs\<close>), the header written to an upstream (\<open>src/proxy_protocol_egress.rs\<close>) and
  the header that carries the TLS evidence of a connection (\<open>src/proxy_protocol_egress/tls.rs\<close>).

  A connection is the list of bytes still to be read; an operation that reads returns the rest.  The
  DER check of the \<open>x509_cert\<close> crate and SHA-256 are parameters, and so are the two facts of the
  environment the code observes: how many bytes \<open>peek\<close> finds and whether a timer fires first.  A
  certificate is its DER bytes: the projection kept beside them is computed from these and not compared.
\<close>

unbundle bit_operations_syntax

section \<open>Constants and data\<close>

definition V2_SIGNATURE :: bytes where
  "V2_SIGNATURE = [0x0D, 0x0A, 0x0D, 0x0A, 0x00, 0x0D, 0x0A, 0x51, 0x55, 0x49, 0x54, 0x0A]"

abbreviation (input) V2_FIXED_HEADER_LEN :: nat where "V2_FIXED_HEADER_LEN \<equiv> 16"
abbreviation (input) V2_IPV4_ADDRESS_LEN :: nat where "V2_IPV4_ADDRESS_LEN \<equiv> 12"
abbreviation (input) V2_IPV6_ADDRESS_LEN :: nat where "V2_IPV6_ADDRESS_LEN \<equiv> 36"
abbreviation (input) MAX_CERTIFICATE_DER_BYTES :: nat where "MAX_CERTIFICATE_DER_BYTES \<equiv> 65536"
abbreviation (input) PP2_TYPE_SSL :: u8 where "PP2_TYPE_SSL \<equiv> 0x20"
abbreviation (input) PP2_SUBTYPE_SSL_VERSION :: u8 where "PP2_SUBTYPE_SSL_VERSION \<equiv> 0x21"
abbreviation (input) PP2_SUBTYPE_SSL_CN :: u8 where "PP2_SUBTYPE_SSL_CN \<equiv> 0x22"
abbreviation (input) PP2_SUBTYPE_SSL_CIPHER :: u8 where "PP2_SUBTYPE_SSL_CIPHER \<equiv> 0x23"
abbreviation (input) PP2_SUBTYPE_SSL_SIG_ALG :: u8 where "PP2_SUBTYPE_SSL_SIG_ALG \<equiv> 0x24"
abbreviation (input) PP2_SUBTYPE_SSL_KEY_ALG :: u8 where "PP2_SUBTYPE_SSL_KEY_ALG \<equiv> 0x25"
abbreviation (input) PP2_SUBTYPE_SSL_KEY_EXCHANGE_GROUP :: u8 where "PP2_SUBTYPE_SSL_KEY_EXCHANGE_GROUP \<equiv> 0x26"
abbreviation (input) PP2_SUBTYPE_SSL_SIGNATURE_SCHEME :: u8 where "PP2_SUBTYPE_SSL_SIGNATURE_SCHEME \<equiv> 0x27"
abbreviation (input) PP2_SUBTYPE_SSL_CERT :: u8 where "PP2_SUBTYPE_SSL_CERT \<equiv> 0x28"

datatype ProxyProtocolVersion = V1 | V2 | Any

record ProxyProtocolConfig =
  pp_enabled :: bool
  pp_version :: ProxyProtocolVersion
  pp_trusted_sources :: "string list"
  pp_tls_tlvs :: bool

record ProxyProtocolSslMetadata =
  ssl_client :: u8
  ssl_verify :: u32
  ssl_version :: "string option"
  ssl_common_name :: "string option"
  ssl_cipher_suite :: "string option"
  ssl_certificate_signature_algorithm :: "string option"
  ssl_certificate_key_algorithm :: "string option"
  ssl_key_exchange_group :: "string option"
  ssl_signature_scheme :: "string option"
  ssl_certificate :: "bytes option"

record ProxyProtocolMetadata =
  pm_version :: ProxyProtocolVersion
  pm_source :: SocketAddr
  pm_destination :: "SocketAddr option"
  pm_ssl :: "ProxyProtocolSslMetadata option"

fun version_label :: "ProxyProtocolVersion \<Rightarrow> string option" where
  "version_label V1 = Some ''v1''"
| "version_label V2 = Some ''v2''"
| "version_label Any = None"

definition from_der :: "(bytes \<Rightarrow> bool) \<Rightarrow> bytes \<Rightarrow> string + bytes" where
  "from_der x509 der =
     (if der = [] \<or> length der > MAX_CERTIFICATE_DER_BYTES
      then Inl ''PROXY protocol SSL certificate must be between 1 and 65536 bytes''
      else if \<not> x509 der then Inl ''PROXY protocol SSL certificate is not valid DER''
      else Inr der)"

section \<open>TLVs\<close>

definition read_tlv :: "bytes \<Rightarrow> nat \<Rightarrow> string + u8 \<times> bytes \<times> nat" where
  "read_tlv bs offset =
     (if length bs - offset < 3 then Inl ''truncated PROXY protocol TLV header'' else
      let kind = bs ! offset;
          len = unat (word_from_be [bs ! (offset + 1), bs ! (offset + 2)] :: u16);
          offset = offset + 3
      in bindE (option_okE ''PROXY protocol TLV length overflow'' (usize_checked_add offset len)) (\<lambda>stop.
         if stop > length bs then Inl ''truncated PROXY protocol TLV value''
         else Inr (kind, slice offset stop bs, stop)))"

definition set_unique_text :: "string option \<Rightarrow> bytes \<Rightarrow> string \<Rightarrow> string + string option" where
  "set_unique_text slot val field =
     (if slot \<noteq> None then Inl (''duplicate PROXY protocol '' @ field @ '' TLV'')
      else if val = [] \<or> 0 \<in> set val
      then Inl (''PROXY protocol '' @ field @ '' TLV must be non-empty UTF-8 without NUL bytes'')
      else bindE (option_okE (''PROXY protocol '' @ field @ '' TLV is not UTF-8'') (from_utf8 val)) (\<lambda>val.
        if list_ex char_is_control (str_chars val)
        then Inl (''PROXY protocol '' @ field @ '' TLV contains a control character'')
        else Inr (Some val)))"

definition decode_ssl_nested ::
  "(bytes \<Rightarrow> bool) \<Rightarrow> ProxyProtocolSslMetadata \<Rightarrow> u8 \<Rightarrow> bytes \<Rightarrow> string + ProxyProtocolSslMetadata" where
  "decode_ssl_nested x509 m kind nested =
     (if kind = PP2_SUBTYPE_SSL_VERSION then
        bindE (set_unique_text (ssl_version m) nested ''SSL version'') (\<lambda>t. Inr (m\<lparr>ssl_version := t\<rparr>))
      else if kind = PP2_SUBTYPE_SSL_CN then
        bindE (set_unique_text (ssl_common_name m) nested ''SSL common name'') (\<lambda>t. Inr (m\<lparr>ssl_common_name := t\<rparr>))
      else if kind = PP2_SUBTYPE_SSL_CIPHER then
        bindE (set_unique_text (ssl_cipher_suite m) nested ''SSL cipher suite'') (\<lambda>t. Inr (m\<lparr>ssl_cipher_suite := t\<rparr>))
      else if kind = PP2_SUBTYPE_SSL_SIG_ALG then
        bindE (set_unique_text (ssl_certificate_signature_algorithm m) nested ''SSL certificate signature algorithm'')
          (\<lambda>t. Inr (m\<lparr>ssl_certificate_signature_algorithm := t\<rparr>))
      else if kind = PP2_SUBTYPE_SSL_KEY_ALG then
        bindE (set_unique_text (ssl_certificate_key_algorithm m) nested ''SSL certificate key algorithm'')
          (\<lambda>t. Inr (m\<lparr>ssl_certificate_key_algorithm := t\<rparr>))
      else if kind = PP2_SUBTYPE_SSL_KEY_EXCHANGE_GROUP then
        bindE (set_unique_text (ssl_key_exchange_group m) nested ''SSL key exchange group'')
          (\<lambda>t. Inr (m\<lparr>ssl_key_exchange_group := t\<rparr>))
      else if kind = PP2_SUBTYPE_SSL_SIGNATURE_SCHEME then
        bindE (set_unique_text (ssl_signature_scheme m) nested ''SSL signature scheme'')
          (\<lambda>t. Inr (m\<lparr>ssl_signature_scheme := t\<rparr>))
      else if kind = PP2_SUBTYPE_SSL_CERT then
        (if ssl_certificate m \<noteq> None then Inl ''duplicate PROXY protocol SSL certificate TLV''
         else bindE (from_der x509 nested) (\<lambda>c. Inr (m\<lparr>ssl_certificate := Some c\<rparr>)))
      else Inr m)"

lemma read_tlv_advances: "read_tlv bs offset = Inr (kind, val, stop) \<Longrightarrow> offset + 3 \<le> stop \<and> stop \<le> length bs"
  by (auto simp: read_tlv_def Let_def result_simps split: if_splits)

function decode_ssl_loop ::
  "(bytes \<Rightarrow> bool) \<Rightarrow> bytes \<Rightarrow> nat \<Rightarrow> ProxyProtocolSslMetadata \<Rightarrow> string + ProxyProtocolSslMetadata" where
  "decode_ssl_loop x509 val offset m =
     (if offset < length val then
        bindE (read_tlv val offset) (\<lambda>(kind, nested, offset).
        bindE (decode_ssl_nested x509 m kind nested) (\<lambda>m.
        decode_ssl_loop x509 val offset m))
      else Inr m)"
  by pat_completeness auto
termination
  by (relation "measure (\<lambda>(x509, val, offset, m). length val - offset)") (auto dest!: read_tlv_advances)

definition decode_ssl_tlv :: "(bytes \<Rightarrow> bool) \<Rightarrow> bytes \<Rightarrow> string + ProxyProtocolSslMetadata" where
  "decode_ssl_tlv x509 val =
     (if length val < 5 then Inl ''PROXY protocol SSL TLV is shorter than its fixed fields'' else
      decode_ssl_loop x509 val 5
        \<lparr>ssl_client = val ! 0, ssl_verify = word_from_be [val ! 1, val ! 2, val ! 3, val ! 4],
         ssl_version = None, ssl_common_name = None, ssl_cipher_suite = None,
         ssl_certificate_signature_algorithm = None, ssl_certificate_key_algorithm = None,
         ssl_key_exchange_group = None, ssl_signature_scheme = None, ssl_certificate = None\<rparr>)"

function decode_ssl_tlvs_loop ::
  "(bytes \<Rightarrow> bool) \<Rightarrow> bytes \<Rightarrow> nat \<Rightarrow> ProxyProtocolSslMetadata option \<Rightarrow> string + ProxyProtocolSslMetadata option" where
  "decode_ssl_tlvs_loop x509 bs offset ssl =
     (if offset < length bs then
        bindE (read_tlv bs offset) (\<lambda>(kind, val, offset).
        if kind = PP2_TYPE_SSL then
          if ssl \<noteq> None then Inl ''duplicate PROXY protocol SSL TLV''
          else bindE (decode_ssl_tlv x509 val) (\<lambda>m. decode_ssl_tlvs_loop x509 bs offset (Some m))
        else decode_ssl_tlvs_loop x509 bs offset ssl)
      else Inr ssl)"
  by pat_completeness auto
termination
  by (relation "measure (\<lambda>(x509, bs, offset, ssl). length bs - offset)") (auto dest!: read_tlv_advances)

definition decode_ssl_tlvs :: "(bytes \<Rightarrow> bool) \<Rightarrow> bytes \<Rightarrow> string + ProxyProtocolSslMetadata option" where
  "decode_ssl_tlvs x509 bs = decode_ssl_tlvs_loop x509 bs 0 None"

definition encode_tlv :: "bytes \<Rightarrow> u8 \<Rightarrow> bytes \<Rightarrow> string + bytes" where
  "encode_tlv output kind val =
     (if length val < 65536 then Inr (output @ [kind] @ be_bytes 2 (length val) @ val)
      else Inl ''PROXY protocol TLV exceeds 65535 bytes'')"

definition encode_optional_text :: "bytes \<Rightarrow> u8 \<Rightarrow> string option \<Rightarrow> string + bytes" where
  "encode_optional_text output kind val =
     (case val of
        None \<Rightarrow> Inr output
      | Some val \<Rightarrow>
          if val = [] \<or> 0 \<in> set (str_chars val) \<or> list_ex char_is_control (str_chars val)
          then Inl ''invalid PROXY protocol SSL text value''
          else encode_tlv output kind (as_bytes val))"

definition encode_ssl_tlv :: "ProxyProtocolSslMetadata \<Rightarrow> bool \<Rightarrow> string + bytes" where
  "encode_ssl_tlv m include_certificate =
     bindE (encode_optional_text ([ssl_client m] @ be_bytes 4 (unat (ssl_verify m))) PP2_SUBTYPE_SSL_VERSION (ssl_version m)) (\<lambda>val.
     bindE (encode_optional_text val PP2_SUBTYPE_SSL_CN (ssl_common_name m)) (\<lambda>val.
     bindE (encode_optional_text val PP2_SUBTYPE_SSL_CIPHER (ssl_cipher_suite m)) (\<lambda>val.
     bindE (encode_optional_text val PP2_SUBTYPE_SSL_SIG_ALG (ssl_certificate_signature_algorithm m)) (\<lambda>val.
     bindE (encode_optional_text val PP2_SUBTYPE_SSL_KEY_ALG (ssl_certificate_key_algorithm m)) (\<lambda>val.
     bindE (encode_optional_text val PP2_SUBTYPE_SSL_KEY_EXCHANGE_GROUP (ssl_key_exchange_group m)) (\<lambda>val.
     bindE (encode_optional_text val PP2_SUBTYPE_SSL_SIGNATURE_SCHEME (ssl_signature_scheme m)) (\<lambda>val.
     bindE (case ssl_certificate m of
              Some der \<Rightarrow> if include_certificate then encode_tlv val PP2_SUBTYPE_SSL_CERT der else Inr val
            | None \<Rightarrow> Inr val) (\<lambda>val.
     encode_tlv [] PP2_TYPE_SSL val))))))))"

section \<open>Accepting a header\<close>

definition parse_v2_payload ::
  "(bytes \<Rightarrow> bool) \<Rightarrow> u8 \<Rightarrow> u8 \<Rightarrow> bytes \<Rightarrow> bool \<Rightarrow> string + SocketAddr \<times> ProxyProtocolMetadata option" where
  "parse_v2_payload x509 version_command family_transport payload parse_ssl_tlvs =
     (if drop_bit 4 version_command \<noteq> 2 \<or> version_command AND 0x0F \<noteq> 1
      then Inl ''invalid PROXY protocol v2 command''
      else if family_transport AND 0x0F \<noteq> 1 then Inl ''PROXY protocol v2 only supports TCP''
      else
        bindE (if drop_bit 4 family_transport = 1 \<and> length payload \<ge> V2_IPV4_ADDRESS_LEN then
                 Inr (\<lparr>sock_ip = V4 (word_from_be [payload ! 0, payload ! 1, payload ! 2, payload ! 3]),
                       sock_port = word_from_be [payload ! 8, payload ! 9]\<rparr>,
                      \<lparr>sock_ip = V4 (word_from_be [payload ! 4, payload ! 5, payload ! 6, payload ! 7]),
                       sock_port = word_from_be [payload ! 10, payload ! 11]\<rparr>,
                      V2_IPV4_ADDRESS_LEN)
               else if drop_bit 4 family_transport = 2 \<and> length payload \<ge> V2_IPV6_ADDRESS_LEN then
                 Inr (\<lparr>sock_ip = V6 (word_from_be (slice 0 16 payload)),
                       sock_port = word_from_be [payload ! 32, payload ! 33]\<rparr>,
                      \<lparr>sock_ip = V6 (word_from_be (slice 16 32 payload)),
                       sock_port = word_from_be [payload ! 34, payload ! 35]\<rparr>,
                      V2_IPV6_ADDRESS_LEN)
               else Inl ''unsupported PROXY protocol v2 address family'') (\<lambda>(source, destination, address_len).
        bindE (if parse_ssl_tlvs then decode_ssl_tlvs x509 (drop address_len payload) else Inr None) (\<lambda>ssl.
        Inr (source,
             if parse_ssl_tlvs
             then Some \<lparr>pm_version = V2, pm_source = source, pm_destination = Some destination, pm_ssl = ssl\<rparr>
             else None))))"

definition read_v2_after_signature ::
  "(bytes \<Rightarrow> bool) \<Rightarrow> bytes \<Rightarrow> bool \<Rightarrow> string + (SocketAddr \<times> ProxyProtocolMetadata option) \<times> bytes" where
  "read_v2_after_signature x509 stream parse_ssl_tlvs =
     bindE (read_exact ''failed to read PROXY protocol v2 header'' (V2_FIXED_HEADER_LEN - length V2_SIGNATURE) stream) (\<lambda>(tail, stream).
     bindE (read_exact ''failed to read PROXY protocol v2 payload''
              (unat (word_from_be [tail ! 2, tail ! 3] :: u16)) stream) (\<lambda>(payload, stream).
     bindE (parse_v2_payload x509 (tail ! 0) (tail ! 1) payload parse_ssl_tlvs) (\<lambda>r.
     Inr (r, stream))))"

definition read_v2 ::
  "(bytes \<Rightarrow> bool) \<Rightarrow> bytes \<Rightarrow> bool \<Rightarrow> string + (SocketAddr \<times> ProxyProtocolMetadata option) \<times> bytes" where
  "read_v2 x509 stream parse_ssl_tlvs =
     bindE (read_exact ''failed to read PROXY protocol v2 signature'' 12 stream) (\<lambda>(signature, stream).
     if signature \<noteq> V2_SIGNATURE then Inl ''invalid PROXY protocol v2 signature''
     else read_v2_after_signature x509 stream parse_ssl_tlvs)"

function read_v1_line :: "bytes \<Rightarrow> bytes \<Rightarrow> string + bytes \<times> bytes" where
  "read_v1_line line stream =
     (if length line > 107 then Inl ''PROXY protocol v1 header is too long''
      else if line \<noteq> [] \<and> last line = 0x0A then Inr (line, stream)
      else (case stream of
              [] \<Rightarrow> Inl ''failed to read PROXY protocol v1 header''
            | b # stream \<Rightarrow> read_v1_line (line @ [b]) stream))"
  by pat_completeness auto
termination
  by (relation "measure (\<lambda>(line, stream). length stream)") auto

definition read_v1_with_prefix :: "bytes \<Rightarrow> bytes \<Rightarrow> string + SocketAddr \<times> bytes" where
  "read_v1_with_prefix start stream =
     bindE (read_v1_line start stream) (\<lambda>(line, stream).
     bindE (option_okE ''PROXY protocol v1 header is not UTF-8'' (from_utf8 line)) (\<lambda>line.
     let line = str_trim_end_matches (\<lambda>c. c = 13 \<or> c = 10) line;
         parts = split_whitespace line
     in if length parts \<noteq> 6 \<or> parts ! 0 \<noteq> ''PROXY'' \<or> parts ! 1 = ''UNKNOWN''
        then Inl ''invalid PROXY protocol v1 header''
        else
          bindE (option_okE ''invalid PROXY source IP'' (parse_ip_addr (parts ! 2))) (\<lambda>source_ip.
          bindE (option_okE ''invalid PROXY source port'' (parse_unsigned 65536 (parts ! 4))) (\<lambda>source_port.
          Inr (\<lparr>sock_ip = source_ip, sock_port = of_nat source_port\<rparr>, stream)))))"

definition read_v1 :: "bytes \<Rightarrow> string + SocketAddr \<times> bytes" where
  "read_v1 stream = read_v1_with_prefix [] stream"

definition read_any_with_metadata ::
  "(bytes \<Rightarrow> bool) \<Rightarrow> bytes \<Rightarrow> string + (SocketAddr \<times> ProxyProtocolMetadata option) \<times> bytes" where
  "read_any_with_metadata x509 stream =
     bindE (read_exact ''failed to read PROXY protocol header'' 12 stream) (\<lambda>(start, stream).
     if start = V2_SIGNATURE then read_v2_after_signature x509 stream True
     else bindE (read_v1_with_prefix start stream) (\<lambda>(source, stream).
       Inr ((source, Some \<lparr>pm_version = V1, pm_source = source, pm_destination = None, pm_ssl = None\<rparr>), stream)))"

text \<open>
  \<open>TcpStream::peek\<close> fills the buffer with what has arrived, \<open>available\<close> bytes at most, and leaves the
  rest of the zeroed buffer as it was.
\<close>

definition peek_buffer :: "nat \<Rightarrow> bytes \<Rightarrow> bytes" where
  "peek_buffer available stream = take 12 (take available stream @ replicate 12 0)"

definition socket_string :: "SocketAddr \<Rightarrow> string" where
  "socket_string a =
     (case sock_ip a of V4 ip \<Rightarrow> ipv4_string ip | V6 ip \<Rightarrow> ''['' @ ipv6_string ip @ '']'') @ '':'' @ dec_string (unat (sock_port a))"

text \<open>\<open>expired t\<close> says that a timer of \<open>t\<close> milliseconds fires before the header has been read.\<close>

definition accept_proxy_header_inner ::
  "(bytes \<Rightarrow> bool) \<Rightarrow> nat \<Rightarrow> (nat \<Rightarrow> bool) \<Rightarrow> bytes \<Rightarrow> SocketAddr \<Rightarrow> ProxyProtocolConfig \<Rightarrow> nat option
    \<Rightarrow> string + bytes \<times> SocketAddr \<times> ProxyProtocolMetadata option" where
  "accept_proxy_header_inner x509 available expired stream peer_addr config metadata_timeout =
     (if \<not> pp_enabled config then Inr (stream, peer_addr, None) else
      bindE (trusted_parse (pp_trusted_sources config)) (\<lambda>trusted.
      if \<not> trusted_contains trusted (sock_ip peer_addr) 
      then Inl (''PROXY protocol peer '' @ socket_string peer_addr @ '' is not trusted'') else
      let metadata_enabled = (metadata_timeout \<noteq> None \<and> pp_tls_tlvs config);
          read = (case pp_version config of
                    V1 \<Rightarrow> bindE (read_v1 stream) (\<lambda>(source, stream). Inr ((source, None), stream))
                  | V2 \<Rightarrow> read_v2 x509 stream metadata_enabled
                  | Any \<Rightarrow>
                      if metadata_enabled then read_any_with_metadata x509 stream
                      else if peek_buffer available stream = V2_SIGNATURE then read_v2 x509 stream False
                      else bindE (read_v1 stream) (\<lambda>(source, stream). Inr ((source, None), stream)))
      in bindE (case metadata_timeout of
                  Some timeout \<Rightarrow> if metadata_enabled \<and> expired timeout then Inl ''PROXY protocol header timed out'' else read
                | None \<Rightarrow> read) (\<lambda>((source, metadata), stream).
         Inr (stream, source, metadata))))"

definition accept_proxy_header ::
  "(bytes \<Rightarrow> bool) \<Rightarrow> nat \<Rightarrow> bytes \<Rightarrow> SocketAddr \<Rightarrow> ProxyProtocolConfig \<Rightarrow> string + bytes \<times> SocketAddr" where
  "accept_proxy_header x509 available stream peer_addr config =
     bindE (accept_proxy_header_inner x509 available (\<lambda>_. False) stream peer_addr config None) (\<lambda>(stream, source, _).
     Inr (stream, source))"

definition accept_proxy_header_with_metadata ::
  "(bytes \<Rightarrow> bool) \<Rightarrow> nat \<Rightarrow> (nat \<Rightarrow> bool) \<Rightarrow> bytes \<Rightarrow> SocketAddr \<Rightarrow> ProxyProtocolConfig \<Rightarrow> nat
    \<Rightarrow> string + bytes \<times> SocketAddr \<times> ProxyProtocolMetadata option" where
  "accept_proxy_header_with_metadata x509 available expired stream peer_addr config timeout =
     accept_proxy_header_inner x509 available expired stream peer_addr config (Some timeout)"

section \<open>Writing a header\<close>

datatype ProxyProtocolEgressMode = EgressOff | EgressV1 | EgressV2

definition v1_header :: "SocketAddr \<Rightarrow> SocketAddr \<Rightarrow> bytes" where
  "v1_header source destination =
     (let family = (case (sock_ip source, sock_ip destination) of
                      (V4 _, V4 _) \<Rightarrow> ''TCP4'' | (V6 _, V6 _) \<Rightarrow> ''TCP6'' | _ \<Rightarrow> ''UNKNOWN'')
      in if family = ''UNKNOWN'' then as_bytes ''PROXY UNKNOWN'' @ [0x0D, 0x0A]
         else as_bytes (''PROXY '' @ family @ '' '' @ ip_string (sock_ip source) @ '' '' @ ip_string (sock_ip destination) @ '' '' @
                        dec_string (unat (sock_port source)) @ '' '' @ dec_string (unat (sock_port destination))) @ [0x0D, 0x0A])"

definition v2_header :: "SocketAddr \<Rightarrow> SocketAddr \<Rightarrow> bytes" where
  "v2_header source destination =
     (let header = V2_SIGNATURE @ [0x21];
          ports = be_bytes 2 (unat (sock_port source)) @ be_bytes 2 (unat (sock_port destination))
      in case (sock_ip source, sock_ip destination) of
           (V4 src, V4 dst) \<Rightarrow> header @ [0x11] @ be_bytes 2 12 @ be_bytes 4 (unat src) @ be_bytes 4 (unat dst) @ ports
         | (V6 src, V6 dst) \<Rightarrow> header @ [0x21] @ be_bytes 2 36 @ be_bytes 16 (unat src) @ be_bytes 16 (unat dst) @ ports
         | _ \<Rightarrow> header @ [0x00] @ be_bytes 2 0)"

fun write_header :: "bytes \<Rightarrow> ProxyProtocolEgressMode \<Rightarrow> SocketAddr \<Rightarrow> SocketAddr \<Rightarrow> bytes" where
  "write_header out EgressOff source destination = out"
| "write_header out EgressV1 source destination = out @ v1_header source destination"
| "write_header out EgressV2 source destination = out @ v2_header source destination"

section \<open>The header that carries TLS evidence\<close>

datatype ProxyProtocolTlsSource = LocalTls | ReceivedProxy

record ProxyProtocolTlsConfig =
  pt_source :: ProxyProtocolTlsSource
  pt_client_certificate :: bool

record ConnectionTlsEvidence =
  te_local :: "ProxyProtocolMetadata option"
  te_received :: "ProxyProtocolMetadata option"
  te_local_capture_failed :: bool

record PreparedTlsHeader =
  ph_bytes :: bytes
  ph_cache_identity :: string
  ph_certificate_identity :: bool

definition byte_hex :: "u8 \<Rightarrow> string" where
  "byte_hex b = [''0123456789abcdef'' ! (unat b div 16), ''0123456789abcdef'' ! (unat b mod 16)]"

definition cache_identity_new :: "(bytes \<Rightarrow> bytes) \<Rightarrow> string \<Rightarrow> bytes \<Rightarrow> string" where
  "cache_identity_new sha256 source encoded_header =
     concat (map byte_hex (sha256 (as_bytes ''oxibelt-proxy-tls-cache-v1'' @ [0] @ as_bytes source @ [0] @ encoded_header)))"

fun is_ipv4 :: "SocketAddr \<Rightarrow> bool" where
  "is_ipv4 a = (case sock_ip a of V4 _ \<Rightarrow> True | V6 _ \<Rightarrow> False)"

fun is_unspecified :: "IpAddr \<Rightarrow> bool" where
  "is_unspecified (V4 ip) \<longleftrightarrow> ip = 0"
| "is_unspecified (V6 ip) \<longleftrightarrow> ip = 0"

definition prepare ::
  "(bytes \<Rightarrow> bytes) \<Rightarrow> ProxyProtocolTlsConfig \<Rightarrow> ConnectionTlsEvidence \<Rightarrow> SocketAddr \<Rightarrow> string + PreparedTlsHeader" where
  "prepare sha256 config evidence effective_client =
     bindE (case pt_source config of
              LocalTls \<Rightarrow> if te_local_capture_failed evidence then Inl ''local TLS metadata capture failed''
                           else Inr (te_local evidence, ''local_tls'')
            | ReceivedProxy \<Rightarrow> Inr (te_received evidence, ''received_proxy'')) (\<lambda>(metadata, source).
     bindE (option_okE ''selected PROXY TLS metadata source is unavailable'' metadata) (\<lambda>metadata.
     if sock_ip (pm_source metadata) \<noteq> sock_ip effective_client
     then Inl ''PROXY TLS metadata source does not match effective client identity'' else
     bindE (option_okE ''original TLS destination is unavailable'' (pm_destination metadata)) (\<lambda>destination.
     if is_ipv4 (pm_source metadata) \<noteq> is_ipv4 destination \<or> is_unspecified (sock_ip (pm_source metadata)) \<or>
        is_unspecified (sock_ip destination)
     then Inl ''original TLS address pair is not representable'' else
     bindE (option_okE ''selected PROXY SSL assertion is unavailable'' (pm_ssl metadata)) (\<lambda>ssl.
     bindE (encode_ssl_tlv ssl (pt_client_certificate config)) (\<lambda>tlv.
     let bs = v2_header (pm_source metadata) destination;
         payload_len = length bs - 16 + length tlv
     in if length bs < 16 \<or> payload_len \<ge> 65536 then Inl ''PROXY TLS header exceeds the wire size limit'' else
        let bs = take 14 bs @ be_bytes 2 payload_len @ drop 16 bs @ tlv;
            policy_identity = source @ '':client_certificate='' @ (if pt_client_certificate config then ''true'' else ''false'')
        in Inr \<lparr>ph_bytes = bs, ph_cache_identity = cache_identity_new sha256 policy_identity bs,
                ph_certificate_identity =
                  ssl_client ssl AND 0x06 \<noteq> 0 \<or> ssl_common_name ssl \<noteq> None \<or>
                  (pt_client_certificate config \<and> ssl_certificate ssl \<noteq> None)\<rparr>)))))"

declare decode_ssl_loop.simps [simp del] decode_ssl_tlvs_loop.simps [simp del] read_v1_line.simps [simp del]

section \<open>TLVs are read back\<close>

definition tlv_bytes :: "u8 \<times> bytes \<Rightarrow> bytes" where
  "tlv_bytes kv = [fst kv] @ be_bytes 2 (length (snd kv)) @ snd kv"

lemma length_tlv_bytes: "length (tlv_bytes kv) = 3 + length (snd kv)"
  by (simp add: tlv_bytes_def byte_simps)

lemma unat_be_pair: "n < 65536 \<Longrightarrow> unat (word_from_be [of_nat (n div 256), of_nat n] :: u16) = n"
  using word_from_be_2 [of "of_nat n"] by (simp add: unat_of_nat)

lemma read_tlv_bytes:
  assumes "length (snd kv) < 65536" "length pre + 3 + length (snd kv) < 2 ^ 64"
  shows "read_tlv (pre @ tlv_bytes kv @ post) (length pre) = Inr (fst kv, snd kv, length pre + 3 + length (snd kv))"
proof -
  let ?n = "length (snd kv)"
  let ?bs = "pre @ tlv_bytes kv @ post"
  have bs: "?bs = pre @ fst kv # of_nat (?n div 256) # of_nat ?n # snd kv @ post"
    by (simp add: tlv_bytes_def be_bytes_2)
  have len: "unat (word_from_be [?bs ! (length pre + 1), ?bs ! (length pre + 2)] :: u16) = ?n"
    unfolding bs using unat_be_pair [OF assms(1)] by (simp add: nth_append)
  have "slice (length pre + 3) (length pre + 3 + ?n) ?bs = snd kv" unfolding bs by (simp add: slice_def)
  moreover have "?bs ! length pre = fst kv" "length pre + 3 + ?n \<le> length ?bs" unfolding bs by simp_all
  ultimately show ?thesis
    using len assms(2) unfolding read_tlv_def Let_def by (simp add: usize_checked_add_def)
qed

fun tlv_fold :: "('m \<Rightarrow> u8 \<Rightarrow> bytes \<Rightarrow> string + 'm) \<Rightarrow> 'm \<Rightarrow> (u8 \<times> bytes) list \<Rightarrow> string + 'm" where
  "tlv_fold f m [] = Inr m"
| "tlv_fold f m (kv # kvs) = bindE (f m (fst kv) (snd kv)) (\<lambda>m. tlv_fold f m kvs)"

lemma tlv_fold_append: "tlv_fold f m (kvs @ kvs') = bindE (tlv_fold f m kvs) (\<lambda>m. tlv_fold f m kvs')"
  by (induction kvs arbitrary: m) (simp_all add: bindE_assoc)

definition short_tlvs :: "(u8 \<times> bytes) list \<Rightarrow> bool" where
  "short_tlvs kvs \<longleftrightarrow> list_all (\<lambda>kv. length (snd kv) < 65536) kvs"

lemma decode_ssl_loop_tlvs:
  assumes "short_tlvs kvs" "length (pre @ concat (map tlv_bytes kvs)) < 2 ^ 64"
  shows "decode_ssl_loop x509 (pre @ concat (map tlv_bytes kvs)) (length pre) m = tlv_fold (decode_ssl_nested x509) m kvs"
  using assms
proof (induction kvs arbitrary: pre m)
  case Nil
  then show ?case by (simp add: decode_ssl_loop.simps)
next
  case (Cons kv kvs)
  let ?rest = "concat (map tlv_bytes kvs)"
  have read: "read_tlv (pre @ tlv_bytes kv @ ?rest) (length pre) = Inr (fst kv, snd kv, length (pre @ tlv_bytes kv))"
    using Cons.prems by (subst read_tlv_bytes) (auto simp: short_tlvs_def length_tlv_bytes)
  have IH: "decode_ssl_loop x509 (pre @ tlv_bytes kv @ ?rest) (length (pre @ tlv_bytes kv)) m' = tlv_fold (decode_ssl_nested x509) m' kvs" for m'
    using Cons.IH [of "pre @ tlv_bytes kv" m'] Cons.prems by (simp add: short_tlvs_def)
  have "length pre < length (pre @ tlv_bytes kv @ ?rest)" by (simp add: length_tlv_bytes)
  then show ?case
    using read IH by (subst decode_ssl_loop.simps) (cases "decode_ssl_nested x509 m (fst kv) (snd kv)"; simp)
qed

text \<open>The TLVs the encoder writes for the SSL metadata.\<close>

definition text_tlv :: "u8 \<Rightarrow> string option \<Rightarrow> (u8 \<times> bytes) list" where
  "text_tlv kind t = (case t of None \<Rightarrow> [] | Some s \<Rightarrow> [(kind, as_bytes s)])"

definition cert_tlv :: "bytes option \<Rightarrow> (u8 \<times> bytes) list" where
  "cert_tlv c = (case c of None \<Rightarrow> [] | Some der \<Rightarrow> [(PP2_SUBTYPE_SSL_CERT, der)])"

definition ssl_tlvs :: "ProxyProtocolSslMetadata \<Rightarrow> (u8 \<times> bytes) list" where
  "ssl_tlvs m =
     text_tlv PP2_SUBTYPE_SSL_VERSION (ssl_version m) @ text_tlv PP2_SUBTYPE_SSL_CN (ssl_common_name m) @
     text_tlv PP2_SUBTYPE_SSL_CIPHER (ssl_cipher_suite m) @
     text_tlv PP2_SUBTYPE_SSL_SIG_ALG (ssl_certificate_signature_algorithm m) @
     text_tlv PP2_SUBTYPE_SSL_KEY_ALG (ssl_certificate_key_algorithm m) @
     text_tlv PP2_SUBTYPE_SSL_KEY_EXCHANGE_GROUP (ssl_key_exchange_group m) @
     text_tlv PP2_SUBTYPE_SSL_SIGNATURE_SCHEME (ssl_signature_scheme m) @ cert_tlv (ssl_certificate m)"

definition text_ok :: "string option \<Rightarrow> bool" where
  "text_ok t = (case t of None \<Rightarrow> True | Some s \<Rightarrow> s \<noteq> [] \<and> \<not> list_ex char_is_control (str_chars s))"

definition text_utf8 :: "string option \<Rightarrow> bool" where
  "text_utf8 t = (case t of None \<Rightarrow> True | Some s \<Rightarrow> is_utf8 s)"

lemma nul_is_control: "0 \<in> set cs \<Longrightarrow> list_ex char_is_control cs"
  unfolding list_ex_iff by (rule bexI [of _ 0]) (simp_all add: char_is_control_def)

lemma encode_optional_text_Inr:
  "encode_optional_text out kind t = Inr out' \<longleftrightarrow>
     text_ok t \<and> short_tlvs (text_tlv kind t) \<and> out' = out @ concat (map tlv_bytes (text_tlv kind t))"
  by (auto simp: encode_optional_text_def encode_tlv_def text_ok_def short_tlvs_def text_tlv_def tlv_bytes_def
      dest: nul_is_control split: option.splits if_splits)

lemma set_unique_text_ok:
  assumes "text_ok (Some s)" "is_utf8 s"
  shows "set_unique_text None (as_bytes s) field = Inr (Some s)"
proof -
  from assms(2) obtain cs where cs: "utf8_scalars (map of_char s) = Some cs" by (auto simp: is_utf8_def)
  have "0 \<notin> set (as_bytes s)"
  proof
    assume "0 \<in> set (as_bytes s)"
    then obtain c where "c \<in> set s" "(of_char c :: u8) = 0" by (auto simp: as_bytes_def)
    then have "0 \<in> set (map (of_char :: char \<Rightarrow> nat) s)" using unat_of_char [of c] by force
    with utf8_scalars_ascii_byte [OF cs] have "0 \<in> set cs" by simp
    with assms(1) cs show False by (auto simp: text_ok_def str_chars_def dest: nul_is_control)
  qed
  then show ?thesis using assms by (simp add: set_unique_text_def from_utf8_as_bytes text_ok_def) (simp add: as_bytes_def)
qed

lemma nested_text:
  assumes "text_ok t" "text_utf8 t"
  shows "ssl_version m = None \<Longrightarrow> tlv_fold (decode_ssl_nested x509) m (text_tlv 0x21 t) = Inr (m\<lparr>ssl_version := t\<rparr>)"
    "ssl_common_name m = None \<Longrightarrow> tlv_fold (decode_ssl_nested x509) m (text_tlv 0x22 t) = Inr (m\<lparr>ssl_common_name := t\<rparr>)"
    "ssl_cipher_suite m = None \<Longrightarrow> tlv_fold (decode_ssl_nested x509) m (text_tlv 0x23 t) = Inr (m\<lparr>ssl_cipher_suite := t\<rparr>)"
    "ssl_certificate_signature_algorithm m = None \<Longrightarrow>
      tlv_fold (decode_ssl_nested x509) m (text_tlv 0x24 t) = Inr (m\<lparr>ssl_certificate_signature_algorithm := t\<rparr>)"
    "ssl_certificate_key_algorithm m = None \<Longrightarrow>
      tlv_fold (decode_ssl_nested x509) m (text_tlv 0x25 t) = Inr (m\<lparr>ssl_certificate_key_algorithm := t\<rparr>)"
    "ssl_key_exchange_group m = None \<Longrightarrow>
      tlv_fold (decode_ssl_nested x509) m (text_tlv 0x26 t) = Inr (m\<lparr>ssl_key_exchange_group := t\<rparr>)"
    "ssl_signature_scheme m = None \<Longrightarrow> tlv_fold (decode_ssl_nested x509) m (text_tlv 0x27 t) = Inr (m\<lparr>ssl_signature_scheme := t\<rparr>)"
  using assms by (cases t; simp add: text_tlv_def decode_ssl_nested_def set_unique_text_ok text_utf8_def)+

lemma nested_cert:
  assumes "case c of None \<Rightarrow> True | Some der \<Rightarrow> from_der x509 der = Inr der" "ssl_certificate m = None"
  shows "tlv_fold (decode_ssl_nested x509) m (cert_tlv c) = Inr (m\<lparr>ssl_certificate := c\<rparr>)"
  using assms by (cases c) (simp_all add: cert_tlv_def decode_ssl_nested_def)

text \<open>
  What Rust guarantees of the value by its types: every text is UTF-8 and a certificate was built by
  \<open>from_der\<close>.
\<close>

definition ssl_wf :: "(bytes \<Rightarrow> bool) \<Rightarrow> ProxyProtocolSslMetadata \<Rightarrow> bool" where
  "ssl_wf x509 m \<longleftrightarrow>
     text_utf8 (ssl_version m) \<and> text_utf8 (ssl_common_name m) \<and> text_utf8 (ssl_cipher_suite m) \<and>
     text_utf8 (ssl_certificate_signature_algorithm m) \<and> text_utf8 (ssl_certificate_key_algorithm m) \<and>
     text_utf8 (ssl_key_exchange_group m) \<and> text_utf8 (ssl_signature_scheme m) \<and>
     (case ssl_certificate m of None \<Rightarrow> True | Some der \<Rightarrow> from_der x509 der = Inr der)"

definition ssl_texts_ok :: "ProxyProtocolSslMetadata \<Rightarrow> bool" where
  "ssl_texts_ok m \<longleftrightarrow>
     text_ok (ssl_version m) \<and> text_ok (ssl_common_name m) \<and> text_ok (ssl_cipher_suite m) \<and>
     text_ok (ssl_certificate_signature_algorithm m) \<and> text_ok (ssl_certificate_key_algorithm m) \<and>
     text_ok (ssl_key_exchange_group m) \<and> text_ok (ssl_signature_scheme m)"

definition projected :: "bool \<Rightarrow> ProxyProtocolSslMetadata \<Rightarrow> ProxyProtocolSslMetadata" where
  "projected include_certificate m = (if include_certificate then m else m\<lparr>ssl_certificate := None\<rparr>)"

definition ssl_value :: "ProxyProtocolSslMetadata \<Rightarrow> bytes" where
  "ssl_value m = [ssl_client m] @ be_bytes 4 (unat (ssl_verify m)) @ concat (map tlv_bytes (ssl_tlvs m))"

lemma encode_ssl_tlv_Inr:
  assumes "encode_ssl_tlv m inc = Inr out"
  shows "ssl_texts_ok m" "short_tlvs (ssl_tlvs (projected inc m))"
    "out = tlv_bytes (PP2_TYPE_SSL, ssl_value (projected inc m))" "length (ssl_value (projected inc m)) < 65536"
proof -
  let ?m = "projected inc m"
  from assms obtain val where val: "encode_tlv [] PP2_TYPE_SSL val = Inr out"
      "ssl_texts_ok m \<and> short_tlvs (ssl_tlvs ?m) \<and> val = ssl_value ?m"
    unfolding encode_ssl_tlv_def bindE_eq_Inr encode_optional_text_Inr
    by (cases inc; cases "ssl_certificate m")
      (auto simp: ssl_texts_ok_def ssl_tlvs_def projected_def short_tlvs_def ssl_value_def encode_tlv_def cert_tlv_def
        tlv_bytes_def split: if_splits)
  then show "ssl_texts_ok m" "short_tlvs (ssl_tlvs ?m)" "out = tlv_bytes (PP2_TYPE_SSL, ssl_value ?m)" "length (ssl_value ?m) < 65536"
    by (auto simp: encode_tlv_def tlv_bytes_def split: if_splits)
qed

lemma decode_ssl_value:
  assumes "ssl_wf x509 m" "ssl_texts_ok m" "short_tlvs (ssl_tlvs m)" "length (ssl_value m) < 65536"
  shows "decode_ssl_tlv x509 (ssl_value m) = Inr m"
proof -
  let ?pre = "[ssl_client m] @ be_bytes 4 (unat (ssl_verify m))"
  let ?m0 = "\<lparr>ssl_client = ssl_client m, ssl_verify = ssl_verify m,
         ssl_version = None, ssl_common_name = None, ssl_cipher_suite = None,
         ssl_certificate_signature_algorithm = None, ssl_certificate_key_algorithm = None,
         ssl_key_exchange_group = None, ssl_signature_scheme = None, ssl_certificate = None\<rparr>"
  have pre: "length ?pre = 5" by (simp add: byte_simps)
  have v: "ssl_value m = ?pre @ concat (map tlv_bytes (ssl_tlvs m))" by (simp add: ssl_value_def)
  have verify: "word_from_be (be_bytes 4 (unat (ssl_verify m))) = ssl_verify m" by (rule word_from_be_be_bytes) simp
  have fold: "tlv_fold (decode_ssl_nested x509) ?m0 (ssl_tlvs m) = Inr m"
    using assms(1,2) unfolding ssl_tlvs_def ssl_wf_def ssl_texts_ok_def
    by (simp add: tlv_fold_append nested_text nested_cert)
  have "decode_ssl_loop x509 (ssl_value m) 5 ?m0 = Inr m"
    using decode_ssl_loop_tlvs [of "ssl_tlvs m" ?pre x509 ?m0] assms(3,4) fold pre by (simp add: v)
  moreover have "ssl_value m ! 0 = ssl_client m" "5 \<le> length (ssl_value m)"
      "[ssl_value m ! 1, ssl_value m ! 2, ssl_value m ! 3, ssl_value m ! 4] = be_bytes 4 (unat (ssl_verify m))"
    unfolding v by (simp_all add: be_bytes_4)
  ultimately show ?thesis using verify by (simp add: decode_ssl_tlv_def)
qed

lemma ssl_tlv_decoded:
  assumes "encode_ssl_tlv m inc = Inr out" "ssl_wf x509 m"
  shows "decode_ssl_tlvs x509 out = Inr (Some (projected inc m))"
proof -
  note enc = encode_ssl_tlv_Inr [OF assms(1)]
  let ?m = "projected inc m"
  have wf: "ssl_wf x509 ?m" "ssl_texts_ok ?m" using assms(2) enc(1) by (simp_all add: projected_def ssl_wf_def ssl_texts_ok_def)
  have dec: "decode_ssl_tlv x509 (ssl_value ?m) = Inr ?m" using decode_ssl_value [OF wf enc(2,4)] .
  have read: "read_tlv out 0 = Inr (PP2_TYPE_SSL, ssl_value ?m, length out)"
    using read_tlv_bytes [of "(PP2_TYPE_SSL, ssl_value ?m)" "[]" "[]"] enc(3,4) by (simp add: length_tlv_bytes)
  have "0 < length out" using enc(3) by (simp add: length_tlv_bytes)
  then show ?thesis
    unfolding decode_ssl_tlvs_def using read dec
    by (subst decode_ssl_tlvs_loop.simps) (simp add: decode_ssl_tlvs_loop.simps)
qed

section \<open>Headers are read back\<close>

definition same_family :: "SocketAddr \<Rightarrow> SocketAddr \<Rightarrow> bool" where
  "same_family source destination \<longleftrightarrow> is_ipv4 source = is_ipv4 destination"

definition address_bytes :: "SocketAddr \<Rightarrow> SocketAddr \<Rightarrow> bytes" where
  "address_bytes source destination =
     (case sock_ip source of V4 ip \<Rightarrow> be_bytes 4 (unat ip) | V6 ip \<Rightarrow> be_bytes 16 (unat ip)) @
     (case sock_ip destination of V4 ip \<Rightarrow> be_bytes 4 (unat ip) | V6 ip \<Rightarrow> be_bytes 16 (unat ip)) @
     be_bytes 2 (unat (sock_port source)) @ be_bytes 2 (unat (sock_port destination))"

definition framed :: "SocketAddr \<Rightarrow> SocketAddr \<Rightarrow> bytes \<Rightarrow> bytes" where
  "framed source destination tlv =
     V2_SIGNATURE @ [0x21, if is_ipv4 source then 0x11 else 0x21] @
     be_bytes 2 (length (address_bytes source destination @ tlv)) @ address_bytes source destination @ tlv"

lemma length_signature [simp]: "length V2_SIGNATURE = 12"
  by (simp add: V2_SIGNATURE_def)

lemma address_bytes_length:
  "same_family source destination \<Longrightarrow> length (address_bytes source destination) = (if is_ipv4 source then 12 else 36)"
  by (auto simp: same_family_def address_bytes_def byte_simps split: IpAddr.splits)

lemma v2_header_framed: "same_family source destination \<Longrightarrow> v2_header source destination = framed source destination []"
  by (auto simp: same_family_def v2_header_def framed_def address_bytes_def byte_simps Let_def split: IpAddr.splits)

definition v2_metadata :: "SocketAddr \<Rightarrow> SocketAddr \<Rightarrow> ProxyProtocolSslMetadata option \<Rightarrow> ProxyProtocolMetadata" where
  "v2_metadata source destination ssl =
     \<lparr>pm_version = V2, pm_source = source, pm_destination = Some destination, pm_ssl = ssl\<rparr>"

lemma parse_v2_payload_framed:
  assumes "same_family source destination"
  shows "parse_v2_payload x509 0x21 (if is_ipv4 source then 0x11 else 0x21) (address_bytes source destination @ tlv) tlvs =
    bindE (if tlvs then decode_ssl_tlvs x509 tlv else Inr None) (\<lambda>ssl.
      Inr (source, if tlvs then Some (v2_metadata source destination ssl) else None))"
proof (cases "sock_ip source"; cases "sock_ip destination")
  fix s d assume ips: "sock_ip source = V4 s" "sock_ip destination = V4 d"
  define p where "p = address_bytes source destination @ tlv"
  have w: "word_from_be (be_bytes 4 (unat s)) = s" "word_from_be (be_bytes 4 (unat d)) = d"
      "word_from_be (be_bytes 2 (unat q)) = q" for q :: u16
    by (rule word_from_be_be_bytes; simp)+
  have at: "[p ! 0, p ! 1, p ! 2, p ! 3] = be_bytes 4 (unat s)" "[p ! 4, p ! 5, p ! 6, p ! 7] = be_bytes 4 (unat d)"
      "[p ! 8, p ! 9] = be_bytes 2 (unat (sock_port source))" "[p ! 10, p ! 11] = be_bytes 2 (unat (sock_port destination))"
    by (simp_all add: p_def address_bytes_def ips be_bytes_4 be_bytes_2)
  have len: "drop 12 p = tlv" "12 \<le> length p" using address_bytes_length [OF assms] ips by (simp_all add: p_def)
  have addr: "\<lparr>sock_ip = V4 s, sock_port = sock_port source\<rparr> = source" "\<lparr>sock_ip = V4 d, sock_port = sock_port destination\<rparr> = destination"
    using ips by (simp_all add: SocketAddr.equality)
  show ?thesis
    unfolding p_def [symmetric] parse_v2_payload_def at w addr using ips len by (simp add: v2_metadata_def)
next
  fix s d assume ips: "sock_ip source = V6 s" "sock_ip destination = V6 d"
  define p where "p = address_bytes source destination @ tlv"
  have w: "word_from_be (be_bytes 16 (unat s)) = s" "word_from_be (be_bytes 16 (unat d)) = d"
      "word_from_be (be_bytes 2 (unat q)) = q" for q :: u16
    by (rule word_from_be_be_bytes; simp)+
  have sl: "slice 0 16 p = be_bytes 16 (unat s)" "slice 16 32 p = be_bytes 16 (unat d)"
    by (simp_all add: p_def address_bytes_def ips slice_def byte_simps)
  have len: "drop 36 p = tlv" "36 \<le> length p" using address_bytes_length [OF assms] ips by (simp_all add: p_def)
  have "drop 32 p = be_bytes 2 (unat (sock_port source)) @ be_bytes 2 (unat (sock_port destination)) @ tlv"
    by (simp add: p_def address_bytes_def ips byte_simps)
  then have at: "[p ! 32, p ! 33] = be_bytes 2 (unat (sock_port source))" "[p ! 34, p ! 35] = be_bytes 2 (unat (sock_port destination))"
    using nth_drop [of 32 p 0] nth_drop [of 32 p 1] nth_drop [of 32 p 2] nth_drop [of 32 p 3] len(2)
    by (simp_all add: be_bytes_2)
  have addr: "\<lparr>sock_ip = V6 s, sock_port = sock_port source\<rparr> = source" "\<lparr>sock_ip = V6 d, sock_port = sock_port destination\<rparr> = destination"
    using ips by (simp_all add: SocketAddr.equality)
  show ?thesis
    unfolding p_def [symmetric] parse_v2_payload_def at sl w addr using ips len by (simp add: v2_metadata_def)
qed (use assms in \<open>simp_all add: same_family_def\<close>)

lemma read_v2_after_signature_framed:
  assumes "same_family source destination" "length (address_bytes source destination @ tlv) < 65536"
  shows "read_v2_after_signature x509 (drop 12 (framed source destination tlv) @ rest) tlvs =
    bindE (if tlvs then decode_ssl_tlvs x509 tlv else Inr None) (\<lambda>ssl.
      Inr ((source, if tlvs then Some (v2_metadata source destination ssl) else None), rest))"
proof -
  let ?p = "address_bytes source destination @ tlv"
  let ?n = "length ?p"
  let ?tail = "[0x21, if is_ipv4 source then 0x11 else 0x21] @ be_bytes 2 ?n"
  have "drop 12 (framed source destination tlv) @ rest = ?tail @ ?p @ rest" by (simp add: framed_def)
  moreover have "read_exact msg 4 (?tail @ ?p @ rest) = Inr (?tail, ?p @ rest)" for msg
    by (simp add: read_exact_def byte_simps)
  moreover have "unat (word_from_be [?tail ! 2, ?tail ! 3] :: u16) = ?n"
    using unat_be_pair [OF assms(2)] by (simp only: be_bytes_2) simp
  moreover have "read_exact msg ?n (?p @ rest) = Inr (?p, rest)" for msg by (simp add: read_exact_def)
  ultimately show ?thesis
    using parse_v2_payload_framed [OF assms(1), of x509 tlv tlvs]
    by (simp only: read_v2_after_signature_def length_signature) (simp add: bindE_assoc)
qed

lemma read_v2_framed:
  assumes "same_family source destination" "length (address_bytes source destination @ tlv) < 65536"
  shows "read_v2 x509 (framed source destination tlv @ rest) tlvs =
    bindE (if tlvs then decode_ssl_tlvs x509 tlv else Inr None) (\<lambda>ssl.
      Inr ((source, if tlvs then Some (v2_metadata source destination ssl) else None), rest))"
proof -
  have "read_exact msg 12 (framed source destination tlv @ rest) = Inr (V2_SIGNATURE, drop 12 (framed source destination tlv) @ rest)" for msg
    by (simp add: read_exact_def framed_def)
  then show ?thesis using read_v2_after_signature_framed [OF assms, of x509 rest tlvs] by (simp add: read_v2_def)
qed

lemma read_any_framed:
  assumes "same_family source destination" "length (address_bytes source destination @ tlv) < 65536"
  shows "read_any_with_metadata x509 (framed source destination tlv @ rest) =
    bindE (decode_ssl_tlvs x509 tlv) (\<lambda>ssl. Inr ((source, Some (v2_metadata source destination ssl)), rest))"
proof -
  have "read_exact msg 12 (framed source destination tlv @ rest) = Inr (V2_SIGNATURE, drop 12 (framed source destination tlv) @ rest)" for msg
    by (simp add: read_exact_def framed_def)
  then show ?thesis
    using read_v2_after_signature_framed [OF assms, of x509 rest True] by (simp add: read_any_with_metadata_def)
qed

lemma prepare_framed:
  assumes "prepare sha256 config evidence client = Inr header"
  obtains metadata destination ssl tlv where
    "(case pt_source config of LocalTls \<Rightarrow> te_local evidence | ReceivedProxy \<Rightarrow> te_received evidence) = Some metadata"
    "pm_destination metadata = Some destination" "pm_ssl metadata = Some ssl"
    "sock_ip (pm_source metadata) = sock_ip client" "same_family (pm_source metadata) destination"
    "encode_ssl_tlv ssl (pt_client_certificate config) = Inr tlv"
    "ph_bytes header = framed (pm_source metadata) destination tlv"
    "length (address_bytes (pm_source metadata) destination @ tlv) < 65536"
proof -
  from assms obtain metadata destination ssl tlv where
    m: "(case pt_source config of LocalTls \<Rightarrow> te_local evidence | ReceivedProxy \<Rightarrow> te_received evidence) = Some metadata"
    and d: "pm_destination metadata = Some destination" "pm_ssl metadata = Some ssl"
      "sock_ip (pm_source metadata) = sock_ip client" "is_ipv4 (pm_source metadata) = is_ipv4 destination"
      "encode_ssl_tlv ssl (pt_client_certificate config) = Inr tlv"
    and len: "length (v2_header (pm_source metadata) destination) - 16 + length tlv < 65536"
    and bs: "ph_bytes header = take 14 (v2_header (pm_source metadata) destination) @
       be_bytes 2 (length (v2_header (pm_source metadata) destination) - 16 + length tlv) @
       drop 16 (v2_header (pm_source metadata) destination) @ tlv"
    unfolding prepare_def
    by (auto simp: result_simps Let_def split: ProxyProtocolTlsSource.splits if_splits)
  from d(4) have fam: "same_family (pm_source metadata) destination" by (simp add: same_family_def)
  let ?a = "address_bytes (pm_source metadata) destination"
  have vh: "v2_header (pm_source metadata) destination =
      (V2_SIGNATURE @ [0x21, if is_ipv4 (pm_source metadata) then 0x11 else 0x21]) @ be_bytes 2 (length ?a) @ ?a"
    by (simp only: v2_header_framed [OF fam] framed_def append_Nil2 append_assoc)
  have "length (v2_header (pm_source metadata) destination) - 16 = length ?a" by (simp add: vh byte_simps)
  with bs have "ph_bytes header = framed (pm_source metadata) destination tlv" "length (?a @ tlv) < 65536"
    using len by (simp_all add: vh framed_def byte_simps)
  with m d fam show ?thesis by (intro that) auto
qed

section \<open>Version 1 lines\<close>

lemma read_v1_line_all:
  assumes "0x0A \<notin> set xs" "length pre + length xs < 107" "pre = [] \<or> last pre \<noteq> 0x0A"
  shows "read_v1_line pre (xs @ 0x0A # rest) = Inr (pre @ xs @ [0x0A], rest)"
  using assms
proof (induction xs arbitrary: pre)
  case Nil
  then show ?case by (simp add: read_v1_line.simps)
next
  case (Cons a xs)
  have "read_v1_line pre ((a # xs) @ 0x0A # rest) = read_v1_line (pre @ [a]) (xs @ 0x0A # rest)"
    using Cons.prems by (subst read_v1_line.simps) auto
  also have "\<dots> = Inr ((pre @ [a]) @ xs @ [0x0A], rest)" using Cons.prems by (intro Cons.IH) auto
  finally show ?case by simp
qed

lemma piece_words_word:
  "\<forall>c \<in> set w. \<not> char_is_whitespace (of_char c) \<Longrightarrow>
   piece_words (map (\<lambda>c. (of_char c, [c])) w @ ps) acc = piece_words ps (acc @ w)"
  by (induction w arbitrary: acc) simp_all

definition plain_word :: "string \<Rightarrow> bool" where
  "plain_word w \<longleftrightarrow> w \<noteq> [] \<and> is_ascii w \<and> (\<forall>c \<in> set w. \<not> char_is_whitespace (of_char c))"

lemma split_whitespace_join:
  assumes "\<forall>w \<in> set ws. plain_word w"
  shows "split_whitespace (str_join '' '' ws) = ws" "is_ascii (str_join '' '' ws)"
proof -
  have "is_ascii (str_join '' '' ws) \<and> piece_words (map (\<lambda>c. (of_char c, [c])) (str_join '' '' ws)) [] = ws"
    using assms
  proof (induction "'' ''" ws rule: str_join.induct)
    case 1
    then show ?case by (simp add: is_ascii_def)
  next
    case (2 x)
    then show ?case using piece_words_word [of x "[]" "[]"] by (simp add: plain_word_def)
  next
    case (3 x y ys)
    then show ?case
      using piece_words_word [of x "(32, '' '') # map (\<lambda>c. (of_char c, [c])) (str_join '' '' (y # ys))" "[]"]
      by (simp add: plain_word_def is_ascii_def char_is_whitespace_def)
  qed
  then show "split_whitespace (str_join '' '' ws) = ws" "is_ascii (str_join '' '' ws)"
    by (simp_all add: split_whitespace_def str_pieces_ascii)
qed

definition v1_words :: "32 word \<Rightarrow> 32 word \<Rightarrow> u16 \<Rightarrow> u16 \<Rightarrow> string list" where
  "v1_words s d p q = [''PROXY'', ''TCP4'', ipv4_string s, ipv4_string d, dec_string (unat p), dec_string (unat q)]"

lemma digit_word_plain: "\<forall>c \<in> set w. is_ascii_digit c \<or> c = CHR ''.'' \<Longrightarrow> w \<noteq> [] \<Longrightarrow> plain_word w"
  unfolding plain_word_def is_ascii_def list_all_iff by (fastforce simp: is_ascii_digit_def char_is_whitespace_def)

lemma ipv4_string_nonempty: "ipv4_string ip \<noteq> []"
  by (simp add: ipv4_string_def ipv4_octets_def be_bytes_4)

lemma v1_words_plain: "\<forall>w \<in> set (v1_words s d p q). plain_word w"
proof -
  have "plain_word (dec_string n)" for n using dec_string_digits [of n] by (intro digit_word_plain) (auto simp: list_all_iff)
  moreover have "plain_word (ipv4_string ip)" for ip using ipv4_string_chars by (intro digit_word_plain ipv4_string_nonempty) blast
  ultimately show ?thesis by (simp add: v1_words_def plain_word_def is_ascii_def char_is_whitespace_def)
qed

lemma dec_string_length_u16: "n < 65536 \<Longrightarrow> length (dec_string n) \<le> 5"
  by (simp add: dec_string.simps [of n] dec_string.simps [of "n div 10"] dec_string.simps [of "n div 10 div 10"]
      dec_string.simps [of "n div 10 div 10 div 10"] dec_string.simps [of "n div 10 div 10 div 10 div 10"])

lemma ipv4_string_length: "length (ipv4_string ip) \<le> 15"
proof -
  have oct: "length (dec_string (unat b)) \<le> 3" for b :: u8
    using unsigned_less [of b, where ?'a = nat] by (intro dec_string_length) simp
  obtain a b c d where "be_bytes 4 (unat ip) = [a, b, c, d]" by (simp add: be_bytes_4)
  then show ?thesis using oct [of a] oct [of b] oct [of c] oct [of d] by (simp add: ipv4_string_def ipv4_octets_def)
qed

lemma v1_words_length: "length (str_join '' '' (v1_words s d p q)) \<le> 55"
proof -
  have "length (dec_string (unat w)) \<le> 5" for w :: u16
    using unsigned_less [of w, where ?'a = nat] by (intro dec_string_length_u16) simp
  from this [of p] this [of q] ipv4_string_length [of s] ipv4_string_length [of d] show ?thesis by (simp add: v1_words_def)
qed

lemma v1_header_words:
  assumes "sock_ip source = V4 s" "sock_ip destination = V4 d"
  shows "v1_header source destination =
    as_bytes (str_join '' '' (v1_words s d (sock_port source) (sock_port destination))) @ [0x0D, 0x0A]"
  using assms by (simp add: v1_header_def v1_words_def Let_def)

lemma trim_crlf:
  assumes "is_ascii s" "s \<noteq> []" "(of_char (last s) :: nat) \<noteq> 13 \<and> (of_char (last s) :: nat) \<noteq> 10"
  shows "str_trim_end_matches (\<lambda>c. c = 13 \<or> c = 10) (s @ [CHR 0x0D, CHR 0x0A]) = s"
proof -
  have "is_ascii (s @ [CHR 0x0D, CHR 0x0A])" using assms(1) by (simp add: is_ascii_def)
  moreover obtain t c where "s = t @ [c]" using assms(2) by (metis append_butlast_last_id)
  ultimately show ?thesis using assms(3) by (simp add: str_trim_end_matches_def str_pieces_ascii comp_def)
qed

lemma read_v1_header:
  assumes "sock_ip source = V4 s" "sock_ip destination = V4 d"
  shows "read_v1 (v1_header source destination @ rest) = Inr (source, rest)"
proof -
  let ?ws = "v1_words s d (sock_port source) (sock_port destination)"
  let ?line = "str_join '' '' ?ws"
  note plain = split_whitespace_join [OF v1_words_plain [of s d "sock_port source" "sock_port destination"]]
  have chars: "c \<in> set ?line \<Longrightarrow> c = CHR '' '' \<or> (\<exists>w \<in> set ?ws. c \<in> set w)" for c by (auto simp: v1_words_def)
  have nl: "(of_char c :: nat) \<noteq> 13 \<and> (of_char c :: nat) \<noteq> 10" if "c \<in> set ?line" for c
  proof -
    have "c = CHR '' '' \<or> \<not> char_is_whitespace (of_char c)"
      using chars [OF that] v1_words_plain [of s d "sock_port source" "sock_port destination"] unfolding plain_word_def by blast
    then show ?thesis by (auto simp: char_is_whitespace_def)
  qed
  have "0x0A \<notin> set (as_bytes ?line @ [0x0D])"
  proof
    assume "0x0A \<in> set (as_bytes ?line @ [0x0D])"
    then obtain c where "c \<in> set ?line" "(of_char c :: u8) = 0x0A" by (auto simp: as_bytes_def)
    then show False using nl [of c] unat_of_char [of c] by simp
  qed
  then have line: "read_v1_line [] (v1_header source destination @ rest) = Inr (as_bytes ?line @ [0x0D, 0x0A], rest)"
    using read_v1_line_all [of "as_bytes ?line @ [0x0D]" "[]" rest] v1_words_length [of s d "sock_port source" "sock_port destination"]
    by (simp add: v1_header_words [OF assms])
  have "as_bytes ?line @ [0x0D, 0x0A] = as_bytes (?line @ [CHR 0x0D, CHR 0x0A])" by (simp add: as_bytes_def)
  moreover have "is_utf8 (?line @ [CHR 0x0D, CHR 0x0A])" using plain(2) by (intro is_utf8_ascii) (simp add: is_ascii_def)
  ultimately have utf8: "from_utf8 (as_bytes ?line @ [0x0D, 0x0A]) = Some (?line @ [CHR 0x0D, CHR 0x0A])"
    by (simp only: from_utf8_as_bytes)
  have "?line \<noteq> []" by (simp add: v1_words_def)
  then have trim: "str_trim_end_matches (\<lambda>c. c = 13 \<or> c = 10) (?line @ [CHR 0x0D, CHR 0x0A]) = ?line"
    using nl [of "last ?line"] last_in_set [of ?line] plain(2) by (intro trim_crlf) auto
  have port: "parse_unsigned 65536 (dec_string (unat (sock_port source))) = Some (unat (sock_port source))"
    using parse_unsigned_digits [OF dec_string_digits dec_string_nonempty] unsigned_less [of "sock_port source", where ?'a = nat] by simp
  have src: "\<lparr>sock_ip = V4 s, sock_port = sock_port source\<rparr> = source" using assms(1) by (simp add: SocketAddr.equality)
  show ?thesis
    unfolding read_v1_def read_v1_with_prefix_def
    using line utf8 trim plain(1) port src by (simp add: Let_def v1_words_def parse_ipv4_string)
qed

section \<open>What is accepted\<close>

text \<open>
  What is read before the payload, and the source it names.  A version 1 header is a line of at most 107 bytes, whose first
  twelve bytes are not searched for its end when they were read to tell the versions apart.  A version 2 header has the signature,
  four bytes that declare a length, and that many bytes, which start with the address block; the TLVs come after it.
\<close>

definition v1_accepted :: "bytes \<Rightarrow> SocketAddr \<Rightarrow> bool" where
  "v1_accepted header source \<longleftrightarrow>
     header \<noteq> [] \<and> length header \<le> 107 \<and> last header = 0x0A \<and> 0x0A \<notin> set (drop 12 (butlast header)) \<and>
     (case from_utf8 header of
        None \<Rightarrow> False
      | Some line \<Rightarrow>
          (let parts = split_whitespace (str_trim_end_matches (\<lambda>c. c = 13 \<or> c = 10) line) in
           length parts = 6 \<and> parts ! 0 = ''PROXY'' \<and> parse_ip_addr (parts ! 2) = Some (sock_ip source) \<and>
           parse_unsigned 65536 (parts ! 4) = Some (unat (sock_port source))))"

definition block_source :: "u8 \<Rightarrow> bytes \<Rightarrow> SocketAddr option" where
  "block_source family_transport payload =
     (if drop_bit 4 family_transport = 1 \<and> 12 \<le> length payload
      then Some \<lparr>sock_ip = V4 (word_from_be (take 4 payload)), sock_port = word_from_be (take 2 (drop 8 payload))\<rparr>
      else if drop_bit 4 family_transport = 2 \<and> 36 \<le> length payload
      then Some \<lparr>sock_ip = V6 (word_from_be (take 16 payload)), sock_port = word_from_be (take 2 (drop 32 payload))\<rparr>
      else None)"

definition v2_accepted :: "bytes \<Rightarrow> SocketAddr \<Rightarrow> bool" where
  "v2_accepted header source \<longleftrightarrow>
     take 12 header = V2_SIGNATURE \<and> 16 \<le> length header \<and>
     length header = 16 + unat (word_from_be [header ! 14, header ! 15] :: u16) \<and>
     block_source (header ! 13) (drop 16 header) = Some source"

lemma parse_unsigned_less: "parse_unsigned bound s = Some n \<Longrightarrow> n < bound"
  by (auto simp: parse_unsigned_def Let_def split: if_splits option.splits list.splits)

lemma take_nths:
  "4 \<le> length xs \<Longrightarrow> take 4 xs = [xs ! 0, xs ! 1, xs ! 2, xs ! 3]"
  "n + 2 \<le> length xs \<Longrightarrow> take 2 (drop n xs) = [xs ! n, xs ! (n + 1)]"
proof -
  show "4 \<le> length xs \<Longrightarrow> take 4 xs = [xs ! 0, xs ! 1, xs ! 2, xs ! 3]"
    by (rule nth_equalityI) (auto simp: nth_Cons numeral_eq_Suc less_Suc_eq split: nat.split)
  show "n + 2 \<le> length xs \<Longrightarrow> take 2 (drop n xs) = [xs ! n, xs ! (n + 1)]"
    by (rule nth_equalityI) (auto simp: nth_Cons numeral_eq_Suc less_Suc_eq split: nat.split)
qed

lemma drop_last: "a \<notin> set (drop n (butlast line)) \<Longrightarrow> line = [] \<or> last line \<noteq> a \<Longrightarrow> a \<notin> set (drop n line)"
  by (cases line rule: rev_cases) (auto dest: in_set_dropD)

lemma read_v1_line_Inr:
  "read_v1_line line stream = Inr (line', rest) \<Longrightarrow> 0x0A \<notin> set (drop 12 (butlast line)) \<Longrightarrow>
     \<exists>xs. stream = xs @ rest \<and> line' = line @ xs \<and> line' \<noteq> [] \<and> length line' \<le> 107 \<and> last line' = 0x0A \<and>
       0x0A \<notin> set (drop 12 (butlast line'))"
proof (induction line stream rule: read_v1_line.induct)
  case (1 line stream)
  show ?case
  proof (cases "length line > 107 \<or> line \<noteq> [] \<and> last line = 0x0A")
    case True
    then show ?thesis using "1.prems" by (subst (asm) read_v1_line.simps) (auto split: if_splits)
  next
    case False
    with "1.prems"(1) obtain b s where s: "stream = b # s" "read_v1_line (line @ [b]) s = Inr (line', rest)"
      by (subst (asm) read_v1_line.simps) (auto split: list.splits)
    have "0x0A \<notin> set (drop 12 (butlast (line @ [b])))" using drop_last [OF "1.prems"(2)] False by simp
    with "1.IH" [OF _ _ s(1) s(2)] False s(1) show ?thesis by auto
  qed
qed

lemma read_exact_Inr: "read_exact msg n stream = Inr (a, rest) \<Longrightarrow> stream = a @ rest \<and> length a = n"
  by (auto simp: read_exact_def split: if_splits)

lemma read_v1_with_prefix_accepted:
  assumes "read_v1_with_prefix start stream = Inr (source, rest)" "length start \<le> 12"
  shows "\<exists>header. start @ stream = header @ rest \<and> v1_accepted header source"
proof -
  have start: "0x0A \<notin> set (drop 12 (butlast start))" using assms(2) by simp
  from assms(1) obtain line where line: "read_v1_line start stream = Inr (line, rest)"
    by (auto simp: read_v1_with_prefix_def result_simps Let_def split: if_splits)
  obtain xs where xs: "stream = xs @ rest" "line = start @ xs" "line \<noteq> []" "length line \<le> 107" "last line = 0x0A"
      "0x0A \<notin> set (drop 12 (butlast line))"
    using read_v1_line_Inr [OF line start] by blast
  have "v1_accepted line source"
    using assms(1) line xs(3-6) parse_unsigned_less
    by (auto simp: v1_accepted_def read_v1_with_prefix_def result_simps Let_def unat_of_nat split: if_splits option.splits)
  then show ?thesis using xs(1,2) by auto
qed

lemma parse_v2_payload_source:
  assumes "parse_v2_payload x509 vc ft payload tlvs = Inr (source, metadata)"
  shows "block_source ft payload = Some source" "case metadata of None \<Rightarrow> \<not> tlvs | Some m \<Rightarrow> tlvs \<and> pm_source m = source"
  using assms unfolding parse_v2_payload_def block_source_def
  by (auto simp: result_simps slice_def take_nths split: if_splits prod.splits)

lemma read_v2_after_signature_accepted:
  assumes "read_v2_after_signature x509 stream tlvs = Inr ((source, metadata), rest)"
  shows "\<exists>header. V2_SIGNATURE @ stream = header @ rest \<and> v2_accepted header source"
    and "case metadata of None \<Rightarrow> \<not> tlvs | Some m \<Rightarrow> tlvs \<and> pm_source m = source"
proof -
  from assms obtain tail s payload where
    t: "read_exact ''failed to read PROXY protocol v2 header'' 4 stream = Inr (tail, s)"
    and p: "read_exact ''failed to read PROXY protocol v2 payload'' (unat (word_from_be [tail ! 2, tail ! 3] :: u16)) s = Inr (payload, rest)"
    and r: "parse_v2_payload x509 (tail ! 0) (tail ! 1) payload tlvs = Inr (source, metadata)"
    by (auto simp: read_v2_after_signature_def result_simps)
  note tail = read_exact_Inr [OF t] and payload = read_exact_Inr [OF p]
  have sig: "length V2_SIGNATURE = 12" by (simp add: V2_SIGNATURE_def)
  have "v2_accepted (V2_SIGNATURE @ tail @ payload) source"
    using tail payload parse_v2_payload_source(1) [OF r] by (simp add: v2_accepted_def sig nth_append)
  then show "\<exists>header. V2_SIGNATURE @ stream = header @ rest \<and> v2_accepted header source"
    using tail payload by (intro exI [of _ "V2_SIGNATURE @ tail @ payload"]) simp
  show "case metadata of None \<Rightarrow> \<not> tlvs | Some m \<Rightarrow> tlvs \<and> pm_source m = source" using parse_v2_payload_source(2) [OF r] .
qed

lemma read_v2_accepted:
  assumes "read_v2 x509 stream tlvs = Inr ((source, metadata), rest)"
  shows "(\<exists>header. stream = header @ rest \<and> v2_accepted header source) \<and>
    (case metadata of None \<Rightarrow> \<not> tlvs | Some m \<Rightarrow> tlvs \<and> pm_source m = source)"
proof -
  from assms obtain s where s: "read_exact ''failed to read PROXY protocol v2 signature'' 12 stream = Inr (V2_SIGNATURE, s)"
      "read_v2_after_signature x509 s tlvs = Inr ((source, metadata), rest)"
    by (auto simp: read_v2_def result_simps split: if_splits)
  then show ?thesis using read_exact_Inr [OF s(1)] read_v2_after_signature_accepted [OF s(2)] by simp
qed

lemma read_any_accepted:
  assumes "read_any_with_metadata x509 stream = Inr ((source, metadata), rest)"
  shows "(\<exists>header. stream = header @ rest \<and> (v1_accepted header source \<or> v2_accepted header source)) \<and>
    (case metadata of None \<Rightarrow> False | Some m \<Rightarrow> pm_source m = source)"
proof -
  from assms obtain start s where s: "read_exact ''failed to read PROXY protocol header'' 12 stream = Inr (start, s)"
    by (auto simp: read_any_with_metadata_def result_simps)
  note start = read_exact_Inr [OF s]
  show ?thesis
  proof (cases "start = V2_SIGNATURE")
    case True
    with assms s have "read_v2_after_signature x509 s True = Inr ((source, metadata), rest)" by (simp add: read_any_with_metadata_def)
    from read_v2_after_signature_accepted [OF this] start True show ?thesis by (auto split: option.splits)
  next
    case False
    with assms s have r: "read_v1_with_prefix start s = Inr (source, rest)"
        "metadata = Some \<lparr>pm_version = V1, pm_source = source, pm_destination = None, pm_ssl = None\<rparr>"
      by (auto simp: read_any_with_metadata_def result_simps)
    from read_v1_with_prefix_accepted [OF r(1)] r(2) start show ?thesis by auto
  qed
qed

text \<open>
  C36.  The listener fails closed.  When the protocol is enabled, a connection is only accepted from a
  peer in a trusted block, and only after one well-formed header of the configured version has been read from it: a
  version 1 line, or a version 2 header of exactly its declared length.  What is handed on is exactly the stream after that
  header.  The source is the one in the address fields of the line or in the address block, whatever TLVs follow it:
  SSL assertions never change it.  Metadata, when there is any, was asked for and names the same source.
\<close>

theorem accept_fails_closed:
  assumes "accept_proxy_header_inner x509 available expired stream peer config timeout = Inr (rest, source, metadata)"
    and "pp_enabled config"
  shows "(\<exists>trusted. trusted_parse (pp_trusted_sources config) = Inr trusted \<and> trusted_contains trusted (sock_ip peer)) \<and>
    (\<exists>header. stream = header @ rest \<and>
      (case pp_version config of
         V1 \<Rightarrow> v1_accepted header source
       | V2 \<Rightarrow> v2_accepted header source
       | Any \<Rightarrow> v1_accepted header source \<or> v2_accepted header source)) \<and>
    (case metadata of None \<Rightarrow> True | Some m \<Rightarrow> pp_tls_tlvs config \<and> timeout \<noteq> None \<and> pm_source m = source)"
proof -
  let ?tlvs = "timeout \<noteq> None \<and> pp_tls_tlvs config"
  let ?v1 = "bindE (read_v1 stream) (\<lambda>(source, stream). Inr ((source, None), stream))"
  from assms obtain trusted where t: "trusted_parse (pp_trusted_sources config) = Inr trusted" "trusted_contains trusted (sock_ip peer)"
    by (auto simp: accept_proxy_header_inner_def result_simps split: if_splits)
  from assms t consider
      (v1) "?v1 = Inr ((source, metadata), rest)" "pp_version config \<noteq> V2"
    | (v2) tlvs where "read_v2 x509 stream tlvs = Inr ((source, metadata), rest)" "tlvs \<longrightarrow> ?tlvs" "pp_version config \<noteq> V1"
    | (any) "read_any_with_metadata x509 stream = Inr ((source, metadata), rest)" ?tlvs "pp_version config = Any"
    by (cases "pp_version config"; cases timeout) (auto simp: accept_proxy_header_inner_def Let_def bindE_eq_Inr split: if_splits)
  then show ?thesis
  proof cases
    case v1
    then have "read_v1_with_prefix [] stream = Inr (source, rest)" "metadata = None" by (auto simp: result_simps read_v1_def)
    with read_v1_with_prefix_accepted [of "[]" stream source rest] t v1(2) show ?thesis by (auto split: ProxyProtocolVersion.split)
  next
    case v2
    from read_v2_accepted [OF v2(1)] v2(2,3) t show ?thesis by (auto split: option.splits ProxyProtocolVersion.split)
  next
    case any
    from read_any_accepted [OF any(1)] any(2,3) t show ?thesis by (auto split: option.splits)
  qed
qed

text \<open>
  C37.  What one instance writes another accepts.  A version 1 header for IPv4 addresses, or a version 2
  header for two addresses of one family, in front of any payload, is accepted from a trusted peer by a
  listener for that version or for any version; the source address is recovered and the payload is left
  untouched.  A listener for any version needs the twelve signature bytes to have arrived for version 2.
\<close>

theorem egress_header_accepted:
  assumes "pp_enabled config" "trusted_parse (pp_trusted_sources config) = Inr trusted" "trusted_contains trusted (sock_ip peer)"
    and "case mode of
           EgressOff \<Rightarrow> False
         | EgressV1 \<Rightarrow> is_ipv4 source \<and> is_ipv4 destination \<and> pp_version config \<noteq> V2
         | EgressV2 \<Rightarrow> is_ipv4 source = is_ipv4 destination \<and>
             (pp_version config = V2 \<or> pp_version config = Any \<and> 12 \<le> available)"
  shows "accept_proxy_header x509 available (write_header [] mode source destination @ payload) peer config = Inr (payload, source)"
proof (cases mode)
  case EgressV1
  with assms(4) obtain s d where ips: "sock_ip source = V4 s" "sock_ip destination = V4 d" by (auto split: IpAddr.splits)
  have "peek_buffer available (v1_header source destination @ payload) \<noteq> V2_SIGNATURE"
  proof
    assume "peek_buffer available (v1_header source destination @ payload) = V2_SIGNATURE"
    then have "hd (peek_buffer available (v1_header source destination @ payload)) = 0x0D" by (simp add: V2_SIGNATURE_def)
    moreover have "hd (replicate 12 (0 :: u8)) = 0" by simp
    ultimately show False
      by (cases available) (simp_all add: peek_buffer_def v1_header_words [OF ips] v1_words_def as_bytes_def)
  qed
  then show ?thesis
    using EgressV1 assms read_v1_header [OF ips, of payload]
    by (cases "pp_version config") (simp_all add: accept_proxy_header_def accept_proxy_header_inner_def)
next
  case EgressV2
  with assms(4) have fam: "same_family source destination" by (simp add: same_family_def)
  have small: "length (address_bytes source destination @ []) < 65536" by (simp add: address_bytes_length [OF fam])
  have "peek_buffer available (framed source destination [] @ payload) = V2_SIGNATURE" if "12 \<le> available"
    using that by (simp add: peek_buffer_def framed_def min_def)
  then show ?thesis
    using EgressV2 assms read_v2_framed [OF fam small, of x509 payload False]
    by (cases "pp_version config") (auto simp: accept_proxy_header_def accept_proxy_header_inner_def v2_header_framed [OF fam])
qed (use assms(4) in simp)

text \<open>
  C38.  TLS evidence survives a hop.  A header prepared from the selected evidence of a connection names
  the effective client, and a listener that takes TLVs from the sending peer recovers the evidence: both
  addresses and every SSL field, without the certificate where the policy leaves it out.
\<close>

theorem prepared_header_accepted:
  assumes "prepare sha256 tls evidence client = Inr header"
    and "(case pt_source tls of LocalTls \<Rightarrow> te_local evidence | ReceivedProxy \<Rightarrow> te_received evidence) = Some metadata"
    and "pm_ssl metadata = Some ssl" "ssl_wf x509 ssl"
    and "pp_enabled config" "pp_tls_tlvs config" "pp_version config \<noteq> V1"
    and "trusted_parse (pp_trusted_sources config) = Inr trusted" "trusted_contains trusted (sock_ip peer)" "\<not> expired timeout"
  shows "sock_ip (pm_source metadata) = sock_ip client \<and>
    accept_proxy_header_with_metadata x509 available expired (ph_bytes header @ payload) peer config timeout =
      Inr (payload, pm_source metadata,
           Some (metadata\<lparr>pm_version := V2, pm_ssl := Some (projected (pt_client_certificate tls) ssl)\<rparr>))"
proof -
  from prepare_framed [OF assms(1)] assms(2,3) obtain destination tlv where
    d: "pm_destination metadata = Some destination" and client: "sock_ip (pm_source metadata) = sock_ip client"
    and fam: "same_family (pm_source metadata) destination"
    and enc: "encode_ssl_tlv ssl (pt_client_certificate tls) = Inr tlv"
    and bs: "ph_bytes header = framed (pm_source metadata) destination tlv"
    and len: "length (address_bytes (pm_source metadata) destination @ tlv) < 65536"
    by (metis option.inject)
  have md: "v2_metadata (pm_source metadata) destination (Some (projected (pt_client_certificate tls) ssl)) =
      metadata\<lparr>pm_version := V2, pm_ssl := Some (projected (pt_client_certificate tls) ssl)\<rparr>"
    using d by (simp add: v2_metadata_def ProxyProtocolMetadata.equality)
  show ?thesis
    using assms(5-10) client bs md ssl_tlv_decoded [OF enc assms(4)] read_v2_framed [OF fam len, of x509 payload True]
      read_any_framed [OF fam len, of x509 payload]
    by (cases "pp_version config") (simp_all add: accept_proxy_header_with_metadata_def accept_proxy_header_inner_def)
qed

section \<open>Witnesses\<close>

definition sample_listener :: ProxyProtocolConfig where
  "sample_listener = \<lparr>pp_enabled = True, pp_version = Any, pp_trusted_sources = [''10.0.0.0/8''], pp_tls_tlvs = True\<rparr>"

definition sample_source :: SocketAddr where
  "sample_source = \<lparr>sock_ip = V4 0xCB00710A, sock_port = 45678\<rparr>"

definition sample_destination :: SocketAddr where
  "sample_destination = \<lparr>sock_ip = V4 0xC000020A, sock_port = 443\<rparr>"

definition sample_ssl :: ProxyProtocolSslMetadata where
  "sample_ssl = \<lparr>ssl_client = 7, ssl_verify = 42, ssl_version = Some ''TLSv1.3'', ssl_common_name = None, ssl_cipher_suite = None,
     ssl_certificate_signature_algorithm = None, ssl_certificate_key_algorithm = None, ssl_key_exchange_group = None,
     ssl_signature_scheme = None, ssl_certificate = Some [0x30]\<rparr>"

definition sample_evidence :: ConnectionTlsEvidence where
  "sample_evidence = \<lparr>te_local = Some (v2_metadata sample_source sample_destination (Some sample_ssl)), te_received = None,
     te_local_capture_failed = False\<rparr>"

lemma sample_listener_trust:
  "trusted_parse (pp_trusted_sources sample_listener) = Inr [\<lparr>cidr_network = V4 0x0A000000, cidr_prefix = 8\<rparr>]"
  "trusted_contains [\<lparr>cidr_network = V4 0x0A000000, cidr_prefix = 8\<rparr>] (sock_ip sample_peer)"
  unfolding sample_listener_def
  by (simp_all only: ProxyProtocolConfig.simps trusted_parse.simps ten_parse bindE_simps)
    (simp add: sample_peer_def sample_contains cidr_literal)

lemma sample_family: "same_family sample_source sample_destination"
  by (simp add: same_family_def sample_source_def sample_destination_def)

theorem accept_fails_closed_witness:
  "accept_proxy_header_inner (\<lambda>_. True) 12 (\<lambda>_. False) (v2_header sample_source sample_destination @ [1, 2]) sample_peer sample_listener None =
     Inr ([1, 2], sample_source, None) \<and>
   (\<exists>header. v2_header sample_source sample_destination @ [1, 2] = header @ [1, 2] \<and>
     (v1_accepted header sample_source \<or> v2_accepted header sample_source))"
proof -
  have "length (address_bytes sample_source sample_destination @ []) < 65536" by (simp add: address_bytes_length [OF sample_family])
  then have "read_v2 (\<lambda>_. True) (v2_header sample_source sample_destination @ [1, 2]) False = Inr ((sample_source, None), [1, 2])"
    using read_v2_framed [OF sample_family, of "[]" "\<lambda>_. True" "[1, 2]" False] by (simp add: v2_header_framed [OF sample_family])
  moreover have "peek_buffer 12 (v2_header sample_source sample_destination @ [1, 2]) = V2_SIGNATURE"
    by (simp add: peek_buffer_def v2_header_framed [OF sample_family] framed_def)
  ultimately have acc: "accept_proxy_header_inner (\<lambda>_. True) 12 (\<lambda>_. False) (v2_header sample_source sample_destination @ [1, 2])
      sample_peer sample_listener None = Inr ([1, 2], sample_source, None)"
    unfolding accept_proxy_header_inner_def sample_listener_trust using sample_listener_trust(2) by (simp add: sample_listener_def)
  have "pp_enabled sample_listener" by (simp add: sample_listener_def)
  from accept_fails_closed [OF acc this] acc show ?thesis by (simp add: sample_listener_def)
qed

theorem egress_header_accepted_witness:
  "accept_proxy_header (\<lambda>_. True) 12 (write_header [] EgressV1 sample_source sample_destination @ [1, 2]) sample_peer sample_listener =
     Inr ([1, 2], sample_source) \<and>
   accept_proxy_header (\<lambda>_. True) 12 (write_header [] EgressV2 sample_source sample_destination @ [1, 2]) sample_peer sample_listener =
     Inr ([1, 2], sample_source)"
proof -
  have cfg: "pp_enabled sample_listener" "pp_version sample_listener = Any" by (simp_all add: sample_listener_def)
  show ?thesis
    by (intro conjI egress_header_accepted [OF cfg(1) sample_listener_trust]) (simp_all add: cfg(2) sample_source_def sample_destination_def)
qed

lemma sample_ssl_encoded:
  "encode_ssl_tlv sample_ssl False = Inr (tlv_bytes (PP2_TYPE_SSL, ssl_value (projected False sample_ssl)))"
  by (simp add: encode_ssl_tlv_def encode_optional_text_def sample_ssl_def str_chars_def utf8_next_def char_is_control_def
      encode_tlv_def projected_def ssl_value_def ssl_tlvs_def text_tlv_def cert_tlv_def tlv_bytes_def as_bytes_def byte_simps)

theorem prepared_header_accepted_witness:
  "\<exists>header. prepare (\<lambda>_. replicate 32 0) \<lparr>pt_source = LocalTls, pt_client_certificate = False\<rparr> sample_evidence sample_source = Inr header \<and>
     accept_proxy_header_with_metadata (\<lambda>_. True) 0 (\<lambda>_. False) (ph_bytes header @ [1, 2]) sample_peer sample_listener 500 =
       Inr ([1, 2], sample_source,
            Some (v2_metadata sample_source sample_destination (Some (sample_ssl\<lparr>ssl_certificate := None\<rparr>))))"
proof -
  let ?tls = "\<lparr>pt_source = LocalTls, pt_client_certificate = False\<rparr>"
  let ?m = "v2_metadata sample_source sample_destination (Some sample_ssl)"
  have "length (v2_header sample_source sample_destination) = 28"
    by (simp add: v2_header_framed [OF sample_family] framed_def address_bytes_length [OF sample_family] byte_simps)
      (simp add: sample_source_def)
  moreover have "length (tlv_bytes (PP2_TYPE_SSL, ssl_value (projected False sample_ssl))) = 18"
    by (simp add: length_tlv_bytes ssl_value_def projected_def sample_ssl_def ssl_tlvs_def text_tlv_def cert_tlv_def byte_simps)
  ultimately have "\<exists>header. prepare (\<lambda>_. replicate 32 0) ?tls sample_evidence sample_source = Inr header"
    by (simp add: prepare_def sample_evidence_def v2_metadata_def sample_ssl_encoded Let_def)
      (simp add: sample_source_def sample_destination_def)
  then obtain header where h: "prepare (\<lambda>_. replicate 32 0) ?tls sample_evidence sample_source = Inr header" by blast
  have "(case pt_source ?tls of LocalTls \<Rightarrow> te_local sample_evidence | ReceivedProxy \<Rightarrow> te_received sample_evidence) = Some ?m"
      "pm_ssl ?m = Some sample_ssl" "pp_enabled sample_listener" "pp_tls_tlvs sample_listener" "pp_version sample_listener \<noteq> V1"
    by (simp_all add: sample_evidence_def v2_metadata_def sample_listener_def)
  moreover have "ssl_wf (\<lambda>_. True) sample_ssl"
    by (simp add: ssl_wf_def sample_ssl_def text_utf8_def is_utf8_def utf8_next_def from_der_def)
  ultimately show ?thesis
    using prepared_header_accepted [OF h, of ?m sample_ssl "\<lambda>_. True" sample_listener _ sample_peer "\<lambda>_. False" 500 0 "[1, 2]"]
      sample_listener_trust h by (auto simp: v2_metadata_def projected_def)
qed

end
