(* ===== verification/Circuit.thy ===== *)
theory Circuit
  imports Prelude Complex_Main
begin

text \<open>
  The failure circuit of an upstream scope (\<open>src/circuit_breakers/circuit.rs\<close>, the outcome types of
  \<open>types.rs\<close> and the policy with its validation from \<open>crates/oxibelt-admission-policy\<close>).

  Durations and instants are natural numbers of nanoseconds with the bounds of the standard library
  (\<open>Duration\<close> holds \<open>u64\<close> seconds, \<open>Instant\<close> holds \<open>i64\<close> seconds on Linux).  A finite \<open>f64\<close> is the rational it
  denotes; the quotient of two counters is the exact quotient rounded by \<open>rnd\<close>, a parameter.  The lemmas
  show the invariant every operation keeps, that a failing scope is shut off, that the back-off never
  exceeds its configured bound, and that a scope whose probes succeed is always closed again.
\<close>

section \<open>Time and floating point\<close>

type_synonym duration = nat
type_synonym instant = nat

abbreviation (input) NANOS_PER_MILLI :: nat where "NANOS_PER_MILLI \<equiv> 1000000"
abbreviation (input) DURATION_MAX :: nat where "DURATION_MAX \<equiv> 2 ^ 64 * 1000000000 - 1"
abbreviation (input) INSTANT_MAX :: nat where "INSTANT_MAX \<equiv> 2 ^ 63 * 1000000000 - 1"
abbreviation (input) USIZE_MAX :: nat where "USIZE_MAX \<equiv> 2 ^ 64 - 1"

definition from_millis :: "u64 \<Rightarrow> duration" where
  "from_millis ms = unat ms * NANOS_PER_MILLI"

definition saturating_duration_since :: "instant \<Rightarrow> instant \<Rightarrow> duration" where
  "saturating_duration_since later earlier = later - earlier"

definition instant_checked_add :: "instant \<Rightarrow> duration \<Rightarrow> instant option" where
  "instant_checked_add t d = (if t + d \<le> INSTANT_MAX then Some (t + d) else None)"

definition duration_checked_mul :: "duration \<Rightarrow> nat \<Rightarrow> duration option" where
  "duration_checked_mul d k = (if d * k \<le> DURATION_MAX then Some (d * k) else None)"

definition duration_saturating_add :: "duration \<Rightarrow> duration \<Rightarrow> duration" where
  "duration_saturating_add d e = min DURATION_MAX (d + e)"

definition usize_saturating_add :: "nat \<Rightarrow> nat \<Rightarrow> nat" where
  "usize_saturating_add a b = min USIZE_MAX (a + b)"

datatype f64 = Finite rat | PosInf | NegInf | NaN

fun f64_le :: "f64 \<Rightarrow> rat \<Rightarrow> bool" where
  "f64_le (Finite r) q \<longleftrightarrow> r \<le> q"
| "f64_le PosInf q \<longleftrightarrow> False"
| "f64_le NegInf q \<longleftrightarrow> True"
| "f64_le NaN q \<longleftrightarrow> False"

section \<open>Policy, outcomes and state\<close>

datatype CircuitFailureCondition =
  OnConnectError | OnFirstByteTimeout | OnResponseReadTimeout | OnProtocolError | OnStatus502 | OnStatus503 | OnStatus504

datatype CircuitOutcomeFailure = ConnectError | FirstByteTimeout | ResponseReadTimeout | ProtocolError | Status u16

datatype CircuitOutcome = Success | Failure CircuitOutcomeFailure | Neutral

datatype CircuitState = Closed | Open | HalfOpen

record CircuitBreakerFailureConfig =
  cf_enabled :: bool
  cf_on :: "CircuitFailureCondition list"
  cf_consecutive_failures :: nat
  cf_minimum_requests :: nat
  cf_failure_ratio :: f64
  cf_window_ms :: u64
  cf_open_timeout_ms :: u64
  cf_max_open_timeout_ms :: u64
  cf_half_open_max_probes :: nat
  cf_half_open_successes :: nat

definition failure_validate :: "CircuitBreakerFailureConfig \<Rightarrow> string + unit" where
  "failure_validate p =
     (if cf_on p = [] then Inl ''circuit_breakers.failure.on must not be empty''
      else if cf_consecutive_failures p = 0 \<or> cf_minimum_requests p = 0
      then Inl ''circuit_breakers.failure thresholds must be greater than 0''
      else if (case cf_failure_ratio p of Finite r \<Rightarrow> \<not> (0 \<le> r \<and> r \<le> 1) | _ \<Rightarrow> True)
      then Inl ''circuit_breakers.failure.failure_ratio must be finite and between 0 and 1''
      else if cf_window_ms p = 0 \<or> cf_open_timeout_ms p = 0 \<or> cf_max_open_timeout_ms p = 0
      then Inl ''circuit_breakers.failure durations must be greater than 0''
      else if cf_max_open_timeout_ms p < cf_open_timeout_ms p
      then Inl ''circuit_breakers.failure.max_open_timeout_ms must be at least open_timeout_ms''
      else if cf_half_open_max_probes p = 0 \<or> cf_half_open_successes p = 0
      then Inl ''circuit_breakers.failure half-open limits must be greater than 0''
      else Inr ())"

record FailureCircuit =
  fc_state :: CircuitState
  fc_open_until :: "instant option"
  fc_open_timeout :: duration
  fc_probes :: nat
  fc_successes :: nat
  fc_consecutive_failures :: nat
  fc_samples :: "(instant \<times> bool) list"

definition circuit_default :: FailureCircuit where
  "circuit_default = \<lparr>fc_state = Closed, fc_open_until = None, fc_open_timeout = 0, fc_probes = 0, fc_successes = 0,
     fc_consecutive_failures = 0, fc_samples = []\<rparr>"

section \<open>Operations\<close>

definition fc_available :: "FailureCircuit \<Rightarrow> instant \<Rightarrow> CircuitBreakerFailureConfig \<Rightarrow> duration + bool" where
  "fc_available c now policy =
     (case fc_state c of
        Closed \<Rightarrow> Inr False
      | Open \<Rightarrow>
          (let remaining = (case fc_open_until c of Some until \<Rightarrow> saturating_duration_since until now | None \<Rightarrow> 0)
           in if remaining = 0 then Inr True else Inl remaining)
      | HalfOpen \<Rightarrow> if fc_probes c < cf_half_open_max_probes policy then Inr True else Inl (fc_open_timeout c))"

definition begin_probe ::
  "FailureCircuit \<Rightarrow> instant \<Rightarrow> CircuitBreakerFailureConfig \<Rightarrow> FailureCircuit \<times> (CircuitState \<times> CircuitState) option" where
  "begin_probe c now policy =
     (case fc_state c of
        Closed \<Rightarrow> (c, None)
      | Open \<Rightarrow>
          if (case fc_open_until c of Some until \<Rightarrow> saturating_duration_since until now \<noteq> 0 | None \<Rightarrow> False) then (c, None)
          else
            (c\<lparr>fc_state := HalfOpen, fc_probes := 1, fc_successes := 0,
               fc_open_timeout := (if fc_open_timeout c = 0 then from_millis (cf_open_timeout_ms policy) else fc_open_timeout c)\<rparr>,
             Some (Open, HalfOpen))
      | HalfOpen \<Rightarrow>
          if fc_probes c < cf_half_open_max_probes policy then (c\<lparr>fc_probes := fc_probes c + 1\<rparr>, None) else (c, None))"

fun condition_matches :: "CircuitFailureCondition \<Rightarrow> CircuitOutcomeFailure \<Rightarrow> bool" where
  "condition_matches OnConnectError f \<longleftrightarrow> f = ConnectError"
| "condition_matches OnFirstByteTimeout f \<longleftrightarrow> f = FirstByteTimeout"
| "condition_matches OnResponseReadTimeout f \<longleftrightarrow> f = ResponseReadTimeout"
| "condition_matches OnProtocolError f \<longleftrightarrow> f = ProtocolError"
| "condition_matches OnStatus502 f \<longleftrightarrow> f = Status 502"
| "condition_matches OnStatus503 f \<longleftrightarrow> f = Status 503"
| "condition_matches OnStatus504 f \<longleftrightarrow> f = Status 504"

definition failure_matches :: "CircuitBreakerFailureConfig \<Rightarrow> CircuitOutcomeFailure \<Rightarrow> bool" where
  "failure_matches policy failure = list_ex (\<lambda>condition. condition_matches condition failure) (cf_on policy)"

definition doubled_capped :: "duration \<Rightarrow> CircuitBreakerFailureConfig \<Rightarrow> duration" where
  "doubled_capped val policy =
     min (case duration_checked_mul val 2 of Some d \<Rightarrow> d | None \<Rightarrow> from_millis (cf_max_open_timeout_ms policy))
       (from_millis (cf_max_open_timeout_ms policy))"

definition jittered :: "duration \<Rightarrow> u64 \<Rightarrow> duration" where
  "jittered val sequence =
     (let half = val div 2;
          spread_ms = min (half div NANOS_PER_MILLI) (2 ^ 64 - 1)
      in duration_saturating_add half (unat sequence mod min (2 ^ 64 - 1) (spread_ms + 1) * NANOS_PER_MILLI))"

definition fc_open :: "FailureCircuit \<Rightarrow> instant \<Rightarrow> CircuitBreakerFailureConfig \<Rightarrow> u64 \<Rightarrow> FailureCircuit" where
  "fc_open c now policy sequence =
     (let base = (if fc_open_timeout c = 0 then from_millis (cf_open_timeout_ms policy) else fc_open_timeout c);
          timeout = jittered (min base (from_millis (cf_max_open_timeout_ms policy))) sequence
      in c\<lparr>fc_open_timeout := timeout, fc_open_until := instant_checked_add now timeout, fc_state := Open,
           fc_probes := 0, fc_successes := 0\<rparr>)"

definition fc_close :: "FailureCircuit \<Rightarrow> FailureCircuit" where
  "fc_close c = \<lparr>fc_state = Closed, fc_open_until = None, fc_open_timeout = 0, fc_probes = 0, fc_successes = 0,
     fc_consecutive_failures = 0, fc_samples = []\<rparr>"

definition record_sample :: "FailureCircuit \<Rightarrow> instant \<Rightarrow> bool \<Rightarrow> CircuitBreakerFailureConfig \<Rightarrow> FailureCircuit" where
  "record_sample c now failed policy =
     (let window = from_millis (cf_window_ms policy)
      in c\<lparr>fc_samples := dropWhile (\<lambda>(t, _). saturating_duration_since now t > window) (fc_samples c) @ [(now, failed)]\<rparr>)"

definition abandon_probe :: "FailureCircuit \<Rightarrow> bool \<Rightarrow> FailureCircuit" where
  "abandon_probe c probe = (if probe \<and> fc_state c = HalfOpen then c\<lparr>fc_probes := fc_probes c - 1\<rparr> else c)"

definition outcome_failed :: "CircuitBreakerFailureConfig \<Rightarrow> CircuitOutcome \<Rightarrow> bool" where
  "outcome_failed policy outcome = (case outcome of Failure failure \<Rightarrow> failure_matches policy failure | _ \<Rightarrow> False)"

definition fc_finish ::
  "(rat \<Rightarrow> rat) \<Rightarrow> FailureCircuit \<Rightarrow> bool \<Rightarrow> CircuitOutcome \<Rightarrow> instant \<Rightarrow> CircuitBreakerFailureConfig \<Rightarrow> u64
    \<Rightarrow> FailureCircuit \<times> (CircuitState \<times> CircuitState) option" where
  "fc_finish rnd c probe outcome now policy sequence =
     (let c = (if probe \<and> fc_state c = HalfOpen then c\<lparr>fc_probes := fc_probes c - 1\<rparr> else c) in
      if outcome = Neutral then (c, None) else
      let failed = outcome_failed policy outcome in
      case fc_state c of
        Closed \<Rightarrow>
          (let c = record_sample c now failed policy;
               c = c\<lparr>fc_consecutive_failures := (if failed then usize_saturating_add (fc_consecutive_failures c) 1 else 0)\<rparr>;
               failures = length (filter snd (fc_samples c));
               requests = length (fc_samples c);
               ratio_open = (requests \<ge> cf_minimum_requests policy \<and>
                             f64_le (cf_failure_ratio policy) (rnd (of_nat failures / of_nat requests)))
           in if failed \<and> (fc_consecutive_failures c \<ge> cf_consecutive_failures policy \<or> ratio_open)
              then (fc_open c now policy sequence, Some (Closed, Open))
              else (c, None))
      | HalfOpen \<Rightarrow>
          if failed then
            (fc_open (c\<lparr>fc_open_timeout := doubled_capped (fc_open_timeout c) policy\<rparr>) now policy sequence, Some (HalfOpen, Open))
          else
            (let c = c\<lparr>fc_successes := usize_saturating_add (fc_successes c) 1\<rparr>
             in if fc_successes c \<ge> cf_half_open_successes policy then (fc_close c, Some (HalfOpen, Closed)) else (c, None))
      | Open \<Rightarrow> (c, None))"

section \<open>Runs of a circuit\<close>

text \<open>
  The operations the admission runtime applies to a circuit, at instants that never go back: a probe
  begins after \<open>available\<close> has agreed, a request ends with its outcome, a permit is dropped without one,
  or the circuit is closed by a configuration change.  A step runs under the policy in force.
\<close>

inductive circuit_step ::
  "(rat \<Rightarrow> rat) \<Rightarrow> CircuitBreakerFailureConfig \<Rightarrow> instant \<times> FailureCircuit \<Rightarrow> instant \<times> FailureCircuit \<Rightarrow> bool" for rnd policy where
  probe_begins: "t \<le> now \<Longrightarrow> fc_available c now policy = Inr b \<Longrightarrow>
    circuit_step rnd policy (t, c) (now, fst (begin_probe c now policy))"
| request_ends: "t \<le> now \<Longrightarrow>
    circuit_step rnd policy (t, c) (now, fst (fc_finish rnd c probe outcome now policy sequence))"
| permit_dropped: "circuit_step rnd policy (t, c) (t, abandon_probe c probe)"
| circuit_closed: "circuit_step rnd policy (t, c) (t, fc_close c)"

inductive_cases circuit_stepE: "circuit_step rnd policy (t, c) s'"

text \<open>
  A reload replaces the policy and keeps the circuits (\<open>RuntimeState::configure\<close>), so every step of a run may be under
  another policy of the set \<open>Ps\<close> of policies the process was configured with.
\<close>

inductive circuit_reachable :: "(rat \<Rightarrow> rat) \<Rightarrow> CircuitBreakerFailureConfig set \<Rightarrow> instant \<times> FailureCircuit \<Rightarrow> bool" for rnd Ps where
  reachable_init: "policy \<in> Ps \<Longrightarrow> circuit_reachable rnd Ps (t, circuit_default)"
| reachable_step: "circuit_reachable rnd Ps s \<Longrightarrow> policy \<in> Ps \<Longrightarrow> circuit_step rnd policy s s' \<Longrightarrow> circuit_reachable rnd Ps s'"

definition samples_inv :: "duration \<Rightarrow> instant \<Rightarrow> (instant \<times> bool) list \<Rightarrow> bool" where
  "samples_inv window t samples \<longleftrightarrow>
     sorted (map fst samples) \<and> list_all (\<lambda>s. fst s \<le> t \<and> fst (last samples) - fst s \<le> window) samples"

definition circuit_inv :: "CircuitBreakerFailureConfig set \<Rightarrow> instant \<times> FailureCircuit \<Rightarrow> bool" where
  "circuit_inv Ps s =
     (case s of (t, c) \<Rightarrow>
        (\<exists>p \<in> Ps. fc_open_timeout c \<le> from_millis (cf_max_open_timeout_ms p)) \<and>
        (\<exists>p \<in> Ps. samples_inv (from_millis (cf_window_ms p)) t (fc_samples c)) \<and>
        (case fc_state c of
           Closed \<Rightarrow> fc_probes c = 0 \<and> fc_successes c = 0 \<and> fc_open_until c = None \<and> fc_open_timeout c = 0 \<and>
             (\<exists>p \<in> Ps. fc_consecutive_failures c < cf_consecutive_failures p)
         | Open \<Rightarrow> fc_probes c = 0 \<and> fc_successes c = 0 \<and>
             (case fc_open_until c of None \<Rightarrow> True | Some until \<Rightarrow> \<exists>p \<in> Ps. until \<le> t + from_millis (cf_max_open_timeout_ms p))
         | HalfOpen \<Rightarrow> (\<exists>p \<in> Ps. fc_probes c \<le> cf_half_open_max_probes p) \<and> (\<exists>p \<in> Ps. fc_successes c < cf_half_open_successes p)))"

lemma circuit_policy_valid:
  assumes "failure_validate policy = Inr ()"
  shows "0 < cf_consecutive_failures policy" "0 < cf_half_open_max_probes policy" "0 < cf_half_open_successes policy"
    "cf_open_timeout_ms policy \<le> cf_max_open_timeout_ms policy"
  using assms by (auto simp: failure_validate_def split: if_splits)

lemma from_millis_mono: "a \<le> b \<Longrightarrow> from_millis a \<le> from_millis b"
  unfolding from_millis_def word_le_nat_alt by (rule mult_le_mono1)

lemma mod_min_le: "0 < k \<Longrightarrow> n mod min k (min s j + 1) \<le> (s :: nat)"
  using mod_less_divisor [of "min k (min s j + 1)" n] by linarith

lemma jittered_le: "jittered val sequence \<le> val"
proof -
  let ?half = "val div 2"
  let ?j = "unat sequence mod min (2 ^ 64 - 1) (min (?half div NANOS_PER_MILLI) (2 ^ 64 - 1) + 1)"
  have "?j \<le> ?half div NANOS_PER_MILLI" by (rule mod_min_le) simp
  then have "?j * NANOS_PER_MILLI \<le> ?half div NANOS_PER_MILLI * NANOS_PER_MILLI" by (rule mult_le_mono1)
  also have "\<dots> \<le> ?half" by (rule div_times_less_eq_dividend)
  finally have "?half + ?j * NANOS_PER_MILLI \<le> ?half + ?half" by (rule add_left_mono)
  also have "\<dots> \<le> val" by simp
  finally show ?thesis unfolding jittered_def Let_def duration_saturating_add_def by (rule min.coboundedI2)
qed

lemma fc_open_timeout_bound:
  "fc_open_timeout (fc_open c now policy sequence) \<le> from_millis (cf_max_open_timeout_ms policy)"
  unfolding fc_open_def Let_def using jittered_le by (simp, meson le_trans min.cobounded2)

lemma fc_open_inv:
  assumes "policy \<in> Ps" "\<exists>p \<in> Ps. samples_inv (from_millis (cf_window_ms p)) now (fc_samples c)"
  shows "circuit_inv Ps (now, fc_open c now policy sequence)"
proof -
  have bound: "\<exists>p \<in> Ps. fc_open_timeout (fc_open c now policy sequence) \<le> from_millis (cf_max_open_timeout_ms p)"
    using assms(1) fc_open_timeout_bound by blast
  moreover have "fc_state (fc_open c now policy sequence) = Open" "fc_probes (fc_open c now policy sequence) = 0"
    "fc_successes (fc_open c now policy sequence) = 0" "fc_samples (fc_open c now policy sequence) = fc_samples c"
    "fc_open_until (fc_open c now policy sequence) = instant_checked_add now (fc_open_timeout (fc_open c now policy sequence))"
    by (simp_all add: fc_open_def Let_def)
  ultimately show ?thesis using assms(2) by (auto simp: circuit_inv_def instant_checked_add_def)
qed

lemma record_sample_inv:
  assumes "samples_inv window t (fc_samples c)" "t \<le> now"
  shows "samples_inv (from_millis (cf_window_ms policy)) now (fc_samples (record_sample c now failed policy))"
proof -
  let ?w = "from_millis (cf_window_ms policy)"
  let ?kept = "dropWhile (\<lambda>(t, _). now - t > ?w) (fc_samples c)"
  have sorted: "sorted (map fst ?kept)"
    using assms(1) sorted_wrt_drop [of "(\<le>)" "map fst (fc_samples c)"]
    by (simp add: samples_inv_def dropWhile_eq_drop drop_map)
  have old: "fst s \<le> now" if "s \<in> set ?kept" for s
    using assms set_dropWhileD [OF that] by (auto simp: samples_inv_def list_all_iff)
  have recent: "now - fst s \<le> ?w" if "s \<in> set ?kept" for s
  proof (cases ?kept)
    case (Cons a kept)
    from hd_dropWhile [of "\<lambda>(t, _). now - t > ?w" "fc_samples c"] Cons have "now - fst a \<le> ?w" by auto
    moreover have "fst a \<le> fst s" using sorted that unfolding Cons by auto
    ultimately show ?thesis by linarith
  next
    case Nil
    with that show ?thesis by (metis empty_iff list.set(1))
  qed
  show ?thesis
    using sorted old recent
    by (auto simp: samples_inv_def record_sample_def Let_def saturating_duration_since_def sorted_append list_all_iff)
qed

lemma samples_inv_later: "samples_inv w t samples \<Longrightarrow> t \<le> now \<Longrightarrow> samples_inv w now samples"
  by (auto simp: samples_inv_def list_all_iff)

lemma circuit_inv_later: "circuit_inv Ps (t, c) \<Longrightarrow> t \<le> now \<Longrightarrow> circuit_inv Ps (now, c)"
  unfolding circuit_inv_def prod.case
  by (cases "fc_state c"; cases "fc_open_until c") (auto intro: samples_inv_later le_trans [OF _ add_right_mono])

lemma fc_close_inv: "policy \<in> Ps \<Longrightarrow> failure_validate policy = Inr () \<Longrightarrow> circuit_inv Ps (t, fc_close c)"
  using circuit_policy_valid(1) [of policy] by (auto simp: circuit_inv_def fc_close_def samples_inv_def)

lemma begin_probe_inv:
  assumes "policy \<in> Ps" "failure_validate policy = Inr ()" "circuit_inv Ps (t, c)" "t \<le> now"
  shows "circuit_inv Ps (now, fst (begin_probe c now policy))"
proof -
  note valid = circuit_policy_valid [OF assms(2)]
  have open_le: "from_millis (cf_open_timeout_ms policy) \<le> from_millis (cf_max_open_timeout_ms policy)"
    using valid(4) by (rule from_millis_mono)
  have inv: "circuit_inv Ps (now, c)" using assms(3,4) by (rule circuit_inv_later)
  show ?thesis
  proof (cases "fc_state c")
    case Open
    then show ?thesis using inv valid open_le assms(1) by (auto simp: circuit_inv_def begin_probe_def Suc_le_eq)
  next
    case HalfOpen
    then show ?thesis using inv assms(1) by (auto simp: circuit_inv_def begin_probe_def Suc_le_eq)
  qed (use inv in \<open>auto simp: circuit_inv_def begin_probe_def\<close>)
qed

lemma abandon_probe_inv: "circuit_inv Ps (t, c) \<Longrightarrow> circuit_inv Ps (t, abandon_probe c probe)"
  unfolding circuit_inv_def abandon_probe_def prod.case
  by (cases "fc_state c") (auto intro: le_trans [OF diff_le_self] bexI)

lemma fc_finish_inv:
  assumes "policy \<in> Ps" and valid: "failure_validate policy = Inr ()" and inv: "circuit_inv Ps (t, c)" and "t \<le> now"
  shows "circuit_inv Ps (now, fst (fc_finish rnd c probe outcome now policy sequence))"
proof -
  let ?c = "abandon_probe c probe"
  have inv: "circuit_inv Ps (now, ?c)"
    using abandon_probe_inv [OF circuit_inv_later [OF inv \<open>t \<le> now\<close>]] .
  have fin: "fc_finish rnd c probe outcome now policy sequence = fc_finish rnd ?c False outcome now policy sequence"
    by (simp add: fc_finish_def abandon_probe_def Let_def)
  show ?thesis
  proof (cases "fc_state ?c")
    case Closed
    let ?d = "record_sample ?c now (outcome_failed policy outcome) policy"
    have s: "samples_inv (from_millis (cf_window_ms policy)) now (fc_samples ?d)"
    proof -
      from inv obtain w where "samples_inv w now (fc_samples ?c)" unfolding circuit_inv_def by blast
      from record_sample_inv [OF this] show ?thesis by simp
    qed
    have d: "fc_state ?d = Closed" "fc_probes ?d = 0" "fc_successes ?d = 0" "fc_open_until ?d = None" "fc_open_timeout ?d = 0"
      using inv Closed by (simp_all add: circuit_inv_def record_sample_def)
    let ?failed = "outcome_failed policy outcome"
    define n where "n = (if ?failed then usize_saturating_add (fc_consecutive_failures ?d) 1 else 0)"
    define e where "e = ?d\<lparr>fc_consecutive_failures := n\<rparr>"
    define ratio where "ratio \<longleftrightarrow> cf_minimum_requests policy \<le> length (fc_samples ?d) \<and>
      f64_le (cf_failure_ratio policy) (rnd (of_nat (length (filter snd (fc_samples ?d))) / of_nat (length (fc_samples ?d))))"
    have eq: "fc_finish rnd c probe outcome now policy sequence =
        (if outcome = Neutral then (?c, None)
         else if ?failed \<and> (cf_consecutive_failures policy \<le> n \<or> ratio) then (fc_open e now policy sequence, Some (Closed, Open))
         else (e, None))"
      using Closed unfolding fin by (auto simp: fc_finish_def Let_def n_def e_def ratio_def)
    have opened: "circuit_inv Ps (now, fc_open e now policy sequence)" using s assms(1) by (intro fc_open_inv) (auto simp: e_def)
    have "n < cf_consecutive_failures policy \<Longrightarrow> circuit_inv Ps (now, e)" using s d assms(1) by (auto simp: circuit_inv_def e_def)
    moreover have "\<not> ?failed \<Longrightarrow> n < cf_consecutive_failures policy" using circuit_policy_valid(1) [OF valid] by (simp add: n_def)
    ultimately show ?thesis using inv opened unfolding eq by (cases "outcome = Neutral"; cases ?failed) auto
  next
    case HalfOpen
    let ?o = "?c\<lparr>fc_open_timeout := doubled_capped (fc_open_timeout ?c) policy\<rparr>"
    define n where "n = usize_saturating_add (fc_successes ?c) 1"
    have eq: "fc_finish rnd c probe outcome now policy sequence =
        (if outcome = Neutral then (?c, None)
         else if outcome_failed policy outcome then (fc_open ?o now policy sequence, Some (HalfOpen, Open))
         else if cf_half_open_successes policy \<le> n then (fc_close (?c\<lparr>fc_successes := n\<rparr>), Some (HalfOpen, Closed))
         else (?c\<lparr>fc_successes := n\<rparr>, None))"
      using HalfOpen unfolding fin by (simp add: fc_finish_def Let_def n_def)
    have opened: "circuit_inv Ps (now, fc_open ?o now policy sequence)"
      using inv assms(1) by (intro fc_open_inv) (auto simp: circuit_inv_def)
    have "n < cf_half_open_successes policy \<Longrightarrow> circuit_inv Ps (now, ?c\<lparr>fc_successes := n\<rparr>)"
      using inv HalfOpen assms(1) by (auto simp: circuit_inv_def)
    then show ?thesis
      using inv opened fc_close_inv [OF assms(1) valid] unfolding eq by (cases "outcome = Neutral"; cases "outcome_failed policy outcome") auto
  next
    case Open
    then have "fc_finish rnd c probe outcome now policy sequence = (?c, None)" unfolding fin by (simp add: fc_finish_def Let_def)
    then show ?thesis using inv by simp
  qed
qed

lemma circuit_step_inv:
  assumes "policy \<in> Ps" "failure_validate policy = Inr ()" "circuit_step rnd policy s s'" "circuit_inv Ps s"
  shows "circuit_inv Ps s'"
  using assms(3,1,2,4)
  by cases (simp_all add: begin_probe_inv fc_finish_inv abandon_probe_inv fc_close_inv)

lemma circuit_reachable_inv:
  assumes "\<And>p. p \<in> Ps \<Longrightarrow> failure_validate p = Inr ()" "circuit_reachable rnd Ps s"
  shows "circuit_inv Ps s"
  using assms(2)
proof induction
  case (reachable_init policy t)
  then show ?case using fc_close_inv [OF _ assms(1), of policy Ps t circuit_default] by (simp add: circuit_default_def fc_close_def)
next
  case (reachable_step s policy s')
  then show ?case using circuit_step_inv [OF _ assms(1)] by blast
qed

text \<open>
  C8.  The invariant of the failure circuit, across reloads: \<open>Ps\<close> is any set of policies that pass validation, and every
  step of the run may be under another one.  A closed circuit is clean and its failures are below the threshold of a
  policy that was in force; an open one counts no probes and is due no later than the maximum back-off of such a policy
  from now; the probe counter of a half-open one is within the limit of such a policy and its successes short of the
  required number; the back-off is within the maximum, the samples are ordered and lie within the window before the
  latest one.  With a single policy these are the bounds of that policy.  The statement is about the counter of
  probes: how many requests really are in flight is not bounded by it, as \<open>stale_probe_frees_slot\<close> shows.
\<close>

theorem circuit_invariant:
  assumes "\<And>p. p \<in> Ps \<Longrightarrow> failure_validate p = Inr ()" "circuit_reachable rnd Ps (t, c)"
  shows "(\<exists>p \<in> Ps. fc_open_timeout c \<le> from_millis (cf_max_open_timeout_ms p)) \<and>
    sorted (map fst (fc_samples c)) \<and> (\<forall>s \<in> set (fc_samples c). fst s \<le> t) \<and>
    (\<exists>p \<in> Ps. \<forall>s \<in> set (fc_samples c). fst (last (fc_samples c)) - fst s \<le> from_millis (cf_window_ms p)) \<and>
    (case fc_state c of
       Closed \<Rightarrow> fc_probes c = 0 \<and> fc_successes c = 0 \<and> fc_open_until c = None \<and> fc_open_timeout c = 0 \<and>
         (\<exists>p \<in> Ps. fc_consecutive_failures c < cf_consecutive_failures p)
     | Open \<Rightarrow> fc_probes c = 0 \<and> fc_successes c = 0 \<and>
         (case fc_open_until c of None \<Rightarrow> True | Some until \<Rightarrow> \<exists>p \<in> Ps. until \<le> t + from_millis (cf_max_open_timeout_ms p))
     | HalfOpen \<Rightarrow> (\<exists>p \<in> Ps. fc_probes c \<le> cf_half_open_max_probes p) \<and> (\<exists>p \<in> Ps. fc_successes c < cf_half_open_successes p))"
proof -
  note inv = circuit_reachable_inv [OF assms, unfolded circuit_inv_def prod.case]
  have "sorted (map fst (fc_samples c)) \<and> (\<forall>s \<in> set (fc_samples c). fst s \<le> t) \<and>
    (\<exists>p \<in> Ps. \<forall>s \<in> set (fc_samples c). fst (last (fc_samples c)) - fst s \<le> from_millis (cf_window_ms p))"
    using inv by (auto simp: samples_inv_def list_all_iff)
  then show ?thesis using inv by blast
qed

section \<open>Recovery\<close>

text \<open>One probe that is admitted and succeeds.\<close>

definition probe_round :: "(rat \<Rightarrow> rat) \<Rightarrow> CircuitBreakerFailureConfig \<Rightarrow> instant \<Rightarrow> u64 \<Rightarrow> FailureCircuit \<Rightarrow> FailureCircuit" where
  "probe_round rnd policy now sequence c =
     fst (fc_finish rnd (fst (begin_probe c now policy)) True Success now policy sequence)"

lemma probe_round_half_open:
  assumes "fc_state c = HalfOpen" "fc_probes c < cf_half_open_max_probes policy" "Suc (fc_successes c) < 2 ^ 64"
  shows "fc_available c now policy = Inr True"
    "Suc (fc_successes c) < cf_half_open_successes policy \<Longrightarrow>
      probe_round rnd policy now sequence c = c\<lparr>fc_successes := Suc (fc_successes c)\<rparr>"
    "cf_half_open_successes policy \<le> Suc (fc_successes c) \<Longrightarrow> probe_round rnd policy now sequence c = circuit_default"
proof -
  have add: "usize_saturating_add (fc_successes c) 1 = Suc (fc_successes c)"
    using assms(3) by (simp add: usize_saturating_add_def)
  show "fc_available c now policy = Inr True" using assms by (simp add: fc_available_def)
  show "probe_round rnd policy now sequence c = c\<lparr>fc_successes := Suc (fc_successes c)\<rparr>"
    if "Suc (fc_successes c) < cf_half_open_successes policy"
    using assms(1,2) add that by (simp add: probe_round_def begin_probe_def fc_finish_def outcome_failed_def Let_def)
  show "probe_round rnd policy now sequence c = circuit_default" if "cf_half_open_successes policy \<le> Suc (fc_successes c)"
    using assms(1,2) add that
    by (simp add: probe_round_def begin_probe_def fc_finish_def outcome_failed_def Let_def fc_close_def circuit_default_def)
qed

lemma probe_round_open:
  assumes "fc_state c = Open" "case fc_open_until c of None \<Rightarrow> True | Some until \<Rightarrow> until \<le> now"
  shows "fc_available c now policy = Inr True"
    "1 < cf_half_open_successes policy \<Longrightarrow>
      fc_state (probe_round rnd policy now sequence c) = HalfOpen \<and> fc_probes (probe_round rnd policy now sequence c) = 0 \<and>
      fc_successes (probe_round rnd policy now sequence c) = 1"
    "cf_half_open_successes policy \<le> 1 \<Longrightarrow> probe_round rnd policy now sequence c = circuit_default"
proof -
  have due: "(case fc_open_until c of Some until \<Rightarrow> saturating_duration_since until now | None \<Rightarrow> 0) = 0"
      "\<not> (case fc_open_until c of Some until \<Rightarrow> saturating_duration_since until now \<noteq> 0 | None \<Rightarrow> False)"
    using assms(2) by (auto simp: saturating_duration_since_def split: option.splits)
  have add: "usize_saturating_add 0 (Suc 0) = Suc 0" by (simp add: usize_saturating_add_def)
  show "fc_available c now policy = Inr True" using assms(1) due by (simp add: fc_available_def)
  show "fc_state (probe_round rnd policy now sequence c) = HalfOpen \<and> fc_probes (probe_round rnd policy now sequence c) = 0 \<and>
      fc_successes (probe_round rnd policy now sequence c) = 1" if "1 < cf_half_open_successes policy"
    using assms(1) due add that by (simp add: probe_round_def begin_probe_def fc_finish_def outcome_failed_def Let_def)
  show "probe_round rnd policy now sequence c = circuit_default" if "cf_half_open_successes policy \<le> 1"
    using assms(1) due add that
    by (simp add: probe_round_def begin_probe_def fc_finish_def outcome_failed_def Let_def fc_close_def circuit_default_def)
qed

lemma probe_rounds:
  assumes "fc_state c = Open" "case fc_open_until c of None \<Rightarrow> True | Some until \<Rightarrow> until \<le> now"
    and "0 < cf_half_open_max_probes policy" "cf_half_open_successes policy < 2 ^ 64"
    and "0 < k" "k < cf_half_open_successes policy"
  shows "fc_state ((probe_round rnd policy now sequence ^^ k) c) = HalfOpen \<and>
    fc_probes ((probe_round rnd policy now sequence ^^ k) c) = 0 \<and>
    fc_successes ((probe_round rnd policy now sequence ^^ k) c) = k"
  using assms(5,6)
proof (induction k)
  case (Suc k)
  show ?case
  proof (cases "k = 0")
    case True
    then show ?thesis using probe_round_open(2) [OF assms(1,2), of policy rnd sequence] Suc.prems by simp
  next
    case False
    let ?d = "(probe_round rnd policy now sequence ^^ k) c"
    from False Suc have d: "fc_state ?d = HalfOpen" "fc_probes ?d = 0" "fc_successes ?d = k" by simp_all
    have "probe_round rnd policy now sequence ?d = ?d\<lparr>fc_successes := Suc k\<rparr>"
      using probe_round_half_open(2) [of ?d policy rnd now sequence] d assms(3,4) Suc.prems(2) by simp
    with d show ?thesis by simp
  qed
qed simp

text \<open>
  C9.  A scope recovers.  Whatever led to an open circuit, under whatever policies of \<open>Ps\<close>, once the longest
  configured maximum back-off has passed a probe is admitted, and after the number of successful probes the policy
  now in force asks for, each of them admitted, the circuit is closed and as good as new.
\<close>

theorem circuit_recovers:
  assumes "\<And>p. p \<in> Ps \<Longrightarrow> failure_validate p = Inr ()" "policy \<in> Ps" "cf_half_open_successes policy < 2 ^ 64"
    and "circuit_reachable rnd Ps (t, c)" "fc_state c = Open"
    and "\<And>p. p \<in> Ps \<Longrightarrow> t + from_millis (cf_max_open_timeout_ms p) \<le> now"
  shows "(probe_round rnd policy now sequence ^^ cf_half_open_successes policy) c = circuit_default \<and>
    (\<forall>k < cf_half_open_successes policy. fc_available ((probe_round rnd policy now sequence ^^ k) c) now policy = Inr True)"
proof -
  note valid = circuit_policy_valid [OF assms(1) [OF assms(2)]]
  let ?r = "probe_round rnd policy now sequence"
  let ?n = "cf_half_open_successes policy"
  have due: "case fc_open_until c of None \<Rightarrow> True | Some until \<Rightarrow> until \<le> now"
    using circuit_reachable_inv [OF assms(1,4)] assms(5,6) by (fastforce simp: circuit_inv_def split: option.splits)
  note rounds = probe_rounds [OF assms(5) due valid(2) assms(3), of _ rnd sequence]
  have avail: "fc_available ((?r ^^ k) c) now policy = Inr True" if "k < ?n" for k
    using probe_round_open(1) [OF assms(5) due, of policy] rounds [of k] valid(2) that
      probe_round_half_open(1) [of "(?r ^^ k) c" policy now] assms(3)
    by (cases "k = 0") simp_all
  obtain m where m: "?n = Suc m" using valid(3) gr0_implies_Suc by blast
  have "?r ((?r ^^ m) c) = circuit_default"
  proof (cases "m = 0")
    case True
    with m probe_round_open(3) [OF assms(5) due, of policy rnd sequence] show ?thesis by simp
  next
    case False
    with rounds [of m] probe_round_half_open(3) [of "(?r ^^ m) c" policy rnd now sequence] valid(2) assms(3) m show ?thesis by simp
  qed
  with avail m show ?thesis by simp
qed

section \<open>Witnesses\<close>

definition sample_policy :: CircuitBreakerFailureConfig where
  "sample_policy = \<lparr>cf_enabled = True, cf_on = [OnConnectError], cf_consecutive_failures = 1, cf_minimum_requests = 10,
     cf_failure_ratio = Finite (1 / 2), cf_window_ms = 10000, cf_open_timeout_ms = 100, cf_max_open_timeout_ms = 400,
     cf_half_open_max_probes = 1, cf_half_open_successes = 2\<rparr>"

lemma sample_policy_valid: "failure_validate sample_policy = Inr ()"
  by (simp add: failure_validate_def sample_policy_def)

definition sample_open :: FailureCircuit where
  "sample_open = fst (fc_finish id circuit_default False (Failure ConnectError) 7 sample_policy 0)"

lemma sample_open_reachable: "circuit_reachable id {sample_policy} (7, sample_open)"
  unfolding sample_open_def
  by (rule reachable_step [OF reachable_init [of sample_policy _ _ 0]], simp, simp, rule request_ends) simp

lemma sample_open_state: "fc_state sample_open = Open" "fc_open_timeout sample_open = 50000000"
  by (simp_all add: sample_open_def fc_finish_def circuit_default_def sample_policy_def outcome_failed_def failure_matches_def
      record_sample_def usize_saturating_add_def fc_open_def jittered_def duration_saturating_add_def from_millis_def)

theorem circuit_invariant_witness:
  "circuit_reachable id {sample_policy} (7, sample_open) \<and> fc_state sample_open = Open \<and>
   fc_open_timeout sample_open = 50000000 \<and> fc_open_timeout sample_open \<le> from_millis 400 \<and> fc_probes sample_open = 0"
proof -
  have "failure_validate p = Inr ()" if "p \<in> {sample_policy}" for p using that sample_policy_valid by simp
  from circuit_invariant [OF this sample_open_reachable] sample_open_reachable sample_open_state
  show ?thesis by (simp add: sample_policy_def)
qed

theorem circuit_recovers_witness:
  "fc_state sample_open = Open \<and>
   (probe_round id sample_policy 400000007 0 ^^ 2) sample_open = circuit_default"
proof -
  have "failure_validate p = Inr ()" "7 + from_millis (cf_max_open_timeout_ms p) \<le> 400000007" if "p \<in> {sample_policy}" for p
    using that sample_policy_valid by (simp_all add: sample_policy_def from_millis_def)
  moreover have "cf_half_open_successes sample_policy < 2 ^ 64" by (simp add: sample_policy_def)
  ultimately have "(probe_round id sample_policy 400000007 0 ^^ cf_half_open_successes sample_policy) sample_open = circuit_default"
    using circuit_recovers [of "{sample_policy}" sample_policy id 7 sample_open 400000007 0] sample_open_reachable sample_open_state(1)
    by blast
  then show ?thesis using sample_open_state(1) by (simp add: sample_policy_def)
qed

section \<open>What the bookkeeping does not promise\<close>

lemmas sample_circuit_simps = sample_open_def fc_finish_def circuit_default_def sample_policy_def outcome_failed_def failure_matches_def
  record_sample_def usize_saturating_add_def fc_open_def jittered_def duration_saturating_add_def from_millis_def begin_probe_def
  doubled_capped_def duration_checked_mul_def instant_checked_add_def saturating_duration_since_def abandon_probe_def fc_available_def

text \<open>
  A permit does not know which half-open period its probe belongs to.  A probe is admitted, a request from before the
  circuit opened fails and reopens it, and a second probe is admitted after the back-off: the only slot is taken.  When
  the first permit is dropped it frees the slot of the second, and a third request is let through beside it.
\<close>

definition stale_probe_run :: "FailureCircuit \<times> FailureCircuit \<times> FailureCircuit" where
  "stale_probe_run =
     (let first = fst (begin_probe sample_open 400000007 sample_policy);
          reopened = fst (fc_finish id first False (Failure ConnectError) 400000008 sample_policy 0);
          second = fst (begin_probe reopened 900000000 sample_policy)
      in (reopened, second, abandon_probe second True))"

lemma stale_probe_frees_slot:
  "case stale_probe_run of (reopened, second, third) \<Rightarrow>
     fc_state reopened = Open \<and> fc_state second = HalfOpen \<and> cf_half_open_max_probes sample_policy = 1 \<and>
     fc_available second 900000000 sample_policy = Inl 50000000 \<and> fc_available third 900000000 sample_policy = Inr True"
  by (simp add: stale_probe_run_def sample_circuit_simps)

text \<open>
  The back-off need not grow: the doubled timeout is jittered down to as little as its half before it is stored, so a
  probe that fails can leave the same timeout that was there before it.
\<close>

lemma backoff_need_not_grow:
  "fc_open_timeout (fst stale_probe_run) = fc_open_timeout sample_open \<and>
   fc_open_timeout sample_open < from_millis (cf_open_timeout_ms sample_policy)"
  by (simp add: stale_probe_run_def sample_circuit_simps)

end
