(* ===== verification/Breaker_Types.thy ===== *)
theory Breaker_Types
  imports Circuit Text "HOL-Library.Char_ord" "HOL-Library.List_Lexorder" "HOL-Library.Product_Lexorder"
begin

text \<open>
  The vocabulary of process-local admission: resources, scopes, limits and permits
  (\<open>src/circuit_breakers/types.rs\<close>) and the configured capacities with their validation
  (\<open>crates/oxibelt-admission-policy/src/circuit_breakers.rs\<close>).  An array indexed by an enumeration is a
  function from it.
\<close>

section \<open>Resources, scopes and limits\<close>

datatype ResourceKind = Request | UpstreamRequest | Retry | Connection | Stream | BodyInspection | Decompression

fun resource_index :: "ResourceKind \<Rightarrow> nat" where
  "resource_index Request = 0"
| "resource_index UpstreamRequest = 1"
| "resource_index Retry = 2"
| "resource_index Connection = 3"
| "resource_index Stream = 4"
| "resource_index BodyInspection = 5"
| "resource_index Decompression = 6"

datatype ScopeKey = Global | Route string | Pool string

fun scope_kind :: "ScopeKey \<Rightarrow> string" where
  "scope_kind Global = ''global''"
| "scope_kind (Route name) = ''route''"
| "scope_kind (Pool name) = ''pool''"

fun scope_label :: "ScopeKey \<Rightarrow> string" where
  "scope_label Global = ''global''"
| "scope_label (Route name) = name"
| "scope_label (Pool name) = name"

record ResourceLimit =
  rl_active :: nat
  rl_queue :: nat
  rl_timeout :: duration

type_synonym ScopeLimits = "ResourceKind \<Rightarrow> ResourceLimit"

record ResolvedAutoScope =
  ra_active_requests :: nat
  ra_pending_requests :: nat
  ra_connections :: nat
  ra_streams :: nat
  ra_inspection_jobs :: nat
  ra_decompression_jobs :: nat

datatype CapacitySetting = Auto | Fixed nat

fun fixed :: "CapacitySetting \<Rightarrow> nat option" where
  "fixed Auto = None"
| "fixed (Fixed val) = Some val"

definition capacity_validate :: "CapacitySetting \<Rightarrow> string \<Rightarrow> bool \<Rightarrow> string + unit" where
  "capacity_validate setting field allow_zero =
     (if \<not> allow_zero \<and> fixed setting = Some 0
      then Inl (field @ '' must be greater than 0 or \"auto\"'') else Inr ())"

record CircuitBreakerScopeConfig =
  sc_max_active_requests :: CapacitySetting
  sc_max_pending_requests :: CapacitySetting
  sc_pending_queue_timeout_ms :: u64
  sc_max_connections :: CapacitySetting
  sc_max_streams :: CapacitySetting
  sc_max_body_inspection_jobs :: CapacitySetting
  sc_max_decompression_jobs :: CapacitySetting

definition scope_validate :: "CircuitBreakerScopeConfig \<Rightarrow> string \<Rightarrow> string + unit" where
  "scope_validate c start =
     bindE (capacity_validate (sc_max_active_requests c) (start @ ''.max_active_requests'') False) (\<lambda>_.
     bindE (capacity_validate (sc_max_pending_requests c) (start @ ''.max_pending_requests'') True) (\<lambda>_.
     bindE (capacity_validate (sc_max_connections c) (start @ ''.max_connections'') False) (\<lambda>_.
     bindE (capacity_validate (sc_max_streams c) (start @ ''.max_streams'') False) (\<lambda>_.
     bindE (capacity_validate (sc_max_body_inspection_jobs c) (start @ ''.max_body_inspection_jobs'') False) (\<lambda>_.
     bindE (capacity_validate (sc_max_decompression_jobs c) (start @ ''.max_decompression_jobs'') False) (\<lambda>_.
     if sc_pending_queue_timeout_ms c = 0 then Inl (start @ ''.pending_queue_timeout_ms must be greater than 0'') else Inr ()))))))"

record CircuitBreakerScopeOverride =
  so_max_active_requests :: "CapacitySetting option"
  so_max_pending_requests :: "CapacitySetting option"
  so_pending_queue_timeout_ms :: "u64 option"
  so_max_connections :: "CapacitySetting option"
  so_max_streams :: "CapacitySetting option"
  so_max_body_inspection_jobs :: "CapacitySetting option"
  so_max_decompression_jobs :: "CapacitySetting option"

definition unwrap_or :: "'a option \<Rightarrow> 'a \<Rightarrow> 'a" where
  "unwrap_or m d = (case m of Some x \<Rightarrow> x | None \<Rightarrow> d)"

definition merged_with :: "CircuitBreakerScopeOverride \<Rightarrow> CircuitBreakerScopeConfig \<Rightarrow> CircuitBreakerScopeConfig" where
  "merged_with ov defaults =
     \<lparr>sc_max_active_requests = unwrap_or (so_max_active_requests ov) (sc_max_active_requests defaults),
      sc_max_pending_requests = unwrap_or (so_max_pending_requests ov) (sc_max_pending_requests defaults),
      sc_pending_queue_timeout_ms = unwrap_or (so_pending_queue_timeout_ms ov) (sc_pending_queue_timeout_ms defaults),
      sc_max_connections = unwrap_or (so_max_connections ov) (sc_max_connections defaults),
      sc_max_streams = unwrap_or (so_max_streams ov) (sc_max_streams defaults),
      sc_max_body_inspection_jobs = unwrap_or (so_max_body_inspection_jobs ov) (sc_max_body_inspection_jobs defaults),
      sc_max_decompression_jobs = unwrap_or (so_max_decompression_jobs ov) (sc_max_decompression_jobs defaults)\<rparr>"

fun override_capacities :: "(string \<times> CapacitySetting option \<times> bool) list \<Rightarrow> string \<Rightarrow> string + unit" where
  "override_capacities [] start = Inr ()"
| "override_capacities ((field, val, allow_zero) # rest) start =
     bindE (case val of Some val \<Rightarrow> capacity_validate val (start @ ''.'' @ field) allow_zero | None \<Rightarrow> Inr ()) (\<lambda>_.
     override_capacities rest start)"

definition override_validate :: "CircuitBreakerScopeOverride \<Rightarrow> string \<Rightarrow> string + unit" where
  "override_validate c start =
     bindE (override_capacities
       [(''max_active_requests'', so_max_active_requests c, False), (''max_pending_requests'', so_max_pending_requests c, True),
        (''max_connections'', so_max_connections c, False), (''max_streams'', so_max_streams c, False),
        (''max_body_inspection_jobs'', so_max_body_inspection_jobs c, False),
        (''max_decompression_jobs'', so_max_decompression_jobs c, False)] start) (\<lambda>_.
     if so_pending_queue_timeout_ms c = Some 0 then Inl (start @ ''.pending_queue_timeout_ms must be greater than 0'') else Inr ())"

definition for_scope :: "CircuitBreakerScopeConfig \<Rightarrow> ResolvedAutoScope \<Rightarrow> ScopeLimits" where
  "for_scope config resolved =
     (let request = \<lparr>rl_active = ra_active_requests resolved, rl_queue = ra_pending_requests resolved,
                     rl_timeout = from_millis (sc_pending_queue_timeout_ms config)\<rparr>
      in (\<lambda>kind. case kind of
            Request \<Rightarrow> request
          | UpstreamRequest \<Rightarrow> request
          | Retry \<Rightarrow> request
          | Connection \<Rightarrow> request\<lparr>rl_active := ra_connections resolved\<rparr>
          | Stream \<Rightarrow> request\<lparr>rl_active := ra_streams resolved\<rparr>
          | BodyInspection \<Rightarrow> request\<lparr>rl_active := ra_inspection_jobs resolved\<rparr>
          | Decompression \<Rightarrow> request\<lparr>rl_active := ra_decompression_jobs resolved\<rparr>))"

record ScopeState =
  ss_limits :: ScopeLimits
  ss_failure_enabled :: bool
  ss_active :: "ResourceKind \<Rightarrow> nat"
  ss_queued :: "ResourceKind \<Rightarrow> nat"
  ss_circuit :: FailureCircuit

definition scope_new :: "ScopeLimits \<Rightarrow> bool \<Rightarrow> ScopeState" where
  "scope_new limits failure_enabled =
     \<lparr>ss_limits = limits, ss_failure_enabled = failure_enabled, ss_active = (\<lambda>_. 0), ss_queued = (\<lambda>_. 0),
      ss_circuit = circuit_default\<rparr>"

record Allocation =
  al_scope :: ScopeKey
  al_resource :: ResourceKind
  al_limit :: "ResourceLimit option"

definition effective_limit :: "Allocation \<Rightarrow> ScopeState \<Rightarrow> ResourceLimit" where
  "effective_limit a scope = (case al_limit a of Some limit \<Rightarrow> limit | None \<Rightarrow> ss_limits scope (al_resource a))"

record Waiter =
  w_id :: u64
  w_allocations :: "Allocation list"
  w_queued_at :: instant

datatype AdmissionRejectionReason =
  ActiveLimit | QueueFull | QueueTimeout | CircuitOpen | RetryBudgetReason | InternalStateUnavailable

record AdmissionRejection =
  ar_reason :: AdmissionRejectionReason
  ar_retry_after :: duration

record RetryBudget =
  rb_percent :: f64
  rb_min :: nat
  rb_max :: nat
  rb_queue :: nat
  rb_timeout :: duration

end
