(* ===== verification/Priority.thy ===== *)
theory Priority
  imports Breaker_Types "HOL-Library.Multiset"
begin

text \<open>
  Priority admission of global request slots: the policy of a class
  (\<open>crates/oxibelt-admission-policy/src/circuit_breakers/priority.rs\<close>, the classes of \<open>overload.rs\<close>) and the
  scheduler state kept under the admission lock (\<open>src/circuit_breakers/priority.rs\<close>).  The lemmas show
  that the scheduler finds a free reserved slot for a class that has one, that no class exceeds its share, and that the
  queue counters agree with the queues.
\<close>

section \<open>Floating-point shares\<close>

definition f64_scale :: "(rat \<Rightarrow> rat) \<Rightarrow> nat \<Rightarrow> f64 \<Rightarrow> f64" where
  "f64_scale rnd n share =
     (case share of
        Finite r \<Rightarrow> Finite (rnd (rnd (of_nat n) * r))
      | PosInf \<Rightarrow> if n = 0 then NaN else PosInf
      | NegInf \<Rightarrow> if n = 0 then NaN else NegInf
      | NaN \<Rightarrow> NaN)"

fun f64_floor_usize :: "f64 \<Rightarrow> nat" where
  "f64_floor_usize (Finite r) = min USIZE_MAX (nat \<lfloor>r\<rfloor>)"
| "f64_floor_usize PosInf = USIZE_MAX"
| "f64_floor_usize NegInf = 0"
| "f64_floor_usize NaN = 0"

fun f64_ceil_usize :: "f64 \<Rightarrow> nat" where
  "f64_ceil_usize (Finite r) = min USIZE_MAX (nat \<lceil>r\<rceil>)"
| "f64_ceil_usize PosInf = USIZE_MAX"
| "f64_ceil_usize NegInf = 0"
| "f64_ceil_usize NaN = 0"

fun f64_ge_one :: "f64 \<Rightarrow> bool" where
  "f64_ge_one (Finite r) \<longleftrightarrow> 1 \<le> r"
| "f64_ge_one PosInf \<longleftrightarrow> True"
| "f64_ge_one NegInf \<longleftrightarrow> False"
| "f64_ge_one NaN \<longleftrightarrow> False"

section \<open>Class policies\<close>

text \<open>\<open>sum::<usize>\<close>: in a release build additions wrap.\<close>

definition usize_sum :: "nat list \<Rightarrow> nat" where
  "usize_sum xs = sum_list xs mod 2 ^ 64"

datatype PriorityClass = Admin | Health | SecurityCallback | Interactive | Default | Background | Crawler

definition ALL_CLASSES :: "PriorityClass list" where
  "ALL_CLASSES = [Admin, Health, SecurityCallback, Interactive, Default, Background, Crawler]"

fun class_str :: "PriorityClass \<Rightarrow> string" where
  "class_str Admin = ''admin''"
| "class_str Health = ''health''"
| "class_str SecurityCallback = ''security_callback''"
| "class_str Interactive = ''interactive''"
| "class_str Default = ''default''"
| "class_str Background = ''background''"
| "class_str Crawler = ''crawler''"

datatype PriorityRejectionPolicy = Queue | Reject

record CircuitBreakerPriorityClassConfig =
  pc_name :: PriorityClass
  pc_reserved_requests :: "nat option"
  pc_max_share :: "f64 option"
  pc_max_pending_requests :: "CapacitySetting option"
  pc_pending_queue_timeout_ms :: "u64 option"
  pc_rejection_policy :: "PriorityRejectionPolicy option"

record CircuitBreakerPriorityConfig =
  pr_config_enabled :: bool
  pr_config_classes :: "CircuitBreakerPriorityClassConfig list"

record PriorityClassPolicy =
  pp_reserved_requests :: nat
  pp_max_share :: f64
  pp_max_pending_requests :: "CapacitySetting option"
  pp_pending_queue_timeout_ms :: "u64 option"
  pp_rejection_policy :: PriorityRejectionPolicy

definition default_for :: "PriorityClass \<Rightarrow> PriorityClassPolicy" where
  "default_for class =
     (case class of
        Background \<Rightarrow> \<lparr>pp_reserved_requests = 0, pp_max_share = Finite (1 / 2), pp_max_pending_requests = Some (Fixed 0),
          pp_pending_queue_timeout_ms = None, pp_rejection_policy = Reject\<rparr>
      | Crawler \<Rightarrow> \<lparr>pp_reserved_requests = 0, pp_max_share = Finite (1 / 4), pp_max_pending_requests = Some (Fixed 0),
          pp_pending_queue_timeout_ms = None, pp_rejection_policy = Reject\<rparr>
      | _ \<Rightarrow> \<lparr>pp_reserved_requests = 0, pp_max_share = Finite 1, pp_max_pending_requests = None,
          pp_pending_queue_timeout_ms = None, pp_rejection_policy = Queue\<rparr>)"

definition policy_apply :: "PriorityClassPolicy \<Rightarrow> CircuitBreakerPriorityClassConfig \<Rightarrow> PriorityClassPolicy" where
  "policy_apply p ov =
     \<lparr>pp_reserved_requests = unwrap_or (pc_reserved_requests ov) (pp_reserved_requests p),
      pp_max_share = unwrap_or (pc_max_share ov) (pp_max_share p),
      pp_max_pending_requests = (case pc_max_pending_requests ov of Some v \<Rightarrow> Some v | None \<Rightarrow> pp_max_pending_requests p),
      pp_pending_queue_timeout_ms = (case pc_pending_queue_timeout_ms ov of Some v \<Rightarrow> Some v | None \<Rightarrow> pp_pending_queue_timeout_ms p),
      pp_rejection_policy = unwrap_or (pc_rejection_policy ov) (pp_rejection_policy p)\<rparr>"

definition resolved_for_validation :: "CircuitBreakerPriorityConfig \<Rightarrow> PriorityClass \<Rightarrow> PriorityClassPolicy" where
  "resolved_for_validation config class =
     (case find (\<lambda>candidate. pc_name candidate = class) (pr_config_classes config) of
        Some ov \<Rightarrow> policy_apply (default_for class) ov
      | None \<Rightarrow> default_for class)"

definition max_class_requests :: "(rat \<Rightarrow> rat) \<Rightarrow> nat \<Rightarrow> f64 \<Rightarrow> nat" where
  "max_class_requests rnd global_capacity max_share =
     (if f64_ge_one max_share then global_capacity else f64_floor_usize (f64_scale rnd global_capacity max_share))"

definition class_validate :: "CircuitBreakerPriorityClassConfig \<Rightarrow> string + unit" where
  "class_validate class =
     (let start = ''circuit_breakers.priority.classes '' @ class_str (pc_name class) in
      if pc_name class \<in> {Admin, Health} \<and> unwrap_or (pc_reserved_requests class) 0 > 0
      then Inl (start @ '' may not reserve public request capacity'')
      else if (case pc_max_share class of
                 Some (Finite r) \<Rightarrow> \<not> (0 < r \<and> r \<le> 1) | Some _ \<Rightarrow> True | None \<Rightarrow> False)
      then Inl (start @ ''.max_share must be finite and in (0, 1]'')
      else if pc_pending_queue_timeout_ms class = Some 0
      then Inl (start @ ''.pending_queue_timeout_ms must be greater than 0'')
      else
        bindE (case pc_max_pending_requests class of
                 Some val \<Rightarrow> capacity_validate val (start @ ''.max_pending_requests'') True | None \<Rightarrow> Inr ()) (\<lambda>_.
        if pc_rejection_policy class = Some Reject \<and>
           (case pc_max_pending_requests class of Some (Fixed val) \<Rightarrow> val > 0 | _ \<Rightarrow> False)
        then Inl (start @ '' uses rejection_policy = \"reject\" and may not configure a positive queue'')
        else Inr ()))"

fun classes_validate :: "PriorityClass set \<Rightarrow> CircuitBreakerPriorityClassConfig list \<Rightarrow> string + unit" where
  "classes_validate seen [] = Inr ()"
| "classes_validate seen (class # classes) =
     (if pc_name class \<in> seen
      then Inl (''circuit_breakers.priority.classes contains duplicate class '' @ class_str (pc_name class))
      else bindE (class_validate class) (\<lambda>_. classes_validate (insert (pc_name class) seen) classes))"

definition priority_validate :: "(rat \<Rightarrow> rat) \<Rightarrow> CircuitBreakerPriorityConfig \<Rightarrow> nat option \<Rightarrow> string + unit" where
  "priority_validate rnd config fixed_global_capacity =
     bindE (classes_validate {} (pr_config_classes config)) (\<lambda>_.
     let background = resolved_for_validation config Background;
         crawler = resolved_for_validation config Crawler
     in if (case (pp_max_share background, pp_max_share crawler) of (Finite a, Finite b) \<Rightarrow> rnd (a + b) \<ge> 1 | _ \<Rightarrow> False)
        then Inl ''circuit_breakers.priority background and crawler maximum shares must sum to less than 1''
        else
          let global_capacity = unwrap_or fixed_global_capacity 64;
              reservations = usize_sum (map (\<lambda>class. pp_reserved_requests (resolved_for_validation config class)) ALL_CLASSES)
          in if reservations \<ge> global_capacity
             then Inl ''circuit_breakers.priority reserved requests must leave at least one global shared request slot''
             else case find (\<lambda>class.
                       let policy = resolved_for_validation config class in
                       pp_reserved_requests policy > max_class_requests rnd global_capacity (pp_max_share policy)) ALL_CLASSES of
               Some class \<Rightarrow> Inl (''circuit_breakers.priority class '' @ class_str class @
                 '' reserves more requests than its maximum share allows'')
             | None \<Rightarrow> Inr ())"

section \<open>Scheduler state\<close>

abbreviation (input) ELIGIBLE_LANE :: nat where "ELIGIBLE_LANE \<equiv> 0"
abbreviation (input) SHARED_LANE :: nat where "SHARED_LANE \<equiv> 1"
abbreviation (input) LANE_COUNT :: nat where "LANE_COUNT \<equiv> 2"

datatype PriorityLeaseKind = Reserved | Shared

record PriorityLease =
  pl_class :: PriorityClass
  pl_kind :: PriorityLeaseKind

datatype PriorityRejectionReason = PrShareLimit | PrQueueFull | PrPolicy | PrQueueTimeout

record ResolvedPriorityPolicy =
  rp_reserved_requests :: nat
  rp_max_requests :: nat
  rp_max_pending_requests :: nat
  rp_queue_timeout :: duration
  rp_rejection_policy :: PriorityRejectionPolicy

definition resolve_policy :: "(rat \<Rightarrow> rat) \<Rightarrow> PriorityClassPolicy \<Rightarrow> ResourceLimit \<Rightarrow> ResolvedPriorityPolicy" where
  "resolve_policy rnd policy global =
     (let automatic_queue =
            (if pp_rejection_policy policy = Queue
             then max (f64_ceil_usize (f64_scale rnd (rl_queue global) (pp_max_share policy))) 1 else 0);
          max_pending_requests =
            (case pp_max_pending_requests policy of Some val \<Rightarrow> unwrap_or (fixed val) automatic_queue | None \<Rightarrow> automatic_queue)
      in \<lparr>rp_reserved_requests = pp_reserved_requests policy,
          rp_max_requests = max_class_requests rnd (rl_active global) (pp_max_share policy),
          rp_max_pending_requests = (if pp_rejection_policy policy = Reject then 0 else max_pending_requests),
          rp_queue_timeout =
            (case pp_pending_queue_timeout_ms policy of
               Some ms \<Rightarrow> from_millis ms
             | None \<Rightarrow> min (rl_timeout global div NANOS_PER_MILLI) (2 ^ 64 - 1) * NANOS_PER_MILLI),
          rp_rejection_policy = pp_rejection_policy policy\<rparr>)"

definition max_shared_requests :: "ResolvedPriorityPolicy \<Rightarrow> nat" where
  "max_shared_requests p = rp_max_requests p - rp_reserved_requests p"

record PriorityActive =
  pa_reserved :: nat
  pa_shared :: nat

definition active_total :: "PriorityActive \<Rightarrow> nat" where
  "active_total a = usize_saturating_add (pa_reserved a) (pa_shared a)"

record PriorityTicket =
  pt_id :: u64
  pt_class :: PriorityClass
  pt_lane :: nat
  pt_queued_at :: instant

record PriorityAdmissionState =
  pr_enabled :: bool
  pr_policies :: "PriorityClass \<Rightarrow> ResolvedPriorityPolicy"
  pr_shared_capacity :: nat
  pr_shared_active :: nat
  pr_active :: "PriorityClass \<Rightarrow> PriorityActive"
  pr_queued :: "PriorityClass \<Rightarrow> nat"
  pr_queues :: "PriorityClass \<Rightarrow> nat \<Rightarrow> PriorityTicket list"
  pr_rejections :: "PriorityClass \<Rightarrow> PriorityRejectionReason \<Rightarrow> nat"
  pr_queue_waits :: "PriorityClass \<Rightarrow> nat"
  pr_queue_wait_ms :: "PriorityClass \<Rightarrow> nat"
  pr_next_waiter :: u64

definition u64_saturating_add :: "nat \<Rightarrow> nat \<Rightarrow> nat" where
  "u64_saturating_add a b = min (2 ^ 64 - 1) (a + b)"

definition priority_from_config :: "(rat \<Rightarrow> rat) \<Rightarrow> CircuitBreakerPriorityConfig \<Rightarrow> ResourceLimit \<Rightarrow> PriorityAdmissionState" where
  "priority_from_config rnd config global =
     (let policies = (\<lambda>class. resolve_policy rnd (resolved_for_validation config class) global);
          reserved = usize_sum (map (\<lambda>class. rp_reserved_requests (policies class)) ALL_CLASSES)
      in \<lparr>pr_enabled = pr_config_enabled config, pr_policies = policies, pr_shared_capacity = rl_active global - reserved,
          pr_shared_active = 0, pr_active = (\<lambda>_. \<lparr>pa_reserved = 0, pa_shared = 0\<rparr>), pr_queued = (\<lambda>_. 0),
          pr_queues = (\<lambda>_ _. []), pr_rejections = (\<lambda>_ _. 0), pr_queue_waits = (\<lambda>_. 0), pr_queue_wait_ms = (\<lambda>_. 0),
          pr_next_waiter = 1\<rparr>)"

definition priority_configure ::
  "(rat \<Rightarrow> rat) \<Rightarrow> PriorityAdmissionState \<Rightarrow> CircuitBreakerPriorityConfig \<Rightarrow> ResourceLimit \<Rightarrow> PriorityAdmissionState" where
  "priority_configure rnd s config global =
     (let replacement = priority_from_config rnd config global
      in s\<lparr>pr_enabled := pr_enabled replacement, pr_policies := pr_policies replacement,
           pr_shared_capacity := pr_shared_capacity replacement\<rparr>)"

definition priority_lane :: "bool \<Rightarrow> nat" where
  "priority_lane reservation_eligible = (if reservation_eligible then ELIGIBLE_LANE else SHARED_LANE)"

definition lane_empty :: "PriorityAdmissionState \<Rightarrow> PriorityClass \<Rightarrow> bool \<Rightarrow> bool" where
  "lane_empty s class reservation_eligible \<longleftrightarrow> pr_queues s class (priority_lane reservation_eligible) = []"

definition total_active :: "PriorityAdmissionState \<Rightarrow> nat" where
  "total_active s = usize_sum (map (\<lambda>class. active_total (pr_active s class)) ALL_CLASSES)"

definition priority_can_admit ::
  "PriorityAdmissionState \<Rightarrow> PriorityClass \<Rightarrow> bool \<Rightarrow> nat \<Rightarrow> nat \<Rightarrow> PriorityLeaseKind option" where
  "priority_can_admit s class reservation_eligible global_active global_capacity =
     (if global_active \<ge> global_capacity then None else
      let policy = pr_policies s class in
      if active_total (pr_active s class) \<ge> rp_max_requests policy then None
      else if reservation_eligible \<and> pa_reserved (pr_active s class) < rp_reserved_requests policy then Some Reserved
      else if pa_shared (pr_active s class) \<ge> max_shared_requests policy then None
      else
        let untracked_active = global_active - total_active s in
        if usize_saturating_add (pr_shared_active s) untracked_active < pr_shared_capacity s then Some Shared else None)"

definition choose_oldest :: "PriorityTicket option \<Rightarrow> PriorityTicket \<Rightarrow> PriorityTicket option" where
  "choose_oldest candidate next_ticket =
     (case candidate of
        None \<Rightarrow> Some next_ticket
      | Some current \<Rightarrow> if pt_queued_at next_ticket < pt_queued_at current then Some next_ticket else candidate)"

definition oldest_of :: "PriorityTicket list \<Rightarrow> PriorityTicket option" where
  "oldest_of ts = foldl choose_oldest None ts"

definition lane_head :: "PriorityAdmissionState \<Rightarrow> PriorityClass \<Rightarrow> nat \<Rightarrow> PriorityTicket list" where
  "lane_head s class lane = take 1 (pr_queues s class lane)"

definition selected_waiter :: "PriorityAdmissionState \<Rightarrow> nat \<Rightarrow> nat \<Rightarrow> PriorityTicket option" where
  "selected_waiter s global_active global_capacity =
     (case oldest_of (concat (map (\<lambda>class.
             if priority_can_admit s class True global_active global_capacity = Some Reserved
             then lane_head s class ELIGIBLE_LANE else []) ALL_CLASSES)) of
        Some t \<Rightarrow> Some t
      | None \<Rightarrow>
          oldest_of (concat (map (\<lambda>class. concat (map (\<lambda>lane.
             if priority_can_admit s class (lane = ELIGIBLE_LANE) global_active global_capacity \<noteq> None
             then lane_head s class lane else []) [0..<LANE_COUNT])) ALL_CLASSES)))"

definition is_selected :: "PriorityAdmissionState \<Rightarrow> PriorityTicket \<Rightarrow> nat \<Rightarrow> nat \<Rightarrow> bool" where
  "is_selected s ticket global_active global_capacity =
     (case selected_waiter s global_active global_capacity of Some selected \<Rightarrow> pt_id selected = pt_id ticket | None \<Rightarrow> False)"

definition priority_rejection_reason :: "PriorityAdmissionState \<Rightarrow> PriorityClass \<Rightarrow> PriorityRejectionReason option" where
  "priority_rejection_reason s class =
     (let policy = pr_policies s class in
      if rp_rejection_policy policy = Reject then
        let active = pr_active s class in
        Some (if active_total active \<ge> rp_max_requests policy \<or> pa_shared active \<ge> max_shared_requests policy
              then PrShareLimit else PrPolicy)
      else if pr_queued s class \<ge> rp_max_pending_requests policy then Some PrQueueFull else None)"

definition next_id :: "u64 \<Rightarrow> u64" where
  "next_id i = max (i + 1) 1"

definition priority_enqueue ::
  "PriorityAdmissionState \<Rightarrow> PriorityClass \<Rightarrow> bool \<Rightarrow> instant \<Rightarrow> PriorityAdmissionState \<times> PriorityTicket" where
  "priority_enqueue s class reservation_eligible now =
     (let ticket = \<lparr>pt_id = pr_next_waiter s, pt_class = class, pt_lane = priority_lane reservation_eligible, pt_queued_at = now\<rparr>
      in (s\<lparr>pr_next_waiter := next_id (pr_next_waiter s),
            pr_queues := (pr_queues s)(class := (pr_queues s class)(pt_lane ticket := pr_queues s class (pt_lane ticket) @ [ticket])),
            pr_queued := (pr_queued s)(class := usize_saturating_add (pr_queued s class) 1)\<rparr>, ticket))"

definition remove_nth :: "nat \<Rightarrow> 'a list \<Rightarrow> 'a list" where
  "remove_nth i xs = take i xs @ drop (Suc i) xs"

definition priority_remove :: "PriorityAdmissionState \<Rightarrow> PriorityTicket \<Rightarrow> (PriorityAdmissionState \<times> PriorityTicket) option" where
  "priority_remove s ticket =
     (let class = pt_class ticket; queue = pr_queues s class (pt_lane ticket) in
      case position (\<lambda>candidate. pt_id candidate = pt_id ticket) queue of
        None \<Rightarrow> None
      | Some i \<Rightarrow>
          Some (s\<lparr>pr_queues := (pr_queues s)(class := (pr_queues s class)(pt_lane ticket := remove_nth i queue)),
                  pr_queued := (pr_queued s)(class := pr_queued s class - 1)\<rparr>, queue ! i))"

definition priority_admit :: "PriorityAdmissionState \<Rightarrow> PriorityClass \<Rightarrow> PriorityLeaseKind \<Rightarrow> PriorityAdmissionState \<times> PriorityLease" where
  "priority_admit s class kind =
     (let active = pr_active s class
      in (case kind of
            Reserved \<Rightarrow> s\<lparr>pr_active := (pr_active s)(class := active\<lparr>pa_reserved := usize_saturating_add (pa_reserved active) 1\<rparr>)\<rparr>
          | Shared \<Rightarrow> s\<lparr>pr_active := (pr_active s)(class := active\<lparr>pa_shared := usize_saturating_add (pa_shared active) 1\<rparr>),
                       pr_shared_active := usize_saturating_add (pr_shared_active s) 1\<rparr>,
          \<lparr>pl_class = class, pl_kind = kind\<rparr>))"

definition priority_release :: "PriorityAdmissionState \<Rightarrow> PriorityLease \<Rightarrow> PriorityAdmissionState" where
  "priority_release s lease =
     (let class = pl_class lease; active = pr_active s class
      in case pl_kind lease of
           Reserved \<Rightarrow> s\<lparr>pr_active := (pr_active s)(class := active\<lparr>pa_reserved := pa_reserved active - 1\<rparr>)\<rparr>
         | Shared \<Rightarrow> s\<lparr>pr_active := (pr_active s)(class := active\<lparr>pa_shared := pa_shared active - 1\<rparr>),
                      pr_shared_active := pr_shared_active s - 1\<rparr>)"

definition record_priority_rejection :: "PriorityAdmissionState \<Rightarrow> PriorityClass \<Rightarrow> PriorityRejectionReason \<Rightarrow> PriorityAdmissionState" where
  "record_priority_rejection s class reason =
     s\<lparr>pr_rejections := (pr_rejections s)(class := (pr_rejections s class)(reason := u64_saturating_add (pr_rejections s class reason) 1))\<rparr>"

definition record_queue_wait :: "PriorityAdmissionState \<Rightarrow> PriorityClass \<Rightarrow> instant \<Rightarrow> instant \<Rightarrow> PriorityAdmissionState" where
  "record_queue_wait s class queued_at now =
     s\<lparr>pr_queue_waits := (pr_queue_waits s)(class := u64_saturating_add (pr_queue_waits s class) 1),
       pr_queue_wait_ms := (pr_queue_wait_ms s)(class :=
         u64_saturating_add (pr_queue_wait_ms s class)
           (min ((saturating_duration_since now queued_at) div NANOS_PER_MILLI) (2 ^ 64 - 1)))\<rparr>"

section \<open>Sums over the classes\<close>

definition class_sum :: "(PriorityClass \<Rightarrow> nat) \<Rightarrow> nat" where
  "class_sum f = sum_list (map f ALL_CLASSES)"

lemma class_sum_update: "class_sum (f(c := v)) + f c = class_sum f + v"
  by (cases c) (simp_all add: class_sum_def ALL_CLASSES_def)

lemma class_sum_add: "class_sum (\<lambda>c. f c + g c) = class_sum f + class_sum g"
  by (simp add: class_sum_def ALL_CLASSES_def)

lemma class_sum_mono: "(\<And>c. f c \<le> g c) \<Longrightarrow> class_sum f \<le> class_sum g"
  unfolding class_sum_def by (rule sum_list_mono) simp

lemma class_sum_less:
  assumes "\<And>c. f c \<le> g c" "f c < g c"
  shows "class_sum f < class_sum g"
proof -
  have "class_sum (f(c := g c)) \<le> class_sum g" using assms(1) by (intro class_sum_mono) simp
  then show ?thesis using class_sum_update [of f c "g c"] assms(2) by linarith
qed

lemma class_sum_ge: "f c \<le> class_sum f"
  using class_sum_update [of f c 0] by simp

lemma usize_sum_le: "usize_sum (map f ALL_CLASSES) \<le> class_sum f"
  by (simp add: usize_sum_def class_sum_def)

lemma usize_sum_exact: "class_sum f < 2 ^ 64 \<Longrightarrow> usize_sum (map f ALL_CLASSES) = class_sum f"
  by (simp add: usize_sum_def class_sum_def)

lemma class_sum_zero [simp]: "class_sum (\<lambda>_. 0) = 0"
  by (simp add: class_sum_def)

lemma ALL_CLASSES_set [simp]: "set ALL_CLASSES = UNIV"
proof -
  have "c \<in> set ALL_CLASSES" for c by (cases c) (simp_all add: ALL_CLASSES_def)
  then show ?thesis by blast
qed

section \<open>Queues and their counters\<close>

definition queue_inv :: "PriorityAdmissionState \<Rightarrow> bool" where
  "queue_inv s \<longleftrightarrow> (\<forall>c. pr_queued s c = length (pr_queues s c ELIGIBLE_LANE) + length (pr_queues s c SHARED_LANE) \<and>
     (\<forall>lane \<ge> LANE_COUNT. pr_queues s c lane = []))"

definition prio_queued :: "PriorityAdmissionState \<Rightarrow> nat" where
  "prio_queued s = class_sum (pr_queued s)"

lemma position_SomeD:
  assumes "position p xs = Some i"
  shows "i < length xs \<and> p (xs ! i) \<and> xs = take i xs @ xs ! i # drop (Suc i) xs"
proof -
  have "i < length xs \<and> p (xs ! i)" using assms
  proof (induction xs arbitrary: i)
    case (Cons a xs)
    then show ?case by (cases "p a") (auto split: option.splits)
  qed simp
  then show ?thesis using id_take_nth_drop by blast
qed

lemma length_remove_nth: "i < length xs \<Longrightarrow> Suc (length (remove_nth i xs)) = length xs"
  by (simp add: remove_nth_def)

lemma priority_enqueue_queue:
  assumes "queue_inv s" "prio_queued s < USIZE_MAX" "priority_enqueue s c eligible now = (s', t)"
  shows "queue_inv s' \<and> prio_queued s' = Suc (prio_queued s)"
proof -
  have "pr_queued s c < USIZE_MAX" using class_sum_ge [of "pr_queued s" c] assms(2) by (simp add: prio_queued_def)
  then have sat: "usize_saturating_add (pr_queued s c) 1 = Suc (pr_queued s c)" by (simp add: usize_saturating_add_def)
  have "queue_inv s'" using assms(1,3) sat by (auto simp: queue_inv_def priority_enqueue_def priority_lane_def Let_def)
  moreover have "pr_queued s' = (pr_queued s)(c := Suc (pr_queued s c))" using assms(3) sat by (auto simp: priority_enqueue_def Let_def)
  ultimately show ?thesis using class_sum_update [of "pr_queued s" c "Suc (pr_queued s c)"] by (simp add: prio_queued_def)
qed

lemma priority_remove_queue:
  assumes "queue_inv s" "priority_remove s t = Some (s', removed)"
  shows "queue_inv s' \<and> Suc (prio_queued s') = prio_queued s"
proof -
  define q where "q = pr_queues s (pt_class t) (pt_lane t)"
  from assms(2) obtain i where i: "position (\<lambda>candidate. pt_id candidate = pt_id t) q = Some i"
      and s': "s' = s\<lparr>pr_queues := (pr_queues s)(pt_class t := (pr_queues s (pt_class t))(pt_lane t := remove_nth i q)),
        pr_queued := (pr_queued s)(pt_class t := pr_queued s (pt_class t) - 1)\<rparr>"
    by (auto simp: priority_remove_def Let_def q_def split: option.splits)
  have len: "Suc (length (remove_nth i q)) = length q" using position_SomeD [OF i] length_remove_nth by blast
  have lane: "pt_lane t = 0 \<or> pt_lane t = 1"
  proof (rule ccontr)
    assume "\<not> ?thesis"
    then have "2 \<le> pt_lane t" by arith
    then have "q = []" using assms(1) by (simp add: queue_inv_def q_def)
    then show False using len by simp
  qed
  have total: "pr_queued s (pt_class t) = length (pr_queues s (pt_class t) 0) + length (pr_queues s (pt_class t) 1)"
    using assms(1) by (simp add: queue_inv_def)
  have queues: "pr_queues s' c l = (if c = pt_class t \<and> l = pt_lane t then remove_nth i q else pr_queues s c l)" for c l
    unfolding s' by simp
  have queued: "pr_queued s' = (pr_queued s)(pt_class t := pr_queued s (pt_class t) - 1)" unfolding s' by simp
  have "pr_queued s' c = length (pr_queues s' c 0) + length (pr_queues s' c 1)" for c
  proof (cases "c = pt_class t")
    case True
    from lane show ?thesis
    proof
      assume zero: "pt_lane t = 0"
      then have "pr_queues s' c 0 = remove_nth i q" "pr_queues s' c 1 = pr_queues s c 1" using True by (simp_all add: queues)
      then show ?thesis using total len True zero unfolding q_def queued fun_upd_same by simp
    next
      assume one: "pt_lane t = 1"
      then have "pr_queues s' c 0 = pr_queues s c 0" "pr_queues s' c 1 = remove_nth i q" using True by (simp_all add: queues)
      then show ?thesis using total len True one unfolding q_def queued fun_upd_same by simp
    qed
  next
    case False
    then show ?thesis using assms(1) by (simp add: queues queued queue_inv_def)
  qed
  then have "queue_inv s'" using assms(1) lane unfolding queue_inv_def queues by auto
  moreover have "0 < pr_queued s (pt_class t)"
  proof -
    have "0 < length (pr_queues s (pt_class t) (pt_lane t))" unfolding len [unfolded q_def, symmetric] by (rule zero_less_Suc)
    then show ?thesis using total lane by (elim disjE) (simp_all only: add_gr_0 simp_thms)
  qed
  then have "Suc (prio_queued s') = prio_queued s"
    using class_sum_update [of "pr_queued s" "pt_class t" "pr_queued s (pt_class t) - 1"] unfolding prio_queued_def queued by linarith
  ultimately show ?thesis by blast
qed

section \<open>Reserved and shared slots\<close>

definition class_leases :: "PriorityLease multiset \<Rightarrow> PriorityClass \<Rightarrow> PriorityLeaseKind \<Rightarrow> nat" where
  "class_leases leases c kind = count leases \<lparr>pl_class = c, pl_kind = kind\<rparr>"

text \<open>The active counters are exactly the permits that exist, and each kind stays within its allowance.\<close>

definition active_agrees :: "PriorityAdmissionState \<Rightarrow> PriorityLease multiset \<Rightarrow> bool" where
  "active_agrees s leases \<longleftrightarrow>
     (\<forall>c. pa_reserved (pr_active s c) = class_leases leases c Reserved \<and> pa_shared (pr_active s c) = class_leases leases c Shared) \<and>
     pr_shared_active s = class_sum (\<lambda>c. class_leases leases c Shared)"

definition within_shares :: "PriorityAdmissionState \<Rightarrow> bool" where
  "within_shares s \<longleftrightarrow>
     (\<forall>c. pa_reserved (pr_active s c) \<le> rp_reserved_requests (pr_policies s c) \<and>
          pa_shared (pr_active s c) \<le> max_shared_requests (pr_policies s c)) \<and>
     pr_shared_active s \<le> pr_shared_capacity s"

text \<open>
  Runs of the scheduler: permits are granted as \<open>can_admit\<close> decides, with a global active count that
  covers at least the permits the scheduler tracks, and released; waiters come and go; a reload replaces the
  policies and keeps the counters.  A run goes on after a reload when the permits in flight fit the new shares.
\<close>

inductive priority_run ::
  "(rat \<Rightarrow> rat) \<Rightarrow> CircuitBreakerPriorityConfig \<Rightarrow> ResourceLimit \<Rightarrow> PriorityAdmissionState \<Rightarrow> PriorityLease multiset \<Rightarrow> bool"
  for rnd where
  run_init: "rl_active global \<le> USIZE_MAX \<Longrightarrow> priority_run rnd config global (priority_from_config rnd config global) {#}"
| run_admit: "priority_run rnd config global s leases \<Longrightarrow> total_active s \<le> active \<Longrightarrow>
    priority_can_admit s c eligible active (rl_active global) = Some kind \<Longrightarrow> priority_admit s c kind = (s', lease) \<Longrightarrow>
    priority_run rnd config global s' (add_mset lease leases)"
| run_release: "priority_run rnd config global s (add_mset lease leases) \<Longrightarrow>
    priority_run rnd config global (priority_release s lease) leases"
| run_enqueue: "priority_run rnd config global s leases \<Longrightarrow>
    priority_run rnd config global (fst (priority_enqueue s c eligible now)) leases"
| run_remove: "priority_run rnd config global s leases \<Longrightarrow> priority_remove s t = Some (s', removed) \<Longrightarrow>
    priority_run rnd config global s' leases"
| run_reload: "priority_run rnd config global s leases \<Longrightarrow> rl_active global' \<le> USIZE_MAX \<Longrightarrow>
    within_shares (priority_configure rnd s config' global') \<Longrightarrow>
    priority_run rnd config' global' (priority_configure rnd s config' global') leases"

lemma class_leases_add:
  "class_leases (add_mset lease leases) c kind =
     (if lease = \<lparr>pl_class = c, pl_kind = kind\<rparr> then Suc (class_leases leases c kind) else class_leases leases c kind)"
  by (simp add: class_leases_def)

lemma size_leases: "size leases = class_sum (\<lambda>c. class_leases leases c Reserved + class_leases leases c Shared)"
proof (induction leases)
  case (add lease leases)
  obtain c kind where lease: "lease = \<lparr>pl_class = c, pl_kind = kind\<rparr>" by (cases lease)
  let ?f = "\<lambda>c. class_leases leases c Reserved + class_leases leases c Shared"
  have "(\<lambda>c. class_leases (add_mset lease leases) c Reserved + class_leases (add_mset lease leases) c Shared) = ?f(c := Suc (?f c))"
    by (cases kind) (auto simp: lease class_leases_add fun_eq_iff)
  then show ?case using class_sum_update [of ?f c "Suc (?f c)"] add.IH by simp
qed (simp add: class_leases_def)

lemma total_active_size:
  assumes "active_agrees s leases" "size leases \<le> USIZE_MAX"
  shows "total_active s = size leases"
proof -
  let ?f = "\<lambda>c. class_leases leases c Reserved + class_leases leases c Shared"
  have "?f c \<le> USIZE_MAX" for c using class_sum_ge [of ?f c] assms(2) unfolding size_leases by (rule le_trans)
  then have "active_total (pr_active s c) = ?f c" for c
    using assms(1) by (simp add: active_agrees_def active_total_def usize_saturating_add_def)
  then have "total_active s = usize_sum (map ?f ALL_CLASSES)" by (simp add: total_active_def)
  also have "\<dots> = class_sum ?f" using assms(2) unfolding size_leases by (intro usize_sum_exact) simp
  finally show ?thesis by (simp add: size_leases)
qed

lemma active_agrees_admit:
  assumes agrees: "active_agrees s leases" and small: "size leases < USIZE_MAX" and admit: "priority_admit s c kind = (s', lease)"
  shows "active_agrees s' (add_mset lease leases)"
proof -
  have one: "class_leases leases c k < USIZE_MAX" for k
    using count_le_size small unfolding class_leases_def by (rule le_less_trans)
  have "class_sum (\<lambda>c. class_leases leases c Shared) \<le> size leases" unfolding size_leases by (rule class_sum_mono) simp
  then have shared: "class_sum (\<lambda>c. class_leases leases c Shared) < USIZE_MAX" using small by (rule le_less_trans)
  show ?thesis
  proof (cases kind)
    case Reserved
    then show ?thesis using agrees admit one [of Reserved]
      by (auto simp: active_agrees_def priority_admit_def class_leases_add usize_saturating_add_def Let_def)
  next
    case Shared
    have "(\<lambda>d. class_leases (add_mset lease leases) d Shared) =
        (\<lambda>d. class_leases leases d Shared)(c := Suc (class_leases leases c Shared))"
      using admit Shared by (auto simp: priority_admit_def Let_def class_leases_add fun_eq_iff)
    then have "class_sum (\<lambda>d. class_leases (add_mset lease leases) d Shared) = Suc (class_sum (\<lambda>d. class_leases leases d Shared))"
      using class_sum_update [of "\<lambda>d. class_leases leases d Shared" c "Suc (class_leases leases c Shared)"] by simp
    with Shared show ?thesis using agrees admit one [of Shared] shared
      by (auto simp: active_agrees_def priority_admit_def class_leases_add usize_saturating_add_def Let_def)
  qed
qed

lemma active_agrees_release:
  assumes agrees: "active_agrees s (add_mset lease leases)"
  shows "active_agrees (priority_release s lease) leases"
proof -
  obtain c kind where lease: "lease = \<lparr>pl_class = c, pl_kind = kind\<rparr>" by (cases lease)
  show ?thesis
  proof (cases kind)
    case Reserved
    then show ?thesis using agrees by (auto simp: active_agrees_def priority_release_def class_leases_add lease Let_def)
  next
    case Shared
    have "(\<lambda>d. class_leases (add_mset lease leases) d Shared) =
        (\<lambda>d. class_leases leases d Shared)(c := Suc (class_leases leases c Shared))"
      using Shared by (auto simp: lease class_leases_add fun_eq_iff)
    then have "class_sum (\<lambda>d. class_leases (add_mset lease leases) d Shared) = Suc (class_sum (\<lambda>d. class_leases leases d Shared))"
      using class_sum_update [of "\<lambda>d. class_leases leases d Shared" c "Suc (class_leases leases c Shared)"] by simp
    with Shared show ?thesis using agrees by (auto simp: active_agrees_def priority_release_def class_leases_add lease Let_def)
  qed
qed

lemma within_shares_admit:
  assumes agrees: "active_agrees s leases" and within: "within_shares s" and cover: "total_active s \<le> active" "cap \<le> USIZE_MAX"
    and small: "size leases \<le> USIZE_MAX"
    and can: "priority_can_admit s c eligible active cap = Some kind" and admit: "priority_admit s c kind = (s', lease)"
  shows "within_shares s'" "active_agrees s' (add_mset lease leases)" "size (add_mset lease leases) \<le> USIZE_MAX"
proof -
  have "active < cap" using can by (auto simp: priority_can_admit_def split: if_splits)
  with cover have "total_active s < USIZE_MAX" by (metis le_less_trans order_less_le_trans)
  then have less: "size leases < USIZE_MAX" unfolding total_active_size [OF agrees small] .
  then show "size (add_mset lease leases) \<le> USIZE_MAX" by simp
  show agrees': "active_agrees s' (add_mset lease leases)" by (rule active_agrees_admit [OF agrees less admit])
  show "within_shares s'"
    using within admit can
    by (cases kind) (auto simp: within_shares_def priority_admit_def priority_can_admit_def usize_saturating_add_def Let_def
        split: if_splits)
qed

lemma within_shares_release: "within_shares s \<Longrightarrow> within_shares (priority_release s lease)"
  by (cases "pl_kind lease") (auto simp: within_shares_def priority_release_def Let_def le_diff_conv le_SucI)

lemma priority_run_inv:
  assumes "priority_run rnd config global s leases"
  shows "active_agrees s leases \<and> within_shares s \<and> size leases \<le> USIZE_MAX \<and> rl_active global \<le> USIZE_MAX \<and>
    pr_enabled s = pr_config_enabled config \<and>
    pr_policies s = (\<lambda>c. resolve_policy rnd (resolved_for_validation config c) global) \<and>
    pr_shared_capacity s = rl_active global - usize_sum (map (\<lambda>c. rp_reserved_requests (pr_policies s c)) ALL_CLASSES)"
  using assms
proof induction
  case (run_init global config)
  then show ?case by (simp add: active_agrees_def within_shares_def class_leases_def priority_from_config_def Let_def)
next
  case (run_admit config global s leases active c eligible kind s' lease)
  then have inv: "active_agrees s leases" "within_shares s" and small: "size leases \<le> USIZE_MAX" and cap: "rl_active global \<le> USIZE_MAX" by simp_all
  have "pr_policies s' = pr_policies s" "pr_shared_capacity s' = pr_shared_capacity s" "pr_enabled s' = pr_enabled s"
    using run_admit.hyps(4) by (cases kind; auto simp: priority_admit_def Let_def)+
  with within_shares_admit [OF inv run_admit.hyps(2) cap small run_admit.hyps(3,4)] run_admit.IH show ?case by simp
next
  case (run_release config global s lease leases)
  have "pr_policies (priority_release s lease) = pr_policies s" "pr_shared_capacity (priority_release s lease) = pr_shared_capacity s"
      "pr_enabled (priority_release s lease) = pr_enabled s"
    by (cases "pl_kind lease"; simp add: priority_release_def Let_def)+
  with run_release.IH show ?case using active_agrees_release within_shares_release by simp
next
  case (run_enqueue config global s leases c eligible now)
  let ?s = "fst (priority_enqueue s c eligible now)"
  have "pr_policies ?s = pr_policies s" "pr_shared_capacity ?s = pr_shared_capacity s" "pr_active ?s = pr_active s"
      "pr_shared_active ?s = pr_shared_active s" "pr_enabled ?s = pr_enabled s"
    by (simp_all add: priority_enqueue_def Let_def)
  with run_enqueue.IH show ?case unfolding active_agrees_def within_shares_def by metis
next
  case (run_remove config global s leases t s' removed)
  then have "pr_policies s' = pr_policies s" "pr_shared_capacity s' = pr_shared_capacity s" "pr_active s' = pr_active s"
      "pr_shared_active s' = pr_shared_active s" "pr_enabled s' = pr_enabled s"
    by (auto simp: priority_remove_def Let_def split: option.splits)
  with run_remove.IH show ?case unfolding active_agrees_def within_shares_def by metis
next
  case (run_reload config global s leases global' config')
  have "active_agrees (priority_configure rnd s config' global') leases"
    using run_reload.IH by (simp add: priority_configure_def active_agrees_def Let_def)
  then show ?case using run_reload by (simp add: priority_configure_def priority_from_config_def Let_def)
qed

lemma priority_validate_policies:
  assumes "priority_validate rnd config (Some (rl_active global)) = Inr ()"
    and "class_sum (\<lambda>c. pp_reserved_requests (resolved_for_validation config c)) < 2 ^ 64"
  shows "class_sum (\<lambda>c. rp_reserved_requests (resolve_policy rnd (resolved_for_validation config c) global)) < rl_active global"
    "rp_reserved_requests (resolve_policy rnd (resolved_for_validation config c) global) \<le>
     rp_max_requests (resolve_policy rnd (resolved_for_validation config c) global)"
proof -
  let ?bad = "\<lambda>c. let policy = resolved_for_validation config c
    in pp_reserved_requests policy > max_class_requests rnd (rl_active global) (pp_max_share policy)"
  have "\<not> usize_sum (map (\<lambda>c. pp_reserved_requests (resolved_for_validation config c)) ALL_CLASSES) \<ge> rl_active global \<and>
      find ?bad ALL_CLASSES = None"
    using assms(1) by (auto simp: priority_validate_def Let_def unwrap_or_def result_simps split: if_splits option.splits)
  then have "\<not> class_sum (\<lambda>c. pp_reserved_requests (resolved_for_validation config c)) \<ge> rl_active global" "find ?bad ALL_CLASSES = None"
    unfolding usize_sum_exact [OF assms(2)] by blast+
  then show "class_sum (\<lambda>c. rp_reserved_requests (resolve_policy rnd (resolved_for_validation config c) global)) < rl_active global"
    "rp_reserved_requests (resolve_policy rnd (resolved_for_validation config c) global) \<le>
     rp_max_requests (resolve_policy rnd (resolved_for_validation config c) global)"
    by (simp_all add: resolve_policy_def Let_def find_None_iff not_less)
qed

lemma reserved_slot_free:
  assumes within: "within_shares s" and agrees: "active_agrees s leases"
    and ok: "\<And>c. rp_reserved_requests (pr_policies s c) \<le> rp_max_requests (pr_policies s c)"
    and cap: "pr_shared_capacity s + class_sum (\<lambda>c. rp_reserved_requests (pr_policies s c)) \<le> cap"
    and free: "pa_reserved (pr_active s c) < rp_reserved_requests (pr_policies s c)"
    and untracked: "pr_shared_active s + untracked \<le> pr_shared_capacity s"
  shows "priority_can_admit s c True (total_active s + untracked) cap = Some Reserved"
proof -
  have "active_total (pr_active s d) \<le> pa_reserved (pr_active s d) + pa_shared (pr_active s d)" for d
    by (simp add: active_total_def usize_saturating_add_def)
  then have "class_sum (\<lambda>d. active_total (pr_active s d)) \<le> class_sum (\<lambda>d. pa_reserved (pr_active s d) + pa_shared (pr_active s d))"
    by (rule class_sum_mono)
  then have "total_active s \<le> class_sum (\<lambda>d. pa_reserved (pr_active s d) + pa_shared (pr_active s d))"
    unfolding total_active_def using usize_sum_le le_trans by blast
  also have "\<dots> = class_sum (\<lambda>d. pa_reserved (pr_active s d)) + pr_shared_active s"
    using agrees by (simp add: class_sum_add active_agrees_def)
  also have "\<dots> < class_sum (\<lambda>d. rp_reserved_requests (pr_policies s d)) + pr_shared_active s"
    using class_sum_less [of "\<lambda>d. pa_reserved (pr_active s d)" "\<lambda>d. rp_reserved_requests (pr_policies s d)" c] within free
    by (simp add: within_shares_def)
  finally have "total_active s + untracked < cap" using cap untracked by simp
  moreover have "active_total (pr_active s c) < rp_max_requests (pr_policies s c)"
  proof -
    have "active_total (pr_active s c) \<le> pa_reserved (pr_active s c) + pa_shared (pr_active s c)"
      by (simp add: active_total_def usize_saturating_add_def)
    also have "pa_shared (pr_active s c) \<le> rp_max_requests (pr_policies s c) - rp_reserved_requests (pr_policies s c)"
      using within by (simp add: within_shares_def max_shared_requests_def)
    finally show ?thesis using free ok [of c] by simp
  qed
  ultimately show ?thesis using free by (simp add: priority_can_admit_def Let_def not_le)
qed

text \<open>
  Within a run of a validated configuration no class is above its maximum share, and a reserved slot that is free can
  be had.  The reservations must not overflow a \<open>usize\<close> when they are added up.
\<close>

lemma priority_run_reserved:
  assumes "priority_run rnd config global s leases" "priority_validate rnd config (Some (rl_active global)) = Inr ()"
    and "class_sum (\<lambda>c. pp_reserved_requests (resolved_for_validation config c)) < 2 ^ 64"
  shows "active_total (pr_active s c) \<le> rp_max_requests (pr_policies s c)"
    and "pa_reserved (pr_active s c) < rp_reserved_requests (pr_policies s c) \<Longrightarrow> pr_shared_active s + untracked \<le> pr_shared_capacity s \<Longrightarrow>
      priority_can_admit s c True (total_active s + untracked) (rl_active global) = Some Reserved"
proof -
  note inv = priority_run_inv [OF assms(1)]
  note valid = priority_validate_policies [OF assms(2,3)]
  have ok: "rp_reserved_requests (pr_policies s c) \<le> rp_max_requests (pr_policies s c)" for c using inv valid(2) by simp
  have "class_sum (\<lambda>c. rp_reserved_requests (pr_policies s c)) < 2 ^ 64" using inv valid(1) by simp
  then have cap: "pr_shared_capacity s + class_sum (\<lambda>c. rp_reserved_requests (pr_policies s c)) \<le> rl_active global"
    using inv valid(1) by (simp add: usize_sum_exact)
  have "active_total (pr_active s c) \<le> pa_reserved (pr_active s c) + pa_shared (pr_active s c)"
    by (simp add: active_total_def usize_saturating_add_def)
  moreover have "pa_reserved (pr_active s c) \<le> rp_reserved_requests (pr_policies s c)"
      "pa_shared (pr_active s c) \<le> rp_max_requests (pr_policies s c) - rp_reserved_requests (pr_policies s c)"
    using inv unfolding within_shares_def max_shared_requests_def by blast+
  ultimately show "active_total (pr_active s c) \<le> rp_max_requests (pr_policies s c)" using ok [of c] by linarith
  show "priority_can_admit s c True (total_active s + untracked) (rl_active global) = Some Reserved"
    if "pa_reserved (pr_active s c) < rp_reserved_requests (pr_policies s c)" "pr_shared_active s + untracked \<le> pr_shared_capacity s"
    using reserved_slot_free [OF _ _ ok cap, of leases c untracked] inv that by blast
qed

definition sample_priority :: CircuitBreakerPriorityConfig where
  "sample_priority = \<lparr>pr_config_enabled = True, pr_config_classes =
     [\<lparr>pc_name = Interactive, pc_reserved_requests = Some 2, pc_max_share = None, pc_max_pending_requests = None,
       pc_pending_queue_timeout_ms = None, pc_rejection_policy = None\<rparr>]\<rparr>"

definition sample_limit :: ResourceLimit where
  "sample_limit = \<lparr>rl_active = 10, rl_queue = 4, rl_timeout = 1000000000\<rparr>"

definition sample_state :: PriorityAdmissionState where
  "sample_state = fst (priority_admit (priority_from_config id sample_priority sample_limit) Default Shared)"

lemmas sample_simps = sample_priority_def sample_limit_def sample_state_def priority_validate_def class_validate_def Let_def unwrap_or_def
  resolved_for_validation_def default_for_def policy_apply_def ALL_CLASSES_def max_class_requests_def f64_scale_def resolve_policy_def
  priority_from_config_def priority_admit_def priority_can_admit_def total_active_def active_total_def usize_saturating_add_def
  usize_sum_def max_shared_requests_def result_simps

lemma sample_valid: "priority_validate id sample_priority (Some 10) = Inr ()"
  by (simp add: sample_simps)

lemma sample_run: "priority_run id sample_priority sample_limit sample_state {#\<lparr>pl_class = Default, pl_kind = Shared\<rparr>#}"
proof -
  let ?s = "priority_from_config id sample_priority sample_limit"
  have "priority_can_admit ?s Default False 0 (rl_active sample_limit) = Some Shared" by (simp add: sample_simps)
  moreover have "total_active ?s \<le> 0" by (simp add: sample_simps)
  moreover have "priority_admit ?s Default Shared = (sample_state, \<lparr>pl_class = Default, pl_kind = Shared\<rparr>)"
    by (simp add: sample_state_def priority_admit_def Let_def)
  moreover have "rl_active sample_limit \<le> USIZE_MAX" by (simp add: sample_limit_def)
  ultimately show ?thesis using run_admit [OF run_init] by blast
qed

lemma sample_values:
  "rp_max_requests (pr_policies sample_state Interactive) = 10"
  "pa_reserved (pr_active sample_state Interactive) < rp_reserved_requests (pr_policies sample_state Interactive)"
  "pr_shared_active sample_state + 3 \<le> pr_shared_capacity sample_state"
  by (simp_all add: sample_simps)

text \<open>
  Adding up the reservations can overflow: three classes that each reserve the whole capacity of \<open>2\<^sup>6\<^sup>3 - 1\<close> requests are
  accepted, although they reserve three times what there is.
\<close>

definition reserve_all :: "PriorityClass \<Rightarrow> CircuitBreakerPriorityClassConfig" where
  "reserve_all c = \<lparr>pc_name = c, pc_reserved_requests = Some (2 ^ 63 - 1), pc_max_share = None, pc_max_pending_requests = None,
     pc_pending_queue_timeout_ms = None, pc_rejection_policy = None\<rparr>"

definition wrapping_priority :: CircuitBreakerPriorityConfig where
  "wrapping_priority = \<lparr>pr_config_enabled = True, pr_config_classes = map reserve_all [SecurityCallback, Interactive, Default]\<rparr>"

lemma reservations_wrap: "priority_validate id wrapping_priority (Some (2 ^ 63 - 1)) = Inr ()"
  by (simp add: sample_simps wrapping_priority_def reserve_all_def)

text \<open>
  The validation assumes that an automatic global capacity is at least 64 (\<open>unwrap_or 64\<close>), while
  \<open>active_requests\<close> of \<open>resources.rs\<close> lets the memory budget lower it to 32: reservations accepted at
  configuration time then leave no shared capacity at all.
\<close>

definition auto_priority :: CircuitBreakerPriorityConfig where
  "auto_priority = \<lparr>pr_config_enabled = True, pr_config_classes =
     [\<lparr>pc_name = Interactive, pc_reserved_requests = Some 40, pc_max_share = None, pc_max_pending_requests = None,
       pc_pending_queue_timeout_ms = None, pc_rejection_policy = None\<rparr>]\<rparr>"

lemma auto_capacity_assumption:
  "priority_validate id auto_priority None = Inr () \<and>
   pr_shared_capacity (priority_from_config id auto_priority \<lparr>rl_active = 32, rl_queue = 4, rl_timeout = 0\<rparr>) = 0"
  by (simp add: sample_simps auto_priority_def)

text \<open>
  Admitting the selected waiter can make another one eligible: with two free slots and two waiters in a lane only the
  first is selected, and the second once the first is admitted.  A waiter that looked before the first one was admitted
  has to be woken again; \<open>admit\<close> does so after it removes a waiter, \<open>admit_priority_global_request\<close> does not.
\<close>

definition default_ticket :: "nat \<Rightarrow> PriorityTicket" where
  "default_ticket n = \<lparr>pt_id = of_nat n, pt_class = Default, pt_lane = SHARED_LANE, pt_queued_at = n\<rparr>"

definition two_waiters :: PriorityAdmissionState where
  "two_waiters = fst (priority_enqueue (fst (priority_enqueue (priority_from_config id sample_priority sample_limit) Default False 1)) Default False 2)"

definition first_admitted :: PriorityAdmissionState where
  "first_admitted =
     (case priority_remove two_waiters (default_ticket 1) of
        Some (s, _) \<Rightarrow> fst (priority_admit s Default Shared) | None \<Rightarrow> two_waiters)"

lemma selected_only_lane:
  assumes "\<And>c l. lane_head s c l = (if c = Default \<and> l = SHARED_LANE then [t] else [])"
  shows "selected_waiter s active cap = (if priority_can_admit s Default False active cap \<noteq> None then Some t else None)"
proof -
  have upt: "[0..<LANE_COUNT] = [0, 1]" by (simp add: upt_rec)
  have reserved: "concat (map (\<lambda>class. if priority_can_admit s class True active cap = Some Reserved then lane_head s class ELIGIBLE_LANE else [])
      ALL_CLASSES) = []" unfolding assms by (auto simp: concat_eq_Nil_conv)
  have lanes: "concat (map (\<lambda>lane. if priority_can_admit s class (lane = ELIGIBLE_LANE) active cap \<noteq> None then lane_head s class lane else [])
      [0..<LANE_COUNT]) = (if class = Default \<and> priority_can_admit s Default False active cap \<noteq> None then [t] else [])" for "class"
    unfolding assms upt by simp
  show ?thesis unfolding selected_waiter_def reserved lanes by (simp add: ALL_CLASSES_def oldest_of_def choose_oldest_def)
qed

lemma grant_makes_next_eligible:
  "is_selected two_waiters (default_ticket 1) 6 10 \<and> \<not> is_selected two_waiters (default_ticket 2) 6 10 \<and>
   is_selected first_admitted (default_ticket 2) 7 10"
proof -
  have heads: "lane_head two_waiters c l = (if c = Default \<and> l = SHARED_LANE then [default_ticket 1] else [])"
      "lane_head first_admitted c l = (if c = Default \<and> l = SHARED_LANE then [default_ticket 2] else [])" for c l
    by (auto simp: lane_head_def two_waiters_def first_admitted_def default_ticket_def priority_enqueue_def priority_remove_def
        priority_from_config_def priority_admit_def priority_lane_def next_id_def remove_nth_def Let_def)
  let ?s = "priority_from_config id sample_priority sample_limit"
  have same: "pr_policies two_waiters = pr_policies ?s" "pr_shared_capacity two_waiters = pr_shared_capacity ?s"
      "pr_active two_waiters = pr_active ?s" "pr_shared_active two_waiters = 0"
      "pr_policies first_admitted = pr_policies ?s" "pr_shared_capacity first_admitted = pr_shared_capacity ?s"
      "pr_active first_admitted = (pr_active ?s)(Default := \<lparr>pa_reserved = 0, pa_shared = 1\<rparr>)" "pr_shared_active first_admitted = 1"
    by (simp_all add: two_waiters_def first_admitted_def default_ticket_def priority_enqueue_def priority_remove_def
        priority_from_config_def priority_admit_def priority_lane_def next_id_def remove_nth_def usize_saturating_add_def Let_def)
  have policy: "rp_max_requests (pr_policies ?s Default) = 10" "max_shared_requests (pr_policies ?s Default) = 10" "pr_shared_capacity ?s = 8"
      "pr_active ?s = (\<lambda>_. \<lparr>pa_reserved = 0, pa_shared = 0\<rparr>)"
    by (simp_all add: sample_simps)
  have "total_active two_waiters = 0" "total_active first_admitted = 1"
    unfolding total_active_def same policy by (simp_all add: ALL_CLASSES_def active_total_def usize_saturating_add_def usize_sum_def)
  then have "priority_can_admit two_waiters Default False 6 10 = Some Shared" "priority_can_admit first_admitted Default False 7 10 = Some Shared"
    unfolding priority_can_admit_def same Let_def by (simp_all add: policy active_total_def usize_saturating_add_def)
  then show ?thesis
    using selected_only_lane [OF heads(1), of 6 10] selected_only_lane [OF heads(2), of 7 10] by (simp add: is_selected_def default_ticket_def)
qed

end
