(* ===== verification/Admission.thy ===== *)
theory Admission
  imports Priority "HOL-Library.AList" "HOL-Library.Multiset"
begin

text \<open>
  The admission runtime (\<open>src/circuit_breakers/runtime.rs\<close>, \<open>queue.rs\<close> and the allocation helpers of
  \<open>configuration.rs\<close>): composite permits over scopes and resources, FIFO lanes for callers that wait, and
  the failure circuits in front of upstream attempts.

  Everything the code does under its lock is one definition; \<open>admit\<close> and \<open>admit_priority_global_request\<close>
  are cut at the points where the lock is released.  Callers, permits and their interleaving are a step
  relation over these sections, in which reading the clock and the enabled flag is free.  The lemmas show
  that the counters always agree with the permits and waiters that exist, that no limit is exceeded, and
  that nobody overtakes an older waiter that could run.
\<close>

section \<open>Queue lanes\<close>

type_synonym QueueKey = "(ScopeKey \<times> ResourceKind) list"
type_synonym AdmissionQueues = "(QueueKey \<times> Waiter list) list"

definition from_allocations :: "Allocation list \<Rightarrow> QueueKey" where
  "from_allocations allocations =
     sort_key (\<lambda>(scope, resource). (scope_kind scope, scope_label scope, resource_index resource))
       (map (\<lambda>a. (al_scope a, al_resource a)) allocations)"

definition key_overlaps :: "QueueKey \<Rightarrow> QueueKey \<Rightarrow> bool" where
  "key_overlaps k other = list_ex (\<lambda>allocation. allocation \<in> set other) k"

record WaiterTicket =
  wt_id :: u64
  wt_key :: QueueKey
  wt_queued_at :: instant

definition queues_is_empty :: "AdmissionQueues \<Rightarrow> QueueKey \<Rightarrow> bool" where
  "queues_is_empty lanes k = (case map_of lanes k of None \<Rightarrow> True | Some lane \<Rightarrow> lane = [])"

definition is_head :: "AdmissionQueues \<Rightarrow> WaiterTicket \<Rightarrow> bool" where
  "is_head lanes ticket = (case map_of lanes (wt_key ticket) of Some (w # _) \<Rightarrow> w_id w = wt_id ticket | _ \<Rightarrow> False)"

fun min_by_key :: "('a \<Rightarrow> 'b::linorder) \<Rightarrow> 'a list \<Rightarrow> 'a option" where
  "min_by_key f [] = None"
| "min_by_key f (x # xs) =
     (case min_by_key f xs of None \<Rightarrow> Some x | Some y \<Rightarrow> if f y < f x then Some y else Some x)"

definition oldest_admissible_overlap :: "AdmissionQueues \<Rightarrow> QueueKey \<Rightarrow> (Allocation list \<Rightarrow> bool) \<Rightarrow> u64 option" where
  "oldest_admissible_overlap lanes k admissible =
     map_option w_id (min_by_key (\<lambda>w. (w_queued_at w, w_id w))
       (filter (\<lambda>w. admissible (w_allocations w))
         (concat (map (\<lambda>(_, lane). take 1 lane) (filter (\<lambda>(candidate_key, _). key_overlaps k candidate_key) lanes)))))"

definition queues_push :: "AdmissionQueues \<Rightarrow> WaiterTicket \<Rightarrow> Waiter \<Rightarrow> AdmissionQueues" where
  "queues_push lanes ticket waiter =
     AList.update (wt_key ticket) ((case map_of lanes (wt_key ticket) of None \<Rightarrow> [] | Some lane \<Rightarrow> lane) @ [waiter]) lanes"

definition queues_remove :: "AdmissionQueues \<Rightarrow> WaiterTicket \<Rightarrow> (AdmissionQueues \<times> Waiter) option" where
  "queues_remove lanes ticket =
     (case map_of lanes (wt_key ticket) of
        None \<Rightarrow> None
      | Some lane \<Rightarrow>
          (case position (\<lambda>w. w_id w = wt_id ticket) lane of
             None \<Rightarrow> None
           | Some i \<Rightarrow>
               let rest = remove_nth i lane in
               Some (if rest = [] then AList.delete (wt_key ticket) lanes else AList.update (wt_key ticket) rest lanes, lane ! i)))"

section \<open>Allocations\<close>

definition scoped_allocations :: "string option \<Rightarrow> string option \<Rightarrow> ResourceKind \<Rightarrow> Allocation list" where
  "scoped_allocations route pool resource =
     [\<lparr>al_scope = Global, al_resource = resource, al_limit = None\<rparr>] @
     (case route of None \<Rightarrow> [] | Some r \<Rightarrow> [\<lparr>al_scope = Route r, al_resource = resource, al_limit = None\<rparr>]) @
     (case pool of None \<Rightarrow> [] | Some p \<Rightarrow> [\<lparr>al_scope = Pool p, al_resource = resource, al_limit = None\<rparr>])"

definition same_slot :: "Allocation \<Rightarrow> Allocation \<Rightarrow> bool" where
  "same_slot a b \<longleftrightarrow> al_scope a = al_scope b \<and> al_resource a = al_resource b"

fun merge_allocation :: "Allocation list \<Rightarrow> Allocation \<Rightarrow> Allocation list" where
  "merge_allocation [] a = [a]"
| "merge_allocation (e # es) a =
     (if same_slot e a then (if al_limit a \<noteq> None then e\<lparr>al_limit := al_limit a\<rparr> else e) # es
      else e # merge_allocation es a)"

definition deduplicate_allocations :: "Allocation list \<Rightarrow> Allocation list" where
  "deduplicate_allocations allocations = foldl merge_allocation [] allocations"

section \<open>State under the lock\<close>

record RuntimeState =
  rs_scopes :: "ScopeKey \<rightharpoonup> ScopeState"
  rs_waiters :: AdmissionQueues
  rs_next_waiter :: u64
  rs_retry :: RetryBudget
  rs_failure :: CircuitBreakerFailureConfig
  rs_response_status :: u16
  rs_capacity_retry_after :: duration
  rs_rejections :: "AdmissionRejectionReason \<Rightarrow> nat"
  rs_transitions :: "CircuitState \<Rightarrow> CircuitState \<Rightarrow> nat"
  rs_queue_waits :: nat
  rs_queue_wait_ms :: nat
  rs_attempts :: "nat \<Rightarrow> nat"
  rs_transition_sequence :: u64
  rs_priority :: PriorityAdmissionState

definition update_scope :: "(ScopeState \<Rightarrow> ScopeState) \<Rightarrow> ScopeKey \<Rightarrow> RuntimeState \<Rightarrow> RuntimeState" where
  "update_scope f k s = (case rs_scopes s k of None \<Rightarrow> s | Some scope \<Rightarrow> s\<lparr>rs_scopes := (rs_scopes s)(k \<mapsto> f scope)\<rparr>)"

definition can_admit :: "RuntimeState \<Rightarrow> Allocation list \<Rightarrow> bool" where
  "can_admit s allocations = list_all (\<lambda>a.
     case rs_scopes s (al_scope a) of
       None \<Rightarrow> False | Some scope \<Rightarrow> ss_active scope (al_resource a) < rl_active (effective_limit a scope)) allocations"

definition can_queue :: "RuntimeState \<Rightarrow> Allocation list \<Rightarrow> bool" where
  "can_queue s allocations = list_all (\<lambda>a.
     case rs_scopes s (al_scope a) of
       None \<Rightarrow> False | Some scope \<Rightarrow> ss_queued scope (al_resource a) < rl_queue (effective_limit a scope)) allocations"

definition queue_rejection_reason :: "RuntimeState \<Rightarrow> Allocation list \<Rightarrow> AdmissionRejectionReason" where
  "queue_rejection_reason s allocations =
     (if list_ex (\<lambda>a. case rs_scopes s (al_scope a) of
           None \<Rightarrow> False
         | Some scope \<Rightarrow> let limit = effective_limit a scope in
             rl_queue limit = 0 \<and> ss_active scope (al_resource a) \<ge> rl_active limit) allocations
      then ActiveLimit else QueueFull)"

definition add_active :: "Allocation \<Rightarrow> RuntimeState \<Rightarrow> RuntimeState" where
  "add_active a = update_scope (\<lambda>scope. scope\<lparr>ss_active := (ss_active scope)(al_resource a := ss_active scope (al_resource a) + 1)\<rparr>) (al_scope a)"

definition sub_active :: "Allocation \<Rightarrow> RuntimeState \<Rightarrow> RuntimeState" where
  "sub_active a = update_scope (\<lambda>scope. scope\<lparr>ss_active := (ss_active scope)(al_resource a := ss_active scope (al_resource a) - 1)\<rparr>) (al_scope a)"

definition add_queued :: "Allocation \<Rightarrow> RuntimeState \<Rightarrow> RuntimeState" where
  "add_queued a = update_scope (\<lambda>scope. scope\<lparr>ss_queued := (ss_queued scope)(al_resource a := ss_queued scope (al_resource a) + 1)\<rparr>) (al_scope a)"

definition sub_queued :: "Allocation \<Rightarrow> RuntimeState \<Rightarrow> RuntimeState" where
  "sub_queued a = update_scope (\<lambda>scope. scope\<lparr>ss_queued := (ss_queued scope)(al_resource a := ss_queued scope (al_resource a) - 1)\<rparr>) (al_scope a)"

definition increment_active :: "Allocation list \<Rightarrow> RuntimeState \<Rightarrow> RuntimeState" where
  "increment_active allocations s = fold add_active allocations s"

definition decrement_active :: "Allocation list \<Rightarrow> RuntimeState \<Rightarrow> RuntimeState" where
  "decrement_active allocations s = fold sub_active allocations s"

definition enqueue :: "WaiterTicket \<Rightarrow> Waiter \<Rightarrow> RuntimeState \<Rightarrow> RuntimeState" where
  "enqueue ticket waiter s =
     (let s = fold add_queued (w_allocations waiter) s in s\<lparr>rs_waiters := queues_push (rs_waiters s) ticket waiter\<rparr>)"

definition remove_waiter :: "WaiterTicket \<Rightarrow> RuntimeState \<Rightarrow> (RuntimeState \<times> Waiter) option" where
  "remove_waiter ticket s =
     (case queues_remove (rs_waiters s) ticket of
        None \<Rightarrow> None
      | Some (lanes, waiter) \<Rightarrow> Some (fold sub_queued (w_allocations waiter) (s\<lparr>rs_waiters := lanes\<rparr>), waiter))"

definition record_attempt :: "Allocation list \<Rightarrow> RuntimeState \<Rightarrow> RuntimeState" where
  "record_attempt allocations s =
     (if \<not> list_ex (\<lambda>a. al_resource a = UpstreamRequest) allocations then s else
      let kind = (if list_ex (\<lambda>a. al_resource a = Retry) allocations then 1 else 0)
      in s\<lparr>rs_attempts := (rs_attempts s)(kind := u64_saturating_add (rs_attempts s kind) 1)\<rparr>)"

definition record_transition :: "CircuitState \<times> CircuitState \<Rightarrow> RuntimeState \<Rightarrow> RuntimeState" where
  "record_transition tr s =
     (case tr of (source, target) \<Rightarrow>
        s\<lparr>rs_transitions := (rs_transitions s)(source := (rs_transitions s source)(target :=
            u64_saturating_add (rs_transitions s source target) 1))\<rparr>)"

definition reject :: "AdmissionRejectionReason \<Rightarrow> RuntimeState \<Rightarrow> RuntimeState" where
  "reject reason s = s\<lparr>rs_rejections := (rs_rejections s)(reason := u64_saturating_add (rs_rejections s reason) 1)\<rparr>"

section \<open>Failure circuits of the scopes\<close>

definition upstream_scopes :: "Allocation list \<Rightarrow> ScopeKey list" where
  "upstream_scopes allocations = map al_scope (filter (\<lambda>a. al_resource a = UpstreamRequest) allocations)"

definition circuit_scopes :: "Allocation list \<Rightarrow> ScopeKey list" where
  "circuit_scopes allocations = remdups_adj (sort_key (\<lambda>k. (scope_kind k, scope_label k)) (upstream_scopes allocations))"

fun check_circuits :: "RuntimeState \<Rightarrow> instant \<Rightarrow> ScopeKey list \<Rightarrow> duration + unit" where
  "check_circuits s now [] = Inr ()"
| "check_circuits s now (k # ks) =
     (case rs_scopes s k of
        None \<Rightarrow> Inl 0
      | Some scope \<Rightarrow>
          if \<not> ss_failure_enabled scope then check_circuits s now ks
          else bindE (fc_available (ss_circuit scope) now (rs_failure s)) (\<lambda>_. check_circuits s now ks))"

definition circuit_available :: "RuntimeState \<Rightarrow> Allocation list \<Rightarrow> instant \<Rightarrow> duration + unit" where
  "circuit_available s allocations now =
     (if \<not> cf_enabled (rs_failure s) then Inr () else check_circuits s now (circuit_scopes allocations))"

fun begin_probes :: "instant \<Rightarrow> ScopeKey list \<Rightarrow> RuntimeState \<Rightarrow> RuntimeState \<times> (duration + ScopeKey list)" where
  "begin_probes now [] s = (s, Inr [])"
| "begin_probes now (k # ks) s =
     (case rs_scopes s k of
        None \<Rightarrow> (s, Inl 0)
      | Some scope \<Rightarrow>
          if \<not> ss_failure_enabled scope then begin_probes now ks s
          else
            case begin_probe (ss_circuit scope) now (rs_failure s) of (c, transition) \<Rightarrow>
            let s = s\<lparr>rs_scopes := (rs_scopes s)(k \<mapsto> scope\<lparr>ss_circuit := c\<rparr>)\<rparr>;
                s = (case transition of Some tr \<Rightarrow> record_transition tr s | None \<Rightarrow> s)
            in case begin_probes now ks s of (s, r) \<Rightarrow>
               (s, bindE r (\<lambda>probes. Inr (if transition \<noteq> None \<or> fc_state c = HalfOpen then k # probes else probes))))"

definition circuit_admission :: "RuntimeState \<Rightarrow> Allocation list \<Rightarrow> instant \<Rightarrow> RuntimeState \<times> (duration + ScopeKey list)" where
  "circuit_admission s allocations now =
     (if \<not> cf_enabled (rs_failure s) then (s, Inr []) else
      case check_circuits s now (circuit_scopes allocations) of
        Inl retry_after \<Rightarrow> (s, Inl retry_after)
      | Inr _ \<Rightarrow> begin_probes now (circuit_scopes allocations) s)"

definition finish_scope :: "(rat \<Rightarrow> rat) \<Rightarrow> ScopeKey list \<Rightarrow> CircuitOutcome \<Rightarrow> instant \<Rightarrow> ScopeKey \<Rightarrow> RuntimeState \<Rightarrow> RuntimeState" where
  "finish_scope rnd probes outcome now k s =
     (case rs_scopes s k of
        None \<Rightarrow> s
      | Some scope \<Rightarrow>
          if \<not> ss_failure_enabled scope then s else
          let s = s\<lparr>rs_transition_sequence := rs_transition_sequence s + 1\<rparr> in
          case fc_finish rnd (ss_circuit scope) (k \<in> set probes) outcome now (rs_failure s) (rs_transition_sequence s) of
            (c, transition) \<Rightarrow>
              let s = s\<lparr>rs_scopes := (rs_scopes s)(k \<mapsto> scope\<lparr>ss_circuit := c\<rparr>)\<rparr>
              in (case transition of Some tr \<Rightarrow> record_transition tr s | None \<Rightarrow> s))"

definition finish_circuits :: "(rat \<Rightarrow> rat) \<Rightarrow> ScopeKey list \<Rightarrow> Allocation list \<Rightarrow> CircuitOutcome \<Rightarrow> instant \<Rightarrow> RuntimeState \<Rightarrow> RuntimeState" where
  "finish_circuits rnd probes allocations outcome now s =
     (if \<not> cf_enabled (rs_failure s) then s else fold (finish_scope rnd probes outcome now) (upstream_scopes allocations) s)"

definition abandon_circuits :: "ScopeKey list \<Rightarrow> RuntimeState \<Rightarrow> RuntimeState" where
  "abandon_circuits probes s = fold (update_scope (\<lambda>scope. scope\<lparr>ss_circuit := abandon_probe (ss_circuit scope) True\<rparr>)) probes s"

section \<open>Configuration\<close>

record RuntimeConfig =
  rc_enabled :: bool
  rc_scopes :: "ScopeKey \<rightharpoonup> ScopeState"
  rc_retry :: RetryBudget
  rc_failure :: CircuitBreakerFailureConfig
  rc_response_status :: u16
  rc_capacity_retry_after_ms :: u64
  rc_priority :: CircuitBreakerPriorityConfig

text \<open>What \<open>configure\<close> reads of the configuration; \<open>rc_scopes\<close> and \<open>rc_retry\<close> are the result of \<open>resolve_scopes\<close>.\<close>

definition global_request_limit :: "(ScopeKey \<rightharpoonup> ScopeState) \<Rightarrow> ResourceLimit" where
  "global_request_limit scopes =
     (case scopes Global of Some scope \<Rightarrow> ss_limits scope Request | None \<Rightarrow> \<lparr>rl_active = 0, rl_queue = 0, rl_timeout = 0\<rparr>)"

definition runtime_from_config :: "(rat \<Rightarrow> rat) \<Rightarrow> RuntimeConfig \<Rightarrow> RuntimeState" where
  "runtime_from_config rnd config =
     \<lparr>rs_scopes = rc_scopes config, rs_waiters = [], rs_next_waiter = 1, rs_retry = rc_retry config, rs_failure = rc_failure config,
      rs_response_status = rc_response_status config, rs_capacity_retry_after = from_millis (rc_capacity_retry_after_ms config),
      rs_rejections = (\<lambda>_. 0), rs_transitions = (\<lambda>_ _. 0), rs_queue_waits = 0, rs_queue_wait_ms = 0, rs_attempts = (\<lambda>_. 0),
      rs_transition_sequence = 0,
      rs_priority = priority_from_config rnd (rc_priority config) (global_request_limit (rc_scopes config))\<rparr>"

definition configure_scope :: "ScopeState \<Rightarrow> ScopeState option \<Rightarrow> ScopeState" where
  "configure_scope replacement existing =
     (let state = (case existing of Some s \<Rightarrow> s | None \<Rightarrow> scope_new (ss_limits replacement) (ss_failure_enabled replacement));
          state = state\<lparr>ss_limits := ss_limits replacement, ss_failure_enabled := ss_failure_enabled replacement\<rparr>
      in if \<not> ss_failure_enabled state then state\<lparr>ss_circuit := fc_close (ss_circuit state)\<rparr> else state)"

definition configure_scopes :: "(ScopeKey \<rightharpoonup> ScopeState) \<Rightarrow> (ScopeKey \<rightharpoonup> ScopeState) \<Rightarrow> (ScopeKey \<rightharpoonup> ScopeState)" where
  "configure_scopes configured scopes =
     (\<lambda>k. case configured k of Some replacement \<Rightarrow> Some (configure_scope replacement (scopes k)) | None \<Rightarrow> scopes k)"

definition configure :: "(rat \<Rightarrow> rat) \<Rightarrow> RuntimeConfig \<Rightarrow> RuntimeState \<Rightarrow> RuntimeState" where
  "configure rnd config s =
     (let scopes = configure_scopes (rc_scopes config) (rs_scopes s);
          s = s\<lparr>rs_scopes := scopes, rs_retry := rc_retry config, rs_failure := rc_failure config,
                rs_response_status := rc_response_status config,
                rs_capacity_retry_after := from_millis (rc_capacity_retry_after_ms config),
                rs_priority := priority_configure rnd (rs_priority s) (rc_priority config) (global_request_limit scopes)\<rparr>
      in if \<not> rc_enabled config \<or> \<not> cf_enabled (rc_failure config)
         then s\<lparr>rs_scopes := (\<lambda>k. map_option (\<lambda>scope. scope\<lparr>ss_circuit := fc_close (ss_circuit scope)\<rparr>) (rs_scopes s k))\<rparr>
         else s)"

section \<open>The sections of an admission\<close>

record AdmissionLease =
  le_enabled :: bool
  le_allocations :: "Allocation list"
  le_probes :: "ScopeKey list"
  le_priority :: "PriorityLease option"

definition disabled_lease :: AdmissionLease where
  "disabled_lease = \<lparr>le_enabled = False, le_allocations = [], le_probes = [], le_priority = None\<rparr>"

type_synonym admission = "AdmissionRejection + AdmissionLease"

definition drop_ticket :: "WaiterTicket option \<Rightarrow> RuntimeState \<Rightarrow> RuntimeState" where
  "drop_ticket ticket s =
     (case ticket of None \<Rightarrow> s | Some t \<Rightarrow> (case remove_waiter t s of None \<Rightarrow> s | Some (s', _) \<Rightarrow> s'))"

definition take_ticket :: "instant \<Rightarrow> WaiterTicket option \<Rightarrow> RuntimeState \<Rightarrow> RuntimeState" where
  "take_ticket now ticket s =
     (case ticket of
        None \<Rightarrow> s
      | Some t \<Rightarrow>
          (case remove_waiter t s of
             None \<Rightarrow> s
           | Some (s', queued) \<Rightarrow>
               s'\<lparr>rs_queue_waits := u64_saturating_add (rs_queue_waits s') 1,
                  rs_queue_wait_ms := u64_saturating_add (rs_queue_wait_ms s')
                    (min (saturating_duration_since now (w_queued_at queued) div NANOS_PER_MILLI) (2 ^ 64 - 1))\<rparr>))"

definition circuit_rejected :: "WaiterTicket option \<Rightarrow> duration \<Rightarrow> RuntimeState \<Rightarrow> RuntimeState \<times> admission option" where
  "circuit_rejected ticket retry_after s =
     (reject CircuitOpen (drop_ticket ticket s), Some (Inl \<lparr>ar_reason = CircuitOpen, ar_retry_after = retry_after\<rparr>))"

definition selected_for_caller :: "RuntimeState \<Rightarrow> instant \<Rightarrow> Allocation list \<Rightarrow> WaiterTicket option \<Rightarrow> bool" where
  "selected_for_caller s now allocations ticket =
     (let selected = oldest_admissible_overlap (rs_waiters s) (from_allocations allocations)
            (\<lambda>candidate. circuit_available s candidate now = Inr () \<and> can_admit s candidate)
      in case ticket of None \<Rightarrow> selected = None | Some t \<Rightarrow> selected = Some (wt_id t))"

definition admit_section ::
  "bool \<Rightarrow> instant \<Rightarrow> Allocation list \<Rightarrow> WaiterTicket option \<Rightarrow> RuntimeState \<Rightarrow> RuntimeState \<times> admission option" where
  "admit_section enabled now allocations ticket s =
     (if \<not> enabled then (drop_ticket ticket s, Some (Inr disabled_lease))
      else if (ticket = None \<and> queues_is_empty (rs_waiters s) (from_allocations allocations)) \<or>
              (case ticket of Some t \<Rightarrow> is_head (rs_waiters s) t | None \<Rightarrow> False) then
        (case circuit_available s allocations now of
           Inl retry_after \<Rightarrow> circuit_rejected ticket retry_after s
         | Inr _ \<Rightarrow>
             if selected_for_caller s now allocations ticket \<and> can_admit s allocations then
               (case circuit_admission s allocations now of
                  (s, Inl retry_after) \<Rightarrow> circuit_rejected ticket retry_after s
                | (s, Inr probes) \<Rightarrow>
                    (increment_active allocations (record_attempt allocations (take_ticket now ticket s)),
                     Some (Inr \<lparr>le_enabled = True, le_allocations = allocations, le_probes = probes, le_priority = None\<rparr>)))
             else (s, None))
      else (s, None))"

definition queue_section ::
  "instant \<Rightarrow> Allocation list \<Rightarrow> AdmissionRejectionReason option \<Rightarrow> RuntimeState \<Rightarrow> RuntimeState \<times> (AdmissionRejection + WaiterTicket)" where
  "queue_section now allocations exhausted_reason s =
     (if \<not> can_queue s allocations then
        let reason = unwrap_or exhausted_reason (queue_rejection_reason s allocations)
        in (reject reason s, Inl \<lparr>ar_reason = reason, ar_retry_after = rs_capacity_retry_after s\<rparr>)
      else
        let ident = rs_next_waiter s;
            ticket = \<lparr>wt_id = ident, wt_key = from_allocations allocations, wt_queued_at = now\<rparr>;
            s = s\<lparr>rs_next_waiter := next_id ident\<rparr>
        in (enqueue ticket \<lparr>w_id = ident, w_allocations = allocations, w_queued_at = now\<rparr> s, Inr ticket))"

definition timeout_rejection :: "AdmissionRejectionReason option \<Rightarrow> RuntimeState \<Rightarrow> RuntimeState \<times> AdmissionRejection" where
  "timeout_rejection exhausted_reason s =
     (let reason = unwrap_or exhausted_reason QueueTimeout
      in (reject reason s, \<lparr>ar_reason = reason, ar_retry_after = rs_capacity_retry_after s\<rparr>))"

definition queue_timeout :: "RuntimeState \<Rightarrow> Allocation list \<Rightarrow> instant option \<Rightarrow> instant \<Rightarrow> instant \<Rightarrow> duration" where
  "queue_timeout s allocations deadline queued_at now =
     (let configured = (case min_by_key id (List.map_filter (\<lambda>a.
              map_option (\<lambda>scope. rl_timeout (effective_limit a scope)) (rs_scopes s (al_scope a))) allocations) of
              Some t \<Rightarrow> t | None \<Rightarrow> 0);
          remaining = configured - saturating_duration_since now queued_at
      in case deadline of Some d \<Rightarrow> min remaining (saturating_duration_since d now) | None \<Rightarrow> remaining)"

definition release :: "(rat \<Rightarrow> rat) \<Rightarrow> instant \<Rightarrow> AdmissionLease \<Rightarrow> CircuitOutcome \<Rightarrow> RuntimeState \<Rightarrow> RuntimeState" where
  "release rnd now lease outcome s =
     (if \<not> le_enabled lease then s else
      let s = decrement_active (le_allocations lease) s;
          s = (case le_priority lease of Some p \<Rightarrow> s\<lparr>rs_priority := priority_release (rs_priority s) p\<rparr> | None \<Rightarrow> s)
      in if outcome = Neutral then abandon_circuits (le_probes lease) s
         else finish_circuits rnd (le_probes lease) (le_allocations lease) outcome now s)"

section \<open>The sections of a priority admission\<close>

definition global_request :: "Allocation list" where
  "global_request = [\<lparr>al_scope = Global, al_resource = Request, al_limit = None\<rparr>]"

definition remove_priority_waiter :: "PriorityTicket \<Rightarrow> RuntimeState \<Rightarrow> (RuntimeState \<times> PriorityTicket) option" where
  "remove_priority_waiter ticket s =
     (case priority_remove (rs_priority s) ticket of
        None \<Rightarrow> None
      | Some (p, removed) \<Rightarrow> Some (fold sub_queued global_request (s\<lparr>rs_priority := p\<rparr>), removed))"

definition drop_priority_ticket :: "PriorityTicket option \<Rightarrow> RuntimeState \<Rightarrow> RuntimeState" where
  "drop_priority_ticket ticket s =
     (case ticket of None \<Rightarrow> s | Some t \<Rightarrow> (case remove_priority_waiter t s of None \<Rightarrow> s | Some (s', _) \<Rightarrow> s'))"

definition take_priority_ticket :: "instant \<Rightarrow> PriorityClass \<Rightarrow> PriorityTicket option \<Rightarrow> RuntimeState \<Rightarrow> RuntimeState" where
  "take_priority_ticket now class ticket s =
     (case ticket of
        None \<Rightarrow> s
      | Some t \<Rightarrow>
          (case remove_priority_waiter t s of
             None \<Rightarrow> s
           | Some (s', queued) \<Rightarrow> s'\<lparr>rs_priority := record_queue_wait (rs_priority s') class (pt_queued_at queued) now\<rparr>))"

definition unavailable_rejection :: AdmissionRejection where
  "unavailable_rejection = \<lparr>ar_reason = InternalStateUnavailable, ar_retry_after = 0\<rparr>"

datatype PriorityOutcome = PriorityDone admission | PriorityFallback | PriorityWait

definition may_admit_priority :: "RuntimeState \<Rightarrow> ScopeState \<Rightarrow> PriorityClass \<Rightarrow> bool \<Rightarrow> PriorityTicket option \<Rightarrow> PriorityLeaseKind option \<Rightarrow> bool" where
  "may_admit_priority s global class reservation_eligible ticket allocation_kind =
     (let capacity = rl_active (ss_limits global Request); active = ss_active global Request in
      case ticket of
        Some t \<Rightarrow> is_selected (rs_priority s) t active capacity
      | None \<Rightarrow> lane_empty (rs_priority s) class reservation_eligible \<and>
          (selected_waiter (rs_priority s) active capacity = None \<or> allocation_kind = Some Reserved))"

definition priority_section ::
  "bool \<Rightarrow> instant \<Rightarrow> PriorityClass \<Rightarrow> bool \<Rightarrow> PriorityTicket option \<Rightarrow> RuntimeState \<Rightarrow> RuntimeState \<times> PriorityOutcome" where
  "priority_section enabled now class reservation_eligible ticket s =
     (if \<not> enabled then (drop_priority_ticket ticket s, PriorityDone (Inr disabled_lease))
      else if \<not> pr_enabled (rs_priority s) then (drop_priority_ticket ticket s, PriorityFallback)
      else
        case rs_scopes s Global of
          None \<Rightarrow> (drop_priority_ticket ticket s, PriorityDone (Inl unavailable_rejection))
        | Some global \<Rightarrow>
            let allocation_kind = priority_can_admit (rs_priority s) class reservation_eligible
                  (ss_active global Request) (rl_active (ss_limits global Request))
            in if may_admit_priority s global class reservation_eligible ticket allocation_kind then
                 (case allocation_kind of
                    None \<Rightarrow> (s, PriorityWait)
                  | Some kind \<Rightarrow>
                      let s = increment_active global_request (take_priority_ticket now class ticket s)
                      in case priority_admit (rs_priority s) class kind of (p, lease) \<Rightarrow>
                         (s\<lparr>rs_priority := p\<rparr>,
                          PriorityDone (Inr \<lparr>le_enabled = True, le_allocations = global_request, le_probes = [], le_priority = Some lease\<rparr>)))
               else (s, PriorityWait))"

datatype PriorityQueueOutcome = QueuedAs PriorityTicket | QueueRejected AdmissionRejection | QueueFallback

definition priority_queue_section ::
  "instant \<Rightarrow> PriorityClass \<Rightarrow> bool \<Rightarrow> RuntimeState \<Rightarrow> RuntimeState \<times> PriorityQueueOutcome" where
  "priority_queue_section now class reservation_eligible s =
     (if \<not> pr_enabled (rs_priority s) then (s, QueueFallback)
      else
        case priority_rejection_reason (rs_priority s) class of
          Some reason \<Rightarrow>
            (reject ActiveLimit (s\<lparr>rs_priority := record_priority_rejection (rs_priority s) class reason\<rparr>),
             QueueRejected \<lparr>ar_reason = ActiveLimit, ar_retry_after = rs_capacity_retry_after s\<rparr>)
        | None \<Rightarrow>
            if \<not> can_queue s global_request then
              let s = s\<lparr>rs_priority := record_priority_rejection (rs_priority s) class PrQueueFull\<rparr>;
                  reason = queue_rejection_reason s global_request
              in (reject reason s, QueueRejected \<lparr>ar_reason = reason, ar_retry_after = rs_capacity_retry_after s\<rparr>)
            else
              case priority_enqueue (rs_priority s) class reservation_eligible now of (p, ticket) \<Rightarrow>
              let s = s\<lparr>rs_priority := p\<rparr>
              in case rs_scopes s Global of
                   None \<Rightarrow> (s, QueueRejected unavailable_rejection)
                 | Some global \<Rightarrow>
                     (update_scope (\<lambda>scope. scope\<lparr>ss_queued := (ss_queued scope)(Request :=
                        usize_saturating_add (ss_queued scope Request) 1)\<rparr>) Global s, QueuedAs ticket))"

definition priority_timeout_rejection :: "PriorityClass \<Rightarrow> RuntimeState \<Rightarrow> RuntimeState \<times> AdmissionRejection" where
  "priority_timeout_rejection class s =
     (reject QueueTimeout (s\<lparr>rs_priority := record_priority_rejection (rs_priority s) class PrQueueTimeout\<rparr>),
      \<lparr>ar_reason = QueueTimeout, ar_retry_after = rs_capacity_retry_after s\<rparr>)"

section \<open>Requests for permits\<close>

fun f64_clamp_unit :: "f64 \<Rightarrow> f64" where
  "f64_clamp_unit (Finite r) = Finite (max 0 (min 1 r))"
| "f64_clamp_unit PosInf = Finite 1"
| "f64_clamp_unit NegInf = Finite 0"
| "f64_clamp_unit NaN = NaN"

definition retry_limit :: "(rat \<Rightarrow> rat) \<Rightarrow> f64 \<Rightarrow> RuntimeState \<Rightarrow> ResourceLimit" where
  "retry_limit rnd overload_multiplier s =
     (let originals = (case rs_scopes s Global of Some scope \<Rightarrow> ss_active scope Request | None \<Rightarrow> 0);
          proportional = f64_floor_usize (f64_scale rnd originals (rb_percent (rs_retry s)));
          allowance = min (max proportional (rb_min (rs_retry s))) (rb_max (rs_retry s));
          adjusted = f64_floor_usize (f64_scale rnd allowance (f64_clamp_unit overload_multiplier))
      in \<lparr>rl_active = max adjusted 1, rl_queue = rb_queue (rs_retry s), rl_timeout = rb_timeout (rs_retry s)\<rparr>)"

definition retry_allocations :: "(rat \<Rightarrow> rat) \<Rightarrow> string \<Rightarrow> string option \<Rightarrow> f64 \<Rightarrow> RuntimeState \<Rightarrow> Allocation list" where
  "retry_allocations rnd route pool overload_multiplier s =
     scoped_allocations (Some route) pool UpstreamRequest @
     [\<lparr>al_scope = Global, al_resource = Retry, al_limit = Some (retry_limit rnd overload_multiplier s)\<rparr>]"

section \<open>Callers, permits and steps\<close>

text \<open>The requests the public entry points make, with the reason they report when nothing is left.\<close>

definition issued :: "(rat \<Rightarrow> rat) \<Rightarrow> RuntimeState \<Rightarrow> Allocation list \<Rightarrow> AdmissionRejectionReason option \<Rightarrow> bool" where
  "issued rnd s allocations reason \<longleftrightarrow>
     (reason = None \<and>
       (\<exists>route. allocations = scoped_allocations (Some route) None Request) \<or>
      reason = None \<and> allocations = global_request \<or>
      reason = None \<and> (\<exists>route. allocations = [\<lparr>al_scope = Route route, al_resource = Request, al_limit = None\<rparr>]) \<or>
      reason = None \<and> (\<exists>route pool. allocations = scoped_allocations (Some route) pool UpstreamRequest) \<or>
      reason = Some RetryBudgetReason \<and> (\<exists>route pool m. allocations = retry_allocations rnd route pool m s) \<or>
      reason = None \<and> (\<exists>pool. allocations = scoped_allocations None pool Connection) \<or>
      reason = None \<and> (\<exists>route pool. allocations = scoped_allocations (Some route) pool Stream) \<or>
      reason = None \<and> (\<exists>route. allocations = scoped_allocations (Some route) None BodyInspection) \<or>
      reason = None \<and> (\<exists>route. allocations = scoped_allocations (Some route) None Decompression))"

datatype Task =
  Admitting "Allocation list" "AdmissionRejectionReason option" "WaiterTicket option"
| Queueing "Allocation list" "AdmissionRejectionReason option"
| PriorityAdmitting PriorityClass bool "PriorityTicket option"
| PriorityQueueing PriorityClass bool

record System =
  sy_state :: RuntimeState
  sy_tasks :: "Task multiset"
  sy_leases :: "AdmissionLease multiset"

definition leases_of :: "admission \<Rightarrow> AdmissionLease multiset" where
  "leases_of r = (case r of Inr l \<Rightarrow> {#l#} | Inl _ \<Rightarrow> {#})"

text \<open>The configured scopes come from \<open>ScopeState::new\<close>, with all counters zero; limits are \<open>usize\<close> values.\<close>

definition limit_usize :: "ResourceLimit \<Rightarrow> bool" where
  "limit_usize l \<longleftrightarrow> rl_active l \<le> USIZE_MAX \<and> rl_queue l \<le> USIZE_MAX"

definition config_ok :: "RuntimeConfig \<Rightarrow> bool" where
  "config_ok c \<longleftrightarrow> (\<forall>k scope. rc_scopes c k = Some scope \<longrightarrow>
     ss_active scope = (\<lambda>_. 0) \<and> ss_queued scope = (\<lambda>_. 0) \<and> (\<forall>r. limit_usize (ss_limits scope r)))"

text \<open>
  One step of the system: a caller arrives, runs one of its sections, is cancelled or times out, a permit
  is dropped with an outcome, or (when \<open>reload\<close>) a new configuration is installed.
\<close>

inductive adm_step :: "(rat \<Rightarrow> rat) \<Rightarrow> bool \<Rightarrow> System \<Rightarrow> System \<Rightarrow> bool" for rnd reload where
  arrives: "issued rnd (sy_state y) allocations reason \<Longrightarrow>
    adm_step rnd reload y (y\<lparr>sy_tasks := add_mset (Admitting (deduplicate_allocations allocations) reason None) (sy_tasks y)\<rparr>)"
| decided: "sy_tasks y = add_mset (Admitting allocations reason ticket) tasks \<Longrightarrow>
    admit_section enabled now allocations ticket (sy_state y) = (s', Some result) \<Longrightarrow>
    adm_step rnd reload y \<lparr>sy_state = s', sy_tasks = tasks, sy_leases = sy_leases y + leases_of result\<rparr>"
| undecided: "sy_tasks y = add_mset (Admitting allocations reason ticket) tasks \<Longrightarrow>
    admit_section enabled now allocations ticket (sy_state y) = (s', None) \<Longrightarrow>
    adm_step rnd reload y (y\<lparr>sy_state := s',
      sy_tasks := add_mset (case ticket of None \<Rightarrow> Queueing allocations reason | Some _ \<Rightarrow> Admitting allocations reason ticket) tasks\<rparr>)"
| queued: "sy_tasks y = add_mset (Queueing allocations reason) tasks \<Longrightarrow>
    queue_section now allocations reason (sy_state y) = (s', Inr ticket) \<Longrightarrow>
    adm_step rnd reload y (y\<lparr>sy_state := s', sy_tasks := add_mset (Admitting allocations reason (Some ticket)) tasks\<rparr>)"
| not_queued: "sy_tasks y = add_mset (Queueing allocations reason) tasks \<Longrightarrow>
    queue_section now allocations reason (sy_state y) = (s', Inl rejection) \<Longrightarrow>
    adm_step rnd reload y (y\<lparr>sy_state := s', sy_tasks := tasks\<rparr>)"
| times_out: "sy_tasks y = add_mset (Admitting allocations reason (Some ticket)) tasks \<Longrightarrow>
    adm_step rnd reload y (y\<lparr>sy_state := fst (timeout_rejection reason (drop_ticket (Some ticket) (sy_state y))), sy_tasks := tasks\<rparr>)"
| cancelled: "sy_tasks y = add_mset (Admitting allocations reason (Some ticket)) tasks \<Longrightarrow>
    adm_step rnd reload y (y\<lparr>sy_state := drop_ticket (Some ticket) (sy_state y), sy_tasks := tasks\<rparr>)"
| priority_arrives:
    "adm_step rnd reload y (y\<lparr>sy_tasks := add_mset (PriorityAdmitting class eligible None) (sy_tasks y)\<rparr>)"
| priority_decided: "sy_tasks y = add_mset (PriorityAdmitting class eligible ticket) tasks \<Longrightarrow>
    priority_section enabled now class eligible ticket (sy_state y) = (s', PriorityDone result) \<Longrightarrow>
    adm_step rnd reload y \<lparr>sy_state = s', sy_tasks = tasks, sy_leases = sy_leases y + leases_of result\<rparr>"
| priority_falls_back: "sy_tasks y = add_mset (PriorityAdmitting class eligible ticket) tasks \<Longrightarrow>
    priority_section enabled now class eligible ticket (sy_state y) = (s', PriorityFallback) \<Longrightarrow>
    adm_step rnd reload y (y\<lparr>sy_state := s', sy_tasks := add_mset (Admitting (deduplicate_allocations global_request) None None) tasks\<rparr>)"
| priority_undecided: "sy_tasks y = add_mset (PriorityAdmitting class eligible ticket) tasks \<Longrightarrow>
    priority_section enabled now class eligible ticket (sy_state y) = (s', PriorityWait) \<Longrightarrow>
    adm_step rnd reload y (y\<lparr>sy_state := s',
      sy_tasks := add_mset (case ticket of None \<Rightarrow> PriorityQueueing class eligible | Some _ \<Rightarrow> PriorityAdmitting class eligible ticket) tasks\<rparr>)"
| priority_queued: "sy_tasks y = add_mset (PriorityQueueing class eligible) tasks \<Longrightarrow>
    priority_queue_section now class eligible (sy_state y) = (s', QueuedAs ticket) \<Longrightarrow>
    adm_step rnd reload y (y\<lparr>sy_state := s', sy_tasks := add_mset (PriorityAdmitting class eligible (Some ticket)) tasks\<rparr>)"
| priority_not_queued: "sy_tasks y = add_mset (PriorityQueueing class eligible) tasks \<Longrightarrow>
    priority_queue_section now class eligible (sy_state y) = (s', QueueRejected rejection) \<Longrightarrow>
    adm_step rnd reload y (y\<lparr>sy_state := s', sy_tasks := tasks\<rparr>)"
| priority_queue_falls_back: "sy_tasks y = add_mset (PriorityQueueing class eligible) tasks \<Longrightarrow>
    priority_queue_section now class eligible (sy_state y) = (s', QueueFallback) \<Longrightarrow>
    adm_step rnd reload y (y\<lparr>sy_state := s', sy_tasks := add_mset (Admitting (deduplicate_allocations global_request) None None) tasks\<rparr>)"
| priority_times_out: "sy_tasks y = add_mset (PriorityAdmitting class eligible (Some ticket)) tasks \<Longrightarrow>
    adm_step rnd reload y (y\<lparr>sy_state := fst (priority_timeout_rejection class (drop_priority_ticket (Some ticket) (sy_state y))),
      sy_tasks := tasks\<rparr>)"
| priority_cancelled: "sy_tasks y = add_mset (PriorityAdmitting class eligible (Some ticket)) tasks \<Longrightarrow>
    adm_step rnd reload y (y\<lparr>sy_state := drop_priority_ticket (Some ticket) (sy_state y), sy_tasks := tasks\<rparr>)"
| released: "sy_leases y = add_mset lease leases \<Longrightarrow>
    adm_step rnd reload y (y\<lparr>sy_state := release rnd now lease outcome (sy_state y), sy_leases := leases\<rparr>)"
| reloaded: "reload \<Longrightarrow> config_ok config \<Longrightarrow>
    adm_step rnd reload y (y\<lparr>sy_state := configure rnd config (sy_state y)\<rparr>)"

inductive adm_reachable :: "(rat \<Rightarrow> rat) \<Rightarrow> bool \<Rightarrow> RuntimeConfig \<Rightarrow> System \<Rightarrow> bool" for rnd reload config where
  adm_init: "adm_reachable rnd reload config \<lparr>sy_state = runtime_from_config rnd config, sy_tasks = {#}, sy_leases = {#}\<rparr>"
| adm_next: "adm_reachable rnd reload config y \<Longrightarrow> adm_step rnd reload y y' \<Longrightarrow> adm_reachable rnd reload config y'"

section \<open>A sample run\<close>

text \<open>One global slot: a first caller gets it, a second one queues, and the first permit is dropped.\<close>

definition sample_runtime :: RuntimeConfig where
  "sample_runtime = \<lparr>rc_enabled = True, rc_scopes = [Global \<mapsto> scope_new (\<lambda>_. \<lparr>rl_active = 1, rl_queue = 2, rl_timeout = 1000\<rparr>) False],
     rc_retry = \<lparr>rb_percent = Finite (1 / 5), rb_min = 1, rb_max = 8, rb_queue = 0, rb_timeout = 0\<rparr>, rc_failure = sample_policy,
     rc_response_status = 503, rc_capacity_retry_after_ms = 1000, rc_priority = \<lparr>pr_config_enabled = False, pr_config_classes = []\<rparr>\<rparr>"

definition sample_lease :: AdmissionLease where
  "sample_lease = \<lparr>le_enabled = True, le_allocations = global_request, le_probes = [], le_priority = None\<rparr>"

definition sample_ticket :: WaiterTicket where
  "sample_ticket = \<lparr>wt_id = 1, wt_key = [(Global, Request)], wt_queued_at = 5\<rparr>"

definition sample_granted :: RuntimeState where
  "sample_granted = fst (admit_section True 1 global_request None (runtime_from_config id sample_runtime))"

definition sample_queued :: RuntimeState where
  "sample_queued = fst (queue_section 5 global_request None sample_granted)"

definition sample_released :: RuntimeState where
  "sample_released = release id 6 sample_lease Neutral sample_queued"

lemmas sample_run_simps = sample_runtime_def runtime_from_config_def sample_lease_def sample_ticket_def global_request_def from_allocations_def
  admit_section_def queues_is_empty_def is_head_def circuit_available_def circuit_scopes_def upstream_scopes_def selected_for_caller_def
  oldest_admissible_overlap_def can_admit_def effective_limit_def circuit_admission_def take_ticket_def record_attempt_def
  increment_active_def add_active_def update_scope_def scope_new_def queue_section_def can_queue_def enqueue_def add_queued_def
  queues_push_def release_def decrement_active_def sub_active_def abandon_circuits_def key_overlaps_def deduplicate_allocations_def

lemma sample_key: "from_allocations global_request = [(Global, Request)]" "deduplicate_allocations global_request = global_request"
  by (simp_all add: sample_run_simps)

lemma sample_grant:
  "admit_section True 1 global_request None (runtime_from_config id sample_runtime) = (sample_granted, Some (Inr sample_lease))"
  unfolding sample_granted_def by (simp add: sample_run_simps)

lemma sample_full: "admit_section True 2 global_request None sample_granted = (sample_granted, None)"
  unfolding sample_granted_def by (simp add: sample_run_simps)

lemma sample_queueing: "queue_section 5 global_request None sample_granted = (sample_queued, Inr sample_ticket)"
  unfolding sample_queued_def sample_granted_def by (simp add: sample_run_simps Let_def)

lemma sample_run_reachable:
  "adm_reachable id False sample_runtime \<lparr>sy_state = sample_queued, sy_tasks = {#Admitting global_request None (Some sample_ticket)#},
     sy_leases = {#sample_lease#}\<rparr>"
  "adm_reachable id False sample_runtime \<lparr>sy_state = sample_released, sy_tasks = {#Admitting global_request None (Some sample_ticket)#},
     sy_leases = {#}\<rparr>"
proof -
  let ?sys = "\<lambda>s tasks leases. \<lparr>sy_state = s, sy_tasks = tasks, sy_leases = leases\<rparr>"
  let ?s0 = "runtime_from_config id sample_runtime"
  let ?a = "\<lambda>t. Admitting global_request None t"
  have arrive: "adm_step id False (?sys s {#} leases) (?sys s {#?a None#} leases)" for s leases
    using arrives [of id "?sys s {#} leases" global_request None False] sample_key by (simp add: issued_def)
  have grant: "adm_step id False (?sys ?s0 {#?a None#} {#}) (?sys sample_granted {#} {#sample_lease#})"
    using decided [of "?sys ?s0 {#?a None#} {#}" global_request None None "{#}" True 1 sample_granted "Inr sample_lease" id False] sample_grant
    by (simp add: leases_of_def)
  have full: "adm_step id False (?sys sample_granted {#?a None#} {#sample_lease#}) (?sys sample_granted {#Queueing global_request None#} {#sample_lease#})"
    using undecided [of "?sys sample_granted {#?a None#} {#sample_lease#}" global_request None None "{#}" True 2 sample_granted id False] sample_full
    by simp
  have queue: "adm_step id False (?sys sample_granted {#Queueing global_request None#} {#sample_lease#})
      (?sys sample_queued {#?a (Some sample_ticket)#} {#sample_lease#})"
    using adm_step.queued [of "?sys sample_granted {#Queueing global_request None#} {#sample_lease#}" global_request None "{#}" 5 sample_queued
        sample_ticket id False] sample_queueing by simp
  have free: "adm_step id False (?sys sample_queued {#?a (Some sample_ticket)#} {#sample_lease#}) (?sys sample_released {#?a (Some sample_ticket)#} {#})"
    using released [of "?sys sample_queued {#?a (Some sample_ticket)#} {#sample_lease#}" sample_lease "{#}" id False 6 Neutral]
    by (simp add: sample_released_def)
  show queued: "adm_reachable id False sample_runtime (?sys sample_queued {#?a (Some sample_ticket)#} {#sample_lease#})"
    by (intro adm_next [OF _ queue] adm_next [OF _ full] adm_next [OF _ arrive] adm_next [OF _ grant] adm_init)
  then show "adm_reachable id False sample_runtime (?sys sample_released {#?a (Some sample_ticket)#} {#})"
    by (rule adm_next [OF _ free])
qed

lemma sample_config_ok: "config_ok sample_runtime"
  by (simp add: config_ok_def sample_runtime_def scope_new_def limit_usize_def)

end
