(* ===== verification/Admission_Counters.thy ===== *)
theory Admission_Counters
  imports Admission
begin

text \<open>
  The counters of the admission runtime agree with what exists: in every reachable state the active counters
  are the slots of the permits, the queue counters the slots of the callers that wait, and every waiter in a
  lane belongs to exactly one caller.  The counter updates, the lanes and the priority tickets each have
  their lemmas; the invariants \<open>adm_inv\<close> and \<open>callers_inv\<close> are kept by every step.
\<close>

section \<open>Counters\<close>

definition slots :: "ScopeKey \<Rightarrow> ResourceKind \<Rightarrow> Allocation list \<Rightarrow> nat" where
  "slots k r allocations = length (filter (\<lambda>a. al_scope a = k \<and> al_resource a = r) allocations)"

definition act :: "RuntimeState \<Rightarrow> ScopeKey \<Rightarrow> ResourceKind \<Rightarrow> nat" where
  "act s k r = (case rs_scopes s k of Some scope \<Rightarrow> ss_active scope r | None \<Rightarrow> 0)"

definition que :: "RuntimeState \<Rightarrow> ScopeKey \<Rightarrow> ResourceKind \<Rightarrow> nat" where
  "que s k r = (case rs_scopes s k of Some scope \<Rightarrow> ss_queued scope r | None \<Rightarrow> 0)"

definition lims :: "RuntimeState \<Rightarrow> ScopeKey \<Rightarrow> ScopeLimits option" where
  "lims s k = map_option ss_limits (rs_scopes s k)"

lemma slots_simps [simp]:
  "slots k r [] = 0"
  "slots k r (a # as) = (if al_scope a = k \<and> al_resource a = r then Suc (slots k r as) else slots k r as)"
  by (simp_all add: slots_def)

lemma dom_lims: "k \<in> dom (rs_scopes s) \<longleftrightarrow> lims s k \<noteq> None"
  by (auto simp: lims_def)

text \<open>What the counter updates leave alone.\<close>

definition frame :: "RuntimeState \<Rightarrow> RuntimeState \<Rightarrow> bool" where
  "frame s s' \<longleftrightarrow> lims s' = lims s \<and> rs_waiters s' = rs_waiters s \<and> rs_priority s' = rs_priority s"

lemma frame_trans: "frame s s' \<Longrightarrow> frame s' s'' \<Longrightarrow> frame s s''"
  by (simp add: frame_def)

lemma frame_refl [simp]: "frame s s"
  by (simp add: frame_def)

lemma add_active_counters:
  "frame s (add_active a s)" "que (add_active a s) = que s"
  "lims s (al_scope a) \<noteq> None \<Longrightarrow> act (add_active a s) k r = act s k r + slots k r [a]"
  by (auto simp: frame_def add_active_def update_scope_def lims_def que_def act_def fun_eq_iff split: option.splits)

lemma sub_active_counters:
  "frame s (sub_active a s)" "que (sub_active a s) = que s" "act (sub_active a s) k r = act s k r - slots k r [a]"
  by (auto simp: frame_def sub_active_def update_scope_def lims_def que_def act_def fun_eq_iff split: option.splits)

lemma add_queued_counters:
  "frame s (add_queued a s)" "act (add_queued a s) = act s"
  "lims s (al_scope a) \<noteq> None \<Longrightarrow> que (add_queued a s) k r = que s k r + slots k r [a]"
  by (auto simp: frame_def add_queued_def update_scope_def lims_def que_def act_def fun_eq_iff split: option.splits)

lemma sub_queued_counters:
  "frame s (sub_queued a s)" "act (sub_queued a s) = act s" "que (sub_queued a s) k r = que s k r - slots k r [a]"
  by (auto simp: frame_def sub_queued_def update_scope_def lims_def que_def act_def fun_eq_iff split: option.splits)

lemma increment_active_counters:
  assumes "list_all (\<lambda>a. lims s (al_scope a) \<noteq> None) allocations"
  shows "frame s (increment_active allocations s) \<and> que (increment_active allocations s) = que s \<and>
    (\<forall>k r. act (increment_active allocations s) k r = act s k r + slots k r allocations)"
  using assms unfolding increment_active_def
proof (induction allocations arbitrary: s)
  case (Cons a as)
  have "frame s (add_active a s)" by (rule add_active_counters)
  then have lims: "lims (add_active a s) = lims s" by (simp add: frame_def)
  from Cons.IH [of "add_active a s"] Cons.prems add_active_counters [where s = s and a = a] lims show ?case
    by (auto simp: frame_def)
qed simp

lemma decrement_active_counters:
  "frame s (decrement_active allocations s) \<and> que (decrement_active allocations s) = que s \<and>
    (\<forall>k r. act (decrement_active allocations s) k r = act s k r - slots k r allocations)"
  unfolding decrement_active_def
proof (induction allocations arbitrary: s)
  case (Cons a as)
  from Cons.IH [of "sub_active a s"] sub_active_counters [where s = s and a = a] show ?case by (auto simp: frame_def)
qed simp

lemma add_queued_fold:
  assumes "list_all (\<lambda>a. lims s (al_scope a) \<noteq> None) allocations"
  shows "frame s (fold add_queued allocations s) \<and> act (fold add_queued allocations s) = act s \<and>
    (\<forall>k r. que (fold add_queued allocations s) k r = que s k r + slots k r allocations)"
  using assms
proof (induction allocations arbitrary: s)
  case (Cons a as)
  have "frame s (add_queued a s)" by (rule add_queued_counters)
  then have lims: "lims (add_queued a s) = lims s" by (simp add: frame_def)
  from Cons.IH [of "add_queued a s"] Cons.prems add_queued_counters [where s = s and a = a] lims show ?case
    by (auto simp: frame_def)
qed simp

lemma sub_queued_fold:
  "frame s (fold sub_queued allocations s) \<and> act (fold sub_queued allocations s) = act s \<and>
    (\<forall>k r. que (fold sub_queued allocations s) k r = que s k r - slots k r allocations)"
proof (induction allocations arbitrary: s)
  case (Cons a as)
  from Cons.IH [of "sub_queued a s"] sub_queued_counters [where s = s and a = a] show ?case by (auto simp: frame_def)
qed simp

text \<open>Everything that touches only statistics and circuits.\<close>

definition quiet :: "RuntimeState \<Rightarrow> RuntimeState \<Rightarrow> bool" where
  "quiet s s' \<longleftrightarrow> frame s s' \<and> act s' = act s \<and> que s' = que s"

lemma quiet_refl [simp]: "quiet s s"
  by (simp add: quiet_def)

lemma quiet_trans: "quiet s s' \<Longrightarrow> quiet s' s'' \<Longrightarrow> quiet s s''"
  by (auto simp: quiet_def intro: frame_trans)

lemma quiet_stats [simp]:
  "quiet s (reject reason s)" "quiet s (record_attempt allocations s)" "quiet s (record_transition tr s)"
  by (auto simp: quiet_def frame_def reject_def record_attempt_def record_transition_def act_def que_def lims_def Let_def fun_eq_iff
      split: prod.splits)

lemma quiet_circuit:
  assumes "rs_scopes s k = Some scope"
  shows "quiet s (s\<lparr>rs_scopes := (rs_scopes s)(k \<mapsto> scope\<lparr>ss_circuit := c\<rparr>)\<rparr>)"
  using assms by (auto simp: quiet_def frame_def act_def que_def lims_def fun_eq_iff)

lemma quiet_transition: "quiet s t \<Longrightarrow> quiet s (case tr of Some tr \<Rightarrow> record_transition tr t | None \<Rightarrow> t)"
  using quiet_trans quiet_stats(3) by (cases tr) auto

lemma quiet_begin_probes: "quiet s (fst (begin_probes now ks s))"
proof (induction now ks s rule: begin_probes.induct)
  case (2 now k ks s)
  show ?case
  proof (cases "rs_scopes s k")
    case (Some scope)
    show ?thesis
    proof (cases "ss_failure_enabled scope")
      case True
      obtain c tr where b: "begin_probe (ss_circuit scope) now (rs_failure s) = (c, tr)" by force
      let ?s = "s\<lparr>rs_scopes := (rs_scopes s)(k \<mapsto> scope\<lparr>ss_circuit := c\<rparr>)\<rparr>"
      let ?t = "case tr of Some tr \<Rightarrow> record_transition tr ?s | None \<Rightarrow> ?s"
      have "quiet s ?t" using quiet_circuit [OF Some] by (rule quiet_transition)
      moreover have "quiet ?t (fst (begin_probes now ks ?t))" using "2.IH"(2) [OF Some _ b [symmetric] refl refl] True by simp
      ultimately show ?thesis using Some True b by (auto simp: Let_def split: prod.splits intro: quiet_trans)
    qed (use "2.IH"(1) [OF Some] Some in simp)
  qed simp
qed simp

lemma quiet_circuit_admission: "circuit_admission s allocations now = (s', r) \<Longrightarrow> quiet s s'"
  using quiet_begin_probes [of s now "circuit_scopes allocations"]
  by (auto simp: circuit_admission_def split: if_splits sum.splits)

lemma quiet_finish_scope: "quiet s (finish_scope rnd probes outcome now k s)"
proof (cases "rs_scopes s k")
  case (Some scope)
  let ?s = "s\<lparr>rs_transition_sequence := rs_transition_sequence s + 1\<rparr>"
  have seq: "quiet s ?s" by (simp add: quiet_def frame_def act_def que_def lims_def fun_eq_iff)
  have "quiet ?s (?s\<lparr>rs_scopes := (rs_scopes ?s)(k \<mapsto> scope\<lparr>ss_circuit := c\<rparr>)\<rparr>)" for c
    using Some by (intro quiet_circuit) simp
  then have "quiet s (case tr of Some tr \<Rightarrow> record_transition tr (?s\<lparr>rs_scopes := (rs_scopes ?s)(k \<mapsto> scope\<lparr>ss_circuit := c\<rparr>)\<rparr>)
      | None \<Rightarrow> ?s\<lparr>rs_scopes := (rs_scopes ?s)(k \<mapsto> scope\<lparr>ss_circuit := c\<rparr>)\<rparr>)" for c tr
    using seq by (intro quiet_transition) (rule quiet_trans)
  then show ?thesis using Some by (simp add: finish_scope_def Let_def case_prod_unfold)
qed (simp add: finish_scope_def)

lemma quiet_fold: "(\<And>x s. quiet s (f x s)) \<Longrightarrow> quiet s (fold f xs s)"
  by (induction xs arbitrary: s) (auto intro: quiet_trans)

lemma quiet_finish_circuits: "quiet s (finish_circuits rnd probes allocations outcome now s)"
  by (simp add: finish_circuits_def quiet_fold quiet_finish_scope)

lemma quiet_abandon_circuits: "quiet s (abandon_circuits probes s)"
  unfolding abandon_circuits_def by (rule quiet_fold) (auto simp: update_scope_def quiet_circuit split: option.splits)

section \<open>Lanes as a multiset of waiters\<close>

definition waiters :: "AdmissionQueues \<Rightarrow> Waiter multiset" where
  "waiters lanes = mset (concat (map snd lanes))"

definition lane_of :: "AdmissionQueues \<Rightarrow> QueueKey \<Rightarrow> Waiter list" where
  "lane_of lanes k = (case map_of lanes k of None \<Rightarrow> [] | Some lane \<Rightarrow> lane)"

definition lanes_inv :: "AdmissionQueues \<Rightarrow> bool" where
  "lanes_inv lanes \<longleftrightarrow> distinct (map fst lanes) \<and>
     (\<forall>(k, lane) \<in> set lanes. lane \<noteq> [] \<and> (\<forall>w \<in> set lane. from_allocations (w_allocations w) = k))"

lemma waiters_update:
  "waiters (AList.update k lane lanes) + mset (lane_of lanes k) = waiters lanes + mset lane"
  by (induction lanes) (auto simp: waiters_def lane_of_def)

lemma waiters_delete:
  "distinct (map fst lanes) \<Longrightarrow> waiters (AList.delete k lanes) + mset (lane_of lanes k) = waiters lanes"
proof (induction lanes)
  case (Cons p lanes)
  show ?case
  proof (cases "fst p = k")
    case True
    with Cons.prems have "AList.delete k lanes = lanes" by (intro delete_id) auto
    with True show ?thesis by (cases p) (simp add: waiters_def lane_of_def delete_simps)
  next
    case False
    with Cons show ?thesis by (cases p) (auto simp: waiters_def lane_of_def)
  qed
qed (simp add: waiters_def lane_of_def)

lemma waiters_push:
  assumes "lanes_inv lanes" "from_allocations (w_allocations w) = wt_key ticket"
  shows "waiters (queues_push lanes ticket w) = add_mset w (waiters lanes)" "lanes_inv (queues_push lanes ticket w)"
    "lane_of (queues_push lanes ticket w) k = (if k = wt_key ticket then lane_of lanes k @ [w] else lane_of lanes k)"
proof -
  have push: "queues_push lanes ticket w = AList.update (wt_key ticket) (lane_of lanes (wt_key ticket) @ [w]) lanes"
    by (simp add: queues_push_def lane_of_def)
  have "waiters (queues_push lanes ticket w) + mset (lane_of lanes (wt_key ticket)) =
      add_mset w (waiters lanes) + mset (lane_of lanes (wt_key ticket))"
    unfolding push using waiters_update [of "wt_key ticket" "lane_of lanes (wt_key ticket) @ [w]" lanes] by simp
  then show "waiters (queues_push lanes ticket w) = add_mset w (waiters lanes)" by simp
  show "lane_of (queues_push lanes ticket w) k = (if k = wt_key ticket then lane_of lanes k @ [w] else lane_of lanes k)"
    unfolding push by (simp add: lane_of_def update_conv)
  show "lanes_inv (queues_push lanes ticket w)"
  proof -
    have "set (AList.update k v xs) \<subseteq> insert (k, v) (set xs)" for k v and xs :: AdmissionQueues
      by (induction xs) auto
    moreover have "w' \<in> set (lane_of lanes (wt_key ticket)) \<Longrightarrow> from_allocations (w_allocations w') = wt_key ticket" for w'
      using assms(1) by (auto simp: lane_of_def lanes_inv_def dest!: map_of_SomeD split: option.splits)
    ultimately show ?thesis
      using assms unfolding push lanes_inv_def by (fastforce simp: distinct_update)
  qed
qed

lemma mset_remove_nth: "i < length xs \<Longrightarrow> add_mset (xs ! i) (mset (remove_nth i xs)) = mset xs"
  using arg_cong [where f = mset, OF id_take_nth_drop [of i xs]] by (simp add: remove_nth_def)

lemma queues_remove_Some:
  assumes "lanes_inv lanes" "queues_remove lanes ticket = Some (lanes', w)"
  shows "waiters lanes = add_mset w (waiters lanes')" "lanes_inv lanes'" "w_id w = wt_id ticket"
    "\<exists>i. i < length (lane_of lanes (wt_key ticket)) \<and> w = lane_of lanes (wt_key ticket) ! i \<and>
      position (\<lambda>w. w_id w = wt_id ticket) (lane_of lanes (wt_key ticket)) = Some i \<and>
      (\<forall>k. lane_of lanes' k = (if k = wt_key ticket then remove_nth i (lane_of lanes k) else lane_of lanes k))"
proof -
  let ?k = "wt_key ticket"
  from assms(2) obtain lane i where lane: "map_of lanes ?k = Some lane"
      and i: "position (\<lambda>w. w_id w = wt_id ticket) lane = Some i" and w: "w = lane ! i"
      and lanes': "lanes' = (if remove_nth i lane = [] then AList.delete ?k lanes else AList.update ?k (remove_nth i lane) lanes)"
    by (auto simp: queues_remove_def Let_def split: option.splits)
  note at = position_SomeD [OF i]
  have lane_of: "lane_of lanes ?k = lane" using lane by (simp add: lane_of_def)
  have d: "distinct (map fst lanes)" using assms(1) by (simp add: lanes_inv_def)
  have "waiters lanes' + mset lane = waiters lanes + mset (remove_nth i lane)"
    using waiters_update [of ?k "remove_nth i lane" lanes] waiters_delete [OF d, of ?k] lane_of lanes' by auto
  moreover have "mset lane = add_mset w (mset (remove_nth i lane))" using mset_remove_nth [of i lane] at w by simp
  ultimately show "waiters lanes = add_mset w (waiters lanes')" by simp
  show "w_id w = wt_id ticket" using at w by simp
  show "\<exists>i. i < length (lane_of lanes ?k) \<and> w = lane_of lanes ?k ! i \<and>
      position (\<lambda>w. w_id w = wt_id ticket) (lane_of lanes ?k) = Some i \<and>
      (\<forall>k. lane_of lanes' k = (if k = ?k then remove_nth i (lane_of lanes k) else lane_of lanes k))"
    using at w i lane_of lanes' by (intro exI [of _ i]) (auto simp: lane_of_def update_conv delete_conv)
  have sub: "set (AList.update k v xs) \<subseteq> insert (k, v) (set xs)" for k v and xs :: AdmissionQueues by (induction xs) auto
  have "set (remove_nth i lane) \<subseteq> set lane" by (auto simp: remove_nth_def dest: in_set_takeD in_set_dropD)
  moreover have "w' \<in> set lane \<Longrightarrow> from_allocations (w_allocations w') = ?k" for w'
    using assms(1) map_of_SomeD [OF lane] by (auto simp: lanes_inv_def)
  ultimately have rest: "w' \<in> set (remove_nth i lane) \<Longrightarrow> from_allocations (w_allocations w') = ?k" for w' by blast
  show "lanes_inv lanes'"
  proof (cases "remove_nth i lane = []")
    case True
    have "set (AList.delete ?k lanes) \<subseteq> set lanes" by (auto simp: AList.delete_eq)
    then have "\<forall>p \<in> set lanes'. snd p \<noteq> [] \<and> (\<forall>w \<in> set (snd p). from_allocations (w_allocations w) = fst p)"
      using assms(1) True by (force simp: lanes' lanes_inv_def)
    with True d show ?thesis by (auto simp: lanes' lanes_inv_def distinct_delete)
  next
    case False
    have "distinct (map fst lanes')" using d False by (simp add: lanes' distinct_update)
    moreover have "snd p \<noteq> [] \<and> (\<forall>w \<in> set (snd p). from_allocations (w_allocations w) = fst p)" if "p \<in> set lanes'" for p
    proof (cases "p = (?k, remove_nth i lane)")
      case False
      then have "p \<in> set lanes" using that sub [of ?k "remove_nth i lane" lanes] \<open>remove_nth i lane \<noteq> []\<close> by (auto simp: lanes')
      then show ?thesis using assms(1) by (auto simp: lanes_inv_def)
    qed (use rest \<open>remove_nth i lane \<noteq> []\<close> in auto)
    ultimately show ?thesis unfolding lanes_inv_def case_prod_unfold by blast
  qed
qed

section \<open>Counters agree with permits and waiters\<close>

definition held :: "ScopeKey \<Rightarrow> ResourceKind \<Rightarrow> AdmissionLease multiset \<Rightarrow> nat" where
  "held k r leases = (\<Sum>l \<in># leases. slots k r (le_allocations l))"

definition waiting :: "ScopeKey \<Rightarrow> ResourceKind \<Rightarrow> Waiter multiset \<Rightarrow> nat" where
  "waiting k r ws = (\<Sum>w \<in># ws. slots k r (w_allocations w))"

definition priority_leases :: "AdmissionLease multiset \<Rightarrow> PriorityLease multiset" where
  "priority_leases leases = image_mset the (filter_mset (\<lambda>p. p \<noteq> None) (image_mset le_priority leases))"

definition lease_inv :: "AdmissionLease \<Rightarrow> bool" where
  "lease_inv l \<longleftrightarrow> (le_priority l \<noteq> None \<longrightarrow> le_enabled l \<and> le_allocations l = global_request) \<and>
     (\<not> le_enabled l \<longrightarrow> l = disabled_lease)"

definition adm_inv :: "RuntimeState \<Rightarrow> AdmissionLease multiset \<Rightarrow> bool" where
  "adm_inv s leases \<longleftrightarrow> lanes_inv (rs_waiters s) \<and>
     (\<forall>k r. act s k r = held k r leases) \<and>
     (\<forall>k r. que s k r = waiting k r (waiters (rs_waiters s)) +
        (if k = Global \<and> r = Request then prio_queued (rs_priority s) else 0)) \<and>
     (\<forall>l \<in># leases. lease_inv l) \<and>
     (\<forall>k l r. lims s k = Some l \<longrightarrow> limit_usize (l r)) \<and>
     active_agrees (rs_priority s) (priority_leases leases) \<and> queue_inv (rs_priority s)"

lemma adm_inv_quiet: "quiet s s' \<Longrightarrow> adm_inv s leases \<Longrightarrow> adm_inv s' leases"
  by (simp add: adm_inv_def quiet_def frame_def)

lemma held_add [simp]: "held k r (add_mset l leases) = slots k r (le_allocations l) + held k r leases"
  by (simp add: held_def)

lemma waiting_add [simp]: "waiting k r (add_mset w ws) = slots k r (w_allocations w) + waiting k r ws"
  by (simp add: waiting_def)

lemma priority_leases_add [simp]:
  "priority_leases (add_mset l leases) = (case le_priority l of None \<Rightarrow> {#} | Some p \<Rightarrow> {#p#}) + priority_leases leases"
  by (simp add: priority_leases_def split: option.splits)

lemma priority_leases_held:
  "\<forall>l \<in># leases. lease_inv l \<Longrightarrow> size (priority_leases leases) \<le> held Global Request leases"
  by (induction leases) (auto simp: priority_leases_def held_def lease_inv_def global_request_def)

lemma adm_inv_disabled: "adm_inv s leases \<Longrightarrow> adm_inv s (add_mset disabled_lease leases)"
  by (simp add: adm_inv_def disabled_lease_def lease_inv_def)

lemma remove_waiter_inv:
  assumes "adm_inv s leases" "remove_waiter t s = Some (s', w)"
  shows "adm_inv s' leases"
proof -
  from assms(2) obtain lanes where rem: "queues_remove (rs_waiters s) t = Some (lanes, w)"
      and s': "s' = fold sub_queued (w_allocations w) (s\<lparr>rs_waiters := lanes\<rparr>)"
    by (auto simp: remove_waiter_def split: option.splits)
  have inv: "lanes_inv (rs_waiters s)" using assms(1) by (simp add: adm_inv_def)
  note rm = queues_remove_Some(1,2) [OF inv rem]
  let ?t = "s\<lparr>rs_waiters := lanes\<rparr>"
  have t: "act ?t = act s" "que ?t = que s" "lims ?t = lims s" by (simp_all add: act_def que_def lims_def fun_eq_iff)
  note sub = sub_queued_fold [of ?t "w_allocations w"]
  have "que s' k r = que s k r - slots k r (w_allocations w)" for k r using sub t by (simp add: s')
  then show ?thesis using assms(1) sub rm t by (auto simp: adm_inv_def s' frame_def)
qed

lemma drop_ticket_inv: "adm_inv s leases \<Longrightarrow> adm_inv (drop_ticket t s) leases"
  by (auto simp: drop_ticket_def split: option.splits dest: remove_waiter_inv)

lemma take_ticket_inv:
  assumes "adm_inv s leases"
  shows "adm_inv (take_ticket now t s) leases"
proof -
  have "quiet s (s\<lparr>rs_queue_waits := a, rs_queue_wait_ms := b\<rparr>)" for s a b
    by (simp add: quiet_def frame_def act_def que_def lims_def fun_eq_iff)
  then have "adm_inv (s'\<lparr>rs_queue_waits := a, rs_queue_wait_ms := b\<rparr>) leases" if "remove_waiter t' s = Some (s', w)" for t' s' w a b
    using remove_waiter_inv [OF assms that] adm_inv_quiet by blast
  then show ?thesis using assms by (simp add: take_ticket_def split: option.splits)
qed

lemma can_admit_scoped: "can_admit s allocations \<Longrightarrow> list_all (\<lambda>a. lims s (al_scope a) \<noteq> None) allocations"
  by (auto simp: can_admit_def list_all_iff lims_def split: option.splits)

lemma can_queue_scoped: "can_queue s allocations \<Longrightarrow> list_all (\<lambda>a. lims s (al_scope a) \<noteq> None) allocations"
  by (auto simp: can_queue_def list_all_iff lims_def split: option.splits)

lemma increment_active_inv:
  assumes "adm_inv s leases" "list_all (\<lambda>a. lims s (al_scope a) \<noteq> None) allocations"
  shows "adm_inv (increment_active allocations s)
    (add_mset \<lparr>le_enabled = True, le_allocations = allocations, le_probes = probes, le_priority = None\<rparr> leases)"
  using assms increment_active_counters [OF assms(2)] by (auto simp: adm_inv_def frame_def lease_inv_def)

lemma enqueue_inv:
  assumes "adm_inv s leases" "can_queue s (w_allocations w)" "from_allocations (w_allocations w) = wt_key t"
  shows "adm_inv (enqueue t w s) leases"
proof -
  note add = add_queued_fold [OF can_queue_scoped [OF assms(2)]]
  let ?s = "fold add_queued (w_allocations w) s"
  have lanes: "rs_waiters ?s = rs_waiters s" using add by (simp add: frame_def)
  have inv: "lanes_inv (rs_waiters s)" using assms(1) by (simp add: adm_inv_def)
  note push = waiters_push(1,2) [OF inv assms(3)]
  have "act (enqueue t w s) = act ?s" "que (enqueue t w s) = que ?s" "lims (enqueue t w s) = lims ?s"
      "rs_waiters (enqueue t w s) = queues_push (rs_waiters s) t w" "rs_priority (enqueue t w s) = rs_priority ?s"
    using lanes by (simp_all add: enqueue_def Let_def act_def que_def lims_def fun_eq_iff)
  then show ?thesis using assms(1) add push by (simp add: adm_inv_def frame_def)
qed

lemma circuit_rejected_inv:
  "adm_inv s leases \<Longrightarrow> circuit_rejected t d s = (s', r) \<Longrightarrow> adm_inv s' leases \<and> r \<noteq> None \<and> leases_of (the r) = {#}"
  using adm_inv_quiet [OF quiet_stats(1) drop_ticket_inv] by (auto simp: circuit_rejected_def leases_of_def)

lemma can_admit_lims:
  "can_admit s allocations = list_all (\<lambda>a. case lims s (al_scope a) of
     None \<Rightarrow> False | Some l \<Rightarrow> act s (al_scope a) (al_resource a) < rl_active (unwrap_or (al_limit a) (l (al_resource a)))) allocations"
  by (auto simp: can_admit_def list_all_iff lims_def act_def effective_limit_def unwrap_or_def split: option.splits)

lemma can_queue_lims:
  "can_queue s allocations = list_all (\<lambda>a. case lims s (al_scope a) of
     None \<Rightarrow> False | Some l \<Rightarrow> que s (al_scope a) (al_resource a) < rl_queue (unwrap_or (al_limit a) (l (al_resource a)))) allocations"
  by (auto simp: can_queue_def list_all_iff lims_def que_def effective_limit_def unwrap_or_def split: option.splits)

lemma take_ticket_lims: "lims (take_ticket now t s) = lims s"
proof -
  have "lims s' = lims s" if "remove_waiter t' s = Some (s', w)" for t' s' w
  proof -
    from that obtain lanes where "s' = fold sub_queued (w_allocations w) (s\<lparr>rs_waiters := lanes\<rparr>)"
      by (auto simp: remove_waiter_def split: option.splits)
    then have "lims s' = lims (s\<lparr>rs_waiters := lanes\<rparr>)" using sub_queued_fold by (simp add: frame_def)
    then show ?thesis by (simp add: lims_def fun_eq_iff)
  qed
  then show ?thesis by (auto simp: take_ticket_def lims_def fun_eq_iff split: option.splits)
qed

lemma admit_section_inv:
  assumes inv: "adm_inv s leases" and sec: "admit_section enabled now allocations t s = (s', result)"
  shows "adm_inv s' (leases + (case result of None \<Rightarrow> {#} | Some r \<Rightarrow> leases_of r))"
proof (cases "enabled \<and> ((t = None \<and> queues_is_empty (rs_waiters s) (from_allocations allocations)) \<or>
      (case t of Some t \<Rightarrow> is_head (rs_waiters s) t | None \<Rightarrow> False))")
  case False
  then show ?thesis using sec inv drop_ticket_inv [OF inv, of t] adm_inv_disabled
    by (auto simp: admit_section_def leases_of_def split: if_splits)
next
  case True
  note turn = this
  show ?thesis
  proof (cases "circuit_available s allocations now")
    case (Inl d)
    with turn sec have "circuit_rejected t d s = (s', result)" by (simp add: admit_section_def)
    from circuit_rejected_inv [OF inv this] show ?thesis by auto
  next
    case (Inr u)
    show ?thesis
    proof (cases "selected_for_caller s now allocations t \<and> can_admit s allocations")
      case False
      then have "s' = s \<and> result = None" using turn sec Inr by (simp add: admit_section_def split: if_splits)
      then show ?thesis using inv by simp
    next
      case go: True
      obtain s1 c where c: "circuit_admission s allocations now = (s1, c)" by force
      note q = quiet_circuit_admission [OF c]
      note inv1 = adm_inv_quiet [OF q inv]
      show ?thesis
      proof (cases c)
        case (Inl d)
        then have "circuit_rejected t d s1 = (s', result)" using turn sec \<open>circuit_available _ _ _ = Inr u\<close> go c by (simp add: admit_section_def)
        from circuit_rejected_inv [OF inv1 this] show ?thesis by auto
      next
        case (Inr probes)
        let ?s = "record_attempt allocations (take_ticket now t s1)"
        have res: "s' = increment_active allocations ?s"
            "result = Some (Inr \<lparr>le_enabled = True, le_allocations = allocations, le_probes = probes, le_priority = None\<rparr>)"
          using turn sec \<open>circuit_available _ _ _ = Inr u\<close> go c Inr by (simp_all add: admit_section_def)
        have "adm_inv ?s leases" using adm_inv_quiet [OF quiet_stats(2) take_ticket_inv [OF inv1]] .
        moreover have "lims ?s = lims s" using quiet_stats(2) [of "take_ticket now t s1" allocations] q
          by (simp add: quiet_def frame_def take_ticket_lims)
        then have "list_all (\<lambda>a. lims ?s (al_scope a) \<noteq> None) allocations" using can_admit_scoped go by simp
        ultimately show ?thesis using increment_active_inv by (simp add: res leases_of_def)
      qed
    qed
  qed
qed

lemma queue_section_inv:
  assumes inv: "adm_inv s leases" and sec: "queue_section now allocations reason s = (s', result)"
  shows "adm_inv s' leases"
proof (cases "can_queue s allocations")
  case True
  let ?s = "s\<lparr>rs_next_waiter := next_id (rs_next_waiter s)\<rparr>"
  have "quiet s ?s" by (simp add: quiet_def frame_def act_def que_def lims_def fun_eq_iff)
  from adm_inv_quiet [OF this inv] have "adm_inv ?s leases" .
  moreover have "can_queue ?s allocations" using True by (simp add: can_queue_def)
  ultimately show ?thesis using sec True enqueue_inv by (auto simp: queue_section_def Let_def)
next
  case False
  then show ?thesis using sec adm_inv_quiet [OF quiet_stats(1) inv] by (auto simp: queue_section_def Let_def)
qed

section \<open>Priority sections\<close>

lemma prio_frames:
  "priority_remove p t = Some (p', removed) \<Longrightarrow> active_agrees p' leases = active_agrees p leases"
  "priority_enqueue p c eligible now = (p', t) \<Longrightarrow> active_agrees p' leases = active_agrees p leases"
  "priority_admit p c kind = (p', lease) \<Longrightarrow> queue_inv p' = queue_inv p \<and> prio_queued p' = prio_queued p"
  "queue_inv (priority_release p lease) = queue_inv p" "prio_queued (priority_release p lease) = prio_queued p"
  by (auto simp: priority_remove_def priority_enqueue_def priority_admit_def priority_release_def active_agrees_def queue_inv_def
      prio_queued_def Let_def split: option.splits PriorityLeaseKind.splits)

lemma prio_update [simp]:
  "act (s\<lparr>rs_priority := p\<rparr>) = act s" "que (s\<lparr>rs_priority := p\<rparr>) = que s" "lims (s\<lparr>rs_priority := p\<rparr>) = lims s"
  by (simp_all add: act_def que_def lims_def fun_eq_iff)

lemma adm_inv_prio:
  assumes "adm_inv s leases" "active_agrees p (priority_leases leases)" "queue_inv p" "prio_queued p = prio_queued (rs_priority s)"
  shows "adm_inv (s\<lparr>rs_priority := p\<rparr>) leases"
  using assms by (simp add: adm_inv_def)

lemma priority_stats_inv:
  "adm_inv s leases \<Longrightarrow> adm_inv (s\<lparr>rs_priority := record_priority_rejection (rs_priority s) c reason\<rparr>) leases"
  "adm_inv s leases \<Longrightarrow> adm_inv (s\<lparr>rs_priority := record_queue_wait (rs_priority s) c at' now\<rparr>) leases"
  by (rule adm_inv_prio;
      simp add: adm_inv_def record_priority_rejection_def record_queue_wait_def active_agrees_def queue_inv_def prio_queued_def)+

lemma remove_priority_waiter_inv:
  assumes "adm_inv s leases" "remove_priority_waiter t s = Some (s', removed)"
  shows "adm_inv s' leases \<and> lims s' = lims s \<and> act s' = act s"
proof -
  from assms(2) obtain p where rem: "priority_remove (rs_priority s) t = Some (p, removed)"
      and s': "s' = fold sub_queued global_request (s\<lparr>rs_priority := p\<rparr>)"
    by (auto simp: remove_priority_waiter_def split: option.splits)
  have q: "queue_inv (rs_priority s)" using assms(1) by (simp add: adm_inv_def)
  note rm = priority_remove_queue [OF q rem]
  let ?t = "s\<lparr>rs_priority := p\<rparr>"
  have t: "act ?t = act s" "que ?t = que s" "lims ?t = lims s" by (simp_all add: act_def que_def lims_def fun_eq_iff)
  note sub = sub_queued_fold [of ?t global_request]
  have "que s' k r = que s k r - slots k r global_request" for k r using sub t by (simp add: s')
  then have "que s' k r = waiting k r (waiters (rs_waiters s)) + (if k = Global \<and> r = Request then prio_queued p else 0)" for k r
    using assms(1) rm by (auto simp: adm_inv_def global_request_def)
  then show ?thesis using assms(1) sub t prio_frames(1) [OF rem] rm by (simp add: adm_inv_def s' frame_def)
qed

lemma drop_priority_ticket_inv: "adm_inv s leases \<Longrightarrow> adm_inv (drop_priority_ticket t s) leases"
  by (auto simp: drop_priority_ticket_def split: option.splits dest: remove_priority_waiter_inv)

lemma take_priority_ticket_inv:
  assumes "adm_inv s leases"
  shows "adm_inv (take_priority_ticket now c t s) leases \<and> lims (take_priority_ticket now c t s) = lims s \<and>
    act (take_priority_ticket now c t s) = act s"
proof -
  have "adm_inv (s'\<lparr>rs_priority := record_queue_wait (rs_priority s') c at' now\<rparr>) leases \<and>
      lims (s'\<lparr>rs_priority := record_queue_wait (rs_priority s') c at' now\<rparr>) = lims s \<and>
      act (s'\<lparr>rs_priority := record_queue_wait (rs_priority s') c at' now\<rparr>) = act s"
    if "remove_priority_waiter t' s = Some (s', removed)" for t' s' removed at'
    using remove_priority_waiter_inv [OF assms that] priority_stats_inv(2) by (simp add: lims_def act_def fun_eq_iff)
  then show ?thesis using assms by (simp add: take_priority_ticket_def split: option.splits)
qed

lemma priority_grant_inv:
  assumes inv: "adm_inv s leases" and scoped: "lims s Global = Some l" and room: "act s Global Request < rl_active (l Request)"
    and admit: "priority_admit (rs_priority s) c kind = (p, lease)"
  shows "adm_inv (increment_active global_request s\<lparr>rs_priority := p\<rparr>)
    (add_mset \<lparr>le_enabled = True, le_allocations = global_request, le_probes = [], le_priority = Some lease\<rparr> leases)"
proof -
  have "list_all (\<lambda>a. lims s (al_scope a) \<noteq> None) global_request" using scoped by (simp add: global_request_def)
  note inc = increment_active_counters [OF this]
  have "size (priority_leases leases) \<le> act s Global Request" using inv priority_leases_held by (simp add: adm_inv_def)
  moreover have "rl_active (l Request) \<le> USIZE_MAX" using inv scoped by (simp add: adm_inv_def limit_usize_def)
  ultimately have "size (priority_leases leases) < USIZE_MAX" using room by linarith
  then have "active_agrees p (add_mset lease (priority_leases leases))"
    using active_agrees_admit [OF _ _ admit] inv by (simp add: adm_inv_def)
  then show ?thesis using inv inc prio_frames(3) [OF admit]
    by (simp add: adm_inv_def frame_def lease_inv_def)
qed

lemma priority_section_inv:
  assumes inv: "adm_inv s leases" and sec: "priority_section enabled now c eligible t s = (s', outcome)"
  shows "adm_inv s' (leases + (case outcome of PriorityDone r \<Rightarrow> leases_of r | _ \<Rightarrow> {#}))"
proof (cases "enabled \<and> pr_enabled (rs_priority s) \<and> rs_scopes s Global \<noteq> None")
  case False
  then show ?thesis using sec drop_priority_ticket_inv [OF inv, of t] adm_inv_disabled
    by (auto simp: priority_section_def leases_of_def split: if_splits option.splits)
next
  case True
  then obtain global where g: "rs_scopes s Global = Some global" by blast
  define kind where "kind = priority_can_admit (rs_priority s) c eligible (ss_active global Request) (rl_active (ss_limits global Request))"
  show ?thesis
  proof (cases "may_admit_priority s global c eligible t kind \<and> kind \<noteq> None")
    case False
    then have "s' = s \<and> outcome = PriorityWait"
      using sec True g by (auto simp: priority_section_def kind_def Let_def split: if_splits option.splits)
    then show ?thesis using inv by simp
  next
    case go: True
    then obtain k where k: "kind = Some k" by blast
    let ?t = "take_priority_ticket now c t s"
    note tk = take_priority_ticket_inv [OF inv, of now c t]
    have pr: "rs_priority (increment_active global_request ?t) = rs_priority ?t"
      using increment_active_counters [of ?t global_request] tk g by (simp add: global_request_def lims_def frame_def)
    obtain p lease where a: "priority_admit (rs_priority ?t) c k = (p, lease)" by force
    have res: "s' = increment_active global_request ?t\<lparr>rs_priority := p\<rparr>"
        "outcome = PriorityDone (Inr \<lparr>le_enabled = True, le_allocations = global_request, le_probes = [], le_priority = Some lease\<rparr>)"
      using sec True g go k a pr by (simp_all add: priority_section_def kind_def Let_def)
    have "ss_active global Request < rl_active (ss_limits global Request)"
      using k by (auto simp: kind_def priority_can_admit_def split: if_splits)
    then have "act ?t Global Request < rl_active (ss_limits global Request)" using tk g by (simp add: act_def)
    then show ?thesis using priority_grant_inv [OF _ _ _ a] tk g by (simp add: res leases_of_def lims_def)
  qed
qed

lemma priority_queue_section_inv:
  assumes inv: "adm_inv s leases" and sec: "priority_queue_section now c eligible s = (s', outcome)"
  shows "adm_inv s' leases"
proof (cases "pr_enabled (rs_priority s) \<and> priority_rejection_reason (rs_priority s) c = None \<and> can_queue s global_request")
  case False
  have rej: "adm_inv (reject reason (s\<lparr>rs_priority := record_priority_rejection (rs_priority s) c why\<rparr>)) leases" for reason why
    by (rule adm_inv_quiet [OF quiet_stats(1) priority_stats_inv(1) [OF inv]])
  with False show ?thesis using sec inv
    by (auto simp: priority_queue_section_def Let_def split: if_splits option.splits)
next
  case True
  obtain p ticket where e: "priority_enqueue (rs_priority s) c eligible now = (p, ticket)" by force
  from True obtain global where g: "rs_scopes s Global = Some global"
      and room: "ss_queued global Request < rl_queue (ss_limits global Request)"
    by (auto simp: can_queue_def global_request_def effective_limit_def split: option.splits)
  have s': "s' = update_scope (\<lambda>scope. scope\<lparr>ss_queued := (ss_queued scope)(Request :=
      usize_saturating_add (ss_queued scope Request) 1)\<rparr>) Global (s\<lparr>rs_priority := p\<rparr>)"
    using sec True e g by (simp add: priority_queue_section_def)
  have "lims s Global = Some (ss_limits global)" using g by (simp add: lims_def)
  then have "rl_queue (ss_limits global Request) \<le> USIZE_MAX" using inv by (simp add: adm_inv_def limit_usize_def)
  with room have sat: "usize_saturating_add (ss_queued global Request) 1 = Suc (ss_queued global Request)"
      and small: "ss_queued global Request < USIZE_MAX"
    by (simp_all add: usize_saturating_add_def)
  have "prio_queued (rs_priority s) \<le> que s Global Request" using inv by (simp add: adm_inv_def)
  then have "prio_queued (rs_priority s) < USIZE_MAX" using small g by (simp add: que_def)
  then have p: "queue_inv p" "prio_queued p = Suc (prio_queued (rs_priority s))"
    using priority_enqueue_queue [OF _ _ e] inv by (simp_all add: adm_inv_def)
  have "act s' = act s" "lims s' = lims s" "rs_waiters s' = rs_waiters s" "rs_priority s' = p"
      "que s' k r = que s k r + (if k = Global \<and> r = Request then 1 else 0)" for k r
    using g sat by (auto simp: s' update_scope_def act_def lims_def que_def fun_eq_iff)
  then show ?thesis using inv p prio_frames(2) [OF e] by (simp add: adm_inv_def)
qed

section \<open>Releases, reloads and runs\<close>

lemma release_inv:
  assumes "adm_inv s (add_mset lease leases)"
  shows "adm_inv (release rnd now lease outcome s) leases"
proof (cases "le_enabled lease")
  case False
  then have "lease = disabled_lease" using assms by (simp add: adm_inv_def lease_inv_def)
  then show ?thesis using assms by (simp add: release_def adm_inv_def disabled_lease_def)
next
  case True
  let ?d = "decrement_active (le_allocations lease) s"
  let ?s = "case le_priority lease of Some p \<Rightarrow> ?d\<lparr>rs_priority := priority_release (rs_priority ?d) p\<rparr> | None \<Rightarrow> ?d"
  note dec = decrement_active_counters [of s "le_allocations lease"]
  have "adm_inv ?s leases"
  proof (cases "le_priority lease")
    case None
    then show ?thesis using assms dec by (simp add: adm_inv_def frame_def)
  next
    case (Some p)
    then show ?thesis using assms dec active_agrees_release [of "rs_priority s" p "priority_leases leases"]
      by (simp add: adm_inv_def frame_def prio_frames)
  qed
  then show ?thesis using True adm_inv_quiet [OF quiet_abandon_circuits] adm_inv_quiet [OF quiet_finish_circuits]
    by (simp add: release_def Let_def)
qed

lemma configure_counters:
  assumes "config_ok config"
  shows "act (configure rnd config s) = act s" "que (configure rnd config s) = que s" "rs_waiters (configure rnd config s) = rs_waiters s"
    "\<exists>p g. rs_priority (configure rnd config s) = priority_configure rnd (rs_priority s) p g"
    "lims (configure rnd config s) k = (case rc_scopes config k of None \<Rightarrow> lims s k | Some scope \<Rightarrow> Some (ss_limits scope))"
proof -
  let ?c = "\<lambda>k. if \<not> rc_enabled config \<or> \<not> cf_enabled (rc_failure config)
    then map_option (\<lambda>scope. scope\<lparr>ss_circuit := fc_close (ss_circuit scope)\<rparr>) (configure_scopes (rc_scopes config) (rs_scopes s) k)
    else configure_scopes (rc_scopes config) (rs_scopes s) k"
  have scopes: "rs_scopes (configure rnd config s) k = ?c k" for k by (simp add: configure_def Let_def)
  show "act (configure rnd config s) = act s" "que (configure rnd config s) = que s"
    by (auto simp: act_def que_def fun_eq_iff scopes configure_scopes_def configure_scope_def scope_new_def Let_def
        split: option.splits if_splits)
  show "rs_waiters (configure rnd config s) = rs_waiters s"
    "\<exists>p g. rs_priority (configure rnd config s) = priority_configure rnd (rs_priority s) p g"
    by (auto simp: configure_def Let_def)
  show "lims (configure rnd config s) k = (case rc_scopes config k of None \<Rightarrow> lims s k | Some scope \<Rightarrow> Some (ss_limits scope))"
    by (auto simp: lims_def scopes configure_scopes_def configure_scope_def Let_def option.map_comp comp_def split: option.splits)
qed

lemma configure_inv:
  assumes "adm_inv s leases" "config_ok config"
  shows "adm_inv (configure rnd config s) leases"
proof -
  note c = configure_counters [OF assms(2), of rnd s]
  obtain p g where "rs_priority (configure rnd config s) = priority_configure rnd (rs_priority s) p g" using c(4) by blast
  then have "active_agrees (rs_priority (configure rnd config s)) L = active_agrees (rs_priority s) L"
      "queue_inv (rs_priority (configure rnd config s)) = queue_inv (rs_priority s)"
      "prio_queued (rs_priority (configure rnd config s)) = prio_queued (rs_priority s)" for L
    by (simp_all add: priority_configure_def Let_def active_agrees_def queue_inv_def prio_queued_def)
  moreover have "limit_usize (l r)" if "lims (configure rnd config s) k = Some l" for k l r
    using that assms by (auto simp: c(5) config_ok_def adm_inv_def split: option.splits)
  ultimately show ?thesis using assms(1) c(1-3) by (simp add: adm_inv_def)
qed

lemma timeout_inv:
  "adm_inv s leases \<Longrightarrow> adm_inv (fst (timeout_rejection reason s)) leases"
  "adm_inv s leases \<Longrightarrow> adm_inv (fst (priority_timeout_rejection c s)) leases"
  using adm_inv_quiet [OF quiet_stats(1)] priority_stats_inv(1) by (simp_all add: timeout_rejection_def priority_timeout_rejection_def Let_def)

lemma adm_step_inv:
  assumes "adm_step rnd reload y y'" "adm_inv (sy_state y) (sy_leases y)"
  shows "adm_inv (sy_state y') (sy_leases y')"
  using assms
proof cases
  case (decided allocations reason ticket tasks enabled now s' result)
  from admit_section_inv [OF assms(2) decided(3)] show ?thesis by (simp add: decided(1))
next
  case (undecided allocations reason ticket tasks enabled now s')
  from admit_section_inv [OF assms(2) undecided(3)] show ?thesis by (simp add: undecided(1))
next
  case (queued allocations reason tasks now s' ticket)
  from queue_section_inv [OF assms(2) queued(3)] show ?thesis by (simp add: queued(1))
next
  case (not_queued allocations reason tasks now s' rejection)
  from queue_section_inv [OF assms(2) not_queued(3)] show ?thesis by (simp add: not_queued(1))
next
  case (priority_decided c eligible ticket tasks enabled now s' result)
  from priority_section_inv [OF assms(2) priority_decided(3)] show ?thesis by (simp add: priority_decided(1))
next
  case (priority_falls_back c eligible ticket tasks enabled now s')
  from priority_section_inv [OF assms(2) priority_falls_back(3)] show ?thesis by (simp add: priority_falls_back(1))
next
  case (priority_undecided c eligible ticket tasks enabled now s')
  from priority_section_inv [OF assms(2) priority_undecided(3)] show ?thesis by (simp add: priority_undecided(1))
next
  case (priority_queued c eligible tasks now s' ticket)
  from priority_queue_section_inv [OF assms(2) priority_queued(3)] show ?thesis by (simp add: priority_queued(1))
next
  case (priority_not_queued c eligible tasks now s' rejection)
  from priority_queue_section_inv [OF assms(2) priority_not_queued(3)] show ?thesis by (simp add: priority_not_queued(1))
next
  case (priority_queue_falls_back c eligible tasks now s')
  from priority_queue_section_inv [OF assms(2) priority_queue_falls_back(3)] show ?thesis by (simp add: priority_queue_falls_back(1))
qed (auto simp: timeout_inv drop_ticket_inv drop_priority_ticket_inv release_inv configure_inv)

lemma adm_init_inv: "config_ok config \<Longrightarrow> adm_inv (runtime_from_config rnd config) {#}"
  by (auto simp: adm_inv_def runtime_from_config_def lanes_inv_def act_def que_def lims_def held_def waiting_def waiters_def config_ok_def
      active_agrees_def queue_inv_def prio_queued_def priority_leases_def class_leases_def priority_from_config_def Let_def
      split: option.splits)

lemma adm_reachable_inv:
  "adm_reachable rnd reload config y \<Longrightarrow> config_ok config \<Longrightarrow> adm_inv (sy_state y) (sy_leases y)"
  by (induction rule: adm_reachable.induct) (auto simp: adm_init_inv intro: adm_step_inv)

section \<open>Every waiter has a caller\<close>

definition waiter_id :: "Waiter \<Rightarrow> QueueKey \<times> u64" where
  "waiter_id w = (from_allocations (w_allocations w), w_id w)"

definition wids :: "RuntimeState \<Rightarrow> (QueueKey \<times> u64) multiset" where
  "wids s = image_mset waiter_id (waiters (rs_waiters s))"

definition ticket_ids :: "WaiterTicket option \<Rightarrow> (QueueKey \<times> u64) multiset" where
  "ticket_ids ticket = (case ticket of None \<Rightarrow> {#} | Some t \<Rightarrow> {#(wt_key t, wt_id t)#})"

definition pids :: "PriorityAdmissionState \<Rightarrow> (PriorityClass \<times> nat \<times> u64) multiset" where
  "pids p = (\<Sum>c \<in># mset ALL_CLASSES. \<Sum>lane \<in># {#ELIGIBLE_LANE, SHARED_LANE#}. image_mset (\<lambda>t. (c, lane, pt_id t)) (mset (pr_queues p c lane)))"

definition pticket_ids :: "PriorityTicket option \<Rightarrow> (PriorityClass \<times> nat \<times> u64) multiset" where
  "pticket_ids ticket = (case ticket of None \<Rightarrow> {#} | Some t \<Rightarrow> {#(pt_class t, pt_lane t, pt_id t)#})"

lemma queues_remove_None:
  assumes "lanes_inv lanes" "queues_remove lanes t = None"
  shows "(wt_key t, wt_id t) \<notin># image_mset waiter_id (waiters lanes)"
proof
  assume "(wt_key t, wt_id t) \<in># image_mset waiter_id (waiters lanes)"
  then obtain k lane w where lane: "(k, lane) \<in> set lanes" and w: "w \<in> set lane" "waiter_id w = (wt_key t, wt_id t)"
    by (auto simp: waiters_def)
  have "from_allocations (w_allocations w) = k" using assms(1) lane w(1) by (auto simp: lanes_inv_def)
  then have "map_of lanes (wt_key t) = Some lane" using assms(1) lane w(2) by (auto simp: lanes_inv_def waiter_id_def)
  then have "position (\<lambda>w. w_id w = wt_id t) lane = None" using assms(2) by (auto simp: queues_remove_def Let_def split: option.splits)
  then show False using w by (auto simp: position_None waiter_id_def)
qed

lemma remove_waiter_ids:
  assumes "lanes_inv (rs_waiters s)"
  shows "remove_waiter t s = Some (s', w) \<Longrightarrow> wids s = add_mset (wt_key t, wt_id t) (wids s') \<and> rs_priority s' = rs_priority s"
    "remove_waiter t s = None \<Longrightarrow> (wt_key t, wt_id t) \<notin># wids s"
proof -
  assume "remove_waiter t s = Some (s', w)"
  then obtain lanes where rem: "queues_remove (rs_waiters s) t = Some (lanes, w)"
      and s': "s' = fold sub_queued (w_allocations w) (s\<lparr>rs_waiters := lanes\<rparr>)"
    by (auto simp: remove_waiter_def split: option.splits)
  note rm = queues_remove_Some [OF assms rem]
  have "w \<in> set (lane_of (rs_waiters s) (wt_key t))" using rm(4) by (auto simp: in_set_conv_nth)
  then have "from_allocations (w_allocations w) = wt_key t"
    using assms by (auto simp: lane_of_def lanes_inv_def dest!: map_of_SomeD split: option.splits)
  moreover have "rs_waiters s' = lanes" "rs_priority s' = rs_priority s"
    using sub_queued_fold [of "s\<lparr>rs_waiters := lanes\<rparr>" "w_allocations w"] by (simp_all add: s' frame_def)
  ultimately show "wids s = add_mset (wt_key t, wt_id t) (wids s') \<and> rs_priority s' = rs_priority s"
    using rm(1,3) by (simp add: wids_def waiter_id_def)
next
  assume "remove_waiter t s = None"
  then have "queues_remove (rs_waiters s) t = None" by (auto simp: remove_waiter_def split: option.splits)
  then show "(wt_key t, wt_id t) \<notin># wids s" using queues_remove_None assms by (simp add: wids_def)
qed

lemma drop_ticket_ids:
  assumes "lanes_inv (rs_waiters s)"
  shows "wids (drop_ticket t s) = wids s - ticket_ids t \<and> rs_priority (drop_ticket t s) = rs_priority s"
  using remove_waiter_ids [OF assms]
  by (auto simp: drop_ticket_def ticket_ids_def split: option.splits)

lemma take_ticket_ids:
  assumes "lanes_inv (rs_waiters s)"
  shows "wids (take_ticket now t s) = wids s - ticket_ids t \<and> rs_priority (take_ticket now t s) = rs_priority s"
proof -
  have "wids (s\<lparr>rs_queue_waits := a, rs_queue_wait_ms := b\<rparr>) = wids s" for s a b by (simp add: wids_def)
  then show ?thesis using remove_waiter_ids [OF assms]
    by (auto simp: take_ticket_def ticket_ids_def split: option.splits)
qed

lemma quiet_ids: "quiet s s' \<Longrightarrow> wids s' = wids s \<and> rs_priority s' = rs_priority s \<and> rs_waiters s' = rs_waiters s"
  by (simp add: quiet_def frame_def wids_def)

lemma circuit_rejected_ids:
  assumes "lanes_inv (rs_waiters s)" "circuit_rejected t d s = (s', r)"
  shows "wids s' = wids s - ticket_ids t \<and> rs_priority s' = rs_priority s"
proof -
  have "s' = reject CircuitOpen (drop_ticket t s)" using assms(2) by (auto simp: circuit_rejected_def)
  then show ?thesis using drop_ticket_ids [OF assms(1), of t] quiet_ids [OF quiet_stats(1)] by simp
qed

lemma admit_section_ids:
  assumes inv: "lanes_inv (rs_waiters s)" and sec: "admit_section enabled now allocations t s = (s', result)"
  shows "rs_priority s' = rs_priority s \<and> wids s' = (if result = None then wids s else wids s - ticket_ids t)"
proof -
  have grant: "wids (increment_active allocations (record_attempt allocations (take_ticket now t s1))) = wids s - ticket_ids t \<and>
      rs_priority (increment_active allocations (record_attempt allocations (take_ticket now t s1))) = rs_priority s"
    if "can_admit s allocations" "circuit_admission s allocations now = (s1, Inr probes)" for s1 probes
  proof -
    let ?s = "record_attempt allocations (take_ticket now t s1)"
    have q: "quiet s s1" using that(2) by (rule quiet_circuit_admission)
    have "lims ?s = lims s" using quiet_stats(2) [of "take_ticket now t s1" allocations] q
      by (simp add: quiet_def frame_def take_ticket_lims)
    then have "frame ?s (increment_active allocations ?s)" using increment_active_counters can_admit_scoped [OF that(1)] by simp
    then have "wids (increment_active allocations ?s) = wids ?s \<and> rs_priority (increment_active allocations ?s) = rs_priority ?s"
      by (simp add: frame_def wids_def)
    then show ?thesis
      using quiet_ids [OF q] quiet_ids [OF quiet_stats(2)] take_ticket_ids [of s1 now t] inv by simp
  qed
  have rejected: "wids s' = wids s - ticket_ids t \<and> rs_priority s' = rs_priority s"
    if "quiet s s1" "circuit_rejected t d s1 = (s', result)" for s1 d
    using circuit_rejected_ids [OF _ that(2)] quiet_ids [OF that(1)] inv by simp
  have no: "circuit_rejected t d s1 \<noteq> (s', None)" for d s1 by (simp add: circuit_rejected_def)
  show ?thesis
    using sec no drop_ticket_ids [OF inv, of t] grant rejected [OF quiet_refl] rejected [OF quiet_circuit_admission]
    unfolding admit_section_def by (cases result) (auto split: if_splits sum.splits prod.splits)
qed

lemma queue_section_ids:
  assumes inv: "lanes_inv (rs_waiters s)" and sec: "queue_section now allocations reason s = (s', result)"
  shows "rs_priority s' = rs_priority s \<and>
    (case result of Inl _ \<Rightarrow> wids s' = wids s
     | Inr t \<Rightarrow> wt_key t = from_allocations allocations \<and> wids s' = wids s + ticket_ids (Some t))"
proof (cases "can_queue s allocations")
  case False
  then show ?thesis using sec quiet_ids [OF quiet_stats(1)] by (auto simp: queue_section_def Let_def)
next
  case True
  let ?s = "s\<lparr>rs_next_waiter := next_id (rs_next_waiter s)\<rparr>"
  let ?t = "\<lparr>wt_id = rs_next_waiter s, wt_key = from_allocations allocations, wt_queued_at = now\<rparr>"
  let ?w = "\<lparr>w_id = rs_next_waiter s, w_allocations = allocations, w_queued_at = now\<rparr>"
  have res: "s' = enqueue ?t ?w ?s" "result = Inr ?t" using sec True by (simp_all add: queue_section_def Let_def)
  have "can_queue ?s allocations" using True by (simp add: can_queue_def)
  from add_queued_fold [OF can_queue_scoped [OF this]] have "frame ?s (fold add_queued allocations ?s)" by blast
  then have "rs_waiters s' = queues_push (rs_waiters s) ?t ?w" "rs_priority s' = rs_priority s"
    by (simp_all add: res enqueue_def Let_def frame_def)
  then show ?thesis using waiters_push(1) [OF inv, of ?w ?t] by (simp add: res wids_def ticket_ids_def waiter_id_def)
qed

subsection \<open>Priority tickets\<close>

lemma count_tagged: "count (image_mset (\<lambda>t. (c, l, pt_id t)) M) (c', l', i) = (if c = c' \<and> l = l' then count (image_mset pt_id M) i else 0)"
  by (induction M) auto

lemma count_pids:
  "count (pids p) (c, lane, i) = (if lane < LANE_COUNT then count (image_mset pt_id (mset (pr_queues p c lane))) i else 0)"
proof -
  consider "lane = 0" | "lane = 1" | "2 \<le> lane" by linarith
  then show ?thesis by cases (cases c; simp add: pids_def ALL_CLASSES_def count_tagged)+
qed

lemma size_pids: "queue_inv p \<Longrightarrow> size (pids p) = prio_queued p"
  by (simp add: pids_def prio_queued_def class_sum_def queue_inv_def ALL_CLASSES_def)

lemma pids_cong: "pr_queues p' = pr_queues p \<Longrightarrow> pids p' = pids p"
  by (simp add: pids_def)

lemma pids_stats [simp]:
  "pids (record_priority_rejection p c reason) = pids p" "pids (record_queue_wait p c at' now) = pids p"
  "pids (priority_release p lease) = pids p" "pids (priority_configure rnd p config g) = pids p"
  "pids (fst (priority_admit p c kind)) = pids p"
  by (rule pids_cong; simp add: record_priority_rejection_def record_queue_wait_def priority_release_def priority_configure_def
      priority_admit_def Let_def split: PriorityLeaseKind.splits)+

lemma priority_enqueue_ids:
  assumes "priority_enqueue p c eligible now = (p', t)"
  shows "pids p' = pids p + pticket_ids (Some t)"
proof (rule multiset_eqI)
  fix x :: "PriorityClass \<times> nat \<times> u64"
  obtain c' lane i where "x = (c', lane, i)" by (cases x)
  then show "count (pids p') x = count (pids p + pticket_ids (Some t)) x"
    using assms by (cases eligible) (auto simp: count_pids pticket_ids_def priority_enqueue_def priority_lane_def Let_def)
qed

lemma priority_remove_ids:
  assumes "queue_inv p"
  shows "priority_remove p t = Some (p', removed) \<Longrightarrow> pids p = add_mset (pt_class t, pt_lane t, pt_id t) (pids p')"
    "priority_remove p t = None \<Longrightarrow> (pt_class t, pt_lane t, pt_id t) \<notin># pids p"
proof -
  let ?q = "pr_queues p (pt_class t) (pt_lane t)"
  assume "priority_remove p t = Some (p', removed)"
  then obtain i where i: "position (\<lambda>candidate. pt_id candidate = pt_id t) ?q = Some i"
      and q': "pr_queues p' = (pr_queues p)(pt_class t := (pr_queues p (pt_class t))(pt_lane t := remove_nth i ?q))"
    by (auto simp: priority_remove_def Let_def split: option.splits)
  have at: "i < length ?q" "pt_id (?q ! i) = pt_id t" using position_SomeD [OF i] by simp_all
  then have "\<not> LANE_COUNT \<le> pt_lane t" using assms by (auto simp: queue_inv_def)
  moreover have "image_mset pt_id (mset ?q) = add_mset (pt_id t) (image_mset pt_id (mset (remove_nth i ?q)))"
    using mset_remove_nth [OF at(1)] at(2) by (metis image_mset_add_mset)
  ultimately have "count (pids p) (c, l, j) = count (add_mset (pt_class t, pt_lane t, pt_id t) (pids p')) (c, l, j)" for c l j
    by (cases "c = pt_class t \<and> l = pt_lane t") (auto simp: count_pids q')
  then show "pids p = add_mset (pt_class t, pt_lane t, pt_id t) (pids p')" by (metis multiset_eqI prod_cases3)
next
  let ?q = "pr_queues p (pt_class t) (pt_lane t)"
  assume "priority_remove p t = None"
  then have "position (\<lambda>candidate. pt_id candidate = pt_id t) ?q = None" by (auto simp: priority_remove_def Let_def split: option.splits)
  then have "pt_id t \<notin># image_mset pt_id (mset ?q)" by (auto simp: position_None)
  then have "count (image_mset pt_id (mset ?q)) (pt_id t) = 0" unfolding not_in_iff .
  then have "count (pids p) (pt_class t, pt_lane t, pt_id t) = 0" unfolding count_pids by simp
  then show "(pt_class t, pt_lane t, pt_id t) \<notin># pids p" by (simp add: not_in_iff)
qed

lemma remove_priority_waiter_ids:
  assumes "queue_inv (rs_priority s)"
  shows "remove_priority_waiter t s = Some (s', removed) \<Longrightarrow>
      pids (rs_priority s) = add_mset (pt_class t, pt_lane t, pt_id t) (pids (rs_priority s')) \<and> wids s' = wids s"
    "remove_priority_waiter t s = None \<Longrightarrow> (pt_class t, pt_lane t, pt_id t) \<notin># pids (rs_priority s)"
proof -
  assume "remove_priority_waiter t s = Some (s', removed)"
  then obtain p where rem: "priority_remove (rs_priority s) t = Some (p, removed)"
      and s': "s' = fold sub_queued global_request (s\<lparr>rs_priority := p\<rparr>)"
    by (auto simp: remove_priority_waiter_def split: option.splits)
  have "rs_waiters s' = rs_waiters s" "rs_priority s' = p"
    using sub_queued_fold [of "s\<lparr>rs_priority := p\<rparr>" global_request] by (simp_all add: s' frame_def)
  then show "pids (rs_priority s) = add_mset (pt_class t, pt_lane t, pt_id t) (pids (rs_priority s')) \<and> wids s' = wids s"
    using priority_remove_ids(1) [OF assms rem] by (simp add: wids_def)
next
  assume "remove_priority_waiter t s = None"
  then show "(pt_class t, pt_lane t, pt_id t) \<notin># pids (rs_priority s)"
    using priority_remove_ids(2) [OF assms] by (auto simp: remove_priority_waiter_def split: option.splits)
qed

lemma drop_priority_ticket_ids:
  assumes "queue_inv (rs_priority s)"
  shows "pids (rs_priority (drop_priority_ticket t s)) = pids (rs_priority s) - pticket_ids t \<and> wids (drop_priority_ticket t s) = wids s"
  using remove_priority_waiter_ids [OF assms] by (auto simp: drop_priority_ticket_def pticket_ids_def split: option.splits)

lemma take_priority_ticket_ids:
  assumes "queue_inv (rs_priority s)"
  shows "pids (rs_priority (take_priority_ticket now c t s)) = pids (rs_priority s) - pticket_ids t \<and>
    wids (take_priority_ticket now c t s) = wids s"
proof -
  have "wids (s\<lparr>rs_priority := p\<rparr>) = wids s" for s p by (simp add: wids_def)
  then show ?thesis using remove_priority_waiter_ids [OF assms]
    by (auto simp: take_priority_ticket_def pticket_ids_def split: option.splits)
qed

lemma priority_section_ids:
  assumes inv: "adm_inv s leases" and sec: "priority_section enabled now c eligible t s = (s', outcome)"
  shows "wids s' = wids s \<and>
    pids (rs_priority s') = (if outcome = PriorityWait then pids (rs_priority s) else pids (rs_priority s) - pticket_ids t)"
proof -
  have q: "queue_inv (rs_priority s)" using inv by (simp add: adm_inv_def)
  let ?t = "take_priority_ticket now c t s"
  let ?i = "increment_active global_request ?t"
  have "wids (?i\<lparr>rs_priority := fst (priority_admit (rs_priority ?i) c kind)\<rparr>) = wids s \<and>
      pids (fst (priority_admit (rs_priority ?i) c kind)) = pids (rs_priority s) - pticket_ids t"
    if "rs_scopes s Global = Some global" for global kind
  proof -
    have "lims ?t Global = Some (ss_limits global)" using take_priority_ticket_inv [OF inv, of now c t] that by (simp add: lims_def)
    then have "frame ?t ?i" using increment_active_counters [of ?t global_request] by (simp add: global_request_def)
    then show ?thesis using take_priority_ticket_ids [OF q, of now c t] by (simp add: frame_def wids_def)
  qed
  then show ?thesis
    using sec drop_priority_ticket_ids [OF q, of t]
    by (auto simp: priority_section_def Let_def case_prod_unfold split: if_splits option.splits)
qed

lemma priority_queue_section_ids:
  assumes sec: "priority_queue_section now c eligible s = (s', outcome)"
  shows "wids s' = wids s \<and>
    pids (rs_priority s') = pids (rs_priority s) + (case outcome of QueuedAs t \<Rightarrow> pticket_ids (Some t) | _ \<Rightarrow> {#})"
proof -
  have frames: "wids (update_scope f k s) = wids s" "rs_priority (update_scope f k s) = rs_priority s"
      "wids (reject reason s) = wids s" "rs_priority (reject reason s) = rs_priority s" "wids (s\<lparr>rs_priority := p\<rparr>) = wids s" for f k s reason p
    by (simp_all add: wids_def update_scope_def reject_def split: option.splits)
  obtain p t where e: "priority_enqueue (rs_priority s) c eligible now = (p, t)" by force
  have scope: "rs_scopes s Global \<noteq> None" if "can_queue s global_request"
    using that by (auto simp: can_queue_def global_request_def split: option.splits)
  show ?thesis using sec scope priority_enqueue_ids [OF e] e
    by (auto simp: priority_queue_section_def Let_def frames split: if_splits option.splits)
qed

lemma timeout_ids:
  "wids (fst (timeout_rejection reason s)) = wids s" "rs_priority (fst (timeout_rejection reason s)) = rs_priority s"
  "wids (fst (priority_timeout_rejection c s)) = wids s"
  "pids (rs_priority (fst (priority_timeout_rejection c s))) = pids (rs_priority s)"
  by (simp_all add: timeout_rejection_def priority_timeout_rejection_def reject_def wids_def Let_def)

lemma release_ids:
  "wids (release rnd now lease outcome s) = wids s" "pids (rs_priority (release rnd now lease outcome s)) = pids (rs_priority s)"
proof -
  let ?d = "decrement_active (le_allocations lease) s"
  let ?s = "case le_priority lease of Some p \<Rightarrow> ?d\<lparr>rs_priority := priority_release (rs_priority ?d) p\<rparr> | None \<Rightarrow> ?d"
  have "wids ?s = wids s \<and> pids (rs_priority ?s) = pids (rs_priority s)"
    using decrement_active_counters [of s "le_allocations lease"] by (simp add: frame_def wids_def split: option.splits)
  moreover have "quiet ?s (release rnd now lease outcome s)" if "le_enabled lease"
    using that quiet_abandon_circuits quiet_finish_circuits by (simp add: release_def Let_def)
  ultimately show "wids (release rnd now lease outcome s) = wids s"
      "pids (rs_priority (release rnd now lease outcome s)) = pids (rs_priority s)"
    using quiet_ids by (cases "le_enabled lease"; force simp: release_def)+
qed

lemma configure_ids:
  "wids (configure rnd config s) = wids s" "pids (rs_priority (configure rnd config s)) = pids (rs_priority s)"
  by (simp_all add: configure_def wids_def Let_def)

subsection \<open>Callers\<close>

fun task_ids :: "Task \<Rightarrow> (QueueKey \<times> u64) multiset" where
  "task_ids (Admitting _ _ t) = ticket_ids t"
| "task_ids _ = {#}"

fun task_pids :: "Task \<Rightarrow> (PriorityClass \<times> nat \<times> u64) multiset" where
  "task_pids (PriorityAdmitting _ _ t) = pticket_ids t"
| "task_pids _ = {#}"

fun task_keyed :: "Task \<Rightarrow> bool" where
  "task_keyed (Admitting allocations _ (Some t)) \<longleftrightarrow> wt_key t = from_allocations allocations"
| "task_keyed _ \<longleftrightarrow> True"

definition callers_inv :: "System \<Rightarrow> bool" where
  "callers_inv y \<longleftrightarrow> wids (sy_state y) = (\<Sum>t \<in># sy_tasks y. task_ids t) \<and>
     pids (rs_priority (sy_state y)) = (\<Sum>t \<in># sy_tasks y. task_pids t) \<and> (\<forall>t \<in># sy_tasks y. task_keyed t)"

lemma adm_step_callers:
  assumes "adm_step rnd reload y y'" "adm_inv (sy_state y) (sy_leases y)" "callers_inv y"
  shows "callers_inv y'"
proof -
  have lanes: "lanes_inv (rs_waiters (sy_state y))" and q: "queue_inv (rs_priority (sy_state y))" using assms(2) by (simp_all add: adm_inv_def)
  show ?thesis using assms(1)
  proof cases
    case (decided allocations reason ticket tasks enabled now s' result)
    from admit_section_ids [OF lanes decided(3)] assms(3) show ?thesis by (simp add: decided(1,2) callers_inv_def)
  next
    case (undecided allocations reason ticket tasks enabled now s')
    from admit_section_ids [OF lanes undecided(3)] assms(3) show ?thesis
      by (cases ticket) (auto simp: undecided(1,2) callers_inv_def ticket_ids_def)
  next
    case (queued allocations reason tasks now s' ticket)
    from queue_section_ids [OF lanes queued(3)] assms(3) show ?thesis by (simp add: queued(1,2) callers_inv_def)
  next
    case (not_queued allocations reason tasks now s' rejection)
    from queue_section_ids [OF lanes not_queued(3)] assms(3) show ?thesis by (simp add: not_queued(1,2) callers_inv_def)
  next
    case (times_out allocations reason ticket tasks)
    from drop_ticket_ids [OF lanes, of "Some ticket"] assms(3) show ?thesis by (simp add: times_out(1,2) callers_inv_def timeout_ids)
  next
    case (cancelled allocations reason ticket tasks)
    from drop_ticket_ids [OF lanes, of "Some ticket"] assms(3) show ?thesis by (simp add: cancelled(1,2) callers_inv_def)
  next
    case (priority_decided c eligible ticket tasks enabled now s' result)
    from priority_section_ids [OF assms(2) priority_decided(3)] assms(3) show ?thesis by (simp add: priority_decided(1,2) callers_inv_def)
  next
    case (priority_falls_back c eligible ticket tasks enabled now s')
    from priority_section_ids [OF assms(2) priority_falls_back(3)] assms(3) show ?thesis
      by (simp add: priority_falls_back(1,2) callers_inv_def ticket_ids_def)
  next
    case (priority_undecided c eligible ticket tasks enabled now s')
    from priority_section_ids [OF assms(2) priority_undecided(3)] assms(3) show ?thesis
      by (cases ticket) (auto simp: priority_undecided(1,2) callers_inv_def pticket_ids_def)
  next
    case (priority_queued c eligible tasks now s' ticket)
    from priority_queue_section_ids [OF priority_queued(3)] assms(3) show ?thesis by (simp add: priority_queued(1,2) callers_inv_def)
  next
    case (priority_not_queued c eligible tasks now s' rejection)
    from priority_queue_section_ids [OF priority_not_queued(3)] assms(3) show ?thesis by (simp add: priority_not_queued(1,2) callers_inv_def)
  next
    case (priority_queue_falls_back c eligible tasks now s')
    from priority_queue_section_ids [OF priority_queue_falls_back(3)] assms(3) show ?thesis
      by (simp add: priority_queue_falls_back(1,2) callers_inv_def ticket_ids_def)
  next
    case (priority_times_out c eligible ticket tasks)
    from drop_priority_ticket_ids [OF q, of "Some ticket"] assms(3) show ?thesis by (simp add: priority_times_out(1,2) callers_inv_def timeout_ids)
  next
    case (priority_cancelled c eligible ticket tasks)
    from drop_priority_ticket_ids [OF q, of "Some ticket"] assms(3) show ?thesis by (simp add: priority_cancelled(1,2) callers_inv_def)
  qed (use assms(3) in \<open>simp_all add: callers_inv_def ticket_ids_def pticket_ids_def release_ids configure_ids\<close>)
qed

lemma adm_reachable_callers:
  assumes "adm_reachable rnd reload config y" "config_ok config"
  shows "callers_inv y"
  using assms(1)
proof induction
  case adm_init
  show ?case
    by (simp add: callers_inv_def wids_def waiters_def runtime_from_config_def pids_def ALL_CLASSES_def priority_from_config_def Let_def)
next
  case (adm_next y y')
  then show ?case using adm_step_callers adm_reachable_inv assms(2) by blast
qed

section \<open>Conservation\<close>

fun task_queued :: "ScopeKey \<Rightarrow> ResourceKind \<Rightarrow> Task \<Rightarrow> nat" where
  "task_queued k r (Admitting allocations _ (Some _)) = slots k r allocations"
| "task_queued k r (PriorityAdmitting _ _ (Some _)) = (if k = Global \<and> r = Request then 1 else 0)"
| "task_queued k r _ = 0"

lemma slots_key: "slots k r allocations = count (mset (from_allocations allocations)) (k, r)"
  by (induction allocations) (auto simp: from_allocations_def)

lemma task_queued_ids:
  "task_keyed t \<Longrightarrow> task_queued k r t = (\<Sum>i \<in># task_ids t. count (mset (fst i)) (k, r)) +
     (if k = Global \<and> r = Request then size (task_pids t) else 0)"
  by (cases "(k, r, t)" rule: task_queued.cases) (auto simp: ticket_ids_def pticket_ids_def slots_key)

lemma tasks_queued:
  assumes "\<forall>t \<in># tasks. task_keyed t"
  shows "(\<Sum>t \<in># tasks. task_queued k r t) = (\<Sum>i \<in># (\<Sum>t \<in># tasks. task_ids t). count (mset (fst i)) (k, r)) +
     (if k = Global \<and> r = Request then size (\<Sum>t \<in># tasks. task_pids t) else 0)"
  using assms by (induction tasks) (auto simp: task_queued_ids)

text \<open>
  C5.  Admission counters never leak.  In every reachable state of the admission runtime, under any
  interleaving of arrivals, admissions, queueing, cancellations, timeouts, releases and reloads, the active
  counter of a scope and resource is the number of slots held by the permits that exist, its queue counter is
  the number of slots asked for by the callers that wait with a ticket, and the counters of the priority
  scheduler are the numbers of its permits of each class and kind.
\<close>

theorem admission_conservation:
  assumes "adm_reachable rnd reload config y" "config_ok config"
  shows "act (sy_state y) k r = (\<Sum>l \<in># sy_leases y. slots k r (le_allocations l)) \<and>
    que (sy_state y) k r = (\<Sum>t \<in># sy_tasks y. task_queued k r t) \<and>
    pa_reserved (pr_active (rs_priority (sy_state y)) c) = count (image_mset le_priority (sy_leases y)) (Some \<lparr>pl_class = c, pl_kind = Reserved\<rparr>) \<and>
    pa_shared (pr_active (rs_priority (sy_state y)) c) = count (image_mset le_priority (sy_leases y)) (Some \<lparr>pl_class = c, pl_kind = Shared\<rparr>)"
proof -
  note inv = adm_reachable_inv [OF assms]
  note callers = adm_reachable_callers [OF assms]
  have prio: "class_leases (priority_leases L) c kind = count (image_mset le_priority L) (Some \<lparr>pl_class = c, pl_kind = kind\<rparr>)" for L kind
    by (induction L) (auto simp: priority_leases_def class_leases_def)
  have "waiting k r ws = (\<Sum>i \<in># image_mset waiter_id ws. count (mset (fst i)) (k, r))" for ws
    by (simp add: waiting_def waiter_id_def slots_key image_mset.compositionality comp_def)
  then have "waiting k r (waiters (rs_waiters (sy_state y))) = (\<Sum>i \<in># wids (sy_state y). count (mset (fst i)) (k, r))"
    by (simp add: wids_def)
  moreover have "prio_queued (rs_priority (sy_state y)) = size (pids (rs_priority (sy_state y)))"
    using inv size_pids by (simp add: adm_inv_def)
  ultimately have "que (sy_state y) k r = (\<Sum>t \<in># sy_tasks y. task_queued k r t)"
    using inv callers tasks_queued [of "sy_tasks y" k r] by (simp add: adm_inv_def callers_inv_def)
  then show ?thesis using inv by (simp add: adm_inv_def held_def active_agrees_def prio)
qed

theorem admission_conservation_witness:
  "act sample_queued Global Request = 1 \<and> que sample_queued Global Request = 1"
  using admission_conservation [OF sample_run_reachable(1) sample_config_ok, of Global Request]
  by (simp add: sample_lease_def global_request_def)

end
