(* ===== verification/Admission_Capacity.thy ===== *)
theory Admission_Capacity
  imports Admission_Counters
begin

text \<open>
  Limits and fairness of the admission runtime: no reachable state exceeds a limit or a queue bound, and a
  permit is granted only to the head of its lane, never past an older waiter that could run.
\<close>

section \<open>Capacity\<close>

definition shrinks :: "RuntimeState \<Rightarrow> RuntimeState \<Rightarrow> bool" where
  "shrinks s s' \<longleftrightarrow> lims s' = lims s \<and> (\<forall>k r. act s' k r \<le> act s k r \<and> que s' k r \<le> que s k r)"

lemma shrinks_trans: "shrinks s s' \<Longrightarrow> shrinks s' s'' \<Longrightarrow> shrinks s s''"
  unfolding shrinks_def by (metis order_trans)

lemma quiet_shrinks: "quiet s s' \<Longrightarrow> shrinks s s'"
  by (simp add: shrinks_def quiet_def frame_def)

lemma shrinks_refl [simp]: "shrinks s s"
  by (simp add: shrinks_def)

lemma shrinks_prio [simp]: "shrinks s (s'\<lparr>rs_priority := p\<rparr>) = shrinks s s'"
  by (simp add: shrinks_def)

lemma shrinks_remove_waiter: "remove_waiter t s = Some (s', w) \<Longrightarrow> shrinks s s'"
proof -
  assume "remove_waiter t s = Some (s', w)"
  then obtain lanes where s': "s' = fold sub_queued (w_allocations w) (s\<lparr>rs_waiters := lanes\<rparr>)"
    by (auto simp: remove_waiter_def split: option.splits)
  have "act (s\<lparr>rs_waiters := lanes\<rparr>) = act s" "que (s\<lparr>rs_waiters := lanes\<rparr>) = que s" "lims (s\<lparr>rs_waiters := lanes\<rparr>) = lims s"
    by (simp_all add: act_def que_def lims_def fun_eq_iff)
  then show ?thesis using sub_queued_fold [of "s\<lparr>rs_waiters := lanes\<rparr>" "w_allocations w"] by (simp add: s' shrinks_def frame_def)
qed

lemma shrinks_remove_priority: "remove_priority_waiter t s = Some (s', r) \<Longrightarrow> shrinks s s'"
proof -
  assume "remove_priority_waiter t s = Some (s', r)"
  then obtain p where "s' = fold sub_queued global_request (s\<lparr>rs_priority := p\<rparr>)"
    by (auto simp: remove_priority_waiter_def split: option.splits)
  then show ?thesis using sub_queued_fold [of "s\<lparr>rs_priority := p\<rparr>" global_request] by (simp add: shrinks_def frame_def)
qed

lemma shrinks_tickets:
  "shrinks s (drop_ticket t s)" "shrinks s (take_ticket now t s)" "shrinks s (drop_priority_ticket pt s)"
  "shrinks s (take_priority_ticket now c pt s)"
proof -
  have stats: "shrinks s' (s'\<lparr>rs_queue_waits := a, rs_queue_wait_ms := b\<rparr>)" for s' a b
    by (simp add: shrinks_def act_def que_def lims_def fun_eq_iff)
  show "shrinks s (drop_ticket t s)" "shrinks s (drop_priority_ticket pt s)" "shrinks s (take_priority_ticket now c pt s)"
    by (auto simp: drop_ticket_def drop_priority_ticket_def take_priority_ticket_def split: option.splits
        intro: shrinks_remove_waiter shrinks_remove_priority)
  show "shrinks s (take_ticket now t s)"
    using shrinks_trans [OF shrinks_remove_waiter stats] by (simp add: take_ticket_def split: option.splits)
qed

lemma shrinks_release: "shrinks s (release rnd now lease outcome s)"
proof -
  let ?d = "decrement_active (le_allocations lease) s"
  let ?s = "case le_priority lease of Some p \<Rightarrow> ?d\<lparr>rs_priority := priority_release (rs_priority ?d) p\<rparr> | None \<Rightarrow> ?d"
  have "shrinks s ?d" using decrement_active_counters [of s "le_allocations lease"] by (simp add: shrinks_def frame_def)
  then have "shrinks s ?s" by (simp split: option.splits)
  then show ?thesis
    using shrinks_trans [OF _ quiet_shrinks [OF quiet_abandon_circuits]] shrinks_trans [OF _ quiet_shrinks [OF quiet_finish_circuits]]
    by (simp add: release_def Let_def)
qed

text \<open>What a section may add: slots its check found free.\<close>

definition grows :: "RuntimeState \<Rightarrow> Allocation list \<Rightarrow> RuntimeState \<Rightarrow> bool" where
  "grows s allocations s' \<longleftrightarrow> lims s' = lims s \<and> (\<forall>k r.
     act s' k r \<le> act s k r + (if can_admit s allocations then slots k r allocations else 0) \<and> que s' k r \<le> que s k r)"

definition lengthens :: "RuntimeState \<Rightarrow> Allocation list \<Rightarrow> RuntimeState \<Rightarrow> bool" where
  "lengthens s allocations s' \<longleftrightarrow> lims s' = lims s \<and> (\<forall>k r.
     act s' k r \<le> act s k r \<and> que s' k r \<le> que s k r + (if can_queue s allocations then slots k r allocations else 0))"

lemma shrinks_grows: "shrinks s s' \<Longrightarrow> grows s allocations s'"
  by (auto simp: shrinks_def grows_def intro: trans_le_add1)

lemma shrinks_lengthens: "shrinks s s' \<Longrightarrow> lengthens s allocations s'"
  by (auto simp: shrinks_def lengthens_def intro: trans_le_add1)

lemma shrinks_increment:
  assumes "shrinks s s1" "can_admit s allocations"
  shows "grows s allocations (increment_active allocations s1)"
proof -
  have "list_all (\<lambda>a. lims s1 (al_scope a) \<noteq> None) allocations" using assms can_admit_scoped by (simp add: shrinks_def)
  from increment_active_counters [OF this] show ?thesis using assms by (simp add: grows_def shrinks_def frame_def)
qed

lemma admit_section_grows:
  assumes "admit_section enabled now allocations t s = (s', result)"
  shows "grows s allocations s'"
proof -
  have rejected: "grows s allocations s'" if "shrinks s s1" "circuit_rejected t d s1 = (s', r)" for s1 d r
  proof -
    have "s' = reject CircuitOpen (drop_ticket t s1)" using that(2) by (auto simp: circuit_rejected_def)
    then show ?thesis
      using shrinks_grows [OF shrinks_trans [OF that(1) shrinks_trans [OF shrinks_tickets(1) quiet_shrinks [OF quiet_stats(1)]]]] by simp
  qed
  have q: "shrinks s s1" if "circuit_admission s allocations now = (s1, r)" for s1 r
    using quiet_shrinks quiet_circuit_admission that by blast
  have grant: "grows s allocations (increment_active allocations (record_attempt allocations (take_ticket now t s1)))"
    if "can_admit s allocations" "circuit_admission s allocations now = (s1, r)" for s1 r
    using shrinks_increment [OF shrinks_trans [OF q [OF that(2)] shrinks_trans [OF shrinks_tickets(2) quiet_shrinks [OF quiet_stats(2)]]] that(1)] .
  show ?thesis
    using assms shrinks_grows [OF shrinks_tickets(1)] shrinks_grows [OF shrinks_refl] grant rejected [OF shrinks_refl] rejected [OF q]
    unfolding admit_section_def by (fastforce split: if_splits sum.splits prod.splits)
qed

lemma queue_section_lengthens:
  assumes "queue_section now allocations reason s = (s', result)"
  shows "lengthens s allocations s'"
proof (cases "can_queue s allocations")
  case False
  then show ?thesis using assms quiet_shrinks [OF quiet_stats(1)] shrinks_lengthens by (auto simp: queue_section_def Let_def)
next
  case True
  let ?s = "s\<lparr>rs_next_waiter := next_id (rs_next_waiter s)\<rparr>"
  have same: "act ?s = act s" "que ?s = que s" "lims ?s = lims s" by (simp_all add: act_def que_def lims_def fun_eq_iff)
  have "list_all (\<lambda>a. lims ?s (al_scope a) \<noteq> None) allocations" using can_queue_scoped [OF True] same by simp
  note add = add_queued_fold [OF this]
  have upd: "act (t\<lparr>rs_waiters := lanes\<rparr>) = act t" "que (t\<lparr>rs_waiters := lanes\<rparr>) = que t" "lims (t\<lparr>rs_waiters := lanes\<rparr>) = lims t" for t lanes
    by (simp_all add: act_def que_def lims_def fun_eq_iff)
  show ?thesis using assms True add same by (auto simp: queue_section_def enqueue_def Let_def lengthens_def upd frame_def)
qed

lemma priority_section_grows:
  assumes "priority_section enabled now c eligible t s = (s', outcome)"
  shows "grows s global_request s'"
proof -
  have grant: "grows s global_request (increment_active global_request (take_priority_ticket now c t s)\<lparr>rs_priority := p\<rparr>)"
    if "rs_scopes s Global = Some global"
      "priority_can_admit (rs_priority s) c eligible (ss_active global Request) (rl_active (ss_limits global Request)) = Some kind" for global kind p
  proof -
    have "can_admit s global_request"
      using that by (auto simp: can_admit_def global_request_def effective_limit_def priority_can_admit_def split: if_splits)
    from shrinks_increment [OF shrinks_tickets(4) this] show ?thesis by (simp add: grows_def)
  qed
  show ?thesis
    using assms shrinks_grows [OF shrinks_tickets(3)] shrinks_grows [OF shrinks_refl] grant
    by (auto simp: priority_section_def Let_def case_prod_unfold split: if_splits option.splits)
qed

lemma priority_queue_section_lengthens:
  assumes "priority_queue_section now c eligible s = (s', outcome)"
  shows "lengthens s global_request s'"
proof -
  have rejected: "lengthens s global_request (reject reason (s\<lparr>rs_priority := p\<rparr>))" for reason p
    by (rule shrinks_lengthens, rule shrinks_trans [OF _ quiet_shrinks [OF quiet_stats(1)]]) simp
  have queued: "lengthens s global_request (update_scope (\<lambda>scope. scope\<lparr>ss_queued := (ss_queued scope)(Request :=
      usize_saturating_add (ss_queued scope Request) 1)\<rparr>) Global (s\<lparr>rs_priority := p\<rparr>))" if "can_queue s global_request" for p
    using that by (auto simp: lengthens_def update_scope_def global_request_def act_def que_def lims_def fun_eq_iff usize_saturating_add_def
        split: option.splits)
  have "rs_scopes s Global \<noteq> None" if "can_queue s global_request"
    using that by (auto simp: can_queue_def global_request_def split: option.splits)
  then show ?thesis using assms rejected queued shrinks_lengthens [OF shrinks_refl]
    by (auto simp: priority_queue_section_def Let_def case_prod_unfold split: if_splits option.splits)
qed

subsection \<open>The allocations of a caller\<close>

definition request_ok :: "Allocation list \<Rightarrow> bool" where
  "request_ok allocations \<longleftrightarrow> (\<forall>k r. slots k r allocations \<le> 1) \<and>
     (\<forall>a \<in> set allocations. al_resource a \<noteq> Retry \<longrightarrow> al_limit a = None)"

lemma merge_allocation_slots:
  "slots k r (merge_allocation as a) =
     (if slots (al_scope a) (al_resource a) as = 0 then slots k r as + slots k r [a] else slots k r as)"
  by (induction as) (auto simp: same_slot_def)

lemma merge_allocation_ok:
  assumes "request_ok as" "al_resource a \<noteq> Retry \<longrightarrow> al_limit a = None"
  shows "request_ok (merge_allocation as a)"
proof -
  have "al_resource b \<noteq> Retry \<longrightarrow> al_limit b = None"
    if "b \<in> set (merge_allocation as a)" "\<forall>a \<in> set as. al_resource a \<noteq> Retry \<longrightarrow> al_limit a = None" for b
    using that assms(2) by (induction as) (auto simp: same_slot_def split: if_splits)
  then show ?thesis using assms(1) by (auto simp: request_ok_def merge_allocation_slots)
qed

lemma deduplicate_ok:
  assumes "\<forall>a \<in> set allocations. al_resource a \<noteq> Retry \<longrightarrow> al_limit a = None"
  shows "request_ok (deduplicate_allocations allocations)"
proof -
  have "request_ok as \<Longrightarrow> request_ok (foldl merge_allocation as allocations)" for as
    using assms by (induction allocations arbitrary: as) (auto simp: merge_allocation_ok)
  from this [of "[]"] show ?thesis by (simp add: deduplicate_allocations_def request_ok_def)
qed

lemma issued_ok: "issued rnd s allocations reason \<Longrightarrow> request_ok (deduplicate_allocations allocations)"
  by (rule deduplicate_ok) (auto simp: issued_def scoped_allocations_def retry_allocations_def global_request_def split: option.splits)

lemma global_request_ok: "request_ok global_request" "request_ok (deduplicate_allocations global_request)"
  by (simp_all add: request_ok_def global_request_def deduplicate_allocations_def)

section \<open>Capacity of reachable states\<close>

fun task_ok :: "Task \<Rightarrow> bool" where
  "task_ok (Admitting allocations _ _) \<longleftrightarrow> request_ok allocations"
| "task_ok (Queueing allocations _) \<longleftrightarrow> request_ok allocations"
| "task_ok _ \<longleftrightarrow> True"

definition within_limits :: "RuntimeState \<Rightarrow> bool" where
  "within_limits s \<longleftrightarrow> (\<forall>k l r. lims s k = Some l \<longrightarrow> r \<noteq> Retry \<longrightarrow>
     act s k r \<le> rl_active (l r) \<and> que s k r \<le> rl_queue (l r))"

lemma within_shrinks: "shrinks s s' \<Longrightarrow> within_limits s \<Longrightarrow> within_limits s'"
  unfolding shrinks_def within_limits_def by (metis order_trans)

lemma request_slot:
  assumes "request_ok allocations" "slots k r allocations \<noteq> 0" "r \<noteq> Retry"
  obtains a where "a \<in> set allocations" "al_scope a = k" "al_resource a = r" "al_limit a = None" "slots k r allocations = 1"
proof -
  have "filter (\<lambda>a. al_scope a = k \<and> al_resource a = r) allocations \<noteq> []" using assms(2) by (auto simp: slots_def)
  then obtain a where "a \<in> set allocations" "al_scope a = k" "al_resource a = r" by (auto simp: filter_empty_conv)
  moreover have "slots k r allocations = 1" using assms(1,2) by (metis le_antisym less_one not_le request_ok_def)
  ultimately show ?thesis using that assms by (auto simp: request_ok_def)
qed

lemma can_admit_slot:
  "can_admit s as \<Longrightarrow> a \<in> set as \<Longrightarrow> al_limit a = None \<Longrightarrow> lims s (al_scope a) = Some l \<Longrightarrow>
   act s (al_scope a) (al_resource a) < rl_active (l (al_resource a))"
  by (auto simp: can_admit_lims list_all_iff unwrap_or_def dest!: bspec)

lemma can_queue_slot:
  "can_queue s as \<Longrightarrow> a \<in> set as \<Longrightarrow> al_limit a = None \<Longrightarrow> lims s (al_scope a) = Some l \<Longrightarrow>
   que s (al_scope a) (al_resource a) < rl_queue (l (al_resource a))"
  by (auto simp: can_queue_lims list_all_iff unwrap_or_def dest!: bspec)

lemma within_grows:
  assumes "grows s allocations s'" "request_ok allocations" "within_limits s"
  shows "within_limits s'"
  unfolding within_limits_def
proof (intro allI impI conjI)
  fix k l r assume l: "lims s' k = Some l" and r: "r \<noteq> Retry"
  have l': "lims s k = Some l" using assms(1) l by (simp add: grows_def)
  then have old: "act s k r \<le> rl_active (l r)" "que s k r \<le> rl_queue (l r)" using assms(3) r by (auto simp: within_limits_def)
  have "que s' k r \<le> que s k r" using assms(1) by (simp add: grows_def)
  then show "que s' k r \<le> rl_queue (l r)" using old(2) by simp
  have new: "act s' k r \<le> act s k r + (if can_admit s allocations then slots k r allocations else 0)" using assms(1) by (simp add: grows_def)
  show "act s' k r \<le> rl_active (l r)"
  proof (cases "can_admit s allocations \<and> slots k r allocations \<noteq> 0")
    case False
    then show ?thesis using new old(1) by (auto split: if_splits)
  next
    case True
    with request_slot [OF assms(2) _ r] obtain a where "a \<in> set allocations" "al_scope a = k" "al_resource a = r" "al_limit a = None"
      "slots k r allocations = 1" by metis
    then show ?thesis using True new l' can_admit_slot by fastforce
  qed
qed

lemma within_lengthens:
  assumes "lengthens s allocations s'" "request_ok allocations" "within_limits s"
  shows "within_limits s'"
  unfolding within_limits_def
proof (intro allI impI conjI)
  fix k l r assume l: "lims s' k = Some l" and r: "r \<noteq> Retry"
  have l': "lims s k = Some l" using assms(1) l by (simp add: lengthens_def)
  then have old: "act s k r \<le> rl_active (l r)" "que s k r \<le> rl_queue (l r)" using assms(3) r by (auto simp: within_limits_def)
  have "act s' k r \<le> act s k r" using assms(1) by (simp add: lengthens_def)
  then show "act s' k r \<le> rl_active (l r)" using old(1) by simp
  have new: "que s' k r \<le> que s k r + (if can_queue s allocations then slots k r allocations else 0)" using assms(1) by (simp add: lengthens_def)
  show "que s' k r \<le> rl_queue (l r)"
  proof (cases "can_queue s allocations \<and> slots k r allocations \<noteq> 0")
    case False
    then show ?thesis using new old(2) by (auto split: if_splits)
  next
    case True
    with request_slot [OF assms(2) _ r] obtain a where "a \<in> set allocations" "al_scope a = k" "al_resource a = r" "al_limit a = None"
      "slots k r allocations = 1" by metis
    then show ?thesis using True new l' can_queue_slot by fastforce
  qed
qed

definition cap_inv :: "RuntimeConfig \<Rightarrow> System \<Rightarrow> bool" where
  "cap_inv config y \<longleftrightarrow> within_limits (sy_state y) \<and> lims (sy_state y) = (\<lambda>k. map_option ss_limits (rc_scopes config k)) \<and>
     (\<forall>t \<in># sy_tasks y. task_ok t)"

lemma cap_inv_shrinks: "cap_inv config y \<Longrightarrow> shrinks (sy_state y) s' \<Longrightarrow> within_limits s' \<and> lims s' = lims (sy_state y)"
  by (auto simp: cap_inv_def intro: within_shrinks) (simp add: shrinks_def)

lemma shrinks_timeouts:
  "shrinks s (fst (timeout_rejection reason (drop_ticket t s)))"
  "shrinks s (fst (priority_timeout_rejection c (drop_priority_ticket pt s)))"
proof -
  show "shrinks s (fst (timeout_rejection reason (drop_ticket t s)))"
    using shrinks_trans [OF shrinks_tickets(1) quiet_shrinks [OF quiet_stats(1)]] by (simp add: timeout_rejection_def Let_def)
  have "shrinks s (drop_priority_ticket pt s\<lparr>rs_priority := p\<rparr>)" for p using shrinks_tickets(3) by simp
  from shrinks_trans [OF this quiet_shrinks [OF quiet_stats(1)]]
  show "shrinks s (fst (priority_timeout_rejection c (drop_priority_ticket pt s)))" by (simp add: priority_timeout_rejection_def)
qed

lemma adm_step_capacity:
  assumes "adm_step rnd False y y'" "cap_inv config y"
  shows "cap_inv config y'"
  using assms(1)
proof cases
  case (arrives allocations reason)
  then show ?thesis using assms(2) issued_ok by (auto simp: cap_inv_def)
next
  case (decided allocations reason ticket tasks enabled now s' result)
  note g = admit_section_grows [OF decided(3)]
  with assms(2) within_grows [OF g] show ?thesis by (simp add: cap_inv_def decided(1,2) grows_def)
next
  case (undecided allocations reason ticket tasks enabled now s')
  note g = admit_section_grows [OF undecided(3)]
  with assms(2) within_grows [OF g] show ?thesis by (cases ticket) (simp_all add: cap_inv_def undecided(1,2) grows_def)
next
  case (queued allocations reason tasks now s' ticket)
  note g = queue_section_lengthens [OF queued(3)]
  with assms(2) within_lengthens [OF g] show ?thesis by (simp add: cap_inv_def queued(1,2) lengthens_def)
next
  case (not_queued allocations reason tasks now s' rejection)
  note g = queue_section_lengthens [OF not_queued(3)]
  with assms(2) within_lengthens [OF g] show ?thesis by (simp add: cap_inv_def not_queued(1,2) lengthens_def)
next
  case (priority_decided c eligible ticket tasks enabled now s' result)
  note g = priority_section_grows [OF priority_decided(3)]
  with assms(2) within_grows [OF g global_request_ok(1)] show ?thesis by (simp add: cap_inv_def priority_decided(1,2) grows_def)
next
  case (priority_falls_back c eligible ticket tasks enabled now s')
  note g = priority_section_grows [OF priority_falls_back(3)]
  with assms(2) within_grows [OF g global_request_ok(1)] show ?thesis
    by (simp add: cap_inv_def priority_falls_back(1,2) grows_def global_request_ok)
next
  case (priority_undecided c eligible ticket tasks enabled now s')
  note g = priority_section_grows [OF priority_undecided(3)]
  with assms(2) within_grows [OF g global_request_ok(1)] show ?thesis
    by (cases ticket) (simp_all add: cap_inv_def priority_undecided(1,2) grows_def)
next
  case (priority_queued c eligible tasks now s' ticket)
  note g = priority_queue_section_lengthens [OF priority_queued(3)]
  with assms(2) within_lengthens [OF g global_request_ok(1)] show ?thesis by (simp add: cap_inv_def priority_queued(1,2) lengthens_def)
next
  case (priority_not_queued c eligible tasks now s' rejection)
  note g = priority_queue_section_lengthens [OF priority_not_queued(3)]
  with assms(2) within_lengthens [OF g global_request_ok(1)] show ?thesis by (simp add: cap_inv_def priority_not_queued(1,2) lengthens_def)
next
  case (priority_queue_falls_back c eligible tasks now s')
  note g = priority_queue_section_lengthens [OF priority_queue_falls_back(3)]
  with assms(2) within_lengthens [OF g global_request_ok(1)] show ?thesis
    by (simp add: cap_inv_def priority_queue_falls_back(1,2) lengthens_def global_request_ok)
next
  case (times_out allocations reason ticket tasks)
  then show ?thesis using assms(2) cap_inv_shrinks [OF assms(2) shrinks_timeouts(1)] by (simp add: cap_inv_def)
next
  case (cancelled allocations reason ticket tasks)
  then show ?thesis using assms(2) cap_inv_shrinks [OF assms(2) shrinks_tickets(1)] by (simp add: cap_inv_def)
next
  case (priority_times_out c eligible ticket tasks)
  then show ?thesis using assms(2) cap_inv_shrinks [OF assms(2) shrinks_timeouts(2)] by (simp add: cap_inv_def)
next
  case (priority_cancelled c eligible ticket tasks)
  then show ?thesis using assms(2) cap_inv_shrinks [OF assms(2) shrinks_tickets(3)] by (simp add: cap_inv_def)
next
  case (released lease leases now outcome)
  then show ?thesis using assms(2) cap_inv_shrinks [OF assms(2) shrinks_release] by (simp add: cap_inv_def)
qed (use assms(2) in \<open>simp_all add: cap_inv_def\<close>)

lemma adm_reachable_capacity:
  assumes "adm_reachable rnd False config y" "config_ok config"
  shows "cap_inv config y"
  using assms(1)
proof induction
  case adm_init
  show ?case using assms(2)
    by (auto simp: cap_inv_def within_limits_def runtime_from_config_def lims_def act_def que_def config_ok_def split: option.splits)
qed (rule adm_step_capacity)

text \<open>
  C6.  Capacity.  Between reloads, whatever callers arrive, wait, give up and release in whatever order, no scope
  ever has more active slots of a resource than its configured limit, and never more waiting slots than its
  configured queue (retries apart, whose limit is computed per request).
\<close>

theorem admission_capacity:
  assumes "adm_reachable rnd False config y" "config_ok config" "rc_scopes config k = Some scope" "r \<noteq> Retry"
  shows "act (sy_state y) k r \<le> rl_active (ss_limits scope r) \<and> que (sy_state y) k r \<le> rl_queue (ss_limits scope r)"
  using adm_reachable_capacity [OF assms(1,2)] assms(3,4) by (simp add: cap_inv_def within_limits_def)

theorem admission_capacity_witness:
  "act sample_queued Global Request \<le> 1 \<and> que sample_queued Global Request \<le> 2"
  using admission_capacity [OF sample_run_reachable(1) sample_config_ok, of Global _ Request]
  by (simp add: sample_runtime_def scope_new_def)

section \<open>Fairness\<close>

lemma min_by_key_Some: "min_by_key f xs = Some m \<Longrightarrow> m \<in> set xs \<and> (\<forall>x \<in> set xs. f m \<le> f x)"
proof (induction xs arbitrary: m)
  case (Cons a xs)
  show ?case
  proof (cases "min_by_key f xs")
    case None
    then show ?thesis using Cons.prems by (cases xs) (auto split: option.splits if_splits)
  next
    case (Some y)
    with Cons.IH [OF Some] Cons.prems show ?thesis by (cases "f y < f a") (auto intro: less_imp_le order_trans)
  qed
qed simp

lemma min_by_key_None: "min_by_key f xs = None \<longleftrightarrow> xs = []"
  by (cases xs) (auto split: option.splits)

text \<open>The heads of the lanes that compete with a request, and whether a waiter could run now.\<close>

definition overlapping_heads :: "AdmissionQueues \<Rightarrow> QueueKey \<Rightarrow> Waiter set" where
  "overlapping_heads lanes k = {w. \<exists>k' rest. lane_of lanes k' = w # rest \<and> key_overlaps k k'}"

definition runnable :: "RuntimeState \<Rightarrow> instant \<Rightarrow> Waiter \<Rightarrow> bool" where
  "runnable s now w \<longleftrightarrow> circuit_available s (w_allocations w) now = Inr () \<and> can_admit s (w_allocations w)"

lemma heads_listed:
  assumes "lanes_inv lanes"
  shows "set (concat (map (\<lambda>(_, lane). take 1 lane) (filter (\<lambda>(k', _). key_overlaps k k') lanes))) = overlapping_heads lanes k"
proof -
  have d: "distinct (map fst lanes)" using assms by (simp add: lanes_inv_def)
  have "(k', w # rest) \<in> set lanes \<longleftrightarrow> lane_of lanes k' = w # rest" for k' w rest
    unfolding map_of_eq_Some_iff [OF d, symmetric] by (auto simp: lane_of_def split: option.splits)
  note lane = this
  show ?thesis
  proof (intro set_eqI iffI)
    fix w assume "w \<in> set (concat (map (\<lambda>(_, lane). take 1 lane) (filter (\<lambda>(k', _). key_overlaps k k') lanes)))"
    then obtain k' l where "(k', l) \<in> set lanes" "key_overlaps k k'" "w \<in> set (take 1 l)" by auto
    moreover then obtain rest where "l = w # rest" by (cases l) auto
    ultimately show "w \<in> overlapping_heads lanes k" using lane by (auto simp: overlapping_heads_def)
  next
    fix w assume "w \<in> overlapping_heads lanes k"
    then obtain k' rest where "(k', w # rest) \<in> set lanes" "key_overlaps k k'" using lane by (auto simp: overlapping_heads_def)
    then show "w \<in> set (concat (map (\<lambda>(_, lane). take 1 lane) (filter (\<lambda>(k', _). key_overlaps k k') lanes)))" by force
  qed
qed

lemma selected_oldest:
  assumes "lanes_inv (rs_waiters s)" "selected_for_caller s now allocations ticket"
  shows "case ticket of
      None \<Rightarrow> \<forall>w \<in> overlapping_heads (rs_waiters s) (from_allocations allocations). \<not> runnable s now w
    | Some t \<Rightarrow> \<exists>m \<in> overlapping_heads (rs_waiters s) (from_allocations allocations). w_id m = wt_id t \<and>
        (\<forall>w \<in> overlapping_heads (rs_waiters s) (from_allocations allocations).
           runnable s now w \<longrightarrow> (w_queued_at m, w_id m) \<le> (w_queued_at w, w_id w))"
proof -
  let ?heads = "overlapping_heads (rs_waiters s) (from_allocations allocations)"
  define xs where "xs = filter (\<lambda>w. runnable s now w) (concat (map (\<lambda>(_, lane). take 1 lane)
    (filter (\<lambda>(k', _). key_overlaps (from_allocations allocations) k') (rs_waiters s))))"
  have set: "set xs = {w \<in> ?heads. runnable s now w}" using heads_listed [OF assms(1)] by (auto simp: xs_def)
  have sel: "case ticket of None \<Rightarrow> map_option w_id (min_by_key (\<lambda>w. (w_queued_at w, w_id w)) xs) = None
      | Some t \<Rightarrow> map_option w_id (min_by_key (\<lambda>w. (w_queued_at w, w_id w)) xs) = Some (wt_id t)"
    using assms(2) by (simp add: selected_for_caller_def oldest_admissible_overlap_def xs_def runnable_def Let_def split: option.splits)
  show ?thesis
  proof (cases ticket)
    case None
    then have "xs = []" using sel by (simp add: min_by_key_None)
    then show ?thesis using set None by auto
  next
    case (Some t)
    then obtain m where m: "min_by_key (\<lambda>w. (w_queued_at w, w_id w)) xs = Some m" "w_id m = wt_id t" using sel by auto
    from min_by_key_Some [OF m(1)] m(2) set Some show ?thesis by fastforce
  qed
qed

lemma admit_section_granted:
  assumes "admit_section True now allocations ticket s = (s', Some (Inr lease))"
  shows "selected_for_caller s now allocations ticket"
    "case ticket of None \<Rightarrow> queues_is_empty (rs_waiters s) (from_allocations allocations) | Some t \<Rightarrow> is_head (rs_waiters s) t"
    "\<exists>s1. rs_waiters s1 = rs_waiters s \<and> rs_waiters s' = rs_waiters (take_ticket now ticket s1)"
proof -
  show "selected_for_caller s now allocations ticket"
    "case ticket of None \<Rightarrow> queues_is_empty (rs_waiters s) (from_allocations allocations) | Some t \<Rightarrow> is_head (rs_waiters s) t"
    using assms by (auto simp: admit_section_def circuit_rejected_def split: if_splits sum.splits prod.splits option.splits)
  obtain s1 probes where c: "circuit_admission s allocations now = (s1, Inr probes)" and can: "can_admit s allocations"
      and s': "s' = increment_active allocations (record_attempt allocations (take_ticket now ticket s1))"
    using assms by (auto simp: admit_section_def circuit_rejected_def split: if_splits sum.splits prod.splits)
  have q: "quiet s s1" using c by (rule quiet_circuit_admission)
  let ?s = "record_attempt allocations (take_ticket now ticket s1)"
  have "lims ?s = lims s" using quiet_stats(2) [of "take_ticket now ticket s1" allocations] q
    by (simp add: quiet_def frame_def take_ticket_lims)
  then have "frame ?s (increment_active allocations ?s)" using increment_active_counters can_admit_scoped [OF can] by simp
  then have "rs_waiters s' = rs_waiters (take_ticket now ticket s1)"
    using quiet_ids [OF quiet_stats(2) [of "take_ticket now ticket s1" allocations]] by (simp add: s' frame_def)
  then show "\<exists>s1. rs_waiters s1 = rs_waiters s \<and> rs_waiters s' = rs_waiters (take_ticket now ticket s1)"
    using quiet_ids [OF q] by auto
qed

lemma take_head:
  assumes inv: "lanes_inv (rs_waiters s)" and lane: "lane_of (rs_waiters s) (wt_key t) = w # rest" and w: "w_id w = wt_id t"
  shows "lane_of (rs_waiters (take_ticket now (Some t) s)) k = (if k = wt_key t then rest else lane_of (rs_waiters s) k)"
proof -
  have "map_of (rs_waiters s) (wt_key t) = Some (w # rest)" using lane by (auto simp: lane_of_def split: option.splits)
  then obtain lanes v where rem: "queues_remove (rs_waiters s) t = Some (lanes, v)" using w by (simp add: queues_remove_def Let_def)
  have "rs_waiters (take_ticket now (Some t) s) = lanes"
    using rem sub_queued_fold [of "s\<lparr>rs_waiters := lanes\<rparr>" "w_allocations v"] by (simp add: take_ticket_def remove_waiter_def frame_def)
  then show ?thesis using queues_remove_Some(4) [OF inv rem] lane w by (auto simp: remove_nth_def)
qed

text \<open>
  C7.  Nobody is overtaken.  A caller without a ticket is admitted only when its own lane is empty and no waiter at the
  head of a competing lane could run.  A caller with a ticket is admitted only from the head of its lane,
  which then loses exactly that head, and only when no runnable head of a competing lane is older.  (Ids
  of waiters are distinct as long as fewer than \<open>2 ^ 64\<close> callers were ever queued.)
\<close>

theorem admission_fair:
  assumes "adm_reachable rnd reload config y" "config_ok config"
    "admit_section True now allocations ticket (sy_state y) = (s', Some (Inr lease))"
    "inj_on w_id (set_mset (waiters (rs_waiters (sy_state y))))"
  shows "case ticket of
      None \<Rightarrow> lane_of (rs_waiters (sy_state y)) (from_allocations allocations) = [] \<and> rs_waiters s' = rs_waiters (sy_state y) \<and>
        (\<forall>w \<in> overlapping_heads (rs_waiters (sy_state y)) (from_allocations allocations). \<not> runnable (sy_state y) now w)
    | Some t \<Rightarrow> \<exists>w rest. lane_of (rs_waiters (sy_state y)) (wt_key t) = w # rest \<and> w_id w = wt_id t \<and>
        (\<forall>k. lane_of (rs_waiters s') k = (if k = wt_key t then rest else lane_of (rs_waiters (sy_state y)) k)) \<and>
        (\<forall>v \<in> overlapping_heads (rs_waiters (sy_state y)) (from_allocations allocations).
           runnable (sy_state y) now v \<longrightarrow> (w_queued_at w, w_id w) \<le> (w_queued_at v, w_id v))"
proof -
  let ?s = "sy_state y"
  have inv: "lanes_inv (rs_waiters ?s)" using adm_reachable_inv [OF assms(1,2)] by (simp add: adm_inv_def)
  note granted = admit_section_granted [OF assms(3)]
  note oldest = selected_oldest [OF inv granted(1)]
  obtain s1 where s1: "rs_waiters s1 = rs_waiters ?s" "rs_waiters s' = rs_waiters (take_ticket now ticket s1)" using granted(3) by blast
  have member: "w \<in># waiters (rs_waiters ?s)" if "w \<in> set (lane_of (rs_waiters ?s) k)" for w k
  proof -
    from that obtain lane where "map_of (rs_waiters ?s) k = Some lane" "w \<in> set lane"
      by (cases "map_of (rs_waiters ?s) k") (auto simp: lane_of_def)
    then show ?thesis using map_of_SomeD by (force simp: waiters_def)
  qed
  show ?thesis
  proof (cases ticket)
    case None
    then show ?thesis using granted(2) s1 oldest by (simp add: queues_is_empty_def lane_of_def take_ticket_def split: option.splits)
  next
    case (Some t)
    then obtain w rest where w: "lane_of (rs_waiters ?s) (wt_key t) = w # rest" "w_id w = wt_id t"
      using granted(2) by (auto simp: is_head_def lane_of_def split: option.splits list.splits)
    from oldest Some obtain m where m: "m \<in> overlapping_heads (rs_waiters ?s) (from_allocations allocations)" "w_id m = wt_id t"
      "\<forall>v \<in> overlapping_heads (rs_waiters ?s) (from_allocations allocations).
         runnable ?s now v \<longrightarrow> (w_queued_at m, w_id m) \<le> (w_queued_at v, w_id v)" by auto
    obtain k rest' where "lane_of (rs_waiters ?s) k = m # rest'" using m(1) by (auto simp: overlapping_heads_def)
    then have "m \<in># waiters (rs_waiters ?s)" using member [of m k] by simp
    moreover have "w \<in># waiters (rs_waiters ?s)" using w(1) member [of w "wt_key t"] by simp
    ultimately have "m = w" using assms(4) m(2) w(2) by (simp add: inj_on_def)
    then show ?thesis using Some w m(3) take_head [of s1 t w rest now] s1 inv by simp
  qed
qed

definition sample_admitted :: RuntimeState where
  "sample_admitted = fst (admit_section True 7 global_request (Some sample_ticket) sample_released)"

lemma sample_lanes:
  "rs_waiters sample_released = [([(Global, Request)], [\<lparr>w_id = 1, w_allocations = global_request, w_queued_at = 5\<rparr>])]"
  unfolding sample_released_def sample_queued_def sample_granted_def by (simp add: sample_run_simps Let_def)

lemma sample_free: "can_admit sample_released global_request"
  unfolding sample_released_def sample_queued_def sample_granted_def by (simp add: sample_run_simps Let_def)

lemma sample_circuits:
  "circuit_available sample_released global_request now = Inr ()" "circuit_admission sample_released global_request now = (sample_released, Inr [])"
  by (simp_all add: circuit_available_def circuit_admission_def circuit_scopes_def upstream_scopes_def global_request_def)

lemma sample_turn:
  "admit_section True 7 global_request (Some sample_ticket) sample_released = (sample_admitted, Some (Inr sample_lease))"
proof -
  have "is_head (rs_waiters sample_released) sample_ticket" by (simp add: is_head_def sample_lanes sample_ticket_def)
  moreover have "selected_for_caller sample_released 7 global_request (Some sample_ticket)"
    by (simp add: selected_for_caller_def oldest_admissible_overlap_def sample_lanes sample_key sample_free sample_circuits key_overlaps_def
        sample_ticket_def)
  ultimately show ?thesis
    by (simp add: sample_admitted_def admit_section_def sample_free sample_circuits sample_lease_def)
qed

theorem admission_fair_witness:
  "lane_of (rs_waiters sample_released) [(Global, Request)] \<noteq> [] \<and> lane_of (rs_waiters sample_admitted) [(Global, Request)] = []"
proof -
  have "inj_on w_id (set_mset (waiters (rs_waiters sample_released)))" by (simp add: sample_lanes waiters_def)
  then show ?thesis
    using admission_fair [OF sample_run_reachable(2) sample_config_ok, of 7 global_request "Some sample_ticket" sample_admitted sample_lease] sample_turn
    by (simp add: sample_lanes lane_of_def sample_ticket_def)
qed

end
