(* ===== verification/Breaker_Budget.thy ===== *)
theory Breaker_Budget
  imports Admission_Capacity
begin

text \<open>
  The capacities the admission runtime starts from: automatic limits derived from the resources of the
  process (\<open>src/circuit_breakers/resources.rs\<close>), the scopes and the retry budget resolved from the
  configuration (\<open>configuration.rs\<close>), the validation of the whole section
  (\<open>crates/oxibelt-admission-policy/src/circuit_breakers.rs\<close>) and the budget of the direct HTTP/1 transport.
  What the operating system reports is an argument; \<open>cpu\<close> is a finite number, as \<open>discover\<close> clamps it.  The lemmas
  show that resolved scopes are what the admission theorems ask for, that the search for the largest
  waiter capacity is exact, and that two fleets of the transport fit the memory of the process.
\<close>

section \<open>Automatic limits\<close>

abbreviation (input) U64_MAX :: nat where "U64_MAX \<equiv> 2 ^ 64 - 1"

definition u64_saturating_mul :: "nat \<Rightarrow> nat \<Rightarrow> nat" where
  "u64_saturating_mul a b = min U64_MAX (a * b)"

definition div_ceil :: "nat \<Rightarrow> nat \<Rightarrow> nat" where
  "div_ceil a b = (if a mod b > 0 then a div b + 1 else a div b)"

abbreviation (input) MAX_COMPIO_DIRECT_H1_WORKERS :: nat where "MAX_COMPIO_DIRECT_H1_WORKERS \<equiv> 256"
abbreviation (input) MAX_COMPIO_DIRECT_H1_QUEUE_ENTRIES :: nat where "MAX_COMPIO_DIRECT_H1_QUEUE_ENTRIES \<equiv> 4096"
abbreviation (input) MAX_COMPIO_DIRECT_H1_CONNECTIONS :: nat where "MAX_COMPIO_DIRECT_H1_CONNECTIONS \<equiv> 4096"
abbreviation (input) COMPIO_DIRECT_H1_WORKER_MEMORY_RESERVATION_BYTES :: nat where
  "COMPIO_DIRECT_H1_WORKER_MEMORY_RESERVATION_BYTES \<equiv> 8 * 1024 * 1024"
abbreviation (input) COMPIO_DIRECT_H1_QUEUE_ENTRY_MEMORY_BYTES :: nat where "COMPIO_DIRECT_H1_QUEUE_ENTRY_MEMORY_BYTES \<equiv> 64 * 1024"
abbreviation (input) COMPIO_DIRECT_H1_CONNECTION_MEMORY_BYTES :: nat where "COMPIO_DIRECT_H1_CONNECTION_MEMORY_BYTES \<equiv> 32 * 1024"
abbreviation (input) COMPIO_DIRECT_H1_MAX_OVERLAPPING_FLEETS :: nat where "COMPIO_DIRECT_H1_MAX_OVERLAPPING_FLEETS \<equiv> 2"
abbreviation (input) COMPIO_DIRECT_H1_WORKER_MEMORY_PARTITION :: nat where "COMPIO_DIRECT_H1_WORKER_MEMORY_PARTITION \<equiv> 2"
abbreviation (input) COMPIO_DIRECT_H1_QUEUE_MEMORY_PARTITION :: nat where "COMPIO_DIRECT_H1_QUEUE_MEMORY_PARTITION \<equiv> 8"
abbreviation (input) COMPIO_DIRECT_H1_CONNECTION_MEMORY_PARTITION :: nat where "COMPIO_DIRECT_H1_CONNECTION_MEMORY_PARTITION \<equiv> 4"

record RuntimeResources =
  rr_cpu :: rat
  rr_memory_bytes :: nat
  rr_usable_file_descriptors :: nat
  rr_buffering_bytes :: nat
  rr_decoded_body_bytes :: nat

datatype AutoScope = AutoGlobal | AutoRoute | AutoPool

definition clamp_ceil :: "rat \<Rightarrow> nat \<Rightarrow> nat \<Rightarrow> nat" where
  "clamp_ceil v lo hi = min hi (max lo (nat \<lceil>v\<rceil>))"

definition active_requests :: "(rat \<Rightarrow> rat) \<Rightarrow> RuntimeResources \<Rightarrow> AutoScope \<Rightarrow> nat \<Rightarrow> nat" where
  "active_requests rnd r scope global =
     (case scope of
        AutoGlobal \<Rightarrow>
          let cpu_bound = clamp_ceil (rnd (256 * rr_cpu r)) 64 8192;
              memory_bound = max (rr_memory_bytes r div u64_saturating_mul (rr_buffering_bytes r) 8) 32
          in min cpu_bound memory_bound
      | _ \<Rightarrow> min global (clamp_ceil (rnd (128 * rr_cpu r)) 32 4096))"

definition pending_requests :: "(rat \<Rightarrow> rat) \<Rightarrow> RuntimeResources \<Rightarrow> AutoScope \<Rightarrow> nat \<Rightarrow> nat" where
  "pending_requests rnd r scope global =
     (case scope of
        AutoGlobal \<Rightarrow>
          let cpu_bound = clamp_ceil (rnd (32 * rr_cpu r)) 8 1024;
              memory_bound = max (rr_memory_bytes r div u64_saturating_mul (rr_buffering_bytes r) 32) 4
          in min cpu_bound memory_bound
      | _ \<Rightarrow> min global (clamp_ceil (rnd (16 * rr_cpu r)) 4 256))"

definition auto_connections :: "(rat \<Rightarrow> rat) \<Rightarrow> RuntimeResources \<Rightarrow> AutoScope \<Rightarrow> nat \<Rightarrow> nat" where
  "auto_connections rnd r scope global =
     (case scope of
        AutoGlobal \<Rightarrow> min (clamp_ceil (rnd (64 * rr_cpu r)) 16 2048) (rr_usable_file_descriptors r div 4)
      | _ \<Rightarrow> min global (clamp_ceil (rnd (16 * rr_cpu r)) 4 512))"

definition auto_streams :: "(rat \<Rightarrow> rat) \<Rightarrow> RuntimeResources \<Rightarrow> AutoScope \<Rightarrow> nat \<Rightarrow> nat \<Rightarrow> nat" where
  "auto_streams rnd r scope global_active global =
     (case scope of
        AutoGlobal \<Rightarrow> min global_active (clamp_ceil (rnd (256 * rr_cpu r)) 64 8192)
      | _ \<Rightarrow> min global (clamp_ceil (rnd (128 * rr_cpu r)) 32 4096))"

definition inspection_jobs :: "(rat \<Rightarrow> rat) \<Rightarrow> RuntimeResources \<Rightarrow> AutoScope \<Rightarrow> nat \<Rightarrow> nat" where
  "inspection_jobs rnd r scope global =
     (case scope of
        AutoGlobal \<Rightarrow> min (clamp_ceil (rnd (2 * rr_cpu r)) 1 64)
          (max (rr_memory_bytes r div u64_saturating_mul (rr_decoded_body_bytes r) 4) 1)
      | _ \<Rightarrow> min global (clamp_ceil (rr_cpu r) 1 32))"

definition retry_concurrency :: "(rat \<Rightarrow> rat) \<Rightarrow> RuntimeResources \<Rightarrow> nat" where
  "retry_concurrency rnd r = clamp_ceil (rnd (4 * rr_cpu r)) 1 128"

definition retry_queue :: "nat \<Rightarrow> nat" where
  "retry_queue concurrency = min (min USIZE_MAX (concurrency * 2)) 256"

definition configured_capacity :: "CapacitySetting \<Rightarrow> nat \<Rightarrow> nat" where
  "configured_capacity setting automatic = max (unwrap_or (fixed setting) automatic) 1"

definition configured_queue_capacity :: "CapacitySetting \<Rightarrow> nat \<Rightarrow> nat" where
  "configured_queue_capacity setting automatic = unwrap_or (fixed setting) automatic"

definition configured_connection_capacity :: "CapacitySetting \<Rightarrow> nat \<Rightarrow> nat" where
  "configured_connection_capacity setting automatic = unwrap_or (fixed setting) automatic"

definition scope_defaults ::
  "(rat \<Rightarrow> rat) \<Rightarrow> RuntimeResources \<Rightarrow> AutoScope \<Rightarrow> CircuitBreakerScopeConfig \<Rightarrow> ResolvedAutoScope option \<Rightarrow> ResolvedAutoScope" where
  "scope_defaults rnd r scope config global =
     (let global_active = (case global of None \<Rightarrow> active_requests rnd r AutoGlobal USIZE_MAX | Some v \<Rightarrow> ra_active_requests v);
          global_pending = (case global of None \<Rightarrow> pending_requests rnd r AutoGlobal USIZE_MAX | Some v \<Rightarrow> ra_pending_requests v);
          global_connections = (case global of None \<Rightarrow> auto_connections rnd r AutoGlobal USIZE_MAX | Some v \<Rightarrow> ra_connections v);
          global_streams = (case global of None \<Rightarrow> auto_streams rnd r AutoGlobal global_active USIZE_MAX | Some v \<Rightarrow> ra_streams v);
          global_inspection = (case global of None \<Rightarrow> inspection_jobs rnd r AutoGlobal USIZE_MAX | Some v \<Rightarrow> ra_inspection_jobs v);
          inspection_automatic = inspection_jobs rnd r scope global_inspection
      in \<lparr>ra_active_requests = configured_capacity (sc_max_active_requests config) (active_requests rnd r scope global_active),
          ra_pending_requests = configured_queue_capacity (sc_max_pending_requests config) (pending_requests rnd r scope global_pending),
          ra_connections = configured_connection_capacity (sc_max_connections config) (auto_connections rnd r scope global_connections),
          ra_streams = configured_capacity (sc_max_streams config) (auto_streams rnd r scope global_active global_streams),
          ra_inspection_jobs = configured_capacity (sc_max_body_inspection_jobs config) inspection_automatic,
          ra_decompression_jobs = configured_capacity (sc_max_decompression_jobs config) inspection_automatic\<rparr>)"

definition effective_memory_bytes :: "nat option \<Rightarrow> nat option \<Rightarrow> nat option \<Rightarrow> nat" where
  "effective_memory_bytes cgroup kubernetes_request host =
     unwrap_or
       (case cgroup of
          Some v \<Rightarrow> Some v
        | None \<Rightarrow>
            (case (kubernetes_request, host) of
               (Some request, Some host) \<Rightarrow> Some (min request host)
             | (Some request, None) \<Rightarrow> Some request
             | (None, host) \<Rightarrow> host))
       (512 * 1024 * 1024)"

definition effective_usable_file_descriptors :: "nat option \<Rightarrow> nat \<Rightarrow> nat" where
  "effective_usable_file_descriptors discovered reserved = unwrap_or discovered 1024 - reserved"

section \<open>Scopes and retry budget of a configuration\<close>

record CircuitBreakerRetryBudgetConfig =
  rbc_percent :: f64
  rbc_min_concurrency :: nat
  rbc_max_concurrency :: CapacitySetting
  rbc_max_queue :: CapacitySetting
  rbc_queue_timeout_ms :: u64

definition retry_budget_validate :: "CircuitBreakerRetryBudgetConfig \<Rightarrow> string + unit" where
  "retry_budget_validate c =
     (if (case rbc_percent c of Finite p \<Rightarrow> \<not> (0 \<le> p \<and> p \<le> 1) | _ \<Rightarrow> True)
      then Inl ''circuit_breakers.retry_budget.percent must be finite and between 0 and 1''
      else if rbc_min_concurrency c = 0
      then Inl ''circuit_breakers.retry_budget.min_concurrency must be greater than 0''
      else
        bindE (capacity_validate (rbc_max_concurrency c) ''circuit_breakers.retry_budget.max_concurrency'' False) (\<lambda>_.
        bindE (capacity_validate (rbc_max_queue c) ''circuit_breakers.retry_budget.max_queue'' True) (\<lambda>_.
        if rbc_queue_timeout_ms c = 0
        then Inl ''circuit_breakers.retry_budget.queue_timeout_ms must be greater than 0'' else Inr ())))"

record CircuitBreakersConfig =
  cb_enabled :: bool
  cb_response_status :: u16
  cb_capacity_retry_after_ms :: u64
  cb_global :: CircuitBreakerScopeConfig
  cb_route_defaults :: CircuitBreakerScopeConfig
  cb_pool_defaults :: CircuitBreakerScopeConfig
  cb_retry_budget :: CircuitBreakerRetryBudgetConfig
  cb_failure :: CircuitBreakerFailureConfig
  cb_priority :: CircuitBreakerPriorityConfig

definition breakers_validate :: "(rat \<Rightarrow> rat) \<Rightarrow> CircuitBreakersConfig \<Rightarrow> string + unit" where
  "breakers_validate rnd c =
     (if \<not> (500 \<le> cb_response_status c \<and> cb_response_status c \<le> 599)
      then Inl ''circuit_breakers.response_status must be a 5xx status''
      else if cb_capacity_retry_after_ms c = 0
      then Inl ''circuit_breakers.capacity_retry_after_ms must be greater than 0''
      else
        bindE (scope_validate (cb_global c) ''circuit_breakers.global'') (\<lambda>_.
        bindE (scope_validate (cb_route_defaults c) ''circuit_breakers.route_defaults'') (\<lambda>_.
        bindE (scope_validate (cb_pool_defaults c) ''circuit_breakers.pool_defaults'') (\<lambda>_.
        bindE (retry_budget_validate (cb_retry_budget c)) (\<lambda>_.
        bindE (failure_validate (cb_failure c)) (\<lambda>_.
        priority_validate rnd (cb_priority c) (fixed (sc_max_active_requests (cb_global c)))))))))"

text \<open>A route or a pool is its name and its overrides.\<close>

type_synonym scope_entry = "string \<times> CircuitBreakerScopeOverride option"

definition resolve_retry_budget :: "(rat \<Rightarrow> rat) \<Rightarrow> RuntimeResources \<Rightarrow> CircuitBreakerRetryBudgetConfig \<Rightarrow> RetryBudget" where
  "resolve_retry_budget rnd r config =
     (let most = configured_capacity (rbc_max_concurrency config) (retry_concurrency rnd r)
      in \<lparr>rb_percent = rbc_percent config, rb_min = rbc_min_concurrency config, rb_max = max most (rbc_min_concurrency config),
          rb_queue = configured_queue_capacity (rbc_max_queue config) (retry_queue most),
          rb_timeout = from_millis (rbc_queue_timeout_ms config)\<rparr>)"

definition effective_scope :: "CircuitBreakerScopeConfig \<Rightarrow> scope_entry \<Rightarrow> CircuitBreakerScopeConfig" where
  "effective_scope defaults e = (case snd e of Some ov \<Rightarrow> merged_with ov defaults | None \<Rightarrow> defaults)"

definition resolve_scopes ::
  "(rat \<Rightarrow> rat) \<Rightarrow> RuntimeResources \<Rightarrow> CircuitBreakersConfig \<Rightarrow> scope_entry list \<Rightarrow> scope_entry list \<Rightarrow> (ScopeKey \<rightharpoonup> ScopeState)" where
  "resolve_scopes rnd r breaker routes pools =
     (let global_auto = scope_defaults rnd r AutoGlobal (cb_global breaker) None;
          scopes = [Global \<mapsto> scope_new (for_scope (cb_global breaker) global_auto) False];
          scopes = fold (\<lambda>e m. let effective = effective_scope (cb_route_defaults breaker) e in
            m(Route (fst e) \<mapsto> scope_new (for_scope effective (scope_defaults rnd r AutoRoute effective (Some global_auto)))
              (cf_enabled (cb_failure breaker)))) routes scopes;
          scopes = fold (\<lambda>e m. let effective = effective_scope (cb_pool_defaults breaker) e in
            m(Pool (fst e) \<mapsto> scope_new (for_scope effective (scope_defaults rnd r AutoPool effective (Some global_auto)))
              (cf_enabled (cb_failure breaker)))) pools scopes
      in scopes)"

definition runtime_config ::
  "(rat \<Rightarrow> rat) \<Rightarrow> RuntimeResources \<Rightarrow> CircuitBreakersConfig \<Rightarrow> scope_entry list \<Rightarrow> scope_entry list \<Rightarrow> RuntimeConfig" where
  "runtime_config rnd r breaker routes pools =
     \<lparr>rc_enabled = cb_enabled breaker, rc_scopes = resolve_scopes rnd r breaker routes pools,
      rc_retry = resolve_retry_budget rnd r (cb_retry_budget breaker), rc_failure = cb_failure breaker,
      rc_response_status = cb_response_status breaker, rc_capacity_retry_after_ms = cb_capacity_retry_after_ms breaker,
      rc_priority = cb_priority breaker\<rparr>"

section \<open>Budget of the direct HTTP/1 transport\<close>

definition queue_projection :: "nat \<Rightarrow> nat \<Rightarrow> nat \<Rightarrow> (nat \<times> nat) option" where
  "queue_projection worker_count connections pending =
     (let queue_capacity_per_worker = max (max (div_ceil pending worker_count) (div_ceil connections worker_count)) 1
      in case usize_checked_mul worker_count queue_capacity_per_worker of
           None \<Rightarrow> None
         | Some physical \<Rightarrow> map_option (\<lambda>combined. (queue_capacity_per_worker, combined)) (usize_checked_add physical pending))"

definition projection_fits :: "nat \<Rightarrow> nat \<Rightarrow> nat \<Rightarrow> nat \<Rightarrow> bool" where
  "projection_fits worker_count connections safe_queue_capacity pending =
     (case queue_projection worker_count connections pending of None \<Rightarrow> False | Some (_, combined) \<Rightarrow> combined \<le> safe_queue_capacity)"

function auto_waiters_loop :: "nat \<Rightarrow> nat \<Rightarrow> nat \<Rightarrow> nat \<Rightarrow> nat \<Rightarrow> nat" where
  "auto_waiters_loop worker_count connections safe_queue_capacity lower upper =
     (if lower < upper then
        let midpoint = lower + (upper - lower) div 2 + 1
        in if projection_fits worker_count connections safe_queue_capacity midpoint
           then auto_waiters_loop worker_count connections safe_queue_capacity midpoint upper
           else auto_waiters_loop worker_count connections safe_queue_capacity lower (midpoint - 1)
      else lower)"
  by pat_completeness auto
termination
  by (relation "measure (\<lambda>(w, c, s, lower, upper). upper - lower)") (auto simp: Let_def)

definition maximum_auto_waiters :: "nat \<Rightarrow> nat \<Rightarrow> nat \<Rightarrow> nat \<Rightarrow> nat" where
  "maximum_auto_waiters worker_count connections candidate safe_queue_capacity =
     auto_waiters_loop worker_count connections safe_queue_capacity 0 candidate"

definition compio_connection_capacity :: "CapacitySetting \<Rightarrow> nat \<Rightarrow> nat \<Rightarrow> string + nat" where
  "compio_connection_capacity setting candidate safe_limit =
     (case setting of
        Auto \<Rightarrow> Inr (min candidate safe_limit)
      | Fixed val \<Rightarrow>
          bindE (ensureE (val \<le> safe_limit) (''resolved Compio direct-H1 global connection capacity '' @ dec_string val @
            '' exceeds the internal resource safety limit '' @ dec_string safe_limit)) (\<lambda>_. Inr val))"

definition capacity_message :: "string \<Rightarrow> nat \<Rightarrow> string \<Rightarrow> nat \<Rightarrow> string" where
  "capacity_message subject val problem limit = ''resolved Compio direct-H1 '' @ subject @ dec_string val @ problem @ dec_string limit"

definition fixed_pending :: "nat \<Rightarrow> nat \<Rightarrow> CapacitySetting \<Rightarrow> nat \<Rightarrow> nat \<Rightarrow> string + nat \<times> nat" where
  "fixed_pending worker_count connections connection_setting val safe_queue_capacity =
     bindE (option_okE (capacity_message ''fixed waiter capacity '' val '' exceeds the internal memory safety limit '' safe_queue_capacity)
       (if val \<le> safe_queue_capacity then Some (safe_queue_capacity - val) else None)) (\<lambda>available_for_physical.
     let maximum_queue_per_worker = available_for_physical div worker_count;
         required_pending_queue = max (div_ceil val worker_count) 1
     in bindE (ensureE (required_pending_queue \<le> maximum_queue_per_worker)
          (capacity_message ''fixed waiter capacity '' val '' cannot fit within the internal memory safety limit '' safe_queue_capacity)) (\<lambda>_.
     bindE (option_okE ''resolved Compio direct-H1 queue connection capacity is too large''
       (usize_checked_mul worker_count maximum_queue_per_worker)) (\<lambda>queue_connection_limit.
     (case connection_setting of
        Auto \<Rightarrow> Inr (min connections queue_connection_limit, val)
      | Fixed _ \<Rightarrow>
          bindE (ensureE (connections \<le> queue_connection_limit)
            (''resolved Compio direct-H1 fixed connection capacity '' @ dec_string connections @ '' cannot fit with '' @ dec_string val @
             '' fixed waiters within the internal memory safety limit '' @ dec_string safe_queue_capacity)) (\<lambda>_.
          Inr (connections, val))))))"

definition auto_pending :: "nat \<Rightarrow> nat \<Rightarrow> CapacitySetting \<Rightarrow> nat \<Rightarrow> nat \<Rightarrow> string + nat \<times> nat" where
  "auto_pending worker_count connections connection_setting pending_candidate safe_queue_capacity =
     bindE
       (if \<not> projection_fits worker_count connections safe_queue_capacity 0 then
          bindE (ensureE (connection_setting = Auto)
            (capacity_message ''fixed connection capacity '' connections '' cannot fit within the internal memory safety limit '' safe_queue_capacity))
            (\<lambda>_. bindE (option_okE ''resolved Compio direct-H1 queue connection capacity is too large''
              (usize_checked_mul worker_count (safe_queue_capacity div worker_count))) (\<lambda>limit. Inr (min connections limit)))
        else Inr connections) (\<lambda>connections.
     Inr (connections, maximum_auto_waiters worker_count connections pending_candidate safe_queue_capacity))"

definition compio_queue_capacities ::
  "nat \<Rightarrow> nat \<Rightarrow> CapacitySetting \<Rightarrow> nat \<Rightarrow> CapacitySetting \<Rightarrow> nat \<Rightarrow> string + nat \<times> nat \<times> nat" where
  "compio_queue_capacities worker_count connection_candidate connection_setting pending_candidate pending_setting safe_queue_capacity =
     bindE (ensureE (worker_count > 0) ''Compio direct-H1 worker count is zero'') (\<lambda>_.
     bindE (case pending_setting of
              Fixed val \<Rightarrow> fixed_pending worker_count connection_candidate connection_setting val safe_queue_capacity
            | Auto \<Rightarrow> auto_pending worker_count connection_candidate connection_setting pending_candidate safe_queue_capacity)
       (\<lambda>(connections, pending).
     bindE (ensureE (connections > 0) ''resolved Compio direct-H1 connection capacity is zero after queue memory reservations'') (\<lambda>_.
     bindE (option_okE ''resolved Compio direct-H1 queue capacity is too large'' (queue_projection worker_count connections pending))
       (\<lambda>(queue_capacity_per_worker, combined_queue_capacity).
     bindE (option_okE ''resolved Compio direct-H1 submission capacity is too large''
       (usize_checked_mul worker_count queue_capacity_per_worker)) (\<lambda>physical_queue_capacity.
     bindE (ensureE (combined_queue_capacity \<le> safe_queue_capacity)
       (''resolved Compio direct-H1 queue capacity '' @ dec_string physical_queue_capacity @ '' with '' @ dec_string pending @
        '' waiters has combined capacity '' @ dec_string combined_queue_capacity @
        '', which exceeds the internal memory safety limit '' @ dec_string safe_queue_capacity)) (\<lambda>_.
     Inr (connections, pending, queue_capacity_per_worker)))))))"

definition compio_worker_memory_limit :: "nat \<Rightarrow> nat" where
  "compio_worker_memory_limit memory_bytes =
     min (memory_bytes div COMPIO_DIRECT_H1_WORKER_MEMORY_PARTITION div COMPIO_DIRECT_H1_MAX_OVERLAPPING_FLEETS
            div COMPIO_DIRECT_H1_WORKER_MEMORY_RESERVATION_BYTES) MAX_COMPIO_DIRECT_H1_WORKERS"

definition compio_queue_memory_limit :: "nat \<Rightarrow> nat" where
  "compio_queue_memory_limit memory_bytes =
     min (memory_bytes div COMPIO_DIRECT_H1_QUEUE_MEMORY_PARTITION div COMPIO_DIRECT_H1_MAX_OVERLAPPING_FLEETS
            div COMPIO_DIRECT_H1_QUEUE_ENTRY_MEMORY_BYTES) MAX_COMPIO_DIRECT_H1_QUEUE_ENTRIES"

definition compio_connection_memory_limit :: "nat \<Rightarrow> nat" where
  "compio_connection_memory_limit memory_bytes =
     memory_bytes div COMPIO_DIRECT_H1_CONNECTION_MEMORY_PARTITION div COMPIO_DIRECT_H1_MAX_OVERLAPPING_FLEETS
       div COMPIO_DIRECT_H1_CONNECTION_MEMORY_BYTES"

record CompioDirectH1Budget =
  cd_worker_count :: nat
  cd_queue_capacity_per_worker :: nat
  cd_max_waiters :: nat
  cd_queue_wait_timeout :: duration
  cd_max_connections_global :: nat
  cd_max_connections_per_origin :: nat

definition compio_direct_h1_budget_with_resources ::
  "(rat \<Rightarrow> rat) \<Rightarrow> nat \<Rightarrow> CircuitBreakersConfig \<Rightarrow> RuntimeResources \<Rightarrow> string + CompioDirectH1Budget" where
  "compio_direct_h1_budget_with_resources rnd worker_count breaker resources =
     bindE (ensureE (worker_count > 0)
       ''runtime.workers.compio_direct_h1 must be greater than 0 before resolving the Compio direct-H1 budget'') (\<lambda>_.
     let safe_worker_count = compio_worker_memory_limit (rr_memory_bytes resources) in
     bindE (ensureE (worker_count \<le> safe_worker_count)
       (capacity_message ''worker count '' worker_count '' exceeds the internal resource safety limit '' safe_worker_count)) (\<lambda>_.
     let global = scope_defaults rnd resources AutoGlobal (cb_global breaker) None;
         safe_connection_limit =
           min (min (compio_connection_memory_limit (rr_memory_bytes resources))
             (rr_usable_file_descriptors resources div 4 div COMPIO_DIRECT_H1_MAX_OVERLAPPING_FLEETS)) MAX_COMPIO_DIRECT_H1_CONNECTIONS
     in
     bindE (compio_connection_capacity (sc_max_connections (cb_global breaker)) (ra_connections global) safe_connection_limit) (\<lambda>candidate.
     bindE (compio_queue_capacities worker_count candidate (sc_max_connections (cb_global breaker)) (ra_pending_requests global)
       (sc_max_pending_requests (cb_global breaker)) (compio_queue_memory_limit (rr_memory_bytes resources)))
       (\<lambda>(connections, pending, queue_capacity_per_worker).
     let global = global\<lparr>ra_connections := connections, ra_pending_requests := pending\<rparr>;
         per_origin = scope_defaults rnd resources AutoPool (cb_pool_defaults breaker) (Some global);
         max_connections_per_origin = min (ra_connections per_origin) (ra_connections global)
     in bindE (ensureE (ra_connections global > 0 \<and> max_connections_per_origin > 0)
          ''resolved Compio direct-H1 connection capacity is zero after process resource reservations'') (\<lambda>_.
     Inr \<lparr>cd_worker_count = worker_count, cd_queue_capacity_per_worker = queue_capacity_per_worker,
          cd_max_waiters = ra_pending_requests global,
          cd_queue_wait_timeout = from_millis (sc_pending_queue_timeout_ms (cb_global breaker)),
          cd_max_connections_global = ra_connections global, cd_max_connections_per_origin = max_connections_per_origin\<rparr>)))))"

section \<open>The search for the largest waiter capacity\<close>

lemma div_ceil_mono: "a \<le> b \<Longrightarrow> div_ceil a c \<le> div_ceil b c"
proof (cases "c = 0")
  case False
  assume "a \<le> b"
  then have "a div c \<le> b div c" by (rule div_le_mono)
  moreover have "a div c < b div c" if "a mod c > 0" "b mod c = 0"
  proof -
    have "b = b div c * c" using that(2) by (metis add.right_neutral div_mult_mod_eq)
    moreover have "a > a div c * c" using that(1) by (metis div_mult_mod_eq less_add_same_cancel1)
    ultimately have "a div c * c < b div c * c" using \<open>a \<le> b\<close> by linarith
    then show ?thesis by simp
  qed
  ultimately show ?thesis by (auto simp: div_ceil_def)
qed (simp add: div_ceil_def)

lemma div_ceil_bound: "0 < c \<Longrightarrow> a \<le> c * div_ceil a c"
proof -
  assume "0 < c"
  have split: "a = c * (a div c) + a mod c" by simp
  have "a mod c < c" using \<open>0 < c\<close> by simp
  then have "a \<le> c * (a div c) + c" using split by linarith
  then show ?thesis using split by (auto simp: div_ceil_def)
qed

lemma queue_projection_Some:
  "queue_projection w c p = Some (q, combined) \<longleftrightarrow>
     q = max (max (div_ceil p w) (div_ceil c w)) 1 \<and> combined = w * q + p \<and> combined \<le> USIZE_MAX"
  by (auto simp: queue_projection_def usize_checked_mul_def usize_checked_add_def Let_def split: option.splits if_splits)

lemma projection_fits_iff:
  "projection_fits w c s p \<longleftrightarrow> w * max (max (div_ceil p w) (div_ceil c w)) 1 + p \<le> min s USIZE_MAX"
proof (cases "queue_projection w c p")
  case None
  then have "\<not> w * max (max (div_ceil p w) (div_ceil c w)) 1 + p \<le> USIZE_MAX" using queue_projection_Some [of w c p] by auto
  then show ?thesis using None by (simp add: projection_fits_def)
next
  case (Some r)
  obtain q combined where r: "r = (q, combined)" by (cases r)
  then have "projection_fits w c s p \<longleftrightarrow> combined \<le> s" using Some by (simp add: projection_fits_def)
  then show ?thesis using Some [unfolded r queue_projection_Some] by auto
qed

lemma projection_fits_mono: "projection_fits w c s p \<Longrightarrow> q \<le> p \<Longrightarrow> projection_fits w c s q"
proof -
  assume fits: "projection_fits w c s p" and le: "q \<le> p"
  have "div_ceil q w \<le> div_ceil p w" using le by (rule div_ceil_mono)
  then have "max (max (div_ceil q w) (div_ceil c w)) 1 \<le> max (max (div_ceil p w) (div_ceil c w)) 1" by auto
  then have "w * max (max (div_ceil q w) (div_ceil c w)) 1 + q \<le> w * max (max (div_ceil p w) (div_ceil c w)) 1 + p"
    using le by (intro add_mono mult_le_mono2)
  then show ?thesis using fits unfolding projection_fits_iff by (rule le_trans)
qed

lemma auto_waiters_loop_exact:
  assumes "lower \<le> upper" "\<forall>p. 0 < p \<longrightarrow> p \<le> lower \<longrightarrow> projection_fits w c s p" "\<forall>p. upper < p \<longrightarrow> p \<le> cand \<longrightarrow> \<not> projection_fits w c s p"
    "upper \<le> cand"
  shows "auto_waiters_loop w c s lower upper \<le> cand \<and>
    (\<forall>p. 0 < p \<longrightarrow> p \<le> cand \<longrightarrow> projection_fits w c s p = (p \<le> auto_waiters_loop w c s lower upper))"
  using assms
proof (induction w c s lower upper rule: auto_waiters_loop.induct)
  case (1 w c s lower upper)
  show ?case
  proof (cases "lower < upper")
    case False
    then have "lower = upper" using "1.prems"(1) by simp
    then have "auto_waiters_loop w c s lower upper = upper" by (simp add: auto_waiters_loop.simps)
    then show ?thesis using "1.prems" \<open>lower = upper\<close> by (metis not_le_imp_less)
  next
    case True
    let ?m = "lower + (upper - lower) div 2 + 1"
    have m: "lower < ?m" "?m \<le> upper" using True by auto
    show ?thesis
    proof (cases "projection_fits w c s ?m")
      case fits: True
      have "\<forall>p. 0 < p \<longrightarrow> p \<le> ?m \<longrightarrow> projection_fits w c s p" using projection_fits_mono [OF fits] by blast
      with "1.IH"(1) [OF True refl fits] m "1.prems" show ?thesis
        using fits True by (simp add: auto_waiters_loop.simps [of w c s lower upper] Let_def)
    next
      case no: False
      have "\<forall>p. ?m - 1 < p \<longrightarrow> p \<le> cand \<longrightarrow> \<not> projection_fits w c s p"
        using projection_fits_mono no by (metis Suc_eq_plus1 Suc_leI add_diff_cancel_right')
      with "1.IH"(2) [OF True refl no] m "1.prems" show ?thesis
        using no True by (simp add: auto_waiters_loop.simps [of w c s lower upper] Let_def)
    qed
  qed
qed

text \<open>
  C40.  The binary search for the automatic waiter capacity of the direct HTTP/1 transport is exact: its result is within
  the candidate, and among the capacities up to the candidate exactly those up to the result fit the
  queue memory together with the physical queues they need.
\<close>

theorem maximum_auto_waiters_exact:
  "maximum_auto_waiters w c cand s \<le> cand \<and>
   (\<forall>p. 0 < p \<longrightarrow> p \<le> cand \<longrightarrow> projection_fits w c s p = (p \<le> maximum_auto_waiters w c cand s))"
  unfolding maximum_auto_waiters_def by (rule auto_waiters_loop_exact) auto

theorem maximum_auto_waiters_exact_witness:
  "projection_fits 2 3 20 9 = (9 \<le> maximum_auto_waiters 2 3 100 20) \<and> maximum_auto_waiters 2 3 100 20 \<le> 100"
  using maximum_auto_waiters_exact [of 2 3 100 20] by simp

section \<open>The transport fits its memory\<close>

lemma fixed_pending_connections:
  "fixed_pending w c setting v s = Inr (connections, pending) \<Longrightarrow> connections \<le> c"
  by (auto simp: fixed_pending_def Let_def bindE_def ensureE_def option_okE_def
      split: sum.splits if_splits option.splits CapacitySetting.splits)

lemma auto_pending_connections:
  "auto_pending w c setting cand s = Inr (connections, pending) \<Longrightarrow> connections \<le> c"
  by (auto simp: auto_pending_def Let_def bindE_def ensureE_def option_okE_def split: sum.splits if_splits option.splits)

lemma compio_queue_capacities_fit:
  assumes "compio_queue_capacities w c cset cand pset s = Inr (connections, pending, q)"
  shows "0 < w \<and> 0 < connections \<and> connections \<le> c \<and> pending \<le> w * q \<and> w * q + pending \<le> s"
proof -
  from assms obtain r combined where r: "(case pset of Fixed v \<Rightarrow> fixed_pending w c cset v s | Auto \<Rightarrow> auto_pending w c cset cand s) = Inr (connections, pending)"
      and w: "0 < w" "0 < connections" and proj: "queue_projection w connections pending = Some (q, combined)" and fits: "combined \<le> s"
    by (auto simp: compio_queue_capacities_def bindE_def ensureE_def option_okE_def split: sum.splits if_splits option.splits prod.splits)
  have "connections \<le> c" using r fixed_pending_connections auto_pending_connections by (auto split: CapacitySetting.splits)
  moreover have "div_ceil pending w \<le> q" "combined = w * q + pending" using proj by (auto simp: queue_projection_Some)
  moreover from this(1) have "pending \<le> w * q" using div_ceil_bound [OF w(1), of pending] by (meson le_trans mult_le_mono2)
  ultimately show ?thesis using w fits by simp
qed

lemma budget_parts:
  assumes "compio_direct_h1_budget_with_resources rnd workers breaker r = Inr b"
  shows "cd_worker_count b = workers" "workers \<le> compio_worker_memory_limit (rr_memory_bytes r)"
    "cd_max_connections_global b \<le> compio_connection_memory_limit (rr_memory_bytes r)"
    "cd_max_connections_global b \<le> rr_usable_file_descriptors r div 4 div 2"
    "workers * cd_queue_capacity_per_worker b + cd_max_waiters b \<le> compio_queue_memory_limit (rr_memory_bytes r)"
    "cd_max_waiters b \<le> workers * cd_queue_capacity_per_worker b"
    "0 < cd_max_connections_per_origin b" "cd_max_connections_per_origin b \<le> cd_max_connections_global b"
proof -
  define limit where "limit = min (min (compio_connection_memory_limit (rr_memory_bytes r)) (rr_usable_file_descriptors r div 4 div 2))
    MAX_COMPIO_DIRECT_H1_CONNECTIONS"
  from assms obtain candidate connections pending q where
      w: "workers \<le> compio_worker_memory_limit (rr_memory_bytes r)"
      and cand: "compio_connection_capacity (sc_max_connections (cb_global breaker))
        (ra_connections (scope_defaults rnd r AutoGlobal (cb_global breaker) None)) limit = Inr candidate"
      and caps: "compio_queue_capacities workers candidate (sc_max_connections (cb_global breaker))
        (ra_pending_requests (scope_defaults rnd r AutoGlobal (cb_global breaker) None))
        (sc_max_pending_requests (cb_global breaker)) (compio_queue_memory_limit (rr_memory_bytes r)) = Inr (connections, pending, q)"
      and b: "cd_worker_count b = workers" "cd_queue_capacity_per_worker b = q" "cd_max_waiters b = pending"
        "cd_max_connections_global b = connections" "0 < cd_max_connections_per_origin b"
        "cd_max_connections_per_origin b \<le> connections"
    by (auto simp: compio_direct_h1_budget_with_resources_def limit_def Let_def bindE_def ensureE_def split: sum.splits if_splits prod.splits)
  have "candidate \<le> limit" using cand
    by (auto simp: compio_connection_capacity_def bindE_def ensureE_def split: CapacitySetting.splits if_splits sum.splits)
  then show "cd_worker_count b = workers" "workers \<le> compio_worker_memory_limit (rr_memory_bytes r)"
      "cd_max_connections_global b \<le> compio_connection_memory_limit (rr_memory_bytes r)"
      "cd_max_connections_global b \<le> rr_usable_file_descriptors r div 4 div 2"
      "workers * cd_queue_capacity_per_worker b + cd_max_waiters b \<le> compio_queue_memory_limit (rr_memory_bytes r)"
      "cd_max_waiters b \<le> workers * cd_queue_capacity_per_worker b"
      "0 < cd_max_connections_per_origin b" "cd_max_connections_per_origin b \<le> cd_max_connections_global b"
    using compio_queue_capacities_fit [OF caps] b w unfolding limit_def by auto
qed

lemma three_parts:
  fixes A B C m :: nat
  assumes "4 * A \<le> m" "16 * B \<le> m" "8 * C \<le> m"
  shows "2 * (A + B + C) \<le> m"
proof -
  have "16 * A + 16 * B + 16 * C \<le> 4 * m + m + 2 * m" using assms by (intro add_mono) auto
  also have "\<dots> \<le> 8 * m" by simp
  finally show ?thesis by simp
qed

text \<open>
  C39.  The budget of the direct HTTP/1 transport keeps its promise about memory and descriptors.  When a budget is resolved,
  two fleets that overlap during a reload, each with its workers, its queue slots, its waiters and its connections at full
  capacity, together stay within the memory of the process; their connections use at most a quarter of the usable file
  descriptors; every waiter has a physical queue slot, and one origin may use at most all connections and at least one.
\<close>

theorem compio_budget_fits:
  assumes "compio_direct_h1_budget_with_resources rnd workers breaker r = Inr b"
  shows "COMPIO_DIRECT_H1_MAX_OVERLAPPING_FLEETS *
      (cd_worker_count b * COMPIO_DIRECT_H1_WORKER_MEMORY_RESERVATION_BYTES +
       (cd_worker_count b * cd_queue_capacity_per_worker b + cd_max_waiters b) * COMPIO_DIRECT_H1_QUEUE_ENTRY_MEMORY_BYTES +
       cd_max_connections_global b * COMPIO_DIRECT_H1_CONNECTION_MEMORY_BYTES) \<le> rr_memory_bytes r \<and>
    4 * COMPIO_DIRECT_H1_MAX_OVERLAPPING_FLEETS * cd_max_connections_global b \<le> rr_usable_file_descriptors r \<and>
    cd_max_waiters b \<le> cd_worker_count b * cd_queue_capacity_per_worker b \<and>
    0 < cd_max_connections_per_origin b \<and> cd_max_connections_per_origin b \<le> cd_max_connections_global b"
proof -
  note parts = budget_parts [OF assms]
  have le: "k \<le> n div a div 2 div c \<Longrightarrow> 0 < a \<Longrightarrow> 0 < c \<Longrightarrow> a * 2 * c * k \<le> n" for k n a c :: nat
    by (metis div_mult2_eq less_eq_div_iff_mult_less_eq mult.commute mult_pos_pos pos2)
  have "4 * (cd_worker_count b * (8 * 1024 * 1024)) \<le> rr_memory_bytes r"
    using le [of "cd_worker_count b" "rr_memory_bytes r" 2 "8 * 1024 * 1024"] parts(1,2) by (simp add: compio_worker_memory_limit_def algebra_simps)
  moreover have "16 * ((cd_worker_count b * cd_queue_capacity_per_worker b + cd_max_waiters b) * (64 * 1024)) \<le> rr_memory_bytes r"
    using le [of "cd_worker_count b * cd_queue_capacity_per_worker b + cd_max_waiters b" "rr_memory_bytes r" 8 "64 * 1024"] parts(1,5)
    by (simp add: compio_queue_memory_limit_def algebra_simps)
  moreover have "8 * (cd_max_connections_global b * (32 * 1024)) \<le> rr_memory_bytes r"
    using le [of "cd_max_connections_global b" "rr_memory_bytes r" 4 "32 * 1024"] parts(3) by (simp add: compio_connection_memory_limit_def algebra_simps)
  moreover have fds: "4 * 2 * cd_max_connections_global b \<le> rr_usable_file_descriptors r"
    using le [of "cd_max_connections_global b" "rr_usable_file_descriptors r" 4 1] parts(4) by simp
  ultimately have "2 * (cd_worker_count b * (8 * 1024 * 1024) +
      (cd_worker_count b * cd_queue_capacity_per_worker b + cd_max_waiters b) * (64 * 1024) +
      cd_max_connections_global b * (32 * 1024)) \<le> rr_memory_bytes r" by (intro three_parts)
  then show ?thesis using fds parts(6-8) unfolding parts(1) by (intro conjI) assumption+
qed

definition sample_scope :: CircuitBreakerScopeConfig where
  "sample_scope = \<lparr>sc_max_active_requests = Fixed 100, sc_max_pending_requests = Fixed 8, sc_pending_queue_timeout_ms = 1000,
     sc_max_connections = Auto, sc_max_streams = Auto, sc_max_body_inspection_jobs = Auto, sc_max_decompression_jobs = Auto\<rparr>"

definition sample_breakers :: CircuitBreakersConfig where
  "sample_breakers = \<lparr>cb_enabled = True, cb_response_status = 503, cb_capacity_retry_after_ms = 1000, cb_global = sample_scope,
     cb_route_defaults = sample_scope, cb_pool_defaults = sample_scope,
     cb_retry_budget = \<lparr>rbc_percent = Finite (1 / 5), rbc_min_concurrency = 1, rbc_max_concurrency = Auto, rbc_max_queue = Auto,
       rbc_queue_timeout_ms = 100\<rparr>,
     cb_failure = sample_policy, cb_priority = \<lparr>pr_config_enabled = False, pr_config_classes = []\<rparr>\<rparr>"

definition sample_resources :: RuntimeResources where
  "sample_resources = \<lparr>rr_cpu = 2, rr_memory_bytes = 1073741824, rr_usable_file_descriptors = 1024, rr_buffering_bytes = 65536,
     rr_decoded_body_bytes = 65536\<rparr>"

lemma sample_budget:
  "compio_direct_h1_budget_with_resources id 4 sample_breakers sample_resources =
     Inr \<lparr>cd_worker_count = 4, cd_queue_capacity_per_worker = 32, cd_max_waiters = 8, cd_queue_wait_timeout = 1000000000,
          cd_max_connections_global = 128, cd_max_connections_per_origin = 32\<rparr>"
  by (simp add: compio_direct_h1_budget_with_resources_def sample_breakers_def sample_scope_def sample_resources_def scope_defaults_def
      compio_worker_memory_limit_def compio_connection_memory_limit_def compio_queue_memory_limit_def compio_connection_capacity_def
      compio_queue_capacities_def fixed_pending_def queue_projection_def usize_checked_mul_def usize_checked_add_def div_ceil_def
      auto_connections_def pending_requests_def active_requests_def auto_streams_def inspection_jobs_def clamp_ceil_def
      configured_capacity_def configured_queue_capacity_def configured_connection_capacity_def unwrap_or_def u64_saturating_mul_def
      bindE_def ensureE_def option_okE_def from_millis_def Let_def)

theorem compio_budget_fits_witness:
  "\<exists>b. compio_direct_h1_budget_with_resources id 4 sample_breakers sample_resources = Inr b \<and>
     2 * (cd_worker_count b * (8 * 1024 * 1024)) \<le> 1073741824 \<and> 0 < cd_max_connections_per_origin b"
  using compio_budget_fits [OF sample_budget] sample_budget by (auto simp: sample_resources_def)

section \<open>Resolved scopes\<close>

fun capacity_usize :: "CapacitySetting \<Rightarrow> bool" where
  "capacity_usize Auto \<longleftrightarrow> True"
| "capacity_usize (Fixed n) \<longleftrightarrow> n \<le> USIZE_MAX"

definition scope_usize :: "CircuitBreakerScopeConfig \<Rightarrow> bool" where
  "scope_usize c \<longleftrightarrow> list_all capacity_usize [sc_max_active_requests c, sc_max_pending_requests c, sc_max_connections c, sc_max_streams c,
     sc_max_body_inspection_jobs c, sc_max_decompression_jobs c]"

definition override_usize :: "CircuitBreakerScopeOverride \<Rightarrow> bool" where
  "override_usize c \<longleftrightarrow> list_all (\<lambda>v. case v of Some s \<Rightarrow> capacity_usize s | None \<Rightarrow> True)
     [so_max_active_requests c, so_max_pending_requests c, so_max_connections c, so_max_streams c,
      so_max_body_inspection_jobs c, so_max_decompression_jobs c]"

definition resolved_usize :: "ResolvedAutoScope \<Rightarrow> bool" where
  "resolved_usize v \<longleftrightarrow> list_all (\<lambda>n. n \<le> USIZE_MAX)
     [ra_active_requests v, ra_pending_requests v, ra_connections v, ra_streams v, ra_inspection_jobs v, ra_decompression_jobs v]"

lemma configured_usize:
  "capacity_usize s \<Longrightarrow> a \<le> USIZE_MAX \<Longrightarrow> configured_capacity s a \<le> USIZE_MAX"
  "capacity_usize s \<Longrightarrow> a \<le> USIZE_MAX \<Longrightarrow> configured_queue_capacity s a \<le> USIZE_MAX"
  "capacity_usize s \<Longrightarrow> a \<le> USIZE_MAX \<Longrightarrow> configured_connection_capacity s a \<le> USIZE_MAX"
  by (cases s; simp add: configured_capacity_def configured_queue_capacity_def configured_connection_capacity_def unwrap_or_def)+

lemma clamp_ceil_le: "clamp_ceil v lo hi \<le> hi"
  by (simp add: clamp_ceil_def)

lemma small_usize: "n \<le> 8192 \<Longrightarrow> n \<le> USIZE_MAX"
  by (erule order_trans) simp

lemma automatic_small:
  "active_requests rnd r scope g \<le> 8192" "pending_requests rnd r scope g \<le> 8192" "auto_connections rnd r scope g \<le> 8192"
  "auto_streams rnd r scope a g \<le> 8192" "inspection_jobs rnd r scope g \<le> 8192"
  by (cases scope; simp add: active_requests_def pending_requests_def auto_connections_def auto_streams_def inspection_jobs_def clamp_ceil_def Let_def)+

lemmas automatic_usize = automatic_small [THEN small_usize]

lemma scope_defaults_usize:
  assumes "scope_usize c"
  shows "resolved_usize (scope_defaults rnd r scope c g)"
  using assms unfolding resolved_usize_def scope_defaults_def scope_usize_def Let_def
  by (simp only: list.pred_inject ResolvedAutoScope.select_convs configured_usize automatic_usize simp_thms)

lemma unwrap_or_usize:
  "(case v of Some s \<Rightarrow> capacity_usize s | None \<Rightarrow> True) \<Longrightarrow> capacity_usize d \<Longrightarrow> capacity_usize (unwrap_or v d)"
  by (cases v) (simp_all add: unwrap_or_def)

lemma effective_scope_usize:
  assumes "scope_usize defaults" "case snd e of Some ov \<Rightarrow> override_usize ov | None \<Rightarrow> True"
  shows "scope_usize (effective_scope defaults e)"
proof (cases "snd e")
  case (Some ov)
  then have "effective_scope defaults e = merged_with ov defaults" "override_usize ov" using assms(2) by (simp_all add: effective_scope_def)
  then show ?thesis using assms(1) unfolding scope_usize_def override_usize_def merged_with_def
    by (simp only: list.pred_inject CircuitBreakerScopeConfig.select_convs unwrap_or_usize simp_thms)
qed (use assms in \<open>simp add: effective_scope_def\<close>)

lemma for_scope_usize: "resolved_usize v \<Longrightarrow> limit_usize (for_scope c v k)"
  by (cases k) (simp_all add: for_scope_def limit_usize_def resolved_usize_def Let_def)

definition fresh_scope :: "ScopeState \<Rightarrow> bool" where
  "fresh_scope s \<longleftrightarrow> ss_active s = (\<lambda>_. 0) \<and> ss_queued s = (\<lambda>_. 0) \<and> (\<forall>r. limit_usize (ss_limits s r))"

lemma fresh_scope_new: "scope_usize c \<Longrightarrow> fresh_scope (scope_new (for_scope c (scope_defaults rnd r scope c g)) failure)"
  using for_scope_usize [OF scope_defaults_usize] by (simp add: fresh_scope_def scope_new_def)

definition breakers_usize :: "CircuitBreakersConfig \<Rightarrow> scope_entry list \<Rightarrow> scope_entry list \<Rightarrow> bool" where
  "breakers_usize breaker routes pools \<longleftrightarrow> scope_usize (cb_global breaker) \<and> scope_usize (cb_route_defaults breaker) \<and>
     scope_usize (cb_pool_defaults breaker) \<and>
     list_all (\<lambda>e. case snd e of Some ov \<Rightarrow> override_usize ov | None \<Rightarrow> True) (routes @ pools)"

lemma fold_fresh:
  assumes "\<forall>e \<in> set es. fresh_scope (f e)" "\<forall>k s. m k = Some s \<longrightarrow> fresh_scope s"
  shows "\<forall>k s. fold (\<lambda>e m. m(key e \<mapsto> f e)) es m k = Some s \<longrightarrow> fresh_scope s"
  using assms
proof (induction es arbitrary: m)
  case (Cons a es)
  have "\<forall>k s. (m(key a \<mapsto> f a)) k = Some s \<longrightarrow> fresh_scope s" using Cons.prems by auto
  with Cons.IH [of "m(key a \<mapsto> f a)"] Cons.prems(1) show ?case by simp
qed simp

lemma runtime_config_ok:
  assumes "breakers_usize breaker routes pools"
  shows "config_ok (runtime_config rnd r breaker routes pools)"
proof -
  let ?g = "scope_defaults rnd r AutoGlobal (cb_global breaker) None"
  let ?f = "\<lambda>defaults kind e. scope_new (for_scope (effective_scope defaults e)
    (scope_defaults rnd r kind (effective_scope defaults e) (Some ?g))) (cf_enabled (cb_failure breaker))"
  have entry: "\<forall>e \<in> set es. fresh_scope (?f defaults kind e)" if "scope_usize defaults" "set es \<subseteq> set (routes @ pools)" for es defaults kind
  proof
    fix e assume "e \<in> set es"
    then have "case snd e of Some ov \<Rightarrow> override_usize ov | None \<Rightarrow> True" using assms that(2) by (auto simp: breakers_usize_def list_all_iff)
    then show "fresh_scope (?f defaults kind e)" by (intro fresh_scope_new effective_scope_usize that(1))
  qed
  have "\<forall>k s. [Global \<mapsto> scope_new (for_scope (cb_global breaker) ?g) False] k = Some s \<longrightarrow> fresh_scope s"
    using assms by (auto simp: breakers_usize_def fresh_scope_new)
  note init = this
  have routes: "\<forall>e \<in> set routes. fresh_scope (?f (cb_route_defaults breaker) AutoRoute e)"
      and pools: "\<forall>e \<in> set pools. fresh_scope (?f (cb_pool_defaults breaker) AutoPool e)"
    using assms by (auto simp: breakers_usize_def intro!: entry [THEN bspec])
  have "\<forall>k s. resolve_scopes rnd r breaker routes pools k = Some s \<longrightarrow> fresh_scope s"
    unfolding resolve_scopes_def Let_def
    by (rule fold_fresh [OF pools, of _ "Pool \<circ> fst", unfolded comp_def], rule fold_fresh [OF routes, of _ "Route \<circ> fst", unfolded comp_def], rule init)
  then show ?thesis by (auto simp: config_ok_def runtime_config_def fresh_scope_def)
qed

lemma fold_other_key:
  assumes "\<forall>e. key e \<noteq> k"
  shows "fold (\<lambda>e m. m(key e \<mapsto> f e)) es m k = m k"
proof (induction es arbitrary: m)
  case (Cons a es)
  have "fold (\<lambda>e m. m(key e \<mapsto> f e)) (a # es) m k = (m(key a \<mapsto> f a)) k" unfolding fold_simps by (rule Cons.IH)
  also have "\<dots> = m k" using assms by (metis fun_upd_other)
  finally show ?case .
qed simp

lemma resolve_scopes_global:
  "resolve_scopes rnd r breaker routes pools Global =
     Some (scope_new (for_scope (cb_global breaker) (scope_defaults rnd r AutoGlobal (cb_global breaker) None)) False)"
  unfolding resolve_scopes_def Let_def
  by (subst fold_other_key [where key = "\<lambda>e. Pool (fst e)"], simp, subst fold_other_key [where key = "\<lambda>e. Route (fst e)"], simp, simp)

text \<open>The configured number of active requests is respected by every run of a runtime built from the configuration.\<close>

lemma configured_limit_respected:
  assumes "breakers_usize breaker routes pools" "adm_reachable rnd False (runtime_config rnd r breaker routes pools) y"
    "sc_max_active_requests (cb_global breaker) = Fixed n" "0 < n"
  shows "act (sy_state y) Global Request \<le> n"
proof -
  have "lims (sy_state y) Global = Some (for_scope (cb_global breaker) (scope_defaults rnd r AutoGlobal (cb_global breaker) None))"
    using adm_reachable_capacity [OF assms(2) runtime_config_ok [OF assms(1)]]
    by (simp add: cap_inv_def runtime_config_def resolve_scopes_global scope_new_def)
  moreover have "rl_active (for_scope (cb_global breaker) (scope_defaults rnd r AutoGlobal (cb_global breaker) None) Request) = n"
    using assms(3,4) by (simp add: for_scope_def scope_defaults_def configured_capacity_def unwrap_or_def Let_def)
  moreover have "within_limits (sy_state y)"
    using adm_reachable_capacity [OF assms(2) runtime_config_ok [OF assms(1)]] by (simp add: cap_inv_def)
  ultimately show ?thesis unfolding within_limits_def by (metis ResourceKind.distinct(3))
qed

end
