(* ===== verification/Reservations.thy ===== *)
theory Reservations
  imports Admission
begin

text \<open>
  What a reservation is worth to a request.  The scheduler of \<open>Priority\<close> decides which slots are free; the admission loop
  of \<open>acquire_prioritized\<close> (\<open>priority.rs\<close>), a section of \<open>Admission\<close>, turns its answer into a lease.  This theory joins the
  two: a request that finds its lane empty is admitted in its first section when its class has a free reserved slot.
\<close>

lemma priority_section_reserved:
  assumes "pr_enabled (rs_priority s)" "rs_scopes s Global = Some global" "lane_empty (rs_priority s) c eligible"
    and "priority_can_admit (rs_priority s) c eligible (ss_active global Request) (rl_active (ss_limits global Request)) = Some Reserved"
  shows "\<exists>s'. priority_section True now c eligible None s = (s', PriorityDone (Inr
    \<lparr>le_enabled = True, le_allocations = global_request, le_probes = [], le_priority = Some \<lparr>pl_class = c, pl_kind = Reserved\<rparr>\<rparr>))"
  using assms by (simp add: priority_section_def may_admit_priority_def take_priority_ticket_def priority_admit_def Let_def)

text \<open>
  C10.  Priority reservations hold.  Take a configuration that was validated against the resolved global capacity and
  whose reservations add up below \<open>2\<^sup>6\<^sup>4\<close>, and any run of admissions, releases, queue operations and reloads (where the
  permits in flight fit the new shares) that leads to it.  No class ever has more active permits than its maximum share.
  A caller that may use reservations and finds no other caller of its class in the same lane gets a lease on a reserved
  slot at once, in the first section of its admission, whatever waits in the other lanes, as long as its class has a
  reserved slot free and the shared permits and the requests the scheduler does not track stay within the shared capacity.
\<close>

theorem reservations_hold:
  assumes "priority_run rnd config (ss_limits global Request) (rs_priority s) leases"
    and "priority_validate rnd config (Some (rl_active (ss_limits global Request))) = Inr ()"
    and "class_sum (\<lambda>c. pp_reserved_requests (resolved_for_validation config c)) < 2 ^ 64"
  shows "active_total (pr_active (rs_priority s) c) \<le> rp_max_requests (pr_policies (rs_priority s) c) \<and>
    (pr_config_enabled config \<and> rs_scopes s Global = Some global \<and> lane_empty (rs_priority s) c True \<and>
     pa_reserved (pr_active (rs_priority s) c) < rp_reserved_requests (pr_policies (rs_priority s) c) \<and>
     ss_active global Request = total_active (rs_priority s) + untracked \<and>
     pr_shared_active (rs_priority s) + untracked \<le> pr_shared_capacity (rs_priority s) \<longrightarrow>
     (\<exists>s'. priority_section True now c True None s = (s', PriorityDone (Inr \<lparr>le_enabled = True,
        le_allocations = global_request, le_probes = [], le_priority = Some \<lparr>pl_class = c, pl_kind = Reserved\<rparr>\<rparr>))))"
  using priority_run_reserved [OF assms] priority_run_inv [OF assms(1)] priority_section_reserved [of s global c True now]
  by auto

definition reserved_global :: ScopeState where
  "reserved_global = (scope_new (\<lambda>_. sample_limit) False)\<lparr>ss_active := (\<lambda>_. total_active sample_state + 3)\<rparr>"

definition reserved_runtime :: RuntimeState where
  "reserved_runtime = (runtime_from_config id sample_runtime)\<lparr>rs_scopes := [Global \<mapsto> reserved_global], rs_priority := sample_state\<rparr>"

lemma sample_reservations: "class_sum (\<lambda>c. pp_reserved_requests (resolved_for_validation sample_priority c)) < 2 ^ 64"
  by (simp add: sample_simps class_sum_def)

lemma sample_lane: "lane_empty sample_state Interactive True"
  by (simp add: lane_empty_def sample_state_def priority_admit_def priority_from_config_def Let_def)

theorem reservations_hold_witness:
  "priority_validate id sample_priority (Some 10) = Inr () \<and> active_total (pr_active sample_state Interactive) \<le> 10 \<and>
   (\<exists>s'. priority_section True 5 Interactive True None reserved_runtime = (s', PriorityDone (Inr \<lparr>le_enabled = True,
      le_allocations = global_request, le_probes = [], le_priority = Some \<lparr>pl_class = Interactive, pl_kind = Reserved\<rparr>\<rparr>)))"
proof -
  have state: "ss_limits reserved_global Request = sample_limit" "rs_priority reserved_runtime = sample_state"
      "rs_scopes reserved_runtime Global = Some reserved_global" "ss_active reserved_global Request = total_active sample_state + 3"
    by (simp_all add: reserved_global_def reserved_runtime_def scope_new_def)
  have "priority_run id sample_priority (ss_limits reserved_global Request) (rs_priority reserved_runtime) {#\<lparr>pl_class = Default, pl_kind = Shared\<rparr>#}"
      "priority_validate id sample_priority (Some (rl_active (ss_limits reserved_global Request))) = Inr ()"
    using sample_run sample_valid by (simp_all add: state sample_limit_def)
  from reservations_hold [OF this sample_reservations, of Interactive 3 5] show ?thesis
    using sample_values sample_valid sample_lane by (simp add: state sample_priority_def)
qed

end
