(* ===== verification/Overload_Policy.thy ===== *)
theory Overload_Policy
  imports Priority
begin

text \<open>
  The configuration of the overload manager (\<open>crates/oxibelt-admission-policy/src/overload.rs\<close>): thresholds,
  actions, reserved capacity, their defaults and their validation.  A \<open>u64\<close> or \<open>u32\<close> setting is a word, a
  \<open>usize\<close> one a natural number, an \<open>f64\<close> the type of theory Circuit.  The lemmas give the consequences of a
  successful validation that the manager relies on, and that the defaults are accepted.
\<close>

section \<open>Comparison of floating-point numbers\<close>

fun f64_less :: "f64 \<Rightarrow> f64 \<Rightarrow> bool" where
  "f64_less (Finite a) (Finite b) \<longleftrightarrow> a < b"
| "f64_less NaN _ \<longleftrightarrow> False"
| "f64_less _ NaN \<longleftrightarrow> False"
| "f64_less NegInf b \<longleftrightarrow> b \<noteq> NegInf"
| "f64_less PosInf _ \<longleftrightarrow> False"
| "f64_less (Finite _) b \<longleftrightarrow> b = PosInf"

definition f64_less_eq :: "f64 \<Rightarrow> f64 \<Rightarrow> bool" where
  "f64_less_eq a b \<longleftrightarrow> f64_less a b \<or> a \<noteq> NaN \<and> a = b"

definition is_finite :: "f64 \<Rightarrow> bool" where
  "is_finite a \<longleftrightarrow> (case a of Finite _ \<Rightarrow> True | _ \<Rightarrow> False)"

lemma f64_finite_simps [simp]:
  "f64_less_eq (Finite a) (Finite b) \<longleftrightarrow> a \<le> b"
  "is_finite (Finite a)"
  by (auto simp: f64_less_eq_def is_finite_def)

lemma is_finite_iff: "is_finite a \<longleftrightarrow> (\<exists>r. a = Finite r)"
  by (cases a) (simp_all add: is_finite_def)

lemma f64_le_trans: "f64_less_eq a b \<Longrightarrow> f64_less_eq b c \<Longrightarrow> f64_less_eq a c"
  by (cases a; cases b; cases c) (auto simp: f64_less_eq_def)

lemma f64_less_imp_le: "f64_less a b \<Longrightarrow> f64_less_eq a b"
  by (simp add: f64_less_eq_def)

section \<open>Settings\<close>

definition is_soft_sheddable :: "PriorityClass \<Rightarrow> bool" where
  "is_soft_sheddable class \<longleftrightarrow> class \<in> {Background, Crawler}"

record OverloadThresholds =
  memory_soft_ratio :: f64
  memory_hard_ratio :: f64
  fd_soft_ratio :: f64
  fd_hard_ratio :: f64
  cpu_soft_ratio :: f64
  cpu_hard_ratio :: f64
  event_loop_lag_soft_ms :: u64
  event_loop_lag_hard_ms :: u64
  shared_state_waiters_soft :: u64
  shared_state_waiters_hard :: u64
  downstream_connections_soft :: "u64 option"
  downstream_connections_hard :: "u64 option"
  active_requests_soft :: "u64 option"
  active_requests_hard :: "u64 option"
  h2_streams_soft :: "u64 option"
  h2_streams_hard :: "u64 option"
  h3_streams_soft :: "u64 option"
  h3_streams_hard :: "u64 option"
  pending_upstream_requests_soft :: "u64 option"
  pending_upstream_requests_hard :: "u64 option"
  retry_concurrency_soft :: "u64 option"
  retry_concurrency_hard :: "u64 option"
  cache_fill_concurrency_soft :: "u64 option"
  cache_fill_concurrency_hard :: "u64 option"
  waf_body_inspection_concurrency_soft :: "u64 option"
  waf_body_inspection_concurrency_hard :: "u64 option"
  compression_jobs_soft :: "u64 option"
  compression_jobs_hard :: "u64 option"
  decompression_jobs_soft :: "u64 option"
  decompression_jobs_hard :: "u64 option"
  request_body_buffered_bytes_soft :: "u64 option"
  request_body_buffered_bytes_hard :: "u64 option"

record OverloadSoftActions =
  soft_disable_cache_fill :: bool
  soft_compression_level_cap :: "u8 option"
  soft_reject_priority_classes :: "PriorityClass list"
  soft_retry_budget_multiplier :: f64
  soft_waf_body_inspection_concurrency_cap :: nat
  soft_decompression_concurrency_cap :: nat
  soft_prefer_cached_or_stale :: bool

record OverloadHardActions =
  reject_new_connections :: bool
  reject_new_streams :: bool
  reject_new_requests :: bool
  stop_large_request_bodies :: bool
  large_request_body_threshold_bytes :: u64
  hard_disable_cache_fill :: bool
  disable_compression :: bool
  disable_retries :: bool
  disable_request_mirroring :: bool
  reject_expensive_waf_bodies :: bool
  enter_recoverable_drain :: bool
  fail_readiness :: bool
  hard_response_status :: u16
  hard_retry_after_seconds :: u64

record OverloadActions =
  oa_soft :: OverloadSoftActions
  oa_hard :: OverloadHardActions

record OverloadReservedCapacity =
  rc_file_descriptors :: u64
  rc_admin_connections :: nat
  rc_admin_requests :: nat
  rc_health_connections :: nat
  rc_health_requests :: nat
  rc_metrics_connections :: nat
  rc_metrics_requests :: nat

record OverloadConfig =
  oc_enabled :: bool
  oc_sample_interval_ms :: u64
  oc_soft_enter_samples :: u32
  oc_recovery_samples :: u32
  oc_recovery_ratio :: f64
  oc_signal_stale_timeout_ms :: u64
  oc_thresholds :: OverloadThresholds
  oc_actions :: OverloadActions
  oc_reserved_capacity :: OverloadReservedCapacity

section \<open>Defaults\<close>

text \<open>A decimal literal such as \<open>0.75\<close> is the double next to it, so the ratios take the rounding as a parameter.\<close>

definition thresholds_default :: "(rat \<Rightarrow> rat) \<Rightarrow> OverloadThresholds" where
  "thresholds_default rnd = \<lparr>
     memory_soft_ratio = Finite (rnd (75 / 100)), memory_hard_ratio = Finite (rnd (90 / 100)),
     fd_soft_ratio = Finite (rnd (75 / 100)), fd_hard_ratio = Finite (rnd (90 / 100)),
     cpu_soft_ratio = Finite (rnd (85 / 100)), cpu_hard_ratio = Finite (rnd (95 / 100)),
     event_loop_lag_soft_ms = 25, event_loop_lag_hard_ms = 100,
     shared_state_waiters_soft = 100, shared_state_waiters_hard = 500,
     downstream_connections_soft = None, downstream_connections_hard = None,
     active_requests_soft = None, active_requests_hard = None,
     h2_streams_soft = None, h2_streams_hard = None, h3_streams_soft = None, h3_streams_hard = None,
     pending_upstream_requests_soft = None, pending_upstream_requests_hard = None,
     retry_concurrency_soft = None, retry_concurrency_hard = None,
     cache_fill_concurrency_soft = None, cache_fill_concurrency_hard = None,
     waf_body_inspection_concurrency_soft = None, waf_body_inspection_concurrency_hard = None,
     compression_jobs_soft = None, compression_jobs_hard = None,
     decompression_jobs_soft = None, decompression_jobs_hard = None,
     request_body_buffered_bytes_soft = None, request_body_buffered_bytes_hard = None\<rparr>"

definition soft_actions_default :: OverloadSoftActions where
  "soft_actions_default = \<lparr>soft_disable_cache_fill = True, soft_compression_level_cap = Some 2,
     soft_reject_priority_classes = [Background, Crawler], soft_retry_budget_multiplier = Finite (1 / 2),
     soft_waf_body_inspection_concurrency_cap = 0, soft_decompression_concurrency_cap = 0, soft_prefer_cached_or_stale = True\<rparr>"

definition hard_actions_default :: OverloadHardActions where
  "hard_actions_default = \<lparr>reject_new_connections = True, reject_new_streams = True, reject_new_requests = True,
     stop_large_request_bodies = True, large_request_body_threshold_bytes = 1048576, hard_disable_cache_fill = True,
     disable_compression = True, disable_retries = True, disable_request_mirroring = True, reject_expensive_waf_bodies = True,
     enter_recoverable_drain = True, fail_readiness = True, hard_response_status = 503, hard_retry_after_seconds = 3\<rparr>"

definition reserved_default :: OverloadReservedCapacity where
  "reserved_default = \<lparr>rc_file_descriptors = 64, rc_admin_connections = 32, rc_admin_requests = 32,
     rc_health_connections = 8, rc_health_requests = 8, rc_metrics_connections = 4, rc_metrics_requests = 4\<rparr>"

definition overload_default :: "(rat \<Rightarrow> rat) \<Rightarrow> OverloadConfig" where
  "overload_default rnd = \<lparr>oc_enabled = False, oc_sample_interval_ms = 250, oc_soft_enter_samples = 2, oc_recovery_samples = 8,
     oc_recovery_ratio = Finite (rnd (90 / 100)), oc_signal_stale_timeout_ms = 2000, oc_thresholds = thresholds_default rnd,
     oc_actions = \<lparr>oa_soft = soft_actions_default, oa_hard = hard_actions_default\<rparr>, oc_reserved_capacity = reserved_default\<rparr>"

section \<open>Validation\<close>

definition validate_ratio_pair :: "string \<Rightarrow> f64 \<Rightarrow> f64 \<Rightarrow> string + unit" where
  "validate_ratio_pair name soft hard =
     ensureE (is_finite soft \<and> is_finite hard \<and> f64_less (Finite 0) soft \<and> f64_less soft hard \<and> f64_less_eq hard (Finite 1))
       (''overload.thresholds.'' @ name @ ''_soft_ratio and '' @ name @ ''_hard_ratio must satisfy 0 < soft < hard <= 1'')"

fun validate_count_pair :: "string \<Rightarrow> u64 option \<Rightarrow> u64 option \<Rightarrow> string + unit" where
  "validate_count_pair name None None = Inr ()"
| "validate_count_pair name (Some soft) (Some hard) =
     ensureE (soft > 0 \<and> soft < hard)
       (''overload.thresholds.'' @ name @ ''_soft and '' @ name @ ''_hard must both be set and satisfy 0 < soft < hard'')"
| "validate_count_pair name soft hard =
     Inl (''overload.thresholds.'' @ name @ ''_soft and '' @ name @ ''_hard must both be set and satisfy 0 < soft < hard'')"

definition optional_pairs :: "OverloadThresholds \<Rightarrow> (string \<times> u64 option \<times> u64 option) list" where
  "optional_pairs t =
     [(''downstream_connections'', downstream_connections_soft t, downstream_connections_hard t),
      (''active_requests'', active_requests_soft t, active_requests_hard t),
      (''h2_streams'', h2_streams_soft t, h2_streams_hard t),
      (''h3_streams'', h3_streams_soft t, h3_streams_hard t),
      (''pending_upstream_requests'', pending_upstream_requests_soft t, pending_upstream_requests_hard t),
      (''retry_concurrency'', retry_concurrency_soft t, retry_concurrency_hard t),
      (''cache_fill_concurrency'', cache_fill_concurrency_soft t, cache_fill_concurrency_hard t),
      (''waf_body_inspection_concurrency'', waf_body_inspection_concurrency_soft t, waf_body_inspection_concurrency_hard t),
      (''compression_jobs'', compression_jobs_soft t, compression_jobs_hard t),
      (''decompression_jobs'', decompression_jobs_soft t, decompression_jobs_hard t),
      (''request_body_buffered_bytes'', request_body_buffered_bytes_soft t, request_body_buffered_bytes_hard t)]"

fun validate_pairs :: "(string \<times> u64 option \<times> u64 option) list \<Rightarrow> string + unit" where
  "validate_pairs [] = Inr ()"
| "validate_pairs ((name, soft, hard) # pairs) = bindE (validate_count_pair name soft hard) (\<lambda>_. validate_pairs pairs)"

definition thresholds_validate :: "OverloadThresholds \<Rightarrow> string + unit" where
  "thresholds_validate t =
     bindE (validate_ratio_pair ''memory'' (memory_soft_ratio t) (memory_hard_ratio t)) (\<lambda>_.
     bindE (validate_ratio_pair ''fd'' (fd_soft_ratio t) (fd_hard_ratio t)) (\<lambda>_.
     bindE (validate_ratio_pair ''cpu'' (cpu_soft_ratio t) (cpu_hard_ratio t)) (\<lambda>_.
     bindE (validate_count_pair ''event_loop_lag_ms'' (Some (event_loop_lag_soft_ms t)) (Some (event_loop_lag_hard_ms t))) (\<lambda>_.
     bindE (validate_count_pair ''shared_state_waiters'' (Some (shared_state_waiters_soft t)) (Some (shared_state_waiters_hard t))) (\<lambda>_.
     validate_pairs (optional_pairs t))))))"

fun nonzero_capacities :: "(string \<times> nat) list \<Rightarrow> string + unit" where
  "nonzero_capacities [] = Inr ()"
| "nonzero_capacities ((name, value) # rest) =
     (if value = 0 then Inl (''overload.reserved_capacity.'' @ name @ '' must be greater than 0'') else nonzero_capacities rest)"

definition reserved_validate :: "OverloadReservedCapacity \<Rightarrow> string + unit" where
  "reserved_validate c =
     (if rc_file_descriptors c = 0 then Inl ''overload.reserved_capacity.file_descriptors must be greater than 0'' else
      nonzero_capacities
       [(''admin_connections'', rc_admin_connections c), (''admin_requests'', rc_admin_requests c),
        (''health_connections'', rc_health_connections c), (''health_requests'', rc_health_requests c),
        (''metrics_connections'', rc_metrics_connections c), (''metrics_requests'', rc_metrics_requests c)])"

definition overload_validate :: "OverloadConfig \<Rightarrow> string + unit" where
  "overload_validate c =
     (let soft = oa_soft (oc_actions c); hard = oa_hard (oc_actions c) in
      if oc_sample_interval_ms c = 0 then Inl ''overload.sample_interval_ms must be greater than 0''
      else if oc_soft_enter_samples c = 0 \<or> oc_recovery_samples c = 0
        then Inl ''overload soft_enter_samples and recovery_samples must be greater than 0''
      else if \<not> (f64_less (Finite 0) (oc_recovery_ratio c) \<and> f64_less (oc_recovery_ratio c) (Finite 1))
        then Inl ''overload.recovery_ratio must be greater than 0 and less than 1''
      else if oc_signal_stale_timeout_ms c < oc_sample_interval_ms c
        then Inl ''overload.signal_stale_timeout_ms must be at least overload.sample_interval_ms''
      else bindE (thresholds_validate (oc_thresholds c)) (\<lambda>_.
        if \<not> is_finite (soft_retry_budget_multiplier soft) \<or>
           \<not> (f64_less_eq (Finite 0) (soft_retry_budget_multiplier soft) \<and> f64_less_eq (soft_retry_budget_multiplier soft) (Finite 1))
          then Inl ''overload.actions.soft.retry_budget_multiplier must be finite and between 0 and 1''
        else if (case soft_compression_level_cap soft of Some value \<Rightarrow> value > 9 | None \<Rightarrow> False)
          then Inl ''overload.actions.soft.compression_level_cap must be between 0 and 9''
        else if \<exists>class \<in> set (soft_reject_priority_classes soft). \<not> is_soft_sheddable class
          then Inl ''overload.actions.soft.reject_priority_classes may contain only background or crawler''
        else if stop_large_request_bodies hard \<and> large_request_body_threshold_bytes hard = 0
          then Inl ''overload.actions.hard.large_request_body_threshold_bytes must be greater than 0''
        else if \<not> (500 \<le> hard_response_status hard \<and> hard_response_status hard \<le> 599)
          then Inl ''overload.actions.hard.response_status must be a 5xx status''
        else if hard_retry_after_seconds hard = 0
          then Inl ''overload.actions.hard.retry_after_seconds must be greater than 0''
        else reserved_validate (oc_reserved_capacity c)))"

section \<open>What validation gives\<close>

lemma validate_ratio_pair_ok:
  "validate_ratio_pair name soft hard = Inr u \<longleftrightarrow> (\<exists>s h. soft = Finite s \<and> hard = Finite h \<and> 0 < s \<and> s < h \<and> h \<le> 1)"
  by (auto simp: validate_ratio_pair_def ensureE_def is_finite_iff)

lemma validate_count_pair_ok:
  "validate_count_pair name soft hard = Inr u \<longleftrightarrow>
     soft = None \<and> hard = None \<or> (\<exists>s h. soft = Some s \<and> hard = Some h \<and> 0 < s \<and> s < h)"
  by (cases soft; cases hard) (auto simp: ensureE_def)

lemma validate_pairs_ok:
  "validate_pairs pairs = Inr u \<longleftrightarrow> (\<forall>(name, soft, hard) \<in> set pairs. validate_count_pair name soft hard = Inr ())"
  by (induction pairs rule: validate_pairs.induct) (auto simp: bindE_def split: sum.splits)

lemma thresholds_validate_ok:
  "thresholds_validate t = Inr u \<longleftrightarrow>
     validate_ratio_pair ''memory'' (memory_soft_ratio t) (memory_hard_ratio t) = Inr () \<and>
     validate_ratio_pair ''fd'' (fd_soft_ratio t) (fd_hard_ratio t) = Inr () \<and>
     validate_ratio_pair ''cpu'' (cpu_soft_ratio t) (cpu_hard_ratio t) = Inr () \<and>
     0 < event_loop_lag_soft_ms t \<and> event_loop_lag_soft_ms t < event_loop_lag_hard_ms t \<and>
     0 < shared_state_waiters_soft t \<and> shared_state_waiters_soft t < shared_state_waiters_hard t \<and>
     validate_pairs (optional_pairs t) = Inr ()"
  by (auto simp: thresholds_validate_def bindE_def ensureE_def split: sum.splits)

lemma overload_validate_ok:
  assumes "overload_validate c = Inr ()"
  shows "thresholds_validate (oc_thresholds c) = Inr ()" "0 < oc_recovery_samples c" "0 < oc_soft_enter_samples c"
    and "\<exists>r. oc_recovery_ratio c = Finite r \<and> 0 < r \<and> r < 1"
    and "\<forall>class \<in> set (soft_reject_priority_classes (oa_soft (oc_actions c))). is_soft_sheddable class"
    and "reserved_validate (oc_reserved_capacity c) = Inr ()"
proof -
  note v = assms [unfolded overload_validate_def Let_def]
  from v show "thresholds_validate (oc_thresholds c) = Inr ()" by (auto simp: bindE_def split: if_splits sum.splits)
  from v show "0 < oc_recovery_samples c" "0 < oc_soft_enter_samples c" by (auto simp: word_gt_0 split: if_splits)
  from v have "f64_less (Finite 0) (oc_recovery_ratio c)" "f64_less (oc_recovery_ratio c) (Finite 1)" by (auto split: if_splits)
  then show "\<exists>r. oc_recovery_ratio c = Finite r \<and> 0 < r \<and> r < 1" by (cases "oc_recovery_ratio c") auto
  from v show "\<forall>class \<in> set (soft_reject_priority_classes (oa_soft (oc_actions c))). is_soft_sheddable class"
    "reserved_validate (oc_reserved_capacity c) = Inr ()"
    by (auto simp: bindE_def split: if_splits sum.splits)
qed

lemma overload_default_valid:
  assumes "rnd (75 / 100) < rnd (90 / 100)" "rnd (85 / 100) < rnd (95 / 100)" "0 < rnd (75 / 100)" "0 < rnd (85 / 100)"
    and "rnd (90 / 100) < 1" "rnd (95 / 100) \<le> 1"
  shows "overload_validate (overload_default rnd) = Inr ()"
proof -
  have "thresholds_validate (thresholds_default rnd) = Inr ()"
    using assms unfolding thresholds_validate_ok validate_ratio_pair_ok
    by (simp add: thresholds_default_def optional_pairs_def bindE_def)
  then show ?thesis using assms
    by (simp add: overload_validate_def overload_default_def bindE_def soft_actions_default_def hard_actions_default_def
        is_soft_sheddable_def reserved_default_def reserved_validate_def)
qed

end
