(* ===== verification/Lifecycle.thy ===== *)
theory Lifecycle
  imports Prelude "HOL-Library.Multiset"
begin

text \<open>
  The drain state of the process (\<open>src/lifecycle/drain_state.rs\<close>) and the lifecycle signal built on it
  (\<open>src/lifecycle.rs\<close>).  The atomic byte is a word and every method one atomic step on it; its contract is a
  set of reasons, as the locale \<open>drain_contract\<close> states, and the lemmas show that the byte refines the set, that
  exactly one caller starts the shutdown and that nothing ends it.

  The watch channel of tokio is a parameter: \<open>send\<close> and \<open>borrow\<close> on a channel state.  Publishing loads the
  byte and sends afterwards, so it is two steps of a caller; the signal follows the byte when callers publish
  one after the other, and it can miss a shutdown when they do not.
\<close>

unbundle bit_operations_syntax

section \<open>The drain byte\<close>

abbreviation (input) ADMIN_DRAINING :: u8 where "ADMIN_DRAINING \<equiv> push_bit 0 1"
abbreviation (input) OVERLOAD_DRAINING :: u8 where "OVERLOAD_DRAINING \<equiv> push_bit 1 1"
abbreviation (input) SHUTDOWN_DRAINING :: u8 where "SHUTDOWN_DRAINING \<equiv> push_bit 2 1"

type_synonym DrainState = u8

definition drain_new :: DrainState where
  "drain_new = 0"

definition is_draining :: "DrainState \<Rightarrow> bool" where
  "is_draining bits \<longleftrightarrow> bits \<noteq> 0"

definition is_shutdown_draining :: "DrainState \<Rightarrow> bool" where
  "is_shutdown_draining bits \<longleftrightarrow> bits AND SHUTDOWN_DRAINING \<noteq> 0"

definition drain_reason :: "DrainState \<Rightarrow> string" where
  "drain_reason bits =
     (if bits AND SHUTDOWN_DRAINING \<noteq> 0 then ''shutdown''
      else if bits AND ADMIN_DRAINING \<noteq> 0 then ''admin''
      else if bits AND OVERLOAD_DRAINING \<noteq> 0 then ''overload''
      else ''ready'')"

definition set_admin_draining :: "DrainState \<Rightarrow> DrainState" where
  "set_admin_draining bits = bits OR ADMIN_DRAINING"

definition clear_admin_draining :: "DrainState \<Rightarrow> DrainState" where
  "clear_admin_draining bits = bits AND NOT ADMIN_DRAINING"

definition set_overload_draining :: "DrainState \<Rightarrow> DrainState" where
  "set_overload_draining bits = bits OR OVERLOAD_DRAINING"

definition clear_overload_draining :: "DrainState \<Rightarrow> DrainState" where
  "clear_overload_draining bits = bits AND NOT OVERLOAD_DRAINING"

definition start_shutdown :: "DrainState \<Rightarrow> DrainState \<times> bool" where
  "start_shutdown bits = (bits OR SHUTDOWN_DRAINING, bits AND SHUTDOWN_DRAINING = 0)"

section \<open>The contract\<close>

datatype DrainReason = AdminReason | OverloadReason | ShutdownReason

datatype DrainOp = SetAdmin | ClearAdmin | SetOverload | ClearOverload | StartShutdown

text \<open>What the operations promise, on the set of reasons to drain.\<close>

fun drain_spec :: "DrainReason set \<Rightarrow> DrainOp \<Rightarrow> DrainReason set" where
  "drain_spec R SetAdmin = insert AdminReason R"
| "drain_spec R ClearAdmin = R - {AdminReason}"
| "drain_spec R SetOverload = insert OverloadReason R"
| "drain_spec R ClearOverload = R - {OverloadReason}"
| "drain_spec R StartShutdown = insert ShutdownReason R"

fun drain_step :: "DrainState \<Rightarrow> DrainOp \<Rightarrow> DrainState \<times> bool" where
  "drain_step bits SetAdmin = (set_admin_draining bits, False)"
| "drain_step bits ClearAdmin = (clear_admin_draining bits, False)"
| "drain_step bits SetOverload = (set_overload_draining bits, False)"
| "drain_step bits ClearOverload = (clear_overload_draining bits, False)"
| "drain_step bits StartShutdown = start_shutdown bits"

text \<open>A schedule of atomic operations, with how many of them were told that they started the shutdown.\<close>

fun drain_run :: "('s \<Rightarrow> DrainOp \<Rightarrow> 's \<times> bool) \<Rightarrow> 's \<Rightarrow> DrainOp list \<Rightarrow> 's \<times> nat" where
  "drain_run step s [] = (s, 0)"
| "drain_run step s (op # ops) =
     (case step s op of (s', won) \<Rightarrow> case drain_run step s' ops of (t, n) \<Rightarrow> (t, if won then Suc n else n))"

locale drain_contract =
  fixes view :: "'s \<Rightarrow> DrainReason set" and step :: "'s \<Rightarrow> DrainOp \<Rightarrow> 's \<times> bool"
  assumes view_step: "view (fst (step s op)) = drain_spec (view s) op"
    and won_step: "snd (step s op) \<longleftrightarrow> op = StartShutdown \<and> ShutdownReason \<notin> view s"
begin

lemma view_run: "view (fst (drain_run step s ops)) = foldl drain_spec (view s) ops"
proof (induction ops arbitrary: s)
  case (Cons op ops)
  then show ?case by (simp add: case_prod_unfold view_step)
qed simp

lemma shutdown_stays: "ShutdownReason \<in> view s \<Longrightarrow> ShutdownReason \<in> view (fst (drain_run step s ops))"
proof (induction ops arbitrary: s)
  case (Cons op ops)
  have "ShutdownReason \<in> view (fst (step s op))" using Cons.prems by (cases op) (simp_all add: view_step)
  then show ?case using Cons.IH by (simp add: case_prod_unfold)
qed simp

lemma winners: "snd (drain_run step s ops) = (if StartShutdown \<in> set ops \<and> ShutdownReason \<notin> view s then 1 else 0)"
proof (induction ops arbitrary: s)
  case (Cons op ops)
  have "ShutdownReason \<in> view (fst (step s op)) \<longleftrightarrow> op = StartShutdown \<or> ShutdownReason \<in> view s"
    by (cases op) (auto simp: view_step)
  then show ?case using Cons.IH [of "fst (step s op)"] won_step [of s op] by (auto simp: case_prod_unfold)
qed simp

end

section \<open>The byte refines the set of reasons\<close>

definition reasons :: "DrainState \<Rightarrow> DrainReason set" where
  "reasons bits = (if bit bits 0 then {AdminReason} else {}) \<union> (if bit bits 1 then {OverloadReason} else {}) \<union>
     (if bit bits 2 then {ShutdownReason} else {})"

lemma and_flag:
  assumes "n < 8"
  shows "(bits AND push_bit n (1 :: u8) = 0) \<longleftrightarrow> \<not> bit bits n"
proof -
  have key: "bit (bits AND push_bit n (1 :: u8)) m \<longleftrightarrow> bit bits m \<and> m = n" for m using assms by (auto simp: bit_simps)
  show ?thesis
  proof
    assume "bits AND push_bit n (1 :: u8) = 0"
    then show "\<not> bit bits n" using key [of n] by simp
  next
    assume "\<not> bit bits n"
    then have "\<not> bit (bits AND push_bit n (1 :: u8)) m" for m unfolding key by blast
    then show "bits AND push_bit n (1 :: u8) = 0" by (intro bit_word_eqI) simp
  qed
qed

lemma bit_set: "n < 8 \<Longrightarrow> bit (bits OR push_bit n (1 :: u8)) m \<longleftrightarrow> bit bits m \<or> m = n"
  by (auto simp: bit_simps)

lemma bit_clear: "n < 8 \<Longrightarrow> bit (bits AND NOT (push_bit n (1 :: u8))) m \<longleftrightarrow> bit bits m \<and> m \<noteq> n"
  by (auto simp: bit_simps dest: bit_imp_le_length)

lemma drain_bits:
  "bit (set_admin_draining bits) m \<longleftrightarrow> bit bits m \<or> m = 0"
  "bit (clear_admin_draining bits) m \<longleftrightarrow> bit bits m \<and> m \<noteq> 0"
  "bit (set_overload_draining bits) m \<longleftrightarrow> bit bits m \<or> m = 1"
  "bit (clear_overload_draining bits) m \<longleftrightarrow> bit bits m \<and> m \<noteq> 1"
  "bit (fst (start_shutdown bits)) m \<longleftrightarrow> bit bits m \<or> m = 2"
  "snd (start_shutdown bits) \<longleftrightarrow> \<not> bit bits 2"
  unfolding set_admin_draining_def clear_admin_draining_def set_overload_draining_def clear_overload_draining_def start_shutdown_def
    fst_conv snd_conv
  by (rule bit_set bit_clear and_flag; simp)+

lemma drain_flags:
  "is_shutdown_draining bits \<longleftrightarrow> bit bits 2"
  "drain_reason bits = (if bit bits 2 then ''shutdown'' else if bit bits 0 then ''admin'' else if bit bits 1 then ''overload'' else ''ready'')"
  unfolding is_shutdown_draining_def drain_reason_def
  by (subst and_flag, simp, simp) (subst and_flag, simp, subst and_flag, simp, subst and_flag, simp, simp)

interpretation byte: drain_contract reasons drain_step
proof
  fix bits :: DrainState and op
  show "reasons (fst (drain_step bits op)) = drain_spec (reasons bits) op"
    by (cases op) (auto simp: reasons_def drain_bits)
  show "snd (drain_step bits op) \<longleftrightarrow> op = StartShutdown \<and> ShutdownReason \<notin> reasons bits"
    by (cases op) (auto simp: reasons_def drain_bits)
qed

text \<open>Only the three flags are ever set.\<close>

definition drain_inv :: "DrainState \<Rightarrow> bool" where
  "drain_inv bits \<longleftrightarrow> (\<forall>n \<ge> 3. \<not> bit bits n)"

lemma drain_inv_step: "drain_inv bits \<Longrightarrow> drain_inv (fst (drain_step bits op))"
  by (cases op) (auto simp: drain_inv_def drain_bits)

lemma drain_inv_run: "drain_inv bits \<Longrightarrow> drain_inv (fst (drain_run drain_step bits ops))"
proof (induction ops arbitrary: bits)
  case (Cons op ops)
  then show ?case using drain_inv_step by (simp add: case_prod_unfold)
qed simp

lemma is_draining_reasons: "drain_inv bits \<Longrightarrow> is_draining bits \<longleftrightarrow> reasons bits \<noteq> {}"
proof -
  assume inv: "drain_inv bits"
  have "bits \<noteq> 0 \<longleftrightarrow> (\<exists>n. bit bits n)" by (metis bit_0_eq bit_word_eqI bot_apply bot_bool_def)
  also have "\<dots> \<longleftrightarrow> bit bits 0 \<or> bit bits 1 \<or> bit bits 2"
  proof
    assume "\<exists>n. bit bits n"
    then obtain n where n: "bit bits n" by blast
    then have "n < 3" using inv unfolding drain_inv_def by (metis not_le)
    then have "n = 0 \<or> n = 1 \<or> n = 2" by arith
    then show "bit bits 0 \<or> bit bits 1 \<or> bit bits 2" using n by auto
  qed blast
  finally show ?thesis by (auto simp: is_draining_def reasons_def)
qed

definition spec_reason :: "DrainReason set \<Rightarrow> string" where
  "spec_reason R = (if ShutdownReason \<in> R then ''shutdown'' else if AdminReason \<in> R then ''admin''
     else if OverloadReason \<in> R then ''overload'' else ''ready'')"

lemma drain_reason_reasons: "drain_reason bits = spec_reason (reasons bits)"
  by (auto simp: drain_flags spec_reason_def reasons_def)

text \<open>
  C11.  The atomic drain byte implements a set of reasons to drain.  For every interleaving of its operations, from
  the initial state: the reasons it shows are those of the abstract set, the process drains exactly when there
  is a reason, the reported reason is the most important one, the shutdown flag is set exactly when somebody
  asked for it (so nothing ends a shutdown), and exactly one of the callers that asked is told to carry it out.
\<close>

theorem drain_refines:
  "let (bits, winners) = drain_run drain_step drain_new ops; R = foldl drain_spec {} ops in
     reasons bits = R \<and> (is_draining bits \<longleftrightarrow> R \<noteq> {}) \<and> drain_reason bits = spec_reason R \<and>
     (is_shutdown_draining bits \<longleftrightarrow> StartShutdown \<in> set ops) \<and> winners = (if StartShutdown \<in> set ops then 1 else 0)"
proof -
  have new: "reasons drain_new = {}" "drain_inv drain_new" by (simp_all add: reasons_def drain_new_def drain_inv_def)
  let ?b = "fst (drain_run drain_step drain_new ops)"
  have view: "reasons ?b = foldl drain_spec {} ops" using byte.view_run [of drain_new ops] new by simp
  have "ShutdownReason \<in> foldl drain_spec R ops \<longleftrightarrow> StartShutdown \<in> set ops \<or> ShutdownReason \<in> R" for R
  proof (induction ops arbitrary: R)
    case (Cons op ops)
    show ?case by (cases op) (auto simp: Cons.IH)
  qed simp
  moreover have "is_shutdown_draining ?b \<longleftrightarrow> ShutdownReason \<in> reasons ?b"
    by (auto simp: drain_flags reasons_def)
  ultimately have "is_shutdown_draining ?b \<longleftrightarrow> StartShutdown \<in> set ops" unfolding view by simp
  then show ?thesis
    using view byte.winners [of drain_new ops] new is_draining_reasons [OF drain_inv_run [OF new(2)], of ops]
    by (simp add: case_prod_unfold Let_def drain_reason_reasons)
qed

section \<open>The lifecycle signal\<close>

record 'ch LifecycleState =
  ls_drain_state :: DrainState
  ls_drain_tx :: 'ch

definition lifecycle_publish :: "('ch \<Rightarrow> bool \<Rightarrow> 'ch) \<Rightarrow> 'ch LifecycleState \<Rightarrow> 'ch LifecycleState" where
  "lifecycle_publish send s = s\<lparr>ls_drain_tx := send (ls_drain_tx s) (is_draining (ls_drain_state s))\<rparr>"

definition lifecycle_set_admin_draining :: "('ch \<Rightarrow> bool \<Rightarrow> 'ch) \<Rightarrow> 'ch LifecycleState \<Rightarrow> 'ch LifecycleState" where
  "lifecycle_set_admin_draining send s = lifecycle_publish send (s\<lparr>ls_drain_state := set_admin_draining (ls_drain_state s)\<rparr>)"

definition lifecycle_clear_admin_draining :: "('ch \<Rightarrow> bool \<Rightarrow> 'ch) \<Rightarrow> 'ch LifecycleState \<Rightarrow> 'ch LifecycleState" where
  "lifecycle_clear_admin_draining send s = lifecycle_publish send (s\<lparr>ls_drain_state := clear_admin_draining (ls_drain_state s)\<rparr>)"

definition lifecycle_set_overload_draining :: "('ch \<Rightarrow> bool \<Rightarrow> 'ch) \<Rightarrow> 'ch LifecycleState \<Rightarrow> 'ch LifecycleState" where
  "lifecycle_set_overload_draining send s = lifecycle_publish send (s\<lparr>ls_drain_state := set_overload_draining (ls_drain_state s)\<rparr>)"

definition lifecycle_clear_overload_draining :: "('ch \<Rightarrow> bool \<Rightarrow> 'ch) \<Rightarrow> 'ch LifecycleState \<Rightarrow> 'ch LifecycleState" where
  "lifecycle_clear_overload_draining send s = lifecycle_publish send (s\<lparr>ls_drain_state := clear_overload_draining (ls_drain_state s)\<rparr>)"

definition lifecycle_start_shutdown :: "('ch \<Rightarrow> bool \<Rightarrow> 'ch) \<Rightarrow> 'ch LifecycleState \<Rightarrow> 'ch LifecycleState \<times> bool" where
  "lifecycle_start_shutdown send s =
     (case start_shutdown (ls_drain_state s) of (bits, won) \<Rightarrow>
        let s = s\<lparr>ls_drain_state := bits\<rparr> in if \<not> won then (s, False) else (lifecycle_publish send s, True))"

fun lifecycle_op :: "('ch \<Rightarrow> bool \<Rightarrow> 'ch) \<Rightarrow> 'ch LifecycleState \<Rightarrow> DrainOp \<Rightarrow> 'ch LifecycleState" where
  "lifecycle_op send s SetAdmin = lifecycle_set_admin_draining send s"
| "lifecycle_op send s ClearAdmin = lifecycle_clear_admin_draining send s"
| "lifecycle_op send s SetOverload = lifecycle_set_overload_draining send s"
| "lifecycle_op send s ClearOverload = lifecycle_clear_overload_draining send s"
| "lifecycle_op send s StartShutdown = fst (lifecycle_start_shutdown send s)"

text \<open>
  What a connection sees of the signals it watches: \<open>changed\<close> is the answer of \<open>has_changed\<close> (none when the sender
  is gone), the other arguments are the values of the channels.
\<close>

definition has_lifecycle_drain_transition :: "bool option \<Rightarrow> bool \<Rightarrow> bool" where
  "has_lifecycle_drain_transition changed lifecycle = (case changed of Some c \<Rightarrow> c \<and> lifecycle | None \<Rightarrow> True)"

definition is_graceful_connection_draining :: "bool \<Rightarrow> bool option \<Rightarrow> bool \<Rightarrow> bool option \<Rightarrow> bool" where
  "is_graceful_connection_draining listener changed lifecycle data_plane \<longleftrightarrow>
     listener \<or> has_lifecycle_drain_transition changed lifecycle \<or> data_plane = Some True"

definition connection_is_draining :: "bool \<Rightarrow> bool \<Rightarrow> bool option \<Rightarrow> bool" where
  "connection_is_draining listener lifecycle data_plane \<longleftrightarrow> listener \<or> lifecycle \<or> data_plane = Some True"

lemma graceful_implies_draining:
  "is_graceful_connection_draining listener (Some changed) lifecycle data_plane \<Longrightarrow> connection_is_draining listener lifecycle data_plane"
  by (auto simp: is_graceful_connection_draining_def has_lifecycle_drain_transition_def connection_is_draining_def)

text \<open>Callers that publish one after the other keep the signal equal to the byte.\<close>

lemma lifecycle_sequential:
  assumes send: "\<And>c v. borrow (send c v) = v"
    and init: "borrow (ls_drain_tx s) = is_draining (ls_drain_state s)" "ls_drain_state s = drain_new"
  shows "borrow (ls_drain_tx (foldl (lifecycle_op send) s ops)) = is_draining (ls_drain_state (foldl (lifecycle_op send) s ops))"
proof -
  have step: "borrow (ls_drain_tx (lifecycle_op send s op)) = is_draining (ls_drain_state (lifecycle_op send s op))"
    if "borrow (ls_drain_tx s) = is_draining (ls_drain_state s)" for s op
  proof (cases "op = StartShutdown \<and> \<not> snd (start_shutdown (ls_drain_state s))")
    case True
    then have "bit (ls_drain_state s) 2" using drain_bits(6) by blast
    then have "fst (start_shutdown (ls_drain_state s)) = ls_drain_state s" by (intro bit_word_eqI) (auto simp: drain_bits)
    then show ?thesis using True that by (auto simp: lifecycle_start_shutdown_def case_prod_unfold Let_def)
  next
    case False
    then show ?thesis
      by (cases op) (auto simp: lifecycle_set_admin_draining_def lifecycle_clear_admin_draining_def lifecycle_set_overload_draining_def
          lifecycle_clear_overload_draining_def lifecycle_start_shutdown_def lifecycle_publish_def case_prod_unfold Let_def send)
  qed
  show ?thesis using init(1) by (induction ops arbitrary: s) (simp_all add: step)
qed

subsection \<open>Concurrent publishers\<close>

text \<open>A caller that has changed the byte loads it and then sends what it loaded; others may run in between.\<close>

record 'ch Publishers =
  pb_bits :: DrainState
  pb_channel :: 'ch
  pb_loading :: nat
  pb_sending :: "bool multiset"

inductive publish_step :: "('ch \<Rightarrow> bool \<Rightarrow> 'ch) \<Rightarrow> 'ch Publishers \<Rightarrow> 'ch Publishers \<Rightarrow> bool" for send where
  changes: "drain_step (pb_bits p) op = (bits, won) \<Longrightarrow> op = StartShutdown \<longrightarrow> won \<Longrightarrow>
    publish_step send p (p\<lparr>pb_bits := bits, pb_loading := Suc (pb_loading p)\<rparr>)"
| loads: "pb_loading p = Suc n \<Longrightarrow>
    publish_step send p (p\<lparr>pb_loading := n, pb_sending := add_mset (is_draining (pb_bits p)) (pb_sending p)\<rparr>)"
| sends: "pb_sending p = add_mset v rest \<Longrightarrow> publish_step send p (p\<lparr>pb_channel := send (pb_channel p) v, pb_sending := rest\<rparr>)"

inductive publish_reachable :: "('ch \<Rightarrow> bool \<Rightarrow> 'ch) \<Rightarrow> 'ch \<Rightarrow> 'ch Publishers \<Rightarrow> bool" for send ch where
  publish_init: "publish_reachable send ch \<lparr>pb_bits = drain_new, pb_channel = ch, pb_loading = 0, pb_sending = {#}\<rparr>"
| publish_next: "publish_reachable send ch p \<Longrightarrow> publish_step send p p' \<Longrightarrow> publish_reachable send ch p'"

text \<open>
  A shutdown can be missed: a caller that clears an administrative drain loads the byte before another one starts the
  shutdown and sends after it.  Every caller is done, the process is shutting down, and the signal says that it is not.
\<close>

lemma signal_misses_shutdown:
  assumes send: "\<And>c v. borrow (send c v) = v"
  shows "\<exists>p. publish_reachable send ch p \<and> pb_loading p = 0 \<and> pb_sending p = {#} \<and>
    is_shutdown_draining (pb_bits p) \<and> \<not> borrow (pb_channel p)"
proof -
  let ?p = "\<lambda>bits c l ss. \<lparr>pb_bits = bits, pb_channel = c, pb_loading = l, pb_sending = ss\<rparr>"
  let ?b = "fst (start_shutdown drain_new)"
  have bits: "clear_admin_draining drain_new = drain_new" "start_shutdown drain_new = (?b, True)" "\<not> is_draining drain_new" "is_draining ?b"
      "is_shutdown_draining ?b"
    by (simp_all add: drain_new_def clear_admin_draining_def start_shutdown_def is_draining_def is_shutdown_draining_def)
  have init: "publish_reachable send ch (?p drain_new ch 0 {#})" by (rule publish_init)
  have "publish_step send (?p drain_new ch 0 {#}) (?p drain_new ch 1 {#})"
    using changes [of "?p drain_new ch 0 {#}" ClearAdmin drain_new False send] bits(1) by simp
  from publish_next [OF init this] have "publish_reachable send ch (?p drain_new ch 1 {#})" .
  moreover have "publish_step send (?p drain_new ch 1 {#}) (?p drain_new ch 0 {#False#})"
    using loads [of "?p drain_new ch 1 {#}" 0 send] bits(3) by simp
  ultimately have "publish_reachable send ch (?p drain_new ch 0 {#False#})" by (rule publish_next)
  moreover have "publish_step send (?p drain_new ch 0 {#False#}) (?p ?b ch 1 {#False#})"
    using changes [of "?p drain_new ch 0 {#False#}" StartShutdown ?b True send] bits(2) by simp
  ultimately have "publish_reachable send ch (?p ?b ch 1 {#False#})" by (rule publish_next)
  moreover have "publish_step send (?p ?b ch 1 {#False#}) (?p ?b ch 0 {#True, False#})"
    using loads [of "?p ?b ch 1 {#False#}" 0 send] bits(4) by simp
  ultimately have "publish_reachable send ch (?p ?b ch 0 {#True, False#})" by (rule publish_next)
  moreover have "publish_step send (?p ?b ch 0 {#True, False#}) (?p ?b (send ch True) 0 {#False#})"
    using sends [of "?p ?b ch 0 {#True, False#}" True "{#False#}" send] by simp
  ultimately have "publish_reachable send ch (?p ?b (send ch True) 0 {#False#})" by (rule publish_next)
  moreover have "publish_step send (?p ?b (send ch True) 0 {#False#}) (?p ?b (send (send ch True) False) 0 {#})"
    using sends [of "?p ?b (send ch True) 0 {#False#}" False "{#}" send] by simp
  ultimately have "publish_reachable send ch (?p ?b (send (send ch True) False) 0 {#})" by (rule publish_next)
  then show ?thesis using send bits(5) by (intro exI [of _ "?p ?b (send (send ch True) False) 0 {#}"]) simp
qed

end
