(* ===== verification/Overload.thy ===== *)
theory Overload
  imports Overload_Policy Lifecycle
begin

text \<open>
  The overload manager (\<open>src/overload.rs\<close>, \<open>src/overload/pressure.rs\<close>, \<open>src/overload/leases.rs\<close>, the pure parts of
  \<open>sampler.rs\<close> and \<open>process.rs\<close>): pressure samples move the state between normal, soft and hard, the state decides
  what is refused, and entering or leaving the hard state sets or clears the overload drain of theory Lifecycle.

  Atomic counters are words, so additions and subtractions wrap; arrays indexed by an enum are functions.  The clock,
  the sampled process values and the number of processors are arguments.

  The methods of the manager are functions of its state, as they act when nothing else runs.  No lock covers a whole
  method, so the section on atomic operations has them a second time, as the sequence of loads, stores, swaps and locked
  sections they are made of; theory Overload_Run interleaves those and shows that a sequence that runs alone is
  the method.  Atomic operations are taken in one order for all tasks.  The runtime health record, lock poisoning and
  log output are not modelled.
\<close>

section \<open>States, kinds of work and signals\<close>

datatype OverloadState = Normal | Soft | Hard

fun state_u8 :: "OverloadState \<Rightarrow> u8" where
  "state_u8 Normal = 0"
| "state_u8 Soft = 1"
| "state_u8 Hard = 2"

definition state_from_u8 :: "u8 \<Rightarrow> OverloadState" where
  "state_from_u8 value = (if value = 1 then Soft else if value = 2 then Hard else Normal)"

datatype WorkKind = DownstreamConnections | ActiveHttpRequests | H2Streams | H3Streams | PendingUpstreamRequests | RetryConcurrency
  | CacheFillConcurrency | WafBodyInspectionConcurrency | CompressionJobs | DecompressionJobs | SharedStateWaiters
  | RequestBodyBufferedBytes

definition ALL_WORK :: "WorkKind list" where
  "ALL_WORK = [DownstreamConnections, ActiveHttpRequests, H2Streams, H3Streams, PendingUpstreamRequests, RetryConcurrency,
     CacheFillConcurrency, WafBodyInspectionConcurrency, CompressionJobs, DecompressionJobs, SharedStateWaiters,
     RequestBodyBufferedBytes]"

datatype Signal = SigMemory | SigFileDescriptors | SigCpu | SigEventLoopLag | SigSharedStateWaiters | SigDownstreamConnections
  | SigActiveRequests | SigH2Streams | SigH3Streams | SigPendingUpstreamRequests | SigRetryConcurrency | SigCacheFillConcurrency
  | SigWafBodyInspectionConcurrency | SigCompressionJobs | SigDecompressionJobs | SigRequestBodyBufferedBytes | SigUnavailable

fun signal_index :: "Signal \<Rightarrow> nat" where
  "signal_index SigMemory = 0"
| "signal_index SigFileDescriptors = 1"
| "signal_index SigCpu = 2"
| "signal_index SigEventLoopLag = 3"
| "signal_index SigSharedStateWaiters = 4"
| "signal_index SigDownstreamConnections = 5"
| "signal_index SigActiveRequests = 6"
| "signal_index SigH2Streams = 7"
| "signal_index SigH3Streams = 8"
| "signal_index SigPendingUpstreamRequests = 9"
| "signal_index SigRetryConcurrency = 10"
| "signal_index SigCacheFillConcurrency = 11"
| "signal_index SigWafBodyInspectionConcurrency = 12"
| "signal_index SigCompressionJobs = 13"
| "signal_index SigDecompressionJobs = 14"
| "signal_index SigRequestBodyBufferedBytes = 15"
| "signal_index SigUnavailable = 16"

abbreviation (input) STATE_COUNT :: nat where "STATE_COUNT \<equiv> 3"
abbreviation (input) SIGNAL_COUNT :: nat where "SIGNAL_COUNT \<equiv> 17"

datatype OverloadBoundary = ConnectionBoundary | StreamBoundary | RequestBoundary | PriorityBoundary

section \<open>Pressure\<close>

record PressureSample =
  ps_memory_ratio :: "f64 option"
  ps_fd_ratio :: "f64 option"
  ps_cpu_ratio :: "f64 option"
  ps_event_loop_lag_ms :: u64
  ps_work :: "WorkKind \<Rightarrow> u64"

definition optional_work_thresholds :: "OverloadThresholds \<Rightarrow> bool \<Rightarrow> (WorkKind \<times> u64) list" where
  "optional_work_thresholds t hard =
     (let chosen = (\<lambda>soft hard_value. if hard then hard_value else soft) in
      List.map_filter (\<lambda>(kind, threshold). map_option (Pair kind) threshold)
       [(DownstreamConnections, chosen (downstream_connections_soft t) (downstream_connections_hard t)),
        (ActiveHttpRequests, chosen (active_requests_soft t) (active_requests_hard t)),
        (H2Streams, chosen (h2_streams_soft t) (h2_streams_hard t)),
        (H3Streams, chosen (h3_streams_soft t) (h3_streams_hard t)),
        (PendingUpstreamRequests, chosen (pending_upstream_requests_soft t) (pending_upstream_requests_hard t)),
        (RetryConcurrency, chosen (retry_concurrency_soft t) (retry_concurrency_hard t)),
        (CacheFillConcurrency, chosen (cache_fill_concurrency_soft t) (cache_fill_concurrency_hard t)),
        (WafBodyInspectionConcurrency, chosen (waf_body_inspection_concurrency_soft t) (waf_body_inspection_concurrency_hard t)),
        (CompressionJobs, chosen (compression_jobs_soft t) (compression_jobs_hard t)),
        (DecompressionJobs, chosen (decompression_jobs_soft t) (decompression_jobs_hard t)),
        (RequestBodyBufferedBytes, chosen (request_body_buffered_bytes_soft t) (request_body_buffered_bytes_hard t))])"

fun signal_for_work :: "WorkKind \<Rightarrow> Signal" where
  "signal_for_work DownstreamConnections = SigDownstreamConnections"
| "signal_for_work ActiveHttpRequests = SigActiveRequests"
| "signal_for_work H2Streams = SigH2Streams"
| "signal_for_work H3Streams = SigH3Streams"
| "signal_for_work PendingUpstreamRequests = SigPendingUpstreamRequests"
| "signal_for_work RetryConcurrency = SigRetryConcurrency"
| "signal_for_work CacheFillConcurrency = SigCacheFillConcurrency"
| "signal_for_work WafBodyInspectionConcurrency = SigWafBodyInspectionConcurrency"
| "signal_for_work CompressionJobs = SigCompressionJobs"
| "signal_for_work DecompressionJobs = SigDecompressionJobs"
| "signal_for_work SharedStateWaiters = SigSharedStateWaiters"
| "signal_for_work RequestBodyBufferedBytes = SigRequestBodyBufferedBytes"

definition threshold_signal :: "PressureSample \<Rightarrow> OverloadConfig \<Rightarrow> bool \<Rightarrow> Signal option" where
  "threshold_signal sample config hard =
     (let t = oc_thresholds config;
          ratio = (\<lambda>value soft hard_value. case value of
             Some v \<Rightarrow> f64_less_eq (if hard then hard_value else soft) v | None \<Rightarrow> False) in
      if ratio (ps_memory_ratio sample) (memory_soft_ratio t) (memory_hard_ratio t) then Some SigMemory
      else if ratio (ps_fd_ratio sample) (fd_soft_ratio t) (fd_hard_ratio t) then Some SigFileDescriptors
      else if ratio (ps_cpu_ratio sample) (cpu_soft_ratio t) (cpu_hard_ratio t) then Some SigCpu
      else if ps_event_loop_lag_ms sample \<ge> (if hard then event_loop_lag_hard_ms t else event_loop_lag_soft_ms t)
        then Some SigEventLoopLag
      else if ps_work sample SharedStateWaiters \<ge> (if hard then shared_state_waiters_hard t else shared_state_waiters_soft t)
        then Some SigSharedStateWaiters
      else map_option (\<lambda>(kind, _). signal_for_work kind)
        (List.find (\<lambda>(kind, threshold). ps_work sample kind \<ge> threshold) (optional_work_thresholds t hard)))"

text \<open>\<open>(threshold as f64 * ratio) as u64\<close>: the cast truncates and saturates.\<close>

definition f64_as_u64 :: "f64 \<Rightarrow> u64" where
  "f64_as_u64 x = of_nat (f64_floor_usize x)"

definition scaled_count :: "(rat \<Rightarrow> rat) \<Rightarrow> u64 \<Rightarrow> f64 \<Rightarrow> u64" where
  "scaled_count rnd threshold ratio = f64_as_u64 (f64_scale rnd (unat threshold) ratio)"

definition f64_mul :: "(rat \<Rightarrow> rat) \<Rightarrow> f64 \<Rightarrow> f64 \<Rightarrow> f64" where
  "f64_mul rnd a b =
     (case (a, b) of
        (Finite x, Finite y) \<Rightarrow> Finite (rnd (x * y))
      | (NaN, _) \<Rightarrow> NaN
      | (_, NaN) \<Rightarrow> NaN
      | _ \<Rightarrow> if a = Finite 0 \<or> b = Finite 0 then NaN
             else if f64_less a (Finite 0) \<noteq> f64_less b (Finite 0) then NegInf else PosInf)"

definition below_recovery_thresholds :: "(rat \<Rightarrow> rat) \<Rightarrow> PressureSample \<Rightarrow> OverloadConfig \<Rightarrow> bool" where
  "below_recovery_thresholds rnd sample config =
     (let t = oc_thresholds config; ratio = oc_recovery_ratio config;
          below = (\<lambda>value limit. case value of Some v \<Rightarrow> f64_less v (f64_mul rnd limit ratio) | None \<Rightarrow> True) in
      below (ps_memory_ratio sample) (memory_soft_ratio t) \<and>
      below (ps_fd_ratio sample) (fd_soft_ratio t) \<and>
      below (ps_cpu_ratio sample) (cpu_soft_ratio t) \<and>
      ps_event_loop_lag_ms sample < scaled_count rnd (event_loop_lag_soft_ms t) ratio \<and>
      ps_work sample SharedStateWaiters < scaled_count rnd (shared_state_waiters_soft t) ratio \<and>
      list_all (\<lambda>(kind, threshold). ps_work sample kind < scaled_count rnd threshold ratio) (optional_work_thresholds t False))"

definition transition_index :: "OverloadState \<Rightarrow> OverloadState \<Rightarrow> Signal \<Rightarrow> nat" where
  "transition_index from to signal =
     ((unat (state_u8 from) * STATE_COUNT) + unat (state_u8 to)) * SIGNAL_COUNT + signal_index signal"

section \<open>The manager\<close>

record CpuBaseline =
  cb_usage_usec :: u64
  cb_at :: instant

record SamplingState =
  sp_soft_samples :: u32
  sp_recovery_samples :: u32
  sp_probe_failure_since :: "instant option"
  sp_cpu :: "CpuBaseline option"

record LatestSample =
  lt_rss_bytes :: u64
  lt_memory_current_bytes :: u64
  lt_memory_limit_bytes :: u64
  lt_fd_used :: u64
  lt_fd_limit :: u64
  lt_event_loop_lag_ms :: u64
  lt_memory_ratio :: f64
  lt_fd_ratio :: f64
  lt_cpu_ratio :: f64

datatype ControlPlane = AdminPlane | HealthPlane | MetricsPlane

datatype ControlSlot = ConnectionSlot | RequestSlot

record OverloadRuntime =
  or_config :: OverloadConfig
  or_state :: u8
  or_enabled :: bool
  or_work :: "WorkKind \<Rightarrow> u64"
  or_transitions :: "nat \<Rightarrow> u64"
  or_signal_available :: "Signal \<Rightarrow> bool"
  or_rejections :: "OverloadBoundary \<Rightarrow> u64"
  or_control_connections :: "ControlPlane \<Rightarrow> u64"
  or_control_requests :: "ControlPlane \<Rightarrow> u64"
  or_latest :: LatestSample
  or_sampling :: SamplingState

definition overload_new :: "OverloadConfig \<Rightarrow> OverloadRuntime" where
  "overload_new config = \<lparr>or_config = config, or_state = state_u8 Normal, or_enabled = oc_enabled config,
     or_work = (\<lambda>_. 0), or_transitions = (\<lambda>_. 0), or_signal_available = (\<lambda>_. False), or_rejections = (\<lambda>_. 0),
     or_control_connections = (\<lambda>_. 0), or_control_requests = (\<lambda>_. 0),
     or_latest = \<lparr>lt_rss_bytes = 0, lt_memory_current_bytes = 0, lt_memory_limit_bytes = 0, lt_fd_used = 0, lt_fd_limit = 0,
       lt_event_loop_lag_ms = 0, lt_memory_ratio = Finite 0, lt_fd_ratio = Finite 0, lt_cpu_ratio = Finite 0\<rparr>,
     or_sampling = \<lparr>sp_soft_samples = 0, sp_recovery_samples = 0, sp_probe_failure_since = None, sp_cpu = None\<rparr>\<rparr>"

definition overload_state :: "OverloadRuntime \<Rightarrow> OverloadState" where
  "overload_state rt = state_from_u8 (or_state rt)"

definition overload_transition ::
  "('ch \<Rightarrow> bool \<Rightarrow> 'ch) \<Rightarrow> OverloadRuntime \<times> 'ch LifecycleState \<Rightarrow> OverloadState \<Rightarrow> Signal \<Rightarrow> OverloadRuntime \<times> 'ch LifecycleState" where
  "overload_transition send w next signal =
     (case w of (rt, ls) \<Rightarrow>
      let previous = state_from_u8 (or_state rt); rt = rt\<lparr>or_state := state_u8 next\<rparr> in
      if previous = next then (rt, ls)
      else
        let i = transition_index previous next signal;
            rt = rt\<lparr>or_transitions := (or_transitions rt)(i := or_transitions rt i + 1)\<rparr>;
            config = or_config rt in
        if next = Hard \<and> enter_recoverable_drain (oa_hard (oc_actions config)) then (rt, lifecycle_set_overload_draining send ls)
        else if next \<noteq> Hard then (rt, lifecycle_clear_overload_draining send ls)
        else (rt, ls))"

definition overload_configure ::
  "('ch \<Rightarrow> bool \<Rightarrow> 'ch) \<Rightarrow> OverloadRuntime \<times> 'ch LifecycleState \<Rightarrow> OverloadConfig \<Rightarrow> OverloadRuntime \<times> 'ch LifecycleState" where
  "overload_configure send w config =
     (case w of (rt, ls) \<Rightarrow>
      let rt = rt\<lparr>or_config := config, or_enabled := oc_enabled config\<rparr> in
      if \<not> oc_enabled config then
        (case overload_transition send (rt, ls) Normal SigUnavailable of (rt, ls) \<Rightarrow> (rt, lifecycle_clear_overload_draining send ls))
      else if overload_state rt = Hard \<and> enter_recoverable_drain (oa_hard (oc_actions config))
        then (rt, lifecycle_set_overload_draining send ls)
      else (rt, lifecycle_clear_overload_draining send ls))"

definition word_saturating_add :: "'a::len word \<Rightarrow> 'a word \<Rightarrow> 'a word" where
  "word_saturating_add a b = (if a + b < a then - 1 else a + b)"

definition apply_pressure_sample ::
  "(rat \<Rightarrow> rat) \<Rightarrow> ('ch \<Rightarrow> bool \<Rightarrow> 'ch) \<Rightarrow> OverloadRuntime \<times> 'ch LifecycleState \<Rightarrow> PressureSample \<Rightarrow>
   OverloadRuntime \<times> 'ch LifecycleState" where
  "apply_pressure_sample rnd send w sample =
     (case w of (rt, ls) \<Rightarrow>
      let config = or_config rt; sampling = or_sampling rt in
      case threshold_signal sample config True of
        Some signal \<Rightarrow> overload_transition send (rt\<lparr>or_sampling := sampling\<lparr>sp_soft_samples := 0\<rparr>\<rparr>, ls) Hard signal
      | None \<Rightarrow>
        (case (overload_state rt, threshold_signal sample config False) of
           (Normal, Some signal) \<Rightarrow>
             let soft_samples = word_saturating_add (sp_soft_samples sampling) 1 in
             if soft_samples \<ge> oc_soft_enter_samples config
             then overload_transition send
               (rt\<lparr>or_sampling := sampling\<lparr>sp_soft_samples := 0, sp_recovery_samples := 0\<rparr>\<rparr>, ls) Soft signal
             else (rt\<lparr>or_sampling := sampling\<lparr>sp_soft_samples := soft_samples\<rparr>\<rparr>, ls)
         | (Normal, None) \<Rightarrow> (rt\<lparr>or_sampling := sampling\<lparr>sp_soft_samples := 0\<rparr>\<rparr>, ls)
         | (_, Some _) \<Rightarrow> (rt\<lparr>or_sampling := sampling\<lparr>sp_recovery_samples := 0\<rparr>\<rparr>, ls)
         | (state, None) \<Rightarrow>
             if below_recovery_thresholds rnd sample config then
               let recovery_samples = word_saturating_add (sp_recovery_samples sampling) 1 in
               if recovery_samples \<ge> oc_recovery_samples config
               then overload_transition send (rt\<lparr>or_sampling := sampling\<lparr>sp_recovery_samples := 0\<rparr>\<rparr>, ls)
                 (if state = Hard then Soft else Normal) SigUnavailable
               else (rt\<lparr>or_sampling := sampling\<lparr>sp_recovery_samples := recovery_samples\<rparr>\<rparr>, ls)
             else (rt\<lparr>or_sampling := sampling\<lparr>sp_recovery_samples := 0\<rparr>\<rparr>, ls)))"

definition record_probe_failure ::
  "('ch \<Rightarrow> bool \<Rightarrow> 'ch) \<Rightarrow> OverloadRuntime \<times> 'ch LifecycleState \<Rightarrow> instant \<Rightarrow> instant \<Rightarrow> OverloadRuntime \<times> 'ch LifecycleState" where
  "record_probe_failure send w now later =
     (case w of (rt, ls) \<Rightarrow>
      let rt = rt\<lparr>or_signal_available := (or_signal_available rt)(SigMemory := False, SigFileDescriptors := False, SigCpu := False)\<rparr>;
          timeout = oc_signal_stale_timeout_ms (or_config rt);
          first_failure = (case sp_probe_failure_since (or_sampling rt) of Some t \<Rightarrow> t | None \<Rightarrow> now);
          rt = rt\<lparr>or_sampling := (or_sampling rt)\<lparr>sp_probe_failure_since := Some first_failure\<rparr>\<rparr> in
      if saturating_duration_since later first_failure \<ge> from_millis timeout
      then overload_transition send (rt, ls) Hard SigUnavailable else (rt, ls))"

section \<open>Process samples\<close>

record ProcessSample =
  sm_rss_bytes :: u64
  sm_memory_current_bytes :: u64
  sm_memory_limit_bytes :: "u64 option"
  sm_fd_used :: u64
  sm_fd_limit :: u64
  sm_cpu_usage_usec :: u64
  sm_cpu_capacity :: f64

text \<open>The observation of a control group is its usage, when readable, and its limit.\<close>

definition select_memory_values :: "u64 \<Rightarrow> (u64 option \<times> u64) option \<Rightarrow> u64 option \<Rightarrow> string + u64 \<times> u64 option" where
  "select_memory_values rss_bytes cgroup_memory host_memory_bytes =
     (case cgroup_memory of
        None \<Rightarrow> Inr (rss_bytes, host_memory_bytes)
      | Some (current, limit) \<Rightarrow>
          bindE (option_okE ''finite cgroup memory limit has no readable same-hierarchy usage value'' current)
            (\<lambda>current_bytes. Inr (current_bytes, Some limit)))"

definition u64_ratio :: "(rat \<Rightarrow> rat) \<Rightarrow> u64 \<Rightarrow> u64 \<Rightarrow> rat" where
  "u64_ratio rnd a b = rnd (rnd (of_nat (unat a)) / rnd (of_nat (unat b)))"

definition f64_max_one :: "f64 \<Rightarrow> f64" where
  "f64_max_one x = (case x of Finite r \<Rightarrow> Finite (max r 1) | PosInf \<Rightarrow> PosInf | _ \<Rightarrow> Finite 1)"

definition cpu_share :: "(rat \<Rightarrow> rat) \<Rightarrow> u64 \<Rightarrow> u64 \<Rightarrow> f64 \<Rightarrow> f64" where
  "cpu_share rnd consumed elapsed capacity =
     (case f64_max_one capacity of
        Finite c \<Rightarrow> Finite (min (rnd (u64_ratio rnd consumed elapsed / c)) 1)
      | _ \<Rightarrow> Finite 0)"

definition as_millis_u64 :: "duration \<Rightarrow> u64" where
  "as_millis_u64 d = of_nat (min (d div NANOS_PER_MILLI) USIZE_MAX)"

definition cpu_ratio_of :: "(rat \<Rightarrow> rat) \<Rightarrow> CpuBaseline option \<Rightarrow> ProcessSample \<Rightarrow> instant \<Rightarrow> f64 option" where
  "cpu_ratio_of rnd baseline sample now =
     Option.bind baseline (\<lambda>previous.
       let elapsed_usec = of_nat (saturating_duration_since now (cb_at previous) div 1000) :: u64;
           consumed_usec = (if sm_cpu_usage_usec sample < cb_usage_usec previous then 0 else sm_cpu_usage_usec sample - cb_usage_usec previous) in
       if elapsed_usec > 0 \<and> sm_cpu_usage_usec sample > 0
       then Some (cpu_share rnd consumed_usec elapsed_usec (sm_cpu_capacity sample)) else None)"

definition memory_ratio_of :: "(rat \<Rightarrow> rat) \<Rightarrow> ProcessSample \<Rightarrow> f64 option" where
  "memory_ratio_of rnd sample =
     Option.bind (sm_memory_limit_bytes sample) (\<lambda>limit.
       if limit > 0 then Some (Finite (u64_ratio rnd (max (sm_memory_current_bytes sample) (sm_rss_bytes sample)) limit)) else None)"

definition fd_ratio_of :: "(rat \<Rightarrow> rat) \<Rightarrow> ProcessSample \<Rightarrow> u64 \<Rightarrow> f64 option" where
  "fd_ratio_of rnd sample reserved =
     (if sm_fd_limit sample > 0 then Some (Finite (u64_ratio rnd (word_saturating_add (sm_fd_used sample) reserved) (sm_fd_limit sample))) else None)"

definition latest_of :: "ProcessSample \<Rightarrow> duration \<Rightarrow> f64 option \<Rightarrow> f64 option \<Rightarrow> f64 option \<Rightarrow> LatestSample" where
  "latest_of sample event_loop_lag memory_ratio fd_ratio cpu_ratio =
     (let ratio_or_0 = (\<lambda>r. case r of Some v \<Rightarrow> v | None \<Rightarrow> Finite 0) in
      \<lparr>lt_rss_bytes = sm_rss_bytes sample, lt_memory_current_bytes = sm_memory_current_bytes sample,
       lt_memory_limit_bytes = (case sm_memory_limit_bytes sample of Some l \<Rightarrow> l | None \<Rightarrow> 0),
       lt_fd_used = sm_fd_used sample, lt_fd_limit = sm_fd_limit sample, lt_event_loop_lag_ms = as_millis_u64 event_loop_lag,
       lt_memory_ratio = ratio_or_0 memory_ratio, lt_fd_ratio = ratio_or_0 fd_ratio, lt_cpu_ratio = ratio_or_0 cpu_ratio\<rparr>)"

definition available_of :: "(Signal \<Rightarrow> bool) \<Rightarrow> f64 option \<Rightarrow> f64 option \<Rightarrow> f64 option \<Rightarrow> Signal \<Rightarrow> bool" where
  "available_of available memory_ratio fd_ratio cpu_ratio =
     fold (\<lambda>kind a. a(signal_for_work kind := True)) ALL_WORK
       (available(SigMemory := memory_ratio \<noteq> None, SigFileDescriptors := fd_ratio \<noteq> None, SigCpu := cpu_ratio \<noteq> None,
          SigEventLoopLag := True, SigSharedStateWaiters := True))"

definition apply_process_sample ::
  "(rat \<Rightarrow> rat) \<Rightarrow> ('ch \<Rightarrow> bool \<Rightarrow> 'ch) \<Rightarrow> OverloadRuntime \<times> 'ch LifecycleState \<Rightarrow> ProcessSample \<Rightarrow> duration \<Rightarrow> u64 \<Rightarrow> instant \<Rightarrow>
   OverloadRuntime \<times> 'ch LifecycleState" where
  "apply_process_sample rnd send w sample event_loop_lag shared_state_waiters now =
     (case w of (rt, ls) \<Rightarrow>
      let cpu_ratio = cpu_ratio_of rnd (sp_cpu (or_sampling rt)) sample now;
          memory_ratio = memory_ratio_of rnd sample;
          fd_ratio = fd_ratio_of rnd sample (rc_file_descriptors (oc_reserved_capacity (or_config rt)));
          work = (or_work rt)(SharedStateWaiters := shared_state_waiters);
          rt = rt\<lparr>or_work := work,
                  or_sampling := (or_sampling rt)\<lparr>sp_cpu := Some \<lparr>cb_usage_usec = sm_cpu_usage_usec sample, cb_at = now\<rparr>,
                    sp_probe_failure_since := None\<rparr>,
                  or_latest := latest_of sample event_loop_lag memory_ratio fd_ratio cpu_ratio,
                  or_signal_available := available_of (or_signal_available rt) memory_ratio fd_ratio cpu_ratio\<rparr> in
      apply_pressure_sample rnd send (rt, ls)
        \<lparr>ps_memory_ratio = memory_ratio, ps_fd_ratio = fd_ratio, ps_cpu_ratio = cpu_ratio,
         ps_event_loop_lag_ms = as_millis_u64 event_loop_lag,
         ps_work = (\<lambda>kind. if kind = SharedStateWaiters then max (work kind) shared_state_waiters else work kind)\<rparr>)"

section \<open>Atomic operations\<close>

text \<open>
  What a pressure sample decides, given the configuration that was loaded, the state that was read and the sampling
  record under its lock: the next sampling record and at most one transition.
\<close>

definition pressure_decide ::
  "(rat \<Rightarrow> rat) \<Rightarrow> OverloadConfig \<Rightarrow> OverloadState \<Rightarrow> SamplingState \<Rightarrow> PressureSample \<Rightarrow>
   SamplingState \<times> (OverloadState \<times> Signal) option" where
  "pressure_decide rnd config state sampling sample =
     (let soft = word_saturating_add (sp_soft_samples sampling) 1;
          recovery = word_saturating_add (sp_recovery_samples sampling) 1 in
      case threshold_signal sample config True of
        Some signal \<Rightarrow> (sampling\<lparr>sp_soft_samples := 0\<rparr>, Some (Hard, signal))
      | None \<Rightarrow>
        (case threshold_signal sample config False of
           Some signal \<Rightarrow>
             if state \<noteq> Normal then (sampling\<lparr>sp_recovery_samples := 0\<rparr>, None)
             else if soft \<ge> oc_soft_enter_samples config
             then (sampling\<lparr>sp_soft_samples := 0, sp_recovery_samples := 0\<rparr>, Some (Soft, signal))
             else (sampling\<lparr>sp_soft_samples := soft\<rparr>, None)
         | None \<Rightarrow>
             if state = Normal then (sampling\<lparr>sp_soft_samples := 0\<rparr>, None)
             else if \<not> below_recovery_thresholds rnd sample config then (sampling\<lparr>sp_recovery_samples := 0\<rparr>, None)
             else if recovery \<ge> oc_recovery_samples config
             then (sampling\<lparr>sp_recovery_samples := 0\<rparr>, Some (if state = Hard then Soft else Normal, SigUnavailable))
             else (sampling\<lparr>sp_recovery_samples := recovery\<rparr>, None)))"

text \<open>
  The operations of \<open>configure\<close>, \<open>transition\<close>, \<open>sample\<close> and what they call, each with the local values it needs.
  \<open>AwaitProbe\<close> is the point where \<open>sample\<close> waits for the process values.
\<close>

datatype ManagerOp =
    StoreConfig OverloadConfig
  | StoreEnabled OverloadConfig
  | FollowState OverloadConfig
  | SwapState OverloadState Signal
  | CountTransition nat OverloadState
  | ApplyActions OverloadState
  | SetDrain
  | ClearDrain
  | LoadDrain
  | SendDrain bool
  | CheckEnabled
  | AwaitProbe
  | StoreWaiters ProcessSample duration u64 instant
  | CpuSection ProcessSample duration u64 instant
  | LoadReserve ProcessSample duration u64 "f64 option"
  | StoreLatest LatestSample PressureSample u64
  | StoreAvailable PressureSample u64
  | ReadWork "WorkKind list" PressureSample u64
  | LoadConfig PressureSample
  | Decide OverloadConfig PressureSample
  | ClearSignals instant instant
  | ProbeFailed instant instant

text \<open>An operation on the manager and the drain state, and what the method goes on with.\<close>

fun manager_op ::
  "(rat \<Rightarrow> rat) \<Rightarrow> ('ch \<Rightarrow> bool \<Rightarrow> 'ch) \<Rightarrow> ManagerOp \<Rightarrow> OverloadRuntime \<times> 'ch LifecycleState \<Rightarrow>
   (OverloadRuntime \<times> 'ch LifecycleState) \<times> ManagerOp list" where
  "manager_op rnd send (StoreConfig config) (rt, ls) = ((rt\<lparr>or_config := config\<rparr>, ls), [StoreEnabled config])"
| "manager_op rnd send (StoreEnabled config) (rt, ls) =
     ((rt\<lparr>or_enabled := oc_enabled config\<rparr>, ls),
      if \<not> oc_enabled config then [SwapState Normal SigUnavailable, ClearDrain] else [FollowState config])"
| "manager_op rnd send (FollowState config) (rt, ls) =
     ((rt, ls), if overload_state rt = Hard \<and> enter_recoverable_drain (oa_hard (oc_actions config)) then [SetDrain] else [ClearDrain])"
| "manager_op rnd send (SwapState next signal) (rt, ls) =
     (let previous = overload_state rt in
      ((rt\<lparr>or_state := state_u8 next\<rparr>, ls),
       if previous = next then [] else [CountTransition (transition_index previous next signal) next]))"
| "manager_op rnd send (CountTransition i next) (rt, ls) =
     ((rt\<lparr>or_transitions := (or_transitions rt)(i := or_transitions rt i + 1)\<rparr>, ls), [ApplyActions next])"
| "manager_op rnd send (ApplyActions next) (rt, ls) =
     ((rt, ls), if next = Hard \<and> enter_recoverable_drain (oa_hard (oc_actions (or_config rt))) then [SetDrain]
        else if next \<noteq> Hard then [ClearDrain] else [])"
| "manager_op rnd send SetDrain (rt, ls) = ((rt, ls\<lparr>ls_drain_state := set_overload_draining (ls_drain_state ls)\<rparr>), [LoadDrain])"
| "manager_op rnd send ClearDrain (rt, ls) = ((rt, ls\<lparr>ls_drain_state := clear_overload_draining (ls_drain_state ls)\<rparr>), [LoadDrain])"
| "manager_op rnd send LoadDrain (rt, ls) = ((rt, ls), [SendDrain (is_draining (ls_drain_state ls))])"
| "manager_op rnd send (SendDrain draining) (rt, ls) = ((rt, ls\<lparr>ls_drain_tx := send (ls_drain_tx ls) draining\<rparr>), [])"
| "manager_op rnd send CheckEnabled (rt, ls) = ((rt, ls), if \<not> or_enabled rt then [ClearDrain] else [AwaitProbe])"
| "manager_op rnd send AwaitProbe (rt, ls) = ((rt, ls), [AwaitProbe])"
| "manager_op rnd send (StoreWaiters sample lag waiters now) (rt, ls) =
     ((rt\<lparr>or_work := (or_work rt)(SharedStateWaiters := waiters)\<rparr>, ls), [CpuSection sample lag waiters now])"
| "manager_op rnd send (CpuSection sample lag waiters now) (rt, ls) =
     ((rt\<lparr>or_sampling := (or_sampling rt)\<lparr>sp_cpu := Some \<lparr>cb_usage_usec = sm_cpu_usage_usec sample, cb_at = now\<rparr>,
         sp_probe_failure_since := None\<rparr>\<rparr>, ls),
      [LoadReserve sample lag waiters (cpu_ratio_of rnd (sp_cpu (or_sampling rt)) sample now)])"
| "manager_op rnd send (LoadReserve sample lag waiters cpu_ratio) (rt, ls) =
     (let memory_ratio = memory_ratio_of rnd sample;
          fd_ratio = fd_ratio_of rnd sample (rc_file_descriptors (oc_reserved_capacity (or_config rt))) in
      ((rt, ls), [StoreLatest (latest_of sample lag memory_ratio fd_ratio cpu_ratio)
        \<lparr>ps_memory_ratio = memory_ratio, ps_fd_ratio = fd_ratio, ps_cpu_ratio = cpu_ratio,
         ps_event_loop_lag_ms = as_millis_u64 lag, ps_work = (\<lambda>_. 0)\<rparr> waiters]))"
| "manager_op rnd send (StoreLatest latest sample waiters) (rt, ls) = ((rt\<lparr>or_latest := latest\<rparr>, ls), [StoreAvailable sample waiters])"
| "manager_op rnd send (StoreAvailable sample waiters) (rt, ls) =
     ((rt\<lparr>or_signal_available :=
         available_of (or_signal_available rt) (ps_memory_ratio sample) (ps_fd_ratio sample) (ps_cpu_ratio sample)\<rparr>, ls),
      [ReadWork ALL_WORK sample waiters])"
| "manager_op rnd send (ReadWork [] sample waiters) (rt, ls) = ((rt, ls), [LoadConfig sample])"
| "manager_op rnd send (ReadWork (kind # kinds) sample waiters) (rt, ls) =
     (let active = (if kind = SharedStateWaiters then max (or_work rt kind) waiters else or_work rt kind) in
      ((rt, ls), [ReadWork kinds (sample\<lparr>ps_work := (ps_work sample)(kind := active)\<rparr>) waiters]))"
| "manager_op rnd send (LoadConfig sample) (rt, ls) = ((rt, ls), [Decide (or_config rt) sample])"
| "manager_op rnd send (Decide config sample) (rt, ls) =
     (case pressure_decide rnd config (overload_state rt) (or_sampling rt) sample of (sampling, transition) \<Rightarrow>
      ((rt\<lparr>or_sampling := sampling\<rparr>, ls), case transition of Some (next, signal) \<Rightarrow> [SwapState next signal] | None \<Rightarrow> []))"
| "manager_op rnd send (ClearSignals now later) (rt, ls) =
     ((rt\<lparr>or_signal_available := (or_signal_available rt)(SigMemory := False, SigFileDescriptors := False, SigCpu := False)\<rparr>, ls),
      [ProbeFailed now later])"
| "manager_op rnd send (ProbeFailed now later) (rt, ls) =
     (let first_failure = (case sp_probe_failure_since (or_sampling rt) of Some t \<Rightarrow> t | None \<Rightarrow> now) in
      ((rt\<lparr>or_sampling := (or_sampling rt)\<lparr>sp_probe_failure_since := Some first_failure\<rparr>\<rparr>, ls),
       if saturating_duration_since later first_failure \<ge> from_millis (oc_signal_stale_timeout_ms (or_config rt))
       then [SwapState Hard SigUnavailable] else []))"

text \<open>At most so many operations in a row, with nothing in between.\<close>

fun run_ops ::
  "(rat \<Rightarrow> rat) \<Rightarrow> ('ch \<Rightarrow> bool \<Rightarrow> 'ch) \<Rightarrow> nat \<Rightarrow> ManagerOp list \<Rightarrow> OverloadRuntime \<times> 'ch LifecycleState \<Rightarrow>
   ManagerOp list \<times> OverloadRuntime \<times> 'ch LifecycleState" where
  "run_ops rnd send (Suc n) (op # ops) m = (case manager_op rnd send op m of (m', rest) \<Rightarrow> run_ops rnd send n (rest @ ops) m')"
| "run_ops rnd send n ops m = (ops, m)"

section \<open>The sampler\<close>

text \<open>The sampler: how long to wait for the next sample, and how late it came.\<close>

definition sample_wait :: "instant option \<Rightarrow> duration \<Rightarrow> instant \<Rightarrow> duration" where
  "sample_wait previous target now = (case previous of Some started \<Rightarrow> target - saturating_duration_since now started | None \<Rightarrow> 0)"

definition sample_lag :: "instant option \<Rightarrow> duration \<Rightarrow> instant \<Rightarrow> duration" where
  "sample_lag previous target now = (case previous of Some started \<Rightarrow> saturating_duration_since now started - target | None \<Rightarrow> 0)"

section \<open>Actions\<close>

definition reject_large_request_body :: "OverloadRuntime \<Rightarrow> u64 option \<Rightarrow> bool" where
  "reject_large_request_body rt content_length =
     (let hard = oa_hard (oc_actions (or_config rt)) in
      overload_state rt = Hard \<and> stop_large_request_bodies hard \<and>
      (case content_length of Some len \<Rightarrow> len > large_request_body_threshold_bytes hard | None \<Rightarrow> True))"

definition reject_priority :: "OverloadRuntime \<Rightarrow> PriorityClass \<Rightarrow> OverloadRuntime \<times> bool" where
  "reject_priority rt priority =
     (let refused = overload_state rt \<noteq> Normal \<and> priority \<in> set (soft_reject_priority_classes (oa_soft (oc_actions (or_config rt)))) in
      (if refused then rt\<lparr>or_rejections := (or_rejections rt)(PriorityBoundary := or_rejections rt PriorityBoundary + 1)\<rparr> else rt, refused))"

definition cache_fill_disabled :: "OverloadRuntime \<Rightarrow> bool" where
  "cache_fill_disabled rt =
     (let actions = oc_actions (or_config rt) in
      case overload_state rt of
        Normal \<Rightarrow> False
      | Soft \<Rightarrow> soft_disable_cache_fill (oa_soft actions)
      | Hard \<Rightarrow> soft_disable_cache_fill (oa_soft actions) \<or> hard_disable_cache_fill (oa_hard actions))"

definition prefer_cached_or_stale :: "OverloadRuntime \<Rightarrow> bool" where
  "prefer_cached_or_stale rt \<longleftrightarrow> overload_state rt \<noteq> Normal \<and> soft_prefer_cached_or_stale (oa_soft (oc_actions (or_config rt)))"

definition compression_level_cap :: "OverloadRuntime \<Rightarrow> u8 option" where
  "compression_level_cap rt =
     (let actions = oc_actions (or_config rt);
          soft_cap = (case soft_compression_level_cap (oa_soft actions) of Some cap \<Rightarrow> if cap > 0 then Some cap else None | None \<Rightarrow> None) in
      case overload_state rt of
        Normal \<Rightarrow> None
      | Soft \<Rightarrow> soft_cap
      | Hard \<Rightarrow> if disable_compression (oa_hard actions) then Some 0 else soft_cap)"

definition retries_disabled :: "OverloadRuntime \<Rightarrow> bool" where
  "retries_disabled rt \<longleftrightarrow> overload_state rt = Hard \<and> disable_retries (oa_hard (oc_actions (or_config rt)))"

definition request_mirroring_disabled :: "OverloadRuntime \<Rightarrow> bool" where
  "request_mirroring_disabled rt \<longleftrightarrow> overload_state rt = Hard \<and> disable_request_mirroring (oa_hard (oc_actions (or_config rt)))"

definition retry_budget_multiplier :: "OverloadRuntime \<Rightarrow> f64" where
  "retry_budget_multiplier rt =
     (if overload_state rt = Normal then Finite 1 else soft_retry_budget_multiplier (oa_soft (oc_actions (or_config rt))))"

section \<open>Leases\<close>

datatype Version = HTTP_09 | HTTP_10 | HTTP_11 | HTTP_2 | HTTP_3

text \<open>Whether a lease holds the runtime, the kind of work and its amount.\<close>

record WorkLease =
  wl_runtime :: bool
  wl_kind :: WorkKind
  wl_amount :: u64

definition disabled_work :: "WorkKind \<Rightarrow> WorkLease" where
  "disabled_work kind = \<lparr>wl_runtime = False, wl_kind = kind, wl_amount = 0\<rparr>"

definition drop_work :: "OverloadRuntime \<Rightarrow> WorkLease \<Rightarrow> OverloadRuntime" where
  "drop_work rt l =
     (if wl_runtime l then rt\<lparr>or_work := (or_work rt)(wl_kind l := or_work rt (wl_kind l) - wl_amount l)\<rparr> else rt)"

definition work_lease :: "OverloadRuntime \<Rightarrow> WorkKind \<Rightarrow> u64 \<Rightarrow> OverloadRuntime \<times> WorkLease" where
  "work_lease rt kind amount =
     (if \<not> or_enabled rt \<or> amount = 0 then (rt, disabled_work kind)
      else (rt\<lparr>or_work := (or_work rt)(kind := or_work rt kind + amount)\<rparr>, \<lparr>wl_runtime = True, wl_kind = kind, wl_amount = amount\<rparr>))"

text \<open>The compare-and-exchange loop takes effect at the exchange that succeeds.\<close>

definition try_increment :: "u64 \<Rightarrow> u64 \<Rightarrow> u64 option" where
  "try_increment counter limit = (if counter \<ge> limit then None else Some (counter + 1))"

definition try_admit_expensive :: "nat option \<Rightarrow> OverloadRuntime \<Rightarrow> WorkKind \<Rightarrow> OverloadRuntime \<times> WorkLease option" where
  "try_admit_expensive parallelism rt kind =
     (if \<not> or_enabled rt then (rt, Some (disabled_work kind))
      else
        let actions = oc_actions (or_config rt);
            leased = (case work_lease rt kind 1 of (rt, l) \<Rightarrow> (rt, Some l)) in
        if overload_state rt = Hard \<and> reject_expensive_waf_bodies (oa_hard actions) then (rt, None)
        else if kind \<noteq> WafBodyInspectionConcurrency \<and> kind \<noteq> DecompressionJobs then leased
        else
          let configured_cap = (if kind = WafBodyInspectionConcurrency then soft_waf_body_inspection_concurrency_cap (oa_soft actions)
                else soft_decompression_concurrency_cap (oa_soft actions)) in
          if overload_state rt = Normal then leased
          else
            let cap = of_nat (if configured_cap = 0 then (case parallelism of Some n \<Rightarrow> n | None \<Rightarrow> 1) else configured_cap) in
            case try_increment (or_work rt kind) cap of
              None \<Rightarrow> (rt, None)
            | Some n \<Rightarrow> (rt\<lparr>or_work := (or_work rt)(kind := n)\<rparr>, Some \<lparr>wl_runtime = True, wl_kind = kind, wl_amount = 1\<rparr>))"

definition overload_rejected :: "OverloadRuntime \<Rightarrow> OverloadBoundary \<Rightarrow> OverloadRuntime" where
  "overload_rejected rt boundary = rt\<lparr>or_rejections := (or_rejections rt)(boundary := or_rejections rt boundary + 1)\<rparr>"

definition try_admit_connection :: "OverloadRuntime \<Rightarrow> OverloadRuntime \<times> (OverloadBoundary + WorkLease)" where
  "try_admit_connection rt =
     (if overload_state rt = Hard \<and> reject_new_connections (oa_hard (oc_actions (or_config rt)))
      then (overload_rejected rt ConnectionBoundary, Inl ConnectionBoundary)
      else case work_lease rt DownstreamConnections 1 of (rt, l) \<Rightarrow> (rt, Inr l))"

text \<open>A request lease is the lease of the request and, for HTTP/2 and HTTP/3, that of its stream.\<close>

type_synonym RequestLease = "WorkLease \<times> WorkLease option"

definition request_boundary :: "OverloadHardActions \<Rightarrow> Version \<Rightarrow> OverloadBoundary option" where
  "request_boundary hard version =
     (if version \<in> {HTTP_2, HTTP_3} \<and> reject_new_streams hard then Some StreamBoundary
      else if reject_new_requests hard then Some RequestBoundary else None)"

definition try_admit_request :: "OverloadRuntime \<Rightarrow> Version \<Rightarrow> OverloadRuntime \<times> (OverloadBoundary + RequestLease)" where
  "try_admit_request rt version =
     (case (if overload_state rt = Hard then request_boundary (oa_hard (oc_actions (or_config rt))) version else None) of
        Some boundary \<Rightarrow> (overload_rejected rt boundary, Inl boundary)
      | None \<Rightarrow>
          let (rt, stream) = (case version of
                 HTTP_2 \<Rightarrow> map_prod id Some (work_lease rt H2Streams 1)
               | HTTP_3 \<Rightarrow> map_prod id Some (work_lease rt H3Streams 1)
               | _ \<Rightarrow> (rt, None));
              (rt, request) = work_lease rt ActiveHttpRequests 1
          in (rt, Inr (request, stream)))"

record ControlLease =
  cl_plane :: ControlPlane
  cl_slot :: ControlSlot

fun control_capacity :: "OverloadReservedCapacity \<Rightarrow> ControlPlane \<Rightarrow> ControlSlot \<Rightarrow> nat" where
  "control_capacity c AdminPlane ConnectionSlot = rc_admin_connections c"
| "control_capacity c AdminPlane RequestSlot = rc_admin_requests c"
| "control_capacity c HealthPlane ConnectionSlot = rc_health_connections c"
| "control_capacity c HealthPlane RequestSlot = rc_health_requests c"
| "control_capacity c MetricsPlane ConnectionSlot = rc_metrics_connections c"
| "control_capacity c MetricsPlane RequestSlot = rc_metrics_requests c"

definition control_counter :: "OverloadRuntime \<Rightarrow> ControlPlane \<Rightarrow> ControlSlot \<Rightarrow> u64" where
  "control_counter rt plane slot =
     (case slot of ConnectionSlot \<Rightarrow> or_control_connections rt plane | RequestSlot \<Rightarrow> or_control_requests rt plane)"

definition set_control_counter :: "OverloadRuntime \<Rightarrow> ControlPlane \<Rightarrow> ControlSlot \<Rightarrow> u64 \<Rightarrow> OverloadRuntime" where
  "set_control_counter rt plane slot n =
     (case slot of
        ConnectionSlot \<Rightarrow> rt\<lparr>or_control_connections := (or_control_connections rt)(plane := n)\<rparr>
      | RequestSlot \<Rightarrow> rt\<lparr>or_control_requests := (or_control_requests rt)(plane := n)\<rparr>)"

definition try_admit_control :: "OverloadRuntime \<Rightarrow> ControlPlane \<Rightarrow> ControlSlot \<Rightarrow> OverloadRuntime \<times> ControlLease option" where
  "try_admit_control rt plane slot =
     (case try_increment (control_counter rt plane slot) (of_nat (control_capacity (oc_reserved_capacity (or_config rt)) plane slot)) of
        None \<Rightarrow> (rt, None)
      | Some n \<Rightarrow> (set_control_counter rt plane slot n, Some \<lparr>cl_plane = plane, cl_slot = slot\<rparr>))"

definition drop_control :: "OverloadRuntime \<Rightarrow> ControlLease \<Rightarrow> OverloadRuntime" where
  "drop_control rt l = set_control_counter rt (cl_plane l) (cl_slot l) (control_counter rt (cl_plane l) (cl_slot l) - 1)"

end
