(* ===== verification/Overload_Run.thy ===== *)
theory Overload_Run
  imports Overload
begin

text \<open>
  The overload manager at work: the atomic operations of its sampler task and of a reload, interleaved with each other,
  with leases and with the other users of the drain state.  The first lemmas show that a method that runs alone
  is the function of theory Overload.  The invariant has what holds in every interleaving, the counters and the state byte,
  and what holds as long as a reload does not overlap a transition of the sampler: that the overload drain follows
  the hard state.  Further lemmas show that the capacity of the control listeners does not depend on the state, and that the
  manager recovers when the pressure is gone.  The last section has runs the code does not guard against.
\<close>

section \<open>Thresholds\<close>

lemma signal_ratio_mono:
  assumes "validate_ratio_pair name soft hard = Inr ()" "f64_less_eq hard v"
  shows "f64_less_eq soft v"
proof -
  from assms(1) have "f64_less_eq soft hard" unfolding validate_ratio_pair_ok by auto
  then show ?thesis using assms(2) by (rule f64_le_trans)
qed

lemma map_filter_pairs:
  "(k, v) \<in> set (List.map_filter (\<lambda>(kind, threshold). map_option (Pair kind) threshold) xs) \<longleftrightarrow> (k, Some v) \<in> set xs"
  by (induction xs) (auto simp: List.map_filter_simps split: option.splits)

definition optional_kinds :: "WorkKind list" where
  "optional_kinds = [DownstreamConnections, ActiveHttpRequests, H2Streams, H3Streams, PendingUpstreamRequests, RetryConcurrency,
     CacheFillConcurrency, WafBodyInspectionConcurrency, CompressionJobs, DecompressionJobs, RequestBodyBufferedBytes]"

lemma optional_work_thresholds_zip:
  "optional_work_thresholds t hard =
     List.map_filter (\<lambda>(kind, threshold). map_option (Pair kind) threshold)
       (zip optional_kinds (map (\<lambda>(_, s, h). if hard then h else s) (optional_pairs t)))"
  unfolding optional_work_thresholds_def optional_kinds_def optional_pairs_def Let_def by (simp only: list.map zip_Cons_Cons zip_Nil prod.case)

lemma optional_hard_soft:
  assumes "validate_pairs (optional_pairs t) = Inr ()" "(k, h) \<in> set (optional_work_thresholds t True)"
  shows "\<exists>s. (k, s) \<in> set (optional_work_thresholds t False) \<and> s < h"
proof -
  obtain name soft hard where pair: "(k, name, soft, hard) \<in> set (zip optional_kinds (optional_pairs t))" "hard = Some h"
    using assms(2) unfolding optional_work_thresholds_zip map_filter_pairs zip_map2 by auto
  then have "validate_count_pair name soft hard = Inr ()"
    using assms(1) unfolding validate_pairs_ok by (auto dest: set_zip_rightD)
  then obtain s where "soft = Some s" "s < h" using pair(2) unfolding validate_count_pair_ok by auto
  moreover have "(k, soft) \<in> set (zip optional_kinds (map (\<lambda>(_, s, h). if False then h else s) (optional_pairs t)))"
    unfolding zip_map2 using pair(1) by force
  ultimately show ?thesis unfolding optional_work_thresholds_zip map_filter_pairs by blast
qed

lemma find_Some_iff: "List.find P xs \<noteq> None \<longleftrightarrow> (\<exists>x \<in> set xs. P x)"
  by (induction xs) auto

definition ratio_signal :: "bool \<Rightarrow> f64 option \<Rightarrow> f64 \<Rightarrow> f64 \<Rightarrow> bool" where
  "ratio_signal hard value soft hard_value \<longleftrightarrow> (case value of Some v \<Rightarrow> f64_less_eq (if hard then hard_value else soft) v | None \<Rightarrow> False)"

lemma threshold_signal_iff:
  "threshold_signal sample config hard \<noteq> None \<longleftrightarrow>
     (let t = oc_thresholds config in
      ratio_signal hard (ps_memory_ratio sample) (memory_soft_ratio t) (memory_hard_ratio t) \<or>
      ratio_signal hard (ps_fd_ratio sample) (fd_soft_ratio t) (fd_hard_ratio t) \<or>
      ratio_signal hard (ps_cpu_ratio sample) (cpu_soft_ratio t) (cpu_hard_ratio t) \<or>
      (if hard then event_loop_lag_hard_ms t else event_loop_lag_soft_ms t) \<le> ps_event_loop_lag_ms sample \<or>
      (if hard then shared_state_waiters_hard t else shared_state_waiters_soft t) \<le> ps_work sample SharedStateWaiters \<or>
      (\<exists>(kind, threshold) \<in> set (optional_work_thresholds t hard). threshold \<le> ps_work sample kind))"
proof -
  have find: "(map_option f (List.find P xs) \<noteq> None) = (\<exists>x \<in> set xs. P x)" for f :: "WorkKind \<times> u64 \<Rightarrow> Signal" and P xs
    using find_Some_iff [of P xs] by simp
  have chain: "((if b then Some x else e) \<noteq> None) = (b \<or> e \<noteq> None)" for b and x :: Signal and e by simp
  show ?thesis unfolding threshold_signal_def Let_def ratio_signal_def [symmetric] chain find ..
qed

lemma hard_implies_soft:
  assumes "thresholds_validate (oc_thresholds config) = Inr ()" "threshold_signal sample config True \<noteq> None"
  shows "threshold_signal sample config False \<noteq> None"
proof -
  let ?t = "oc_thresholds config"
  note v = assms(1) [unfolded thresholds_validate_ok]
  have mono: "ratio_signal False r soft hard" if "ratio_signal True r soft hard" "validate_ratio_pair name soft hard = Inr ()"
    for r soft hard name using that signal_ratio_mono by (auto simp: ratio_signal_def split: option.splits)
  have ratios: "ratio_signal True (ps_memory_ratio sample) (memory_soft_ratio ?t) (memory_hard_ratio ?t) \<Longrightarrow> ratio_signal False (ps_memory_ratio sample) (memory_soft_ratio ?t) (memory_hard_ratio ?t)"
    "ratio_signal True (ps_fd_ratio sample) (fd_soft_ratio ?t) (fd_hard_ratio ?t) \<Longrightarrow> ratio_signal False (ps_fd_ratio sample) (fd_soft_ratio ?t) (fd_hard_ratio ?t)"
    "ratio_signal True (ps_cpu_ratio sample) (cpu_soft_ratio ?t) (cpu_hard_ratio ?t) \<Longrightarrow> ratio_signal False (ps_cpu_ratio sample) (cpu_soft_ratio ?t) (cpu_hard_ratio ?t)"
    using v mono by blast+
  have counts: "event_loop_lag_hard_ms ?t \<le> a \<Longrightarrow> event_loop_lag_soft_ms ?t \<le> a"
    "shared_state_waiters_hard ?t \<le> a \<Longrightarrow> shared_state_waiters_soft ?t \<le> a" for a
    using v by (meson less_imp_le order_trans)+
  have opt: "\<exists>(k, s) \<in> set (optional_work_thresholds ?t False). s \<le> ps_work sample k"
    if ex: "\<exists>(k, h) \<in> set (optional_work_thresholds ?t True). h \<le> ps_work sample k"
  proof -
    from ex obtain k h where k: "(k, h) \<in> set (optional_work_thresholds ?t True)" "h \<le> ps_work sample k" by blast
    from v have "validate_pairs (optional_pairs ?t) = Inr ()" by simp
    from optional_hard_soft [OF this k(1)] obtain s where s: "(k, s) \<in> set (optional_work_thresholds ?t False)" "s < h" by blast
    with k(2) have "s \<le> ps_work sample k" by simp
    with s(1) show ?thesis by blast
  qed
  from assms(2) show ?thesis unfolding threshold_signal_iff Let_def if_True if_False using ratios counts opt by blast
qed

section \<open>Methods that run alone\<close>

lemma state_from_u8_u8 [simp]: "state_from_u8 (state_u8 s) = s"
  by (cases s) (simp_all add: state_from_u8_def)

lemma state_from_u8_values [simp]: "state_from_u8 0 = Normal" "state_from_u8 1 = Soft" "state_from_u8 2 = Hard"
  by (simp_all add: state_from_u8_def)

lemma state_u8_range [simp]: "0 \<in> range state_u8" "1 \<in> range state_u8" "2 \<in> range state_u8"
  using rangeI [of state_u8 Normal] rangeI [of state_u8 Soft] rangeI [of state_u8 Hard] by simp_all

abbreviation (input) pressure_next :: "(rat \<Rightarrow> rat) \<Rightarrow> OverloadRuntime \<Rightarrow> PressureSample \<Rightarrow> SamplingState \<times> (OverloadState \<times> Signal) option" where
  "pressure_next rnd rt sample \<equiv> pressure_decide rnd (or_config rt) (overload_state rt) (or_sampling rt) sample"

lemma apply_pressure_sample_next:
  "apply_pressure_sample rnd send (rt, ls) sample =
     (case pressure_next rnd rt sample of
        (s, None) \<Rightarrow> (rt\<lparr>or_sampling := s\<rparr>, ls)
      | (s, Some (n, signal)) \<Rightarrow> overload_transition send (rt\<lparr>or_sampling := s\<rparr>, ls) n signal)"
proof (cases "threshold_signal sample (or_config rt) True")
  case None
  note hard = this
  show ?thesis
  proof (cases "threshold_signal sample (or_config rt) False"; cases "overload_state rt")
  qed (simp_all add: hard apply_pressure_sample_def pressure_decide_def Let_def)
qed (simp add: apply_pressure_sample_def pressure_decide_def Let_def)

lemma run_ops_add:
  assumes "run_ops rnd send n ops m = (ops', m')"
  shows "run_ops rnd send (n + k) ops m = run_ops rnd send k ops' m'"
  using assms
proof (induction n arbitrary: ops m)
  case (Suc n)
  show ?case
  proof (cases ops)
    case Nil
    then show ?thesis using Suc.prems by (cases k) simp_all
  next
    case (Cons op tail)
    then show ?thesis using Suc by (auto split: prod.splits)
  qed
qed simp

lemma run_ops_append:
  assumes "run_ops rnd send n ops m = ([], m')"
  shows "\<exists>k \<le> n. run_ops rnd send k (ops @ tail) m = (tail, m')"
  using assms
proof (induction n arbitrary: ops m)
  case (Suc n)
  show ?case
  proof (cases ops)
    case (Cons op rest)
    obtain m1 next_ops where step: "manager_op rnd send op m = (m1, next_ops)" by fastforce
    then have "run_ops rnd send n (next_ops @ rest) m1 = ([], m')" using Suc.prems Cons by simp
    from Suc.IH [OF this] obtain k where "k \<le> n" "run_ops rnd send k ((next_ops @ rest) @ tail) m1 = (tail, m')" by blast
    then have "run_ops rnd send (Suc k) (ops @ tail) m = (tail, m')" using step Cons by simp
    then show ?thesis using \<open>k \<le> n\<close> Suc_le_mono by blast
  qed (use Suc.prems in auto)
qed (auto intro: exI [of _ 0])

lemma run_ops_done: "run_ops rnd send k [] m = ([], m)"
  by (cases k) simp_all

lemma run_ops_more: "run_ops rnd send n ops m = ([], m') \<Longrightarrow> n \<le> k \<Longrightarrow> run_ops rnd send k ops m = ([], m')"
  using run_ops_add [of rnd send n ops m "[]" m' "k - n"] run_ops_done by simp

lemma run_ops_chain:
  assumes "run_ops rnd send n ops m = (ops', m')" "run_ops rnd send k ops' m' = ([], m'')"
  shows "run_ops rnd send (n + k) ops m = ([], m'')"
  using run_ops_add [OF assms(1)] assms(2) by simp

lemmas run_numeral = eval_nat_numeral

text \<open>Each method run alone, from its first operation on, is the function that models it.\<close>

lemma transition_alone: "run_ops rnd send 6 [SwapState next signal] m = ([], overload_transition send m next signal)"
proof -
  obtain rt ls where m: "m = (rt, ls)" by fastforce
  show ?thesis unfolding m
    by (cases "overload_state rt = next"; cases "next = Hard"; cases "enter_recoverable_drain (oa_hard (oc_actions (or_config rt)))")
      (simp_all add: run_numeral overload_transition_def overload_state_def Let_def lifecycle_set_overload_draining_def
        lifecycle_clear_overload_draining_def lifecycle_publish_def)
qed

lemma drain_alone:
  "run_ops rnd send 3 [ClearDrain] (rt, ls) = ([], rt, lifecycle_clear_overload_draining send ls)"
  "run_ops rnd send 3 [SetDrain] (rt, ls) = ([], rt, lifecycle_set_overload_draining send ls)"
  by (simp_all add: run_numeral lifecycle_set_overload_draining_def lifecycle_clear_overload_draining_def lifecycle_publish_def)

lemma configure_alone: "run_ops rnd send 11 [StoreConfig config] m = ([], overload_configure send m config)"
proof -
  obtain rt ls where m: "m = (rt, ls)" by fastforce
  let ?rt = "rt\<lparr>or_config := config, or_enabled := oc_enabled config\<rparr>"
  show ?thesis
  proof (cases "oc_enabled config")
    case True
    have follow: "run_ops rnd send 3 [StoreConfig config] m =
        (if overload_state ?rt = Hard \<and> enter_recoverable_drain (oa_hard (oc_actions config)) then [SetDrain] else [ClearDrain], ?rt, ls)"
      using True by (simp add: m run_numeral)
    have "run_ops rnd send (3 + 3) [StoreConfig config] m = ([], overload_configure send m config)"
      using True by (intro run_ops_chain [OF follow]) (auto simp: drain_alone m overload_configure_def Let_def)
    then show ?thesis by (rule run_ops_more) simp
  next
    case False
    obtain rt' ls' where trans: "overload_transition send (?rt, ls) Normal SigUnavailable = (rt', ls')" by fastforce
    obtain k where k: "k \<le> 6" "run_ops rnd send k ([SwapState Normal SigUnavailable] @ [ClearDrain]) (?rt, ls) = ([ClearDrain], rt', ls')"
      using run_ops_append [OF transition_alone] trans by metis
    have "run_ops rnd send 2 [StoreConfig config] m = ([SwapState Normal SigUnavailable] @ [ClearDrain], ?rt, ls)"
      using False by (simp add: m run_numeral)
    from run_ops_chain [OF this run_ops_chain [OF k(2) drain_alone(1)]]
    have "run_ops rnd send (2 + (k + 3)) [StoreConfig config] m = ([], overload_configure send m config)"
      using False trans by (simp add: m overload_configure_def Let_def)
    then show ?thesis by (rule run_ops_more) (use k(1) in simp)
  qed
qed

lemma pressure_alone: "run_ops rnd send 8 [LoadConfig sample] m = ([], apply_pressure_sample rnd send m sample)"
proof -
  obtain rt ls where m: "m = (rt, ls)" by fastforce
  obtain s t where d: "pressure_next rnd rt sample = (s, t)" by fastforce
  have two: "run_ops rnd send 2 [LoadConfig sample] m =
      (case t of Some (n, signal) \<Rightarrow> [SwapState n signal] | None \<Rightarrow> [], rt\<lparr>or_sampling := s\<rparr>, ls)"
    using d by (simp add: m run_numeral)
  have "run_ops rnd send (2 + 6) [LoadConfig sample] m = ([], apply_pressure_sample rnd send m sample)"
  proof (cases t)
    case None
    then show ?thesis using d by (intro run_ops_chain [OF two]) (simp add: m apply_pressure_sample_next run_ops_done)
  next
    case (Some ns)
    then show ?thesis using d transition_alone
      by (intro run_ops_chain [OF two]) (simp add: m apply_pressure_sample_next case_prod_unfold)
  qed
  then show ?thesis by simp
qed

lemma read_work_alone:
  "run_ops rnd send (Suc (length kinds)) [ReadWork kinds sample waiters] (rt, ls) =
     ([LoadConfig (sample\<lparr>ps_work := (\<lambda>k. if k \<in> set kinds then (if k = SharedStateWaiters then max (or_work rt k) waiters else or_work rt k)
        else ps_work sample k)\<rparr>)], rt, ls)"
proof (induction kinds arbitrary: sample)
  case (Cons kind kinds)
  let ?read = "\<lambda>k. if k = SharedStateWaiters then max (or_work rt k) waiters else or_work rt k"
  let ?sample = "sample\<lparr>ps_work := (ps_work sample)(kind := ?read kind)\<rparr>"
  have step: "run_ops rnd send (Suc (Suc (length kinds))) [ReadWork (kind # kinds) sample waiters] (rt, ls) =
      run_ops rnd send (Suc (length kinds)) [ReadWork kinds ?sample waiters] (rt, ls)"
    by (subst run_ops.simps(1)) (simp only: manager_op.simps Let_def prod.case append.simps)
  have "(\<lambda>k. if k \<in> set kinds then ?read k else ps_work ?sample k) = (\<lambda>k. if k \<in> set (kind # kinds) then ?read k else ps_work sample k)"
    by auto
  then show ?case unfolding length_Cons step Cons.IH by simp
qed simp

lemma all_work: "k \<in> set ALL_WORK"
  by (cases k) (simp_all add: ALL_WORK_def)

lemma process_read_alone:
  "\<exists>rt' ps. run_ops rnd send (5 + 13) [StoreWaiters sample lag waiters now] (rt, ls) = ([LoadConfig ps], rt', ls) \<and>
     ps_memory_ratio ps = memory_ratio_of rnd sample \<and> or_config rt' = or_config rt \<and> or_state rt' = or_state rt \<and>
     apply_process_sample rnd send (rt, ls) sample lag waiters now = apply_pressure_sample rnd send (rt', ls) ps"
proof -
  define cpu where "cpu = cpu_ratio_of rnd (sp_cpu (or_sampling rt)) sample now"
  define fd where "fd = fd_ratio_of rnd sample (rc_file_descriptors (oc_reserved_capacity (or_config rt)))"
  define mem where "mem = memory_ratio_of rnd sample"
  let ?rt = "rt\<lparr>or_work := (or_work rt)(SharedStateWaiters := waiters),
    or_sampling := (or_sampling rt)\<lparr>sp_cpu := Some \<lparr>cb_usage_usec = sm_cpu_usage_usec sample, cb_at = now\<rparr>, sp_probe_failure_since := None\<rparr>,
    or_latest := latest_of sample lag mem fd cpu, or_signal_available := available_of (or_signal_available rt) mem fd cpu\<rparr>"
  let ?ps = "\<lparr>ps_memory_ratio = mem, ps_fd_ratio = fd, ps_cpu_ratio = cpu, ps_event_loop_lag_ms = as_millis_u64 lag, ps_work = (\<lambda>_. 0)\<rparr>"
  have five: "run_ops rnd send 5 [StoreWaiters sample lag waiters now] (rt, ls) = ([ReadWork ALL_WORK ?ps waiters], ?rt, ls)"
    by (simp add: run_numeral Let_def cpu_def fd_def mem_def)
  have "Suc (length ALL_WORK) = 13" by (simp add: ALL_WORK_def)
  note read = read_work_alone [of rnd send ALL_WORK ?ps waiters ?rt ls, unfolded this]
  show ?thesis unfolding run_ops_add [OF five] read
    by (simp add: apply_process_sample_def Let_def cpu_def fd_def mem_def all_work cong: if_cong)
qed

lemma process_alone:
  "run_ops rnd send 26 [StoreWaiters sample lag waiters now] m = ([], apply_process_sample rnd send m sample lag waiters now)"
proof -
  obtain rt ls where m: "m = (rt, ls)" by fastforce
  obtain rt' ps where read: "run_ops rnd send (5 + 13) [StoreWaiters sample lag waiters now] (rt, ls) = ([LoadConfig ps], rt', ls)"
    and eq: "apply_process_sample rnd send (rt, ls) sample lag waiters now = apply_pressure_sample rnd send (rt', ls) ps"
    using process_read_alone [of rnd send sample lag waiters now rt ls] by blast
  show ?thesis using run_ops_add [OF read, of 8] pressure_alone [of rnd send ps "(rt', ls)"] by (simp add: m eq)
qed

lemma probe_failure_alone: "run_ops rnd send 8 [ClearSignals now later] m = ([], record_probe_failure send m now later)"
proof -
  obtain rt ls where m: "m = (rt, ls)" by fastforce
  let ?first = "case sp_probe_failure_since (or_sampling rt) of Some t \<Rightarrow> t | None \<Rightarrow> now"
  let ?rt = "rt\<lparr>or_signal_available := (or_signal_available rt)(SigMemory := False, SigFileDescriptors := False, SigCpu := False),
    or_sampling := (or_sampling rt)\<lparr>sp_probe_failure_since := Some ?first\<rparr>\<rparr>"
  have two: "run_ops rnd send 2 [ClearSignals now later] m =
      (if saturating_duration_since later ?first \<ge> from_millis (oc_signal_stale_timeout_ms (or_config rt))
       then [SwapState Hard SigUnavailable] else [], ?rt, ls)"
    by (simp add: m run_numeral Let_def)
  have "run_ops rnd send (2 + 6) [ClearSignals now later] m = ([], record_probe_failure send m now later)"
    by (intro run_ops_chain [OF two]) (auto simp: m record_probe_failure_def Let_def transition_alone run_ops_done)
  then show ?thesis by simp
qed

section \<open>Interleavings\<close>

text \<open>
  The manager, the lifecycle state it drains, what the sampler task and a reload have left to do, and the leases that are
  held.  There is one sampler, and reloads hold the update lock of the application handle while they configure the
  manager, so there is at most one of each.
\<close>

record 'ch OverloadWorld =
  ow_runtime :: OverloadRuntime
  ow_lifecycle :: "'ch LifecycleState"
  ow_sampler :: "ManagerOp list"
  ow_reload :: "ManagerOp list"
  ow_work :: "WorkLease multiset"
  ow_control :: "ControlLease multiset"

text \<open>
  A task is busy with the drain between its first store to what the drain depends on and its last write of the drain
  bit: a transition from the swap on when the state changed, a sample that found the manager disabled, and
  a reload from the store of the configuration on.
\<close>

fun drain_pending :: "ManagerOp \<Rightarrow> bool" where
  "drain_pending (CountTransition i next) = True"
| "drain_pending (ApplyActions next) = True"
| "drain_pending SetDrain = True"
| "drain_pending ClearDrain = True"
| "drain_pending _ = False"

fun reload_pending :: "ManagerOp \<Rightarrow> bool" where
  "reload_pending (StoreEnabled config) = True"
| "reload_pending (FollowState config) = True"
| "reload_pending (SwapState next signal) = True"
| "reload_pending op = drain_pending op"

definition sampler_busy :: "'ch OverloadWorld \<Rightarrow> bool" where
  "sampler_busy w \<longleftrightarrow> list_ex drain_pending (ow_sampler w)"

definition reload_busy :: "'ch OverloadWorld \<Rightarrow> bool" where
  "reload_busy w \<longleftrightarrow> list_ex reload_pending (ow_reload w)"

text \<open>
  Admissions load the configuration, the state and whether the manager is enabled before they change a counter.  By then
  these may have changed, so an admission acts on any values of them: \<open>seen\<close> has the manager as the admission saw it, and
  \<open>kept\<close> the counters it left.
\<close>

definition seen :: "OverloadRuntime \<Rightarrow> OverloadConfig \<times> u8 \<times> bool \<Rightarrow> OverloadRuntime" where
  "seen rt view = (case view of (config, state, enabled) \<Rightarrow> rt\<lparr>or_config := config, or_state := state, or_enabled := enabled\<rparr>)"

definition kept :: "OverloadRuntime \<Rightarrow> OverloadRuntime \<Rightarrow> OverloadRuntime" where
  "kept rt rt' = rt\<lparr>or_work := or_work rt', or_rejections := or_rejections rt',
     or_control_connections := or_control_connections rt', or_control_requests := or_control_requests rt'\<rparr>"

definition request_leases :: "RequestLease \<Rightarrow> WorkLease multiset" where
  "request_leases l = add_mset (fst l) (case snd l of Some stream \<Rightarrow> {#stream#} | None \<Rightarrow> {#})"

text \<open>
  The steps of the tasks.  With \<open>exclusive\<close> a reload and the sampler are not busy with the drain at the same time; without
  it they interleave as they like.  A request that is admitted is one lease or two, so it is one or two steps.
\<close>

inductive overload_step ::
  "bool \<Rightarrow> (rat \<Rightarrow> rat) \<Rightarrow> ('ch \<Rightarrow> bool \<Rightarrow> 'ch) \<Rightarrow> 'ch OverloadWorld \<Rightarrow> 'ch OverloadWorld \<Rightarrow> bool" for exclusive rnd send where
  reload_begun: "ow_reload w = [] \<Longrightarrow> overload_step exclusive rnd send w (w\<lparr>ow_reload := [StoreConfig config]\<rparr>)"
| reload_op: "\<lbrakk>ow_reload w = op # ops; manager_op rnd send op (ow_runtime w, ow_lifecycle w) = ((rt, ls), rest);
    w' = w\<lparr>ow_runtime := rt, ow_lifecycle := ls, ow_reload := rest @ ops\<rparr>; exclusive \<longrightarrow> \<not> (sampler_busy w' \<and> reload_busy w')\<rbrakk> \<Longrightarrow>
    overload_step exclusive rnd send w w'"
| sample_begun: "ow_sampler w = [] \<Longrightarrow> overload_step exclusive rnd send w (w\<lparr>ow_sampler := [CheckEnabled]\<rparr>)"
| sampler_op: "\<lbrakk>ow_sampler w = op # ops; op \<noteq> AwaitProbe; manager_op rnd send op (ow_runtime w, ow_lifecycle w) = ((rt, ls), rest);
    w' = w\<lparr>ow_runtime := rt, ow_lifecycle := ls, ow_sampler := rest @ ops\<rparr>; exclusive \<longrightarrow> \<not> (sampler_busy w' \<and> reload_busy w')\<rbrakk> \<Longrightarrow>
    overload_step exclusive rnd send w w'"
| sample_taken: "ow_sampler w = [AwaitProbe] \<Longrightarrow>
    overload_step exclusive rnd send w (w\<lparr>ow_sampler := [StoreWaiters sample lag waiters now]\<rparr>)"
| sample_failed: "ow_sampler w = [AwaitProbe] \<Longrightarrow> overload_step exclusive rnd send w (w\<lparr>ow_sampler := [ClearSignals now later]\<rparr>)"
| drained_otherwise: "op \<in> {SetAdmin, ClearAdmin, StartShutdown} \<Longrightarrow>
    overload_step exclusive rnd send w
      (w\<lparr>ow_lifecycle := (ow_lifecycle w)\<lparr>ls_drain_state := fst (drain_step (ls_drain_state (ow_lifecycle w)) op)\<rparr>\<rparr>)"
| drain_sent: "overload_step exclusive rnd send w
      (w\<lparr>ow_lifecycle := (ow_lifecycle w)\<lparr>ls_drain_tx := send (ls_drain_tx (ow_lifecycle w)) draining\<rparr>\<rparr>)"
| priority_checked: "reject_priority (seen (ow_runtime w) view) class = (rt, refused) \<Longrightarrow>
    overload_step exclusive rnd send w (w\<lparr>ow_runtime := kept (ow_runtime w) rt\<rparr>)"
| connection_admitted: "try_admit_connection (seen (ow_runtime w) view) = (rt, Inr l) \<Longrightarrow>
    overload_step exclusive rnd send w (w\<lparr>ow_runtime := kept (ow_runtime w) rt, ow_work := add_mset l (ow_work w)\<rparr>)"
| connection_refused: "try_admit_connection (seen (ow_runtime w) view) = (rt, Inl boundary) \<Longrightarrow>
    overload_step exclusive rnd send w (w\<lparr>ow_runtime := kept (ow_runtime w) rt\<rparr>)"
| request_refused: "try_admit_request (seen (ow_runtime w) view) version = (rt, Inl boundary) \<Longrightarrow>
    overload_step exclusive rnd send w (w\<lparr>ow_runtime := kept (ow_runtime w) rt\<rparr>)"
| work_admitted: "try_admit_expensive parallelism (seen (ow_runtime w) view) kind = (rt, Some l) \<Longrightarrow>
    overload_step exclusive rnd send w (w\<lparr>ow_runtime := kept (ow_runtime w) rt, ow_work := add_mset l (ow_work w)\<rparr>)"
| work_leased: "work_lease (seen (ow_runtime w) view) kind amount = (rt, l) \<Longrightarrow>
    overload_step exclusive rnd send w (w\<lparr>ow_runtime := kept (ow_runtime w) rt, ow_work := add_mset l (ow_work w)\<rparr>)"
| work_dropped: "ow_work w = add_mset l ls \<Longrightarrow>
    overload_step exclusive rnd send w (w\<lparr>ow_runtime := drop_work (ow_runtime w) l, ow_work := ls\<rparr>)"
| control_admitted: "try_admit_control (seen (ow_runtime w) view) plane slot = (rt, Some l) \<Longrightarrow>
    overload_step exclusive rnd send w (w\<lparr>ow_runtime := kept (ow_runtime w) rt, ow_control := add_mset l (ow_control w)\<rparr>)"
| control_dropped: "ow_control w = add_mset l ls \<Longrightarrow>
    overload_step exclusive rnd send w (w\<lparr>ow_runtime := drop_control (ow_runtime w) l, ow_control := ls\<rparr>)"

inductive overload_reachable :: "bool \<Rightarrow> (rat \<Rightarrow> rat) \<Rightarrow> ('ch \<Rightarrow> bool \<Rightarrow> 'ch) \<Rightarrow> 'ch OverloadWorld \<Rightarrow> bool" for exclusive rnd send where
  overload_init: "ls_drain_state ls = drain_new \<Longrightarrow>
    overload_reachable exclusive rnd send
      \<lparr>ow_runtime = overload_new config, ow_lifecycle = ls, ow_sampler = [], ow_reload = [], ow_work = {#}, ow_control = {#}\<rparr>"
| overload_next: "\<lbrakk>overload_reachable exclusive rnd send w; overload_step exclusive rnd send w w'\<rbrakk> \<Longrightarrow> overload_reachable exclusive rnd send w'"

section \<open>The drain follows the hard state\<close>

definition overload_draining :: "'ch LifecycleState \<Rightarrow> bool" where
  "overload_draining ls \<longleftrightarrow> OverloadReason \<in> reasons (ls_drain_state ls)"

lemma overload_draining_bit: "overload_draining ls \<longleftrightarrow> bit (ls_drain_state ls) 1"
  by (simp add: overload_draining_def reasons_def)

lemma overload_bit_set [simp]:
  "overload_draining (ls\<lparr>ls_drain_state := set_overload_draining (ls_drain_state ls)\<rparr>)"
  "\<not> overload_draining (ls\<lparr>ls_drain_state := clear_overload_draining (ls_drain_state ls)\<rparr>)"
  "overload_draining (ls\<lparr>ls_drain_tx := tx\<rparr>) = overload_draining ls"
  by (simp_all add: overload_draining_bit drain_bits)

lemma overload_bit_op:
  "overload_draining (lifecycle_set_overload_draining send ls)"
  "\<not> overload_draining (lifecycle_clear_overload_draining send ls)"
  by (simp_all add: lifecycle_set_overload_draining_def lifecycle_clear_overload_draining_def lifecycle_publish_def)

lemma overload_bit_other:
  "op \<in> {SetAdmin, ClearAdmin, StartShutdown} \<Longrightarrow> overload_draining (ls\<lparr>ls_drain_state := fst (drain_step (ls_drain_state ls) op)\<rparr>) = overload_draining ls"
  unfolding overload_draining_bit by (cases op) (simp_all add: drain_bits)

abbreviation (input) recoverable :: "OverloadRuntime \<Rightarrow> bool" where
  "recoverable rt \<equiv> enter_recoverable_drain (oa_hard (oc_actions (or_config rt)))"

definition drain_follows :: "OverloadRuntime \<times> 'ch LifecycleState \<Rightarrow> bool" where
  "drain_follows m \<longleftrightarrow> (case m of (rt, ls) \<Rightarrow>
     (overload_draining ls \<longrightarrow> overload_state rt = Hard \<and> recoverable rt) \<and>
     (or_enabled rt \<and> overload_state rt = Hard \<and> recoverable rt \<longrightarrow> overload_draining ls) \<and>
     or_state rt \<in> range state_u8)"

lemma transition_runtime [simp]:
  "or_config (fst (overload_transition send (rt, ls) next signal)) = or_config rt"
  "or_enabled (fst (overload_transition send (rt, ls) next signal)) = or_enabled rt"
  "or_state (fst (overload_transition send (rt, ls) next signal)) = state_u8 next"
  "or_sampling (fst (overload_transition send (rt, ls) next signal)) = or_sampling rt"
  "or_work (fst (overload_transition send (rt, ls) next signal)) = or_work rt"
  "or_control_connections (fst (overload_transition send (rt, ls) next signal)) = or_control_connections rt"
  "or_control_requests (fst (overload_transition send (rt, ls) next signal)) = or_control_requests rt"
  by (simp_all add: overload_transition_def Let_def)

lemma transition_lifecycle:
  "snd (overload_transition send (rt, ls) next signal) =
     (if overload_state rt = next then ls
      else if next = Hard then (if recoverable rt then lifecycle_set_overload_draining send ls else ls)
      else lifecycle_clear_overload_draining send ls)"
  by (simp add: overload_transition_def overload_state_def Let_def)

lemma drain_followsI:
  assumes "overload_draining ls \<longleftrightarrow> or_enabled rt \<and> overload_state rt = Hard \<and> recoverable rt" "or_state rt \<in> range state_u8"
  shows "drain_follows (rt, ls)"
  using assms unfolding drain_follows_def prod.case by blast

text \<open>What the manager must look like while a task is on its way.\<close>

definition sampler_ok :: "OverloadRuntime \<times> 'ch LifecycleState \<Rightarrow> ManagerOp list \<Rightarrow> bool" where
  "sampler_ok m ops \<longleftrightarrow>
     (case ops of
        [] \<Rightarrow> drain_follows m
      | op # _ \<Rightarrow>
        (case op of
           CountTransition _ n \<Rightarrow> overload_state (fst m) = n \<and> (n = Hard \<longrightarrow> \<not> overload_draining (snd m))
         | ApplyActions n \<Rightarrow> overload_state (fst m) = n \<and> (n = Hard \<longrightarrow> \<not> overload_draining (snd m))
         | SetDrain \<Rightarrow> overload_state (fst m) = Hard \<and> recoverable (fst m)
         | ClearDrain \<Rightarrow> \<not> (or_enabled (fst m) \<and> overload_state (fst m) = Hard \<and> recoverable (fst m))
         | _ \<Rightarrow> drain_follows m))"

definition reload_ok :: "OverloadRuntime \<times> 'ch LifecycleState \<Rightarrow> ManagerOp list \<Rightarrow> bool" where
  "reload_ok m ops \<longleftrightarrow>
     (case ops of
        [] \<Rightarrow> drain_follows m
      | op # tail \<Rightarrow>
        if tail \<noteq> [] then \<not> or_enabled (fst m)
        else (case op of
           StoreEnabled config \<Rightarrow> or_config (fst m) = config
         | FollowState config \<Rightarrow> or_config (fst m) = config \<and> or_enabled (fst m)
         | SetDrain \<Rightarrow> overload_state (fst m) = Hard \<and> recoverable (fst m)
         | ClearDrain \<Rightarrow> \<not> (or_enabled (fst m) \<and> overload_state (fst m) = Hard \<and> recoverable (fst m))
         | _ \<Rightarrow> drain_follows m))"

definition sampler_shape :: "ManagerOp list \<Rightarrow> bool" where
  "sampler_shape ops \<longleftrightarrow>
     (case ops of
        [] \<Rightarrow> True
      | op # tail \<Rightarrow> tail = [] \<and> (case op of StoreConfig _ \<Rightarrow> False | StoreEnabled _ \<Rightarrow> False | FollowState _ \<Rightarrow> False | _ \<Rightarrow> True))"

definition reload_shape :: "ManagerOp list \<Rightarrow> bool" where
  "reload_shape ops \<longleftrightarrow>
     (case ops of
        [] \<Rightarrow> True
      | op # tail \<Rightarrow>
        if tail = [] then (case op of StoreConfig _ \<Rightarrow> True | StoreEnabled _ \<Rightarrow> True | FollowState _ \<Rightarrow> True
          | SetDrain \<Rightarrow> True | ClearDrain \<Rightarrow> True | LoadDrain \<Rightarrow> True | SendDrain _ \<Rightarrow> True | _ \<Rightarrow> False)
        else tail = [ClearDrain] \<and> (case op of SwapState next _ \<Rightarrow> next = Normal | CountTransition _ next \<Rightarrow> next = Normal
          | ApplyActions next \<Rightarrow> next = Normal | ClearDrain \<Rightarrow> True | LoadDrain \<Rightarrow> True | SendDrain _ \<Rightarrow> True | _ \<Rightarrow> False))"

lemma sampler_ok_idle: "\<not> list_ex drain_pending ops \<Longrightarrow> sampler_ok m ops = drain_follows m"
proof (cases ops)
  case (Cons op tail)
  then show "\<not> list_ex drain_pending ops \<Longrightarrow> ?thesis" by (cases op) (simp_all add: sampler_ok_def)
qed (simp add: sampler_ok_def)

lemma reload_ok_idle: "\<not> list_ex reload_pending ops \<Longrightarrow> reload_shape ops \<Longrightarrow> reload_ok m ops = drain_follows m"
proof (cases ops)
  case (Cons op tail)
  then show "\<not> list_ex reload_pending ops \<Longrightarrow> reload_shape ops \<Longrightarrow> ?thesis"
    by (cases op; cases "tail = []") (simp_all add: reload_ok_def reload_shape_def)
qed (simp add: reload_ok_def)

definition same_drain :: "OverloadRuntime \<times> 'ch LifecycleState \<Rightarrow> OverloadRuntime \<times> 'ch LifecycleState \<Rightarrow> bool" where
  "same_drain m m' \<longleftrightarrow> or_config (fst m') = or_config (fst m) \<and> or_enabled (fst m') = or_enabled (fst m) \<and>
     or_state (fst m') = or_state (fst m) \<and> overload_draining (snd m') = overload_draining (snd m)"

lemma same_drain_eqs:
  assumes "same_drain m m'"
  shows "or_config (fst m') = or_config (fst m)" "or_enabled (fst m') = or_enabled (fst m)" "or_state (fst m') = or_state (fst m)"
    "overload_draining (snd m') = overload_draining (snd m)"
  using assms by (simp_all only: same_drain_def)

lemma same_drain_follows: "same_drain m m' \<Longrightarrow> drain_follows m' = drain_follows m"
  by (simp only: drain_follows_def overload_state_def case_prod_unfold same_drain_eqs)

lemma same_drain_ok:
  assumes "same_drain m m'"
  shows "sampler_ok m' ops = sampler_ok m ops" "reload_ok m' ops = reload_ok m ops"
  by (simp_all only: sampler_ok_def reload_ok_def overload_state_def same_drain_eqs [OF assms] same_drain_follows [OF assms])

lemma byte_same: "or_state rt \<in> range state_u8 \<Longrightarrow> overload_state rt = next \<Longrightarrow> or_state rt = state_u8 next"
  by (auto simp: overload_state_def)

text \<open>A task that stays idle changes nothing the drain depends on, and a task that goes on keeps its condition.\<close>

lemma sampler_op_same:
  assumes "manager_op rnd send op m = (m', rest)" "sampler_shape (op # ops)" "or_state (fst m) \<in> range state_u8"
    and "\<not> drain_pending op" "\<not> list_ex drain_pending rest"
  shows "same_drain m m'"
proof -
  obtain rt ls where m: "m = (rt, ls)" by fastforce
  show ?thesis
  proof (cases "\<exists>n signal. op = SwapState n signal")
    case True
    then obtain n signal where op: "op = SwapState n signal" by blast
    then have "overload_state rt = n" using assms(1,5) by (auto simp: m Let_def split: if_splits)
    then have "or_state rt = state_u8 n" using byte_same [of rt n] assms(3) by (simp add: m)
    then show ?thesis using assms(1) by (auto simp: op m Let_def same_drain_def)
  next
    case False
    then show ?thesis using assms(1,2,4)
      by (cases "(rnd, send, op, m)" rule: manager_op.cases) (auto simp: same_drain_def sampler_shape_def Let_def split: prod.splits)
  qed
qed

lemma manager_op_byte:
  assumes "manager_op rnd send op m = (m', rest)" "or_state (fst m) \<in> range state_u8"
  shows "or_state (fst m') \<in> range state_u8"
  using assms by (cases "(rnd, send, op, m)" rule: manager_op.cases) (auto simp: Let_def split: prod.splits)

lemma drain_follows_clear:
  assumes "\<not> (or_enabled rt \<and> overload_state rt = Hard \<and> recoverable rt)" "\<not> overload_draining ls" "or_state rt \<in> range state_u8"
  shows "drain_follows (rt, ls)"
  using assms unfolding drain_follows_def prod.case by blast

lemma drain_follows_set:
  assumes "overload_state rt = Hard" "recoverable rt" "overload_draining ls" "or_state rt \<in> range state_u8"
  shows "drain_follows (rt, ls)"
  using assms unfolding drain_follows_def prod.case by blast

lemma drain_follows_hard: "drain_follows (rt, ls) \<Longrightarrow> overload_state rt \<noteq> Hard \<Longrightarrow> \<not> overload_draining ls"
  unfolding drain_follows_def prod.case by blast

lemma sampler_swap_ok:
  assumes "drain_follows (rt, ls)" "manager_op rnd send (SwapState n signal) (rt, ls) = (m', rest)" "or_state rt \<in> range state_u8"
  shows "sampler_shape rest \<and> sampler_ok m' rest"
proof (cases "overload_state rt = n")
  case True
  then have "same_drain (rt, ls) m'" "rest = []"
    using assms(2,3) byte_same [of rt n] by (auto simp: Let_def same_drain_def)
  then show ?thesis using assms(1) same_drain_follows [of "(rt, ls)" m'] by (simp add: sampler_shape_def sampler_ok_def)
next
  case False
  then have "n = Hard \<longrightarrow> \<not> overload_draining ls" using drain_follows_hard [OF assms(1)] by blast
  then show ?thesis using assms(2) False by (auto simp: Let_def sampler_shape_def sampler_ok_def overload_state_def)
qed

lemma sampler_drain_ok:
  assumes "manager_op rnd send op (rt, ls) = (m', rest)" "drain_pending op" "sampler_ok (rt, ls) [op]" "or_state rt \<in> range state_u8"
  shows "sampler_shape rest \<and> sampler_ok m' rest"
proof (cases op)
  case (CountTransition i n)
  then show ?thesis using assms by (auto simp: sampler_shape_def sampler_ok_def overload_state_def)
next
  case (ApplyActions n)
  then have st: "overload_state rt = n" "n = Hard \<longrightarrow> \<not> overload_draining ls" using assms(3) by (simp_all add: sampler_ok_def)
  consider "n = Hard" "recoverable rt" | "n = Hard" "\<not> recoverable rt" | "n \<noteq> Hard" by blast
  then show ?thesis
  proof cases
    case 2
    then have "m' = (rt, ls)" "rest = []" using assms(1) ApplyActions by auto
    moreover have "drain_follows (rt, ls)" by (rule drain_follows_clear) (use 2 st assms(4) in auto)
    ultimately show ?thesis by (simp add: sampler_shape_def sampler_ok_def)
  qed (use assms(1) ApplyActions st in \<open>auto simp: sampler_shape_def sampler_ok_def\<close>)
next
  case SetDrain
  then have "overload_state rt = Hard" "recoverable rt" using assms(3) by (simp_all add: sampler_ok_def)
  from drain_follows_set [OF this overload_bit_set(1) assms(4), of ls] show ?thesis
    using assms(1) SetDrain by (auto simp: sampler_shape_def sampler_ok_def)
next
  case ClearDrain
  then have "\<not> (or_enabled rt \<and> overload_state rt = Hard \<and> recoverable rt)" using assms(3) by (simp add: sampler_ok_def)
  from drain_follows_clear [OF this overload_bit_set(2) assms(4), of ls] show ?thesis
    using assms(1) ClearDrain by (auto simp: sampler_shape_def sampler_ok_def)
qed (use assms(2) in simp_all)

lemma sampler_plain_ok:
  assumes "manager_op rnd send op (rt, ls) = (m', rest)" "\<not> drain_pending op" "\<nexists>n signal. op = SwapState n signal"
    and "sampler_shape [op]" "drain_follows (rt, ls)"
  shows "sampler_shape rest \<and> sampler_ok m' rest"
proof -
  have "sampler_shape rest \<and> same_drain (rt, ls) m' \<and> (list_ex drain_pending rest \<longrightarrow> rest = [ClearDrain] \<and> \<not> or_enabled (fst m'))"
    using assms(1-4)
    by (cases "(rnd, send, op, (rt, ls))" rule: manager_op.cases)
      (auto simp: same_drain_def sampler_shape_def Let_def split: prod.splits option.splits if_splits)
  then show ?thesis using assms(5) same_drain_follows [of "(rt, ls)" m'] sampler_ok_idle [of rest m']
    by (cases "list_ex drain_pending rest") (auto simp: sampler_ok_def)
qed

lemma sampler_op_ok:
  assumes "manager_op rnd send op m = (m', rest)" "sampler_shape (op # ops)" "sampler_ok m (op # ops)" "or_state (fst m) \<in> range state_u8"
  shows "sampler_shape (rest @ ops) \<and> sampler_ok m' (rest @ ops)"
proof -
  obtain rt ls where m: "m = (rt, ls)" by fastforce
  have ops: "ops = []" using assms(2) by (simp add: sampler_shape_def)
  note step = assms(1) [unfolded m]
  note ok = assms(3) [unfolded m ops]
  have byte: "or_state rt \<in> range state_u8" and shape: "sampler_shape [op]" using assms(2,4) by (simp_all add: m ops)
  show ?thesis
  proof (cases "drain_pending op")
    case True
    then show ?thesis using sampler_drain_ok [OF step True ok byte] by (simp add: ops)
  next
    case False
    then have follows: "drain_follows (rt, ls)" using ok sampler_ok_idle [of "[op]" "(rt, ls)"] by simp
    show ?thesis
    proof (cases "\<exists>n signal. op = SwapState n signal")
      case True
      then obtain n signal where "op = SwapState n signal" by blast
      then show ?thesis using sampler_swap_ok [OF follows _ byte, of rnd send n signal m' rest] step ops by simp
    next
      case plain: False
      then show ?thesis using sampler_plain_ok [OF step False _ shape follows] by (simp add: ops)
    qed
  qed
qed

lemma sampler_shape_op:
  assumes "manager_op rnd send op m = (m', rest)" "sampler_shape (op # ops)"
  shows "sampler_shape rest"
  using assms by (cases "(rnd, send, op, m)" rule: manager_op.cases)
    (auto simp: sampler_shape_def Let_def split: prod.splits option.splits if_splits)

lemma reload_op_same:
  assumes "manager_op rnd send op m = (m', rest)" "reload_shape (op # ops)" "\<not> list_ex reload_pending (op # ops)"
    and "\<not> list_ex reload_pending (rest @ ops)"
  shows "reload_shape (rest @ ops) \<and> same_drain m m'"
proof -
  obtain rt ls where m: "m = (rt, ls)" by fastforce
  have "op = LoadDrain \<or> (\<exists>b. op = SendDrain b) \<or> (\<exists>c. op = StoreConfig c)"
    using assms(2,3) by (cases op) (simp_all add: reload_shape_def split: if_splits)
  moreover have "ops = []" using assms(2,3) by (simp add: reload_shape_def split: if_splits)
  ultimately show ?thesis using assms(1,4) by (auto simp: m same_drain_def reload_shape_def)
qed

lemma reload_last_ok:
  assumes "manager_op rnd send op (rt, ls) = (m', rest)" "reload_shape [op]" "reload_ok (rt, ls) [op]" "or_state rt \<in> range state_u8"
  shows "reload_shape rest \<and> reload_ok m' rest"
proof (cases op)
  case SetDrain
  then have "overload_state rt = Hard" "recoverable rt" using assms(3) by (simp_all add: reload_ok_def)
  from drain_follows_set [OF this overload_bit_set(1) assms(4), of ls] show ?thesis
    using assms(1) SetDrain by (auto simp: reload_shape_def reload_ok_def)
next
  case ClearDrain
  then have "\<not> (or_enabled rt \<and> overload_state rt = Hard \<and> recoverable rt)" using assms(3) by (simp add: reload_ok_def)
  from drain_follows_clear [OF this overload_bit_set(2) assms(4), of ls] show ?thesis
    using assms(1) ClearDrain by (auto simp: reload_shape_def reload_ok_def)
next
  case (SendDrain b)
  then show ?thesis using assms same_drain_follows [of "(rt, ls)" m'] by (auto simp: reload_shape_def reload_ok_def same_drain_def)
next
  case (FollowState config)
  then show ?thesis using assms by (auto simp: reload_shape_def reload_ok_def)
qed (use assms in \<open>auto simp: reload_shape_def reload_ok_def\<close>)

lemma reload_first_ok:
  assumes "reload_shape [op, ClearDrain]" "\<not> or_enabled rt"
  shows "reload_shape (snd (manager_op rnd send op (rt, ls)) @ [ClearDrain]) \<and>
    reload_ok (fst (manager_op rnd send op (rt, ls))) (snd (manager_op rnd send op (rt, ls)) @ [ClearDrain])"
  using assms by (cases op) (simp_all add: reload_shape_def reload_ok_def Let_def)

lemma reload_op_ok:
  assumes "manager_op rnd send op m = (m', rest)" "reload_shape (op # ops)" "reload_ok m (op # ops)" "or_state (fst m) \<in> range state_u8"
  shows "reload_shape (rest @ ops) \<and> reload_ok m' (rest @ ops)"
proof -
  obtain rt ls where m: "m = (rt, ls)" by fastforce
  consider "ops = []" | "ops = [ClearDrain]" using assms(2) by (cases "ops = []") (simp_all add: reload_shape_def)
  then show ?thesis
  proof cases
    case 1
    then show ?thesis using assms reload_last_ok [of rnd send op rt ls m' rest] by (simp add: m)
  next
    case 2
    have "\<not> or_enabled rt" using assms(3) by (simp add: 2 m reload_ok_def)
    from reload_first_ok [OF _ this, of op rnd send ls] show ?thesis using assms(1,2) by (simp add: 2 m)
  qed
qed

section \<open>Counters and leases\<close>

definition held_by :: "WorkLease \<Rightarrow> WorkKind \<Rightarrow> u64" where
  "held_by l kind = (if wl_runtime l \<and> wl_kind l = kind then wl_amount l else 0)"

definition work_held :: "WorkLease multiset \<Rightarrow> WorkKind \<Rightarrow> u64" where
  "work_held ls kind = sum_mset (image_mset (\<lambda>l. held_by l kind) ls)"

lemma work_held_simps [simp]:
  "work_held {#} kind = 0"
  "work_held (add_mset l ls) kind = held_by l kind + work_held ls kind"
  "work_held (ls + ls') kind = work_held ls kind + work_held ls' kind"
  by (simp_all add: work_held_def)

text \<open>Admissions only change the counters of work, and the counts of rejections.\<close>

definition same_manager :: "OverloadRuntime \<Rightarrow> OverloadRuntime \<Rightarrow> bool" where
  "same_manager rt rt' \<longleftrightarrow> or_config rt' = or_config rt \<and> or_enabled rt' = or_enabled rt \<and> or_state rt' = or_state rt"

definition same_control :: "OverloadRuntime \<Rightarrow> OverloadRuntime \<Rightarrow> bool" where
  "same_control rt rt' \<longleftrightarrow> or_control_connections rt' = or_control_connections rt \<and> or_control_requests rt' = or_control_requests rt"

definition work_added :: "OverloadRuntime \<Rightarrow> OverloadRuntime \<Rightarrow> WorkLease multiset \<Rightarrow> bool" where
  "work_added rt rt' ls \<longleftrightarrow> same_manager rt rt' \<and> same_control rt rt' \<and> (\<forall>k. or_work rt' k = or_work rt k + work_held ls k)"

lemmas work_added_defs = work_added_def same_manager_def same_control_def

lemma work_added_refl: "work_added rt rt {#}"
  by (simp add: work_added_defs)

lemma work_added_rejected: "work_added rt (overload_rejected rt boundary) {#}"
  by (simp add: work_added_defs overload_rejected_def)

lemma work_added_trans:
  assumes "work_added rt rt' ls" "work_added rt' rt'' ls'"
  shows "work_added rt rt'' (ls + ls')"
  using assms by (simp add: work_added_defs add.assoc)

lemma work_lease_added: "work_added rt (fst (work_lease rt kind amount)) {#snd (work_lease rt kind amount)#}"
  by (simp add: work_added_defs work_lease_def disabled_work_def held_by_def)

lemma work_lease_added': "work_lease rt kind amount = (rt', l) \<Longrightarrow> work_added rt rt' {#l#}"
  using work_lease_added [of rt kind amount] by simp

lemma try_admit_connection_added:
  "try_admit_connection rt = (rt', Inr l) \<Longrightarrow> work_added rt rt' {#l#}"
  "try_admit_connection rt = (rt', Inl boundary) \<Longrightarrow> work_added rt rt' {#}"
  using work_lease_added [of rt DownstreamConnections 1] work_added_rejected [of rt]
  unfolding try_admit_connection_def by (auto split: if_splits prod.splits)

lemma try_admit_request_added:
  "try_admit_request rt version = (rt', Inl boundary) \<Longrightarrow> work_added rt rt' {#}"
  "try_admit_request rt version = (rt', Inr l) \<Longrightarrow> work_added rt rt' (request_leases l)"
proof -
  let ?refused = "if overload_state rt = Hard then request_boundary (oa_hard (oc_actions (or_config rt))) version else None"
  assume "try_admit_request rt version = (rt', Inl boundary)"
  then show "work_added rt rt' {#}"
    using work_added_rejected [of rt] unfolding try_admit_request_def Let_def by (auto split: option.splits prod.splits)
next
  assume adm: "try_admit_request rt version = (rt', Inr l)"
  define s where "s = (case version of HTTP_2 \<Rightarrow> map_prod id Some (work_lease rt H2Streams 1)
      | HTTP_3 \<Rightarrow> map_prod id Some (work_lease rt H3Streams 1) | _ \<Rightarrow> (rt, None))"
  have stream: "work_added rt (fst s) (case snd s of Some l \<Rightarrow> {#l#} | None \<Rightarrow> {#})"
    unfolding s_def using work_lease_added [of rt] work_added_refl [of rt]
    by (cases version) (simp_all add: map_prod_def case_prod_unfold)
  have "rt' = fst (work_lease (fst s) ActiveHttpRequests 1)" "l = (snd (work_lease (fst s) ActiveHttpRequests 1), snd s)"
    using adm unfolding try_admit_request_def Let_def s_def [symmetric] by (auto simp: case_prod_unfold split: option.splits)
  with work_added_trans [OF stream work_lease_added [of "fst s" ActiveHttpRequests 1]]
  show "work_added rt rt' (request_leases l)" by (simp add: request_leases_def add.commute)
qed

lemma try_admit_expensive_added:
  assumes "try_admit_expensive parallelism rt kind = (rt', l)"
  shows "work_added rt rt' (case l of Some l \<Rightarrow> {#l#} | None \<Rightarrow> {#})"
proof -
  have disabled: "work_added rt rt {#disabled_work kind#}" by (simp add: work_added_defs disabled_work_def held_by_def)
  have counted: "work_added rt (rt\<lparr>or_work := (or_work rt)(kind := n)\<rparr>) {#\<lparr>wl_runtime = True, wl_kind = kind, wl_amount = 1\<rparr>#}"
    if "try_increment (or_work rt kind) cap = Some n" for cap n
    using that by (simp add: work_added_defs held_by_def try_increment_def split: if_splits)
  show ?thesis
    using assms disabled counted work_added_refl work_lease_added [of rt kind 1]
    unfolding try_admit_expensive_def Let_def by (auto simp: case_prod_unfold split: if_splits option.splits)
qed

lemma drop_work_added:
  "same_manager rt (drop_work rt l) \<and> same_control rt (drop_work rt l) \<and> or_work (drop_work rt l) k = or_work rt k - held_by l k"
  by (simp add: drop_work_def same_manager_def same_control_def held_by_def)

text \<open>The manager's own steps leave the counters alone, except that a sample stores the waiters it was told of.\<close>

definition same_counters :: "OverloadRuntime \<Rightarrow> OverloadRuntime \<Rightarrow> bool" where
  "same_counters rt rt' \<longleftrightarrow> same_control rt rt' \<and> (\<forall>k. k \<noteq> SharedStateWaiters \<longrightarrow> or_work rt' k = or_work rt k)"

lemma pressure_runtime:
  "or_work (fst (apply_pressure_sample rnd send (rt, ls) sample)) = or_work rt"
  "or_control_connections (fst (apply_pressure_sample rnd send (rt, ls) sample)) = or_control_connections rt"
  "or_control_requests (fst (apply_pressure_sample rnd send (rt, ls) sample)) = or_control_requests rt"
  "or_config (fst (apply_pressure_sample rnd send (rt, ls) sample)) = or_config rt"
  by (simp_all add: apply_pressure_sample_next split: prod.split option.split)

lemma manager_op_counters:
  assumes "manager_op rnd send op m = (m', rest)"
  shows "same_counters (fst m) (fst m')"
  using assms by (cases "(rnd, send, op, m)" rule: manager_op.cases)
    (auto simp: same_counters_def same_control_def Let_def split: prod.splits)

text \<open>What an admission does on the values it saw, it does to the counters as they are.\<close>

lemma seen_values [simp]:
  "or_work (seen rt view) = or_work rt" "or_control_connections (seen rt view) = or_control_connections rt"
  "or_control_requests (seen rt view) = or_control_requests rt"
  by (simp_all add: seen_def case_prod_unfold)

lemma seen_now: "seen rt (or_config rt, or_state rt, or_enabled rt) = rt"
  by (simp add: seen_def)

lemma kept_values [simp]:
  "or_config (kept rt rt') = or_config rt" "or_enabled (kept rt rt') = or_enabled rt" "or_state (kept rt rt') = or_state rt"
  "or_work (kept rt rt') = or_work rt'" "or_control_connections (kept rt rt') = or_control_connections rt'"
  "or_control_requests (kept rt rt') = or_control_requests rt'" "control_counter (kept rt rt') plane slot = control_counter rt' plane slot"
  by (cases slot; simp add: kept_def control_counter_def)+

lemma work_added_kept: "work_added (seen rt view) rt' ls \<Longrightarrow> work_added rt (kept rt rt') ls"
  by (simp add: work_added_defs)

definition counted :: "OverloadRuntime \<Rightarrow> WorkLease multiset \<Rightarrow> ControlLease multiset \<Rightarrow> bool" where
  "counted rt work control \<longleftrightarrow> (\<forall>k. k \<noteq> SharedStateWaiters \<longrightarrow> or_work rt k = work_held work k) \<and>
     (\<forall>plane slot. unat (control_counter rt plane slot) = count control \<lparr>cl_plane = plane, cl_slot = slot\<rparr>)"

lemma control_counter_cong: "same_control rt rt' \<Longrightarrow> control_counter rt' plane slot = control_counter rt plane slot"
  by (cases slot) (simp_all add: same_control_def control_counter_def)

lemma counted_same: "counted rt work control \<Longrightarrow> same_counters rt rt' \<Longrightarrow> counted rt' work control"
  using control_counter_cong [of rt rt'] by (simp add: counted_def same_counters_def)

lemma counted_added: "counted rt work control \<Longrightarrow> work_added rt rt' ls \<Longrightarrow> counted rt' (ls + work) control"
  using control_counter_cong [of rt rt'] by (simp add: counted_def work_added_def add.commute)

lemma counted_dropped: "counted rt (add_mset l work) control \<Longrightarrow> counted (drop_work rt l) work control"
  using drop_work_added [of rt l] control_counter_cong [of rt "drop_work rt l"] by (simp add: counted_def)

lemma set_control_counter_simps:
  "control_counter (set_control_counter rt plane slot n) plane' slot' =
     (if plane' = plane \<and> slot' = slot then n else control_counter rt plane' slot')"
  "same_manager rt (set_control_counter rt plane slot n)"
  "or_work (set_control_counter rt plane slot n) = or_work rt"
  by (cases slot; cases slot'; simp add: set_control_counter_def control_counter_def same_manager_def)+

lemma counted_control:
  assumes "counted rt work control" "try_admit_control (seen rt view) plane slot = (rt', Some l)"
  shows "counted (kept rt rt') work (add_mset l control)"
proof -
  let ?n = "control_counter rt plane slot"
  have c: "control_counter (seen rt view) p s = control_counter rt p s" for p s by (cases s) (simp_all add: control_counter_def)
  have l: "l = \<lparr>cl_plane = plane, cl_slot = slot\<rparr>" "rt' = set_control_counter (seen rt view) plane slot (?n + 1)"
    and less: "?n < of_nat (control_capacity (oc_reserved_capacity (or_config (seen rt view))) plane slot)"
    using assms(2) by (auto simp: try_admit_control_def try_increment_def c split: if_splits)
  have "?n \<noteq> - 1" using less by (metis word_n1_ge linorder_not_less)
  then have "unat (?n + 1) = unat ?n + 1" by (metis Suc_eq_plus1 add.commute eq_neg_iff_add_eq_0 unatSuc)
  then show ?thesis using assms(1) unfolding counted_def l by (simp add: set_control_counter_simps c)
qed

lemma counted_control_dropped:
  assumes "counted rt work (add_mset l control)"
  shows "counted (drop_control rt l) work control"
proof -
  let ?n = "control_counter rt (cl_plane l) (cl_slot l)"
  have n: "unat ?n = count (add_mset l control) l" using assms unfolding counted_def by (metis ControlLease.surjective old.unit.exhaust)
  then have "?n \<noteq> 0" by auto
  then have "unat (?n - 1) = unat ?n - 1" by (simp add: unat_minus_one)
  then have "unat (?n - 1) = count control l" using n by simp
  moreover have "\<lparr>cl_plane = plane, cl_slot = slot\<rparr> = l \<longleftrightarrow> plane = cl_plane l \<and> slot = cl_slot l" for plane slot
    by (cases l) auto
  ultimately show ?thesis using assms unfolding counted_def drop_control_def
    by (auto simp: set_control_counter_simps)
qed

section \<open>The invariant\<close>

definition drain_inv :: "'ch OverloadWorld \<Rightarrow> bool" where
  "drain_inv w \<longleftrightarrow> sampler_shape (ow_sampler w) \<and> reload_shape (ow_reload w) \<and>
     (if sampler_busy w then \<not> reload_busy w \<and> sampler_ok (ow_runtime w, ow_lifecycle w) (ow_sampler w)
      else reload_ok (ow_runtime w, ow_lifecycle w) (ow_reload w))"

definition overload_inv :: "bool \<Rightarrow> 'ch OverloadWorld \<Rightarrow> bool" where
  "overload_inv exclusive w \<longleftrightarrow> or_state (ow_runtime w) \<in> range state_u8 \<and> counted (ow_runtime w) (ow_work w) (ow_control w) \<and>
     (exclusive \<longrightarrow> drain_inv w)"

lemma drain_inv_idle: "drain_inv w \<Longrightarrow> \<not> sampler_busy w \<Longrightarrow> \<not> reload_busy w \<Longrightarrow> drain_follows (ow_runtime w, ow_lifecycle w)"
  using reload_ok_idle by (auto simp: drain_inv_def reload_busy_def)

lemma drain_inv_same:
  assumes "drain_inv w" "same_drain (ow_runtime w, ow_lifecycle w) (ow_runtime w', ow_lifecycle w')"
    and "ow_sampler w' = ow_sampler w" "ow_reload w' = ow_reload w"
  shows "drain_inv w'"
  using assms(1) unfolding drain_inv_def sampler_busy_def reload_busy_def assms(3,4) same_drain_ok [OF assms(2)] .

lemma drain_inv_begin:
  assumes "drain_inv w" "ow_runtime w' = ow_runtime w" "ow_lifecycle w' = ow_lifecycle w" "ow_reload w' = ow_reload w"
    and "\<not> sampler_busy w" "\<not> sampler_busy w'" "sampler_shape (ow_sampler w')"
  shows "drain_inv w'"
  using assms by (simp add: drain_inv_def)

lemma drain_inv_sampler:
  assumes "drain_inv w" "ow_sampler w = op # ops" "manager_op rnd send op (ow_runtime w, ow_lifecycle w) = ((rt, ls), rest)"
    and w': "w' = w\<lparr>ow_runtime := rt, ow_lifecycle := ls, ow_sampler := rest @ ops\<rparr>"
    and apart: "\<not> (sampler_busy w' \<and> reload_busy w')" and byte: "or_state (ow_runtime w) \<in> range state_u8"
  shows "drain_inv w'"
proof (cases "reload_busy w")
  case True
  then have idle: "\<not> sampler_busy w" "\<not> sampler_busy w'" using assms(1) apart by (auto simp: drain_inv_def w' reload_busy_def)
  have ops: "ops = []" using assms(1,2) by (simp add: drain_inv_def sampler_shape_def)
  have "same_drain (ow_runtime w, ow_lifecycle w) (rt, ls)"
    by (rule sampler_op_same [OF assms(3), of ops])
      (use assms(1,2) idle byte in \<open>simp_all add: drain_inv_def sampler_busy_def w'\<close>)
  moreover have "sampler_shape rest"
    using sampler_shape_op [OF assms(3), of ops] assms(1,2) by (simp add: drain_inv_def ops)
  ultimately show ?thesis using assms(1) idle same_drain_ok(2) [of "(ow_runtime w, ow_lifecycle w)" "(rt, ls)"] by (simp add: drain_inv_def w' ops)
next
  case False
  then have "sampler_ok (ow_runtime w, ow_lifecycle w) (ow_sampler w)"
    using assms(1) drain_inv_idle [OF assms(1) _ False] sampler_ok_idle [of "ow_sampler w" "(ow_runtime w, ow_lifecycle w)"]
    by (cases "sampler_busy w") (simp_all add: drain_inv_def sampler_busy_def)
  then have ok: "sampler_shape (rest @ ops) \<and> sampler_ok (rt, ls) (rest @ ops)"
    using sampler_op_ok [OF assms(3), of ops] assms(1,2) byte by (simp add: drain_inv_def)
  moreover have "\<not> sampler_busy w' \<Longrightarrow> reload_ok (rt, ls) (ow_reload w)"
    using ok sampler_ok_idle [of "rest @ ops" "(rt, ls)"] reload_ok_idle [of "ow_reload w" "(rt, ls)"] False assms(1)
    by (simp add: drain_inv_def sampler_busy_def reload_busy_def w')
  ultimately show ?thesis using assms(1) False by (simp add: drain_inv_def w' reload_busy_def)
qed

lemma drain_inv_reload:
  assumes "drain_inv w" "ow_reload w = op # ops" "manager_op rnd send op (ow_runtime w, ow_lifecycle w) = ((rt, ls), rest)"
    and w': "w' = w\<lparr>ow_runtime := rt, ow_lifecycle := ls, ow_reload := rest @ ops\<rparr>"
    and apart: "\<not> (sampler_busy w' \<and> reload_busy w')" and byte: "or_state (ow_runtime w) \<in> range state_u8"
  shows "drain_inv w'"
proof (cases "sampler_busy w")
  case True
  then have "\<not> reload_busy w" "\<not> reload_busy w'" using assms(1) apart by (auto simp: drain_inv_def w' sampler_busy_def)
  then have "reload_shape (rest @ ops) \<and> same_drain (ow_runtime w, ow_lifecycle w) (rt, ls)"
    using reload_op_same [OF assms(3), of ops] assms(1,2) by (simp add: drain_inv_def reload_busy_def w')
  then show ?thesis using assms(1) True \<open>\<not> reload_busy w'\<close> same_drain_ok(1) [of "(ow_runtime w, ow_lifecycle w)" "(rt, ls)"]
    by (simp add: drain_inv_def w' sampler_busy_def)
next
  case False
  then have "reload_shape (rest @ ops) \<and> reload_ok (rt, ls) (rest @ ops)"
    using reload_op_ok [OF assms(3), of ops] assms(1,2) byte by (simp add: drain_inv_def)
  then show ?thesis using assms(1) False by (simp add: drain_inv_def w' sampler_busy_def)
qed

lemma overload_inv_added:
  assumes "overload_inv exclusive w" "work_added (seen (ow_runtime w) view) rt ls"
  shows "overload_inv exclusive (w\<lparr>ow_runtime := kept (ow_runtime w) rt, ow_work := ls + ow_work w\<rparr>)"
proof -
  let ?w = "w\<lparr>ow_runtime := kept (ow_runtime w) rt, ow_work := ls + ow_work w\<rparr>"
  have "drain_inv ?w" if "drain_inv w" by (rule drain_inv_same [OF that]) (simp_all add: same_drain_def)
  then show ?thesis
    using assms(1) counted_added [OF _ work_added_kept [OF assms(2)], of "ow_work w" "ow_control w"] by (simp add: overload_inv_def)
qed

lemma overload_inv_frame:
  assumes "overload_inv exclusive w" "same_drain (ow_runtime w, ow_lifecycle w) (ow_runtime w', ow_lifecycle w')"
    and "ow_sampler w' = ow_sampler w" "ow_reload w' = ow_reload w" "counted (ow_runtime w') (ow_work w') (ow_control w')"
  shows "overload_inv exclusive w'"
  using assms drain_inv_same [OF _ assms(2-4)] by (simp add: overload_inv_def same_drain_def)

lemma overload_inv_manager:
  assumes "overload_inv exclusive w" "manager_op rnd send op (ow_runtime w, ow_lifecycle w) = ((rt, ls), rest)"
    and "ow_runtime w' = rt" "ow_work w' = ow_work w" "ow_control w' = ow_control w" "exclusive \<longrightarrow> drain_inv w'"
  shows "overload_inv exclusive w'"
  using assms manager_op_byte [OF assms(2)] counted_same [OF _ manager_op_counters [OF assms(2)], of "ow_work w" "ow_control w"]
  by (simp add: overload_inv_def)

lemma overload_inv_step:
  assumes "overload_step exclusive rnd send w w'" "overload_inv exclusive w"
  shows "overload_inv exclusive w'"
  using assms
proof (induction rule: overload_step.induct)
  case (reload_begun w config)
  then show ?case by (simp add: overload_inv_def drain_inv_def sampler_busy_def reload_busy_def reload_shape_def reload_ok_def cong: if_cong)
next
  case (reload_op w op ops rt ls rest w')
  have "drain_inv w'" if exclusive
    by (rule drain_inv_reload [OF _ reload_op.hyps(1,2,3)]) (use that reload_op in \<open>simp_all add: overload_inv_def\<close>)
  then show ?case by (intro overload_inv_manager [OF reload_op.prems reload_op.hyps(2)]) (simp_all add: reload_op.hyps(3))
next
  case (sample_begun w)
  have "drain_inv (w\<lparr>ow_sampler := [CheckEnabled]\<rparr>)" if "drain_inv w"
    by (rule drain_inv_begin [OF that]) (use sample_begun.hyps in \<open>simp_all add: sampler_busy_def sampler_shape_def\<close>)
  then show ?case using sample_begun by (simp add: overload_inv_def)
next
  case (sampler_op w op ops rt ls rest w')
  have "drain_inv w'" if exclusive
    by (rule drain_inv_sampler [OF _ sampler_op.hyps(1,3,4)]) (use that sampler_op in \<open>simp_all add: overload_inv_def\<close>)
  then show ?case by (intro overload_inv_manager [OF sampler_op.prems sampler_op.hyps(3)]) (simp_all add: sampler_op.hyps(4))
next
  case (sample_taken w sample lag waiters now)
  have "drain_inv (w\<lparr>ow_sampler := [StoreWaiters sample lag waiters now]\<rparr>)" if "drain_inv w"
    by (rule drain_inv_begin [OF that]) (use sample_taken.hyps in \<open>simp_all add: sampler_busy_def sampler_shape_def\<close>)
  then show ?case using sample_taken by (simp add: overload_inv_def)
next
  case (sample_failed w now later)
  have "drain_inv (w\<lparr>ow_sampler := [ClearSignals now later]\<rparr>)" if "drain_inv w"
    by (rule drain_inv_begin [OF that]) (use sample_failed.hyps in \<open>simp_all add: sampler_busy_def sampler_shape_def\<close>)
  then show ?case using sample_failed by (simp add: overload_inv_def)
next
  case (drained_otherwise op w)
  show ?case by (rule overload_inv_frame [OF drained_otherwise.prems])
      (use drained_otherwise overload_bit_other [of op "ow_lifecycle w"] in \<open>simp_all add: same_drain_def overload_inv_def\<close>)
next
  case (drain_sent w draining)
  show ?case by (rule overload_inv_frame [OF drain_sent]) (use drain_sent in \<open>simp_all add: same_drain_def overload_inv_def\<close>)
next
  case (priority_checked w view c rt refused)
  then have "work_added (seen (ow_runtime w) view) rt {#}"
    by (auto simp: reject_priority_def Let_def work_added_defs split: if_splits)
  from overload_inv_added [OF priority_checked.prems this] show ?case by simp
next
  case (connection_admitted w view rt l)
  from overload_inv_added [OF connection_admitted.prems try_admit_connection_added(1) [OF connection_admitted.hyps]] show ?case by simp
next
  case (connection_refused w view rt boundary)
  from overload_inv_added [OF connection_refused.prems try_admit_connection_added(2) [OF connection_refused.hyps]] show ?case by simp
next
  case (request_refused w view version rt boundary)
  from overload_inv_added [OF request_refused.prems try_admit_request_added(1) [OF request_refused.hyps]] show ?case by simp
next
  case (work_admitted parallelism w view kind rt l)
  from overload_inv_added [OF work_admitted.prems try_admit_expensive_added [OF work_admitted.hyps]] show ?case by simp
next
  case (work_leased w view kind amount rt l)
  from overload_inv_added [OF work_leased.prems work_lease_added' [OF work_leased.hyps]] show ?case by simp
next
  case (work_dropped w l ls)
  show ?case by (rule overload_inv_frame [OF work_dropped.prems])
      (use work_dropped counted_dropped [of "ow_runtime w" l ls] drop_work_added [of "ow_runtime w" l]
        in \<open>simp_all add: same_drain_def overload_inv_def same_manager_def\<close>)
next
  case (control_admitted w view plane slot rt l)
  show ?case by (rule overload_inv_frame [OF control_admitted.prems])
      (use control_admitted.prems counted_control [OF _ control_admitted.hyps] in \<open>simp_all add: same_drain_def overload_inv_def\<close>)
next
  case (control_dropped w l ls)
  show ?case by (rule overload_inv_frame [OF control_dropped.prems])
      (use control_dropped counted_control_dropped [of "ow_runtime w" "ow_work w" l ls] set_control_counter_simps(2) [of "ow_runtime w"]
        in \<open>simp_all add: same_drain_def overload_inv_def same_manager_def drop_control_def\<close>)
qed

lemma overload_reachable_inv: "overload_reachable exclusive rnd send w \<Longrightarrow> overload_inv exclusive w"
proof (induction rule: overload_reachable.induct)
  case (overload_init ls config)
  have "\<not> overload_draining ls" using overload_init by (simp add: overload_draining_def reasons_def drain_new_def)
  then have "drain_follows (overload_new config, ls)"
    by (intro drain_followsI) (simp_all add: overload_new_def overload_state_def state_from_u8_def)
  then show ?case
    by (simp add: overload_inv_def drain_inv_def sampler_shape_def reload_shape_def reload_ok_def sampler_busy_def counted_def
        overload_new_def control_counter_def split: ControlSlot.split)
next
  case (overload_next w w')
  then show ?case using overload_inv_step by blast
qed


text \<open>
  C14.  The capacity of a control listener is its own.  A connection or request of a control plane is admitted exactly
  when fewer of them are held than its reserved capacity: whatever the overload state, the public traffic and the
  interleaving, and also when the manager is disabled.
\<close>

theorem control_capacity_reserved:
  assumes "overload_reachable exclusive rnd send w" "control_capacity (oc_reserved_capacity (or_config (ow_runtime w))) plane slot < 2 ^ 64"
  shows "snd (try_admit_control (ow_runtime w) plane slot) \<noteq> None \<longleftrightarrow>
    count (ow_control w) \<lparr>cl_plane = plane, cl_slot = slot\<rparr> < control_capacity (oc_reserved_capacity (or_config (ow_runtime w))) plane slot"
proof -
  let ?cap = "control_capacity (oc_reserved_capacity (or_config (ow_runtime w))) plane slot"
  have "unat (control_counter (ow_runtime w) plane slot) = count (ow_control w) \<lparr>cl_plane = plane, cl_slot = slot\<rparr>"
    using overload_reachable_inv [OF assms(1)] by (simp add: overload_inv_def counted_def)
  moreover have "unat (of_nat ?cap :: u64) = ?cap" using assms(2) by (simp add: unat_of_nat)
  ultimately show ?thesis
    by (auto simp: try_admit_control_def try_increment_def word_le_nat_alt split: if_splits)
qed

section \<open>Recovery\<close>

definition quiet :: "(rat \<Rightarrow> rat) \<Rightarrow> OverloadConfig \<Rightarrow> PressureSample \<Rightarrow> bool" where
  "quiet rnd config sample \<longleftrightarrow> threshold_signal sample config False = None \<and> below_recovery_thresholds rnd sample config"

definition pressure_run ::
  "(rat \<Rightarrow> rat) \<Rightarrow> ('ch \<Rightarrow> bool \<Rightarrow> 'ch) \<Rightarrow> OverloadRuntime \<times> 'ch LifecycleState \<Rightarrow> PressureSample list \<Rightarrow> OverloadRuntime \<times> 'ch LifecycleState" where
  "pressure_run rnd send = foldl (apply_pressure_sample rnd send)"

text \<open>How many quiet samples are left until the normal state.\<close>

definition distance :: "OverloadRuntime \<Rightarrow> nat" where
  "distance rt =
     (let n = unat (oc_recovery_samples (or_config rt)); r = min (unat (sp_recovery_samples (or_sampling rt))) (n - 1) in
      case overload_state rt of Normal \<Rightarrow> 0 | Soft \<Rightarrow> n - r | Hard \<Rightarrow> 2 * n - r)"

lemma saturating_max: "word_saturating_add (- 1) 1 = (- 1 :: u32)"
proof -
  have "(0 :: u32) < - 1" unfolding word_gt_0 by simp
  then show ?thesis by (simp add: word_saturating_add_def)
qed

lemma saturating_inc_ge: "n \<le> word_saturating_add r 1 \<longleftrightarrow> unat n \<le> unat r + 1" for n r :: u32
proof (cases "r = - 1")
  case True
  have "n \<le> - 1" by (rule word_n1_ge)
  then have "unat n \<le> unat r" using True by (simp add: word_le_nat_alt)
  then show ?thesis using True \<open>n \<le> - 1\<close> by (simp add: saturating_max)
next
  case False
  then have "unat (r + 1) = unat r + 1" by (metis Suc_eq_plus1 add.commute eq_neg_iff_add_eq_0 unatSuc)
  then show ?thesis by (simp add: word_saturating_add_def word_le_nat_alt word_less_nat_alt)
qed

lemma saturating_inc_unat: "\<not> n \<le> word_saturating_add r 1 \<Longrightarrow> unat (word_saturating_add r 1) = unat r + 1" for n r :: u32
proof -
  assume less: "\<not> n \<le> word_saturating_add r 1"
  then have "r \<noteq> - 1" using word_n1_ge [of n] saturating_max by metis
  then have "unat (r + 1) = unat r + 1" by (metis Suc_eq_plus1 add.commute eq_neg_iff_add_eq_0 unatSuc)
  then show ?thesis by (simp add: word_saturating_add_def word_less_nat_alt)
qed

lemma quiet_step:
  assumes "overload_validate (or_config rt) = Inr ()" "quiet rnd (or_config rt) sample"
  shows "distance (fst (apply_pressure_sample rnd send (rt, ls) sample)) = distance rt - 1"
proof -
  let ?c = "or_config rt"
  let ?r = "sp_recovery_samples (or_sampling rt)"
  have soft: "threshold_signal sample ?c False = None" and below: "below_recovery_thresholds rnd sample ?c"
    using assms(2) by (simp_all add: quiet_def)
  have hard: "threshold_signal sample ?c True = None"
    using hard_implies_soft [OF overload_validate_ok(1) [OF assms(1)], of sample] soft by blast
  have pos: "0 < unat (oc_recovery_samples ?c)" using overload_validate_ok(2) [OF assms(1)] by (simp add: unat_gt_0)
  show ?thesis
  proof (cases "overload_state rt = Normal")
    case True
    then show ?thesis by (simp add: apply_pressure_sample_next pressure_decide_def hard soft distance_def overload_state_def Let_def)
  next
    case False
    note step = hard soft below False apply_pressure_sample_next pressure_decide_def Let_def
    show ?thesis
    proof (cases "oc_recovery_samples ?c \<le> word_saturating_add ?r 1")
      case True
      then have "unat (oc_recovery_samples ?c) - 1 \<le> unat ?r" using saturating_inc_ge by simp
      then show ?thesis using True pos False
        by (cases "overload_state rt") (simp_all add: step distance_def overload_state_def min_absorb2)
    next
      case not_yet: False
      then have "unat ?r + 1 < unat (oc_recovery_samples ?c)" using saturating_inc_ge [of "oc_recovery_samples ?c" ?r] by simp
      then show ?thesis using not_yet saturating_inc_unat [OF not_yet] False
        by (cases "overload_state rt") (simp_all add: step distance_def overload_state_def)
    qed
  qed
qed

lemma quiet_run:
  assumes "overload_validate c = Inr ()" "list_all (quiet rnd c) samples" "or_config (fst m) = c"
  shows "distance (fst (pressure_run rnd send m samples)) = distance (fst m) - length samples \<and>
    or_config (fst (pressure_run rnd send m samples)) = c"
  using assms(2,3)
proof (induction samples arbitrary: m)
  case (Cons sample samples)
  let ?m = "apply_pressure_sample rnd send m sample"
  obtain rt ls where m: "m = (rt, ls)" by fastforce
  have "distance (fst ?m) = distance (fst m) - 1" "or_config (fst ?m) = c"
    using quiet_step [of rt rnd sample send ls] Cons.prems assms(1) by (simp_all add: m pressure_runtime)
  then show ?case using Cons.IH [of ?m] Cons.prems by (simp add: pressure_run_def)
qed (simp add: pressure_run_def)

lemma pressure_lifts:
  assumes "overload_state rt = Normal \<Longrightarrow> \<not> overload_draining ls"
    and "apply_pressure_sample rnd send (rt, ls) sample = (rt', ls')" "overload_state rt' = Normal"
  shows "\<not> overload_draining ls'"
proof -
  obtain s t where d: "pressure_next rnd rt sample = (s, t)" by fastforce
  show ?thesis
  proof (cases t)
    case None
    then show ?thesis using assms d by (auto simp: apply_pressure_sample_next overload_state_def)
  next
    case (Some ns)
    obtain n signal where ns: "ns = (n, signal)" by fastforce
    have m: "overload_transition send (rt\<lparr>or_sampling := s\<rparr>, ls) n signal = (rt', ls')"
      using assms(2) d Some ns by (simp add: apply_pressure_sample_next)
    then have "or_state rt' = state_u8 n" using transition_runtime(3) [of send "rt\<lparr>or_sampling := s\<rparr>" ls n signal] by simp
    then have "n = Normal" using assms(3) by (simp add: overload_state_def)
    moreover have "ls' = snd (overload_transition send (rt\<lparr>or_sampling := s\<rparr>, ls) n signal)" using m by simp
    ultimately show ?thesis using assms(1) overload_bit_op(2) [of send ls] unfolding transition_lifecycle
      by (cases "overload_state rt = Normal") (simp_all add: overload_state_def)
  qed
qed

lemma pressure_run_lifts:
  assumes "overload_state (fst m) = Normal \<Longrightarrow> \<not> overload_draining (snd m)"
    and "overload_state (fst (pressure_run rnd send m samples)) = Normal"
  shows "\<not> overload_draining (snd (pressure_run rnd send m samples))"
  using assms
proof (induction samples arbitrary: m)
  case (Cons sample samples)
  let ?m = "apply_pressure_sample rnd send m sample"
  have run: "pressure_run rnd send m (sample # samples) = pressure_run rnd send ?m samples" by (simp add: pressure_run_def)
  have "\<not> overload_draining (snd ?m)" if "overload_state (fst ?m) = Normal"
    using pressure_lifts [of "fst m" "snd m" rnd send sample "fst ?m" "snd ?m"] Cons.prems(1) that by simp
  then show ?case using Cons.IH [of ?m] Cons.prems(2) unfolding run by blast
qed (simp add: pressure_run_def)


section \<open>Runs without interruption\<close>

text \<open>What a task does alone, from where it is, is a run; so the functions of theory Overload are runs too.\<close>

lemma sampler_runs:
  assumes "overload_reachable exclusive rnd send w" "exclusive \<longrightarrow> \<not> reload_busy w"
    and "run_ops rnd send n (ow_sampler w) (ow_runtime w, ow_lifecycle w) = (ops, rt, ls)"
  shows "overload_reachable exclusive rnd send (w\<lparr>ow_runtime := rt, ow_lifecycle := ls, ow_sampler := ops\<rparr>)"
  using assms
proof (induction n arbitrary: w)
  case (Suc n)
  show ?case
  proof (cases "ow_sampler w")
    case (Cons op tail)
    obtain rt1 ls1 rest where step: "manager_op rnd send op (ow_runtime w, ow_lifecycle w) = ((rt1, ls1), rest)" by (metis prod.exhaust)
    define w1 where "w1 = w\<lparr>ow_runtime := rt1, ow_lifecycle := ls1, ow_sampler := rest @ tail\<rparr>"
    have "overload_reachable exclusive rnd send w1"
    proof (cases "op = AwaitProbe")
      case True
      then have "w1 = w" using step Cons by (auto simp: w1_def)
      then show ?thesis using Suc.prems(1) by simp
    next
      case False
      show ?thesis by (rule overload_next [OF Suc.prems(1)], rule sampler_op [OF Cons False step w1_def])
          (use Suc.prems(2) in \<open>simp add: w1_def reload_busy_def\<close>)
    qed
    moreover have "exclusive \<longrightarrow> \<not> reload_busy w1" using Suc.prems(2) by (simp add: w1_def reload_busy_def)
    moreover have "run_ops rnd send n (ow_sampler w1) (ow_runtime w1, ow_lifecycle w1) = (ops, rt, ls)"
      using Suc.prems(3) step Cons by (simp add: w1_def)
    ultimately show ?thesis using Suc.IH [of w1] by (simp add: w1_def)
  next
    case Nil
    then have "(ops, rt, ls) = (ow_sampler w, ow_runtime w, ow_lifecycle w)" using Suc.prems(3) by simp
    then show ?thesis using Suc.prems(1) by simp
  qed
qed auto

lemma reload_runs:
  assumes "overload_reachable exclusive rnd send w" "exclusive \<longrightarrow> \<not> sampler_busy w"
    and "run_ops rnd send n (ow_reload w) (ow_runtime w, ow_lifecycle w) = (ops, rt, ls)"
  shows "overload_reachable exclusive rnd send (w\<lparr>ow_runtime := rt, ow_lifecycle := ls, ow_reload := ops\<rparr>)"
  using assms
proof (induction n arbitrary: w)
  case (Suc n)
  show ?case
  proof (cases "ow_reload w")
    case (Cons op tail)
    obtain rt1 ls1 rest where step: "manager_op rnd send op (ow_runtime w, ow_lifecycle w) = ((rt1, ls1), rest)" by (metis prod.exhaust)
    define w1 where "w1 = w\<lparr>ow_runtime := rt1, ow_lifecycle := ls1, ow_reload := rest @ tail\<rparr>"
    have "overload_reachable exclusive rnd send w1"
      by (rule overload_next [OF Suc.prems(1)], rule reload_op [OF Cons step w1_def])
        (use Suc.prems(2) in \<open>simp add: w1_def sampler_busy_def\<close>)
    moreover have "exclusive \<longrightarrow> \<not> sampler_busy w1" using Suc.prems(2) by (simp add: w1_def sampler_busy_def)
    moreover have "run_ops rnd send n (ow_reload w1) (ow_runtime w1, ow_lifecycle w1) = (ops, rt, ls)"
      using Suc.prems(3) step Cons by (simp add: w1_def)
    ultimately show ?thesis using Suc.IH [of w1] by (simp add: w1_def)
  next
    case Nil
    then have "(ops, rt, ls) = (ow_reload w, ow_runtime w, ow_lifecycle w)" using Suc.prems(3) by simp
    then show ?thesis using Suc.prems(1) by simp
  qed
qed auto

definition on_manager ::
  "(OverloadRuntime \<times> 'ch LifecycleState \<Rightarrow> OverloadRuntime \<times> 'ch LifecycleState) \<Rightarrow> 'ch OverloadWorld \<Rightarrow> 'ch OverloadWorld" where
  "on_manager f w = (case f (ow_runtime w, ow_lifecycle w) of (rt, ls) \<Rightarrow> w\<lparr>ow_runtime := rt, ow_lifecycle := ls\<rparr>)"

lemma configure_reachable:
  assumes "overload_reachable exclusive rnd send w" "ow_reload w = []" "exclusive \<longrightarrow> \<not> sampler_busy w"
  shows "overload_reachable exclusive rnd send (on_manager (\<lambda>m. overload_configure send m config) w)"
proof -
  let ?w = "w\<lparr>ow_reload := [StoreConfig config]\<rparr>"
  have reach: "overload_reachable exclusive rnd send ?w" by (rule overload_next [OF assms(1)]) (rule reload_begun [OF assms(2)])
  obtain rt ls where c: "overload_configure send (ow_runtime w, ow_lifecycle w) config = (rt, ls)" by fastforce
  have "overload_reachable exclusive rnd send (?w\<lparr>ow_runtime := rt, ow_lifecycle := ls, ow_reload := []\<rparr>)"
    by (rule reload_runs [OF reach, of 11]) (use assms(3) configure_alone [of rnd send config "(ow_runtime w, ow_lifecycle w)"] c in \<open>simp_all add: sampler_busy_def\<close>)
  then show ?thesis using c assms(2) by (cases w) (simp add: on_manager_def)
qed

lemma sample_started:
  assumes "overload_reachable exclusive rnd send w" "ow_sampler w = []" "or_enabled (ow_runtime w)" "exclusive \<longrightarrow> \<not> reload_busy w"
  shows "overload_reachable exclusive rnd send (w\<lparr>ow_sampler := [AwaitProbe]\<rparr>)"
proof -
  let ?w = "w\<lparr>ow_sampler := [CheckEnabled]\<rparr>"
  have reach: "overload_reachable exclusive rnd send ?w" by (rule overload_next [OF assms(1)]) (rule sample_begun [OF assms(2)])
  have "overload_reachable exclusive rnd send (?w\<lparr>ow_runtime := ow_runtime w, ow_lifecycle := ow_lifecycle w, ow_sampler := [AwaitProbe]\<rparr>)"
    by (rule sampler_runs [OF reach, of 1]) (use assms(3,4) in \<open>simp_all add: reload_busy_def\<close>)
  then show ?thesis by simp
qed

lemma sample_reachable:
  assumes "overload_reachable exclusive rnd send w" "ow_sampler w = [AwaitProbe]" "exclusive \<longrightarrow> \<not> reload_busy w"
  shows "overload_reachable exclusive rnd send (on_manager (\<lambda>m. apply_process_sample rnd send m sample lag waiters now) (w\<lparr>ow_sampler := []\<rparr>))"
proof -
  let ?w = "w\<lparr>ow_sampler := [StoreWaiters sample lag waiters now]\<rparr>"
  have reach: "overload_reachable exclusive rnd send ?w" by (rule overload_next [OF assms(1)]) (rule sample_taken [OF assms(2)])
  obtain rt ls where c: "apply_process_sample rnd send (ow_runtime w, ow_lifecycle w) sample lag waiters now = (rt, ls)" by fastforce
  have "overload_reachable exclusive rnd send (?w\<lparr>ow_runtime := rt, ow_lifecycle := ls, ow_sampler := []\<rparr>)"
    by (rule sampler_runs [OF reach, of 26]) (use assms(3) process_alone [of rnd send sample lag waiters now "(ow_runtime w, ow_lifecycle w)"] c in \<open>simp_all add: reload_busy_def\<close>)
  then show ?thesis using c by (cases w) (simp add: on_manager_def)
qed

lemma work_lease_reachable:
  assumes "overload_reachable exclusive rnd send w" "work_lease (ow_runtime w) kind amount = (rt, l)"
  shows "overload_reachable exclusive rnd send (w\<lparr>ow_runtime := rt, ow_work := add_mset l (ow_work w)\<rparr>)"
proof -
  have "kept (ow_runtime w) rt = rt" using assms(2) by (auto simp: work_lease_def kept_def split: if_splits)
  then show ?thesis
    using overload_next [OF assms(1) work_leased, of _ kind amount rt l] assms(2) seen_now [of "ow_runtime w"] by metis
qed

lemma try_admit_request_reachable:
  assumes "overload_reachable exclusive rnd send w" "try_admit_request (ow_runtime w) version = (rt, Inr l)"
  shows "overload_reachable exclusive rnd send (w\<lparr>ow_runtime := rt, ow_work := ow_work w + request_leases l\<rparr>)"
proof -
  define s where "s = (case version of HTTP_2 \<Rightarrow> map_prod id Some (work_lease (ow_runtime w) H2Streams 1)
      | HTTP_3 \<Rightarrow> map_prod id Some (work_lease (ow_runtime w) H3Streams 1) | _ \<Rightarrow> (ow_runtime w, None))"
  let ?w = "w\<lparr>ow_runtime := fst s, ow_work := (case snd s of Some l \<Rightarrow> {#l#} | None \<Rightarrow> {#}) + ow_work w\<rparr>"
  have stream: "overload_reachable exclusive rnd send ?w"
    unfolding s_def using assms(1) work_lease_reachable [OF assms(1)] by (cases version) (simp_all add: map_prod_def case_prod_unfold)
  have "rt = fst (work_lease (fst s) ActiveHttpRequests 1)" "l = (snd (work_lease (fst s) ActiveHttpRequests 1), snd s)"
    using assms(2) unfolding try_admit_request_def Let_def s_def [symmetric] by (auto simp: case_prod_unfold split: option.splits)
  then show ?thesis using work_lease_reachable [OF stream, of ActiveHttpRequests 1 rt "fst l"]
    by (simp add: request_leases_def add.commute)
qed

section \<open>A run\<close>

definition sample_config :: OverloadConfig where
  "sample_config = (overload_default id)\<lparr>oc_enabled := True\<rparr>"

definition hot :: ProcessSample where
  "hot = \<lparr>sm_rss_bytes = 100, sm_memory_current_bytes = 950, sm_memory_limit_bytes = Some 1000, sm_fd_used = 1, sm_fd_limit = 1000,
     sm_cpu_usage_usec = 0, sm_cpu_capacity = Finite 1\<rparr>"

definition calm :: PressureSample where
  "calm = \<lparr>ps_memory_ratio = Some (Finite (1 / 10)), ps_fd_ratio = Some (Finite (1 / 10)), ps_cpu_ratio = None,
     ps_event_loop_lag_ms = 0, ps_work = (\<lambda>_. 0)\<rparr>"

abbreviation (input) keep_last :: "bool \<Rightarrow> bool \<Rightarrow> bool" where "keep_last \<equiv> \<lambda>_ v. v"

definition cold_world :: "bool OverloadWorld" where
  "cold_world = \<lparr>ow_runtime = overload_new sample_config, ow_lifecycle = \<lparr>ls_drain_state = drain_new, ls_drain_tx = False\<rparr>,
     ow_sampler = [], ow_reload = [], ow_work = {#}, ow_control = {#}\<rparr>"

definition hot_world :: "bool OverloadWorld" where
  "hot_world = on_manager (\<lambda>m. apply_process_sample id keep_last m hot 0 0 0) cold_world"

lemma sample_config_valid: "overload_validate sample_config = Inr ()"
proof -
  have "overload_validate (overload_default id) = Inr ()" by (rule overload_default_valid) simp_all
  moreover have "overload_validate (c\<lparr>oc_enabled := True\<rparr>) = overload_validate c" for c
    by (simp add: overload_validate_def Let_def cong: if_cong)
  ultimately show ?thesis by (simp add: sample_config_def)
qed

lemma cold_reachable: "overload_reachable exclusive id keep_last cold_world"
  unfolding cold_world_def by (rule overload_init) simp

lemma cold_waiting: "overload_reachable exclusive id keep_last (cold_world\<lparr>ow_sampler := [AwaitProbe]\<rparr>)"
  by (rule sample_started [OF cold_reachable]) (simp_all add: cold_world_def overload_new_def sample_config_def reload_busy_def)

lemma hot_reachable: "overload_reachable exclusive id keep_last hot_world"
  using sample_reachable [OF cold_waiting, of exclusive hot 0 0 0] by (simp add: hot_world_def cold_world_def reload_busy_def)

lemma hot_settled: "\<not> sampler_busy hot_world" "\<not> reload_busy hot_world"
  by (simp_all add: hot_world_def on_manager_def case_prod_unfold cold_world_def sampler_busy_def reload_busy_def)

lemma hot_signal:
  assumes "ps_memory_ratio s = Some (Finite (95 / 100))" "oc_thresholds c = thresholds_default id"
  shows "threshold_signal s c True = Some SigMemory"
  using assms by (simp add: threshold_signal_def thresholds_default_def)

lemma hot_ratio: "memory_ratio_of id hot = Some (Finite (95 / 100))"
  by (simp add: memory_ratio_of_def hot_def u64_ratio_def)

lemma hot_process:
  assumes "oc_thresholds (or_config rt) = thresholds_default id"
  shows "overload_state (fst (apply_process_sample id send (rt, ls) hot lag waiters now)) = Hard"
    "or_config (fst (apply_process_sample id send (rt, ls) hot lag waiters now)) = or_config rt"
    "or_enabled (fst (apply_process_sample id send (rt, ls) hot lag waiters now)) = or_enabled rt"
  using assms by (simp_all add: apply_process_sample_def Let_def hot_ratio apply_pressure_sample_next pressure_decide_def hot_signal overload_state_def)

lemma hot_values:
  "overload_state (ow_runtime hot_world) = Hard" "or_config (ow_runtime hot_world) = sample_config" "or_enabled (ow_runtime hot_world)"
  "ow_control hot_world = {#}"
proof -
  have c: "oc_thresholds (or_config (ow_runtime cold_world)) = thresholds_default id" "or_config (ow_runtime cold_world) = sample_config"
    "or_enabled (ow_runtime cold_world)" "ow_control cold_world = {#}"
    by (simp_all add: cold_world_def overload_new_def sample_config_def overload_default_def)
  show "overload_state (ow_runtime hot_world) = Hard" "or_config (ow_runtime hot_world) = sample_config" "or_enabled (ow_runtime hot_world)"
    "ow_control hot_world = {#}"
    unfolding hot_world_def on_manager_def case_prod_unfold using hot_process [OF c(1)] c(2-4) by simp_all
qed

lemma calm_quiet: "quiet id sample_config calm"
proof -
  have "\<lfloor>45 / 2 :: rat\<rfloor> = 22" by (simp add: floor_eq_iff)
  then show ?thesis
  by (simp add: quiet_def threshold_signal_def below_recovery_thresholds_def sample_config_def overload_default_def thresholds_default_def
      calm_def optional_work_thresholds_def List.map_filter_simps scaled_count_def f64_as_u64_def f64_scale_def f64_mul_def Let_def)
qed


theorem control_capacity_reserved_witness:
  "overload_state (ow_runtime hot_world) = Hard \<and> snd (try_admit_control (ow_runtime hot_world) AdminPlane RequestSlot) \<noteq> None"
proof -
  have cap: "control_capacity (oc_reserved_capacity (or_config (ow_runtime hot_world))) AdminPlane RequestSlot = 32"
    by (simp add: hot_values sample_config_def overload_default_def reserved_default_def)
  show ?thesis using control_capacity_reserved [OF hot_reachable, of AdminPlane RequestSlot] hot_values unfolding cap by simp
qed


section \<open>What the manager does not guard against\<close>

text \<open>
  A count threshold of one is accepted by the validation, but its scaled recovery threshold truncates to zero and no count
  is below zero: such a configuration never leaves the overload states again, however idle the process is.
\<close>

lemma scaled_one:
  assumes "rnd 1 = 1" "rnd r = r" "0 < r" "r < 1"
  shows "scaled_count rnd 1 (Finite r) = 0"
proof -
  have "\<lfloor>r\<rfloor> = 0" using assms by (simp add: floor_eq_iff)
  then show ?thesis using assms by (simp add: scaled_count_def f64_scale_def f64_as_u64_def)
qed

lemma recovery_impossible:
  assumes "(k, 1) \<in> set (optional_work_thresholds (oc_thresholds (or_config (fst m))) False)" "oc_recovery_ratio (or_config (fst m)) = Finite r"
    and "rnd 1 = 1" "rnd r = r" "0 < r" "r < 1" "overload_state (fst m) \<noteq> Normal"
  shows "overload_state (fst (pressure_run rnd send m samples)) \<noteq> Normal"
  using assms(1,2,7)
proof (induction samples arbitrary: m)
  case (Cons sample samples)
  let ?m = "apply_pressure_sample rnd send m sample"
  obtain rt ls where m: "m = (rt, ls)" by fastforce
  have "scaled_count rnd 1 (oc_recovery_ratio (or_config rt)) = 0" using scaled_one assms(3-6) Cons.prems(2) by (simp add: m)
  then have "\<not> ps_work sample k < scaled_count rnd 1 (oc_recovery_ratio (or_config rt))" by simp
  then have stuck: "\<not> below_recovery_thresholds rnd sample (or_config rt)"
    using Cons.prems(1) unfolding below_recovery_thresholds_def Let_def list_all_iff m by auto
  have "overload_state (fst ?m) \<noteq> Normal" using stuck Cons.prems(3)
    by (simp add: m apply_pressure_sample_next pressure_decide_def Let_def overload_state_def split: option.split)
  moreover have "or_config (fst ?m) = or_config (fst m)" by (simp add: m pressure_runtime)
  ultimately have "overload_state (fst (pressure_run rnd send ?m samples)) \<noteq> Normal" using Cons.IH [of ?m] Cons.prems by simp
  then show ?case by (simp add: pressure_run_def)
qed (simp add: pressure_run_def)

definition single_config :: OverloadConfig where
  "single_config = sample_config\<lparr>oc_thresholds := (thresholds_default id)\<lparr>active_requests_soft := Some 1, active_requests_hard := Some 2\<rparr>\<rparr>"

lemma single_config_accepted:
  "overload_validate single_config = Inr () \<and> (ActiveHttpRequests, 1) \<in> set (optional_work_thresholds (oc_thresholds single_config) False)"
proof -
  have "thresholds_validate (oc_thresholds single_config) = Inr ()"
    unfolding thresholds_validate_ok
    by (simp add: validate_ratio_pair_def single_config_def thresholds_default_def optional_pairs_def bindE_def ensureE_def)
  then have "overload_validate single_config = Inr ()"
    by (simp add: overload_validate_def single_config_def sample_config_def overload_default_def bindE_def soft_actions_default_def
        hard_actions_default_def is_soft_sheddable_def reserved_default_def reserved_validate_def)
  then show ?thesis unfolding optional_work_thresholds_def Let_def map_filter_pairs by (simp add: single_config_def)
qed

text \<open>
  A hard sample resets the count of soft samples and not that of recovery samples: a manager that was one sample short of
  leaving the soft state leaves the hard state after a single quiet sample.
\<close>

lemma hard_keeps_recovery_samples:
  assumes "overload_validate (or_config rt) = Inr ()" "unat (sp_recovery_samples (or_sampling rt)) + 1 = unat (oc_recovery_samples (or_config rt))"
    and "threshold_signal burst (or_config rt) True \<noteq> None" "quiet rnd (or_config rt) calm"
  shows "overload_state (fst (pressure_run rnd send (rt, ls) [burst])) = Hard"
    "overload_state (fst (pressure_run rnd send (rt, ls) [burst, calm])) = Soft"
proof -
  let ?m = "apply_pressure_sample rnd send (rt, ls) burst"
  obtain signal where "threshold_signal burst (or_config rt) True = Some signal" using assms(3) by blast
  then have hard: "overload_state (fst ?m) = Hard" "or_config (fst ?m) = or_config rt"
      "sp_recovery_samples (or_sampling (fst ?m)) = sp_recovery_samples (or_sampling rt)"
    by (simp_all add: apply_pressure_sample_next pressure_decide_def Let_def overload_state_def)
  then show "overload_state (fst (pressure_run rnd send (rt, ls) [burst])) = Hard" by (simp add: pressure_run_def)
  have soft: "threshold_signal calm (or_config rt) False = None" "below_recovery_thresholds rnd calm (or_config rt)"
    using assms(4) by (simp_all add: quiet_def)
  then have none: "threshold_signal calm (or_config rt) True = None"
    using hard_implies_soft [OF overload_validate_ok(1) [OF assms(1)], of calm] by blast
  have "oc_recovery_samples (or_config rt) \<le> word_saturating_add (sp_recovery_samples (or_sampling rt)) 1"
    using saturating_inc_ge assms(2) by simp
  then have "pressure_next rnd (fst ?m) calm = ((or_sampling (fst ?m))\<lparr>sp_recovery_samples := 0\<rparr>, Some (Soft, SigUnavailable))"
    by (simp add: pressure_decide_def hard soft none Let_def)
  then have "overload_state (fst (apply_pressure_sample rnd send (fst ?m, snd ?m) calm)) = Soft"
    unfolding apply_pressure_sample_next by (simp add: overload_state_def)
  then show "overload_state (fst (pressure_run rnd send (rt, ls) [burst, calm])) = Soft" by (simp add: pressure_run_def)
qed

text \<open>
  A reload that disables the manager while the sampler waits for process values leaves the hard state behind when those
  values are bad.  Admission does not ask whether the manager is enabled and the sampler no longer samples, so new
  connections are refused until the next reload.
\<close>

definition stuck_world :: "bool OverloadWorld" where
  "stuck_world = on_manager (\<lambda>m. apply_process_sample id keep_last m hot 0 0 0)
     (on_manager (\<lambda>m. overload_configure keep_last m (overload_default id)) cold_world)"

lemma disabled_but_hard:
  "overload_reachable True id keep_last stuck_world \<and> \<not> or_enabled (ow_runtime stuck_world) \<and> ow_sampler stuck_world = [] \<and>
   snd (try_admit_connection (ow_runtime stuck_world)) = Inl ConnectionBoundary"
proof -
  let ?c = "on_manager (\<lambda>m. overload_configure keep_last m (overload_default id))"
  have "overload_reachable True id keep_last (?c (cold_world\<lparr>ow_sampler := [AwaitProbe]\<rparr>))"
    by (rule configure_reachable [OF cold_waiting]) (simp_all add: cold_world_def sampler_busy_def)
  then have reach: "overload_reachable True id keep_last stuck_world"
    using sample_reachable [of True id keep_last "?c (cold_world\<lparr>ow_sampler := [AwaitProbe]\<rparr>)" hot 0 0 0]
    by (simp add: stuck_world_def on_manager_def case_prod_unfold cold_world_def reload_busy_def)
  have config: "or_config (ow_runtime (?c cold_world)) = overload_default id" "\<not> or_enabled (ow_runtime (?c cold_world))"
    by (simp_all add: on_manager_def overload_configure_def case_prod_unfold Let_def overload_default_def)
  have "oc_thresholds (or_config (ow_runtime (?c cold_world))) = thresholds_default id" unfolding config by (simp add: overload_default_def)
  note hot = hot_process [OF this, of keep_last "ow_lifecycle (?c cold_world)" 0 0 0]
  have "ow_runtime stuck_world = fst (apply_process_sample id keep_last (ow_runtime (?c cold_world), ow_lifecycle (?c cold_world)) hot 0 0 0)"
    "ow_sampler stuck_world = []"
    by (simp_all add: stuck_world_def on_manager_def case_prod_unfold cold_world_def)
  with reach hot config show ?thesis
    by (simp add: try_admit_connection_def overload_default_def hard_actions_default_def)
qed

text \<open>
  No lock covers a transition.  A reload that disables the manager after the sampler has swapped in the hard state and
  chosen to drain, but before it sets the drain bit, resets the state and clears the drain, and the sampler then sets it: the process
  drains in the normal state.
\<close>

lemma hot_transition:
  assumes "oc_thresholds (or_config rt) = thresholds_default id" "overload_state rt = Normal" "recoverable rt"
  shows "\<exists>rt'. run_ops id send 23 [StoreWaiters hot lag waiters now] (rt, ls) = ([SetDrain], rt', ls) \<and> overload_state rt' = Hard"
proof -
  obtain rt1 ps where read: "run_ops id send (5 + 13) [StoreWaiters hot lag waiters now] (rt, ls) = ([LoadConfig ps], rt1, ls)"
    and ps: "ps_memory_ratio ps = Some (Finite (95 / 100))" and rt1: "or_config rt1 = or_config rt" "or_state rt1 = or_state rt"
    using process_read_alone [of id send hot lag waiters now rt ls] hot_ratio by auto
  have hard: "threshold_signal ps (or_config rt) True = Some SigMemory" using hot_signal [OF ps assms(1)] .
  have "overload_state rt1 \<noteq> Hard" using assms(2) rt1(2) by (simp add: overload_state_def)
  then have "\<exists>rt'. run_ops id send 5 [LoadConfig ps] (rt1, ls) = ([SetDrain], rt', ls) \<and> overload_state rt' = Hard"
    using hard assms(3) by (simp add: run_numeral rt1 pressure_decide_def Let_def overload_state_def)
  then show ?thesis using run_ops_add [OF read, of 5] by simp
qed

lemma reload_overtakes_transition:
  "\<exists>w. overload_reachable False id keep_last w \<and> ow_sampler w = [] \<and> ow_reload w = [] \<and>
     overload_state (ow_runtime w) = Normal \<and> overload_draining (ow_lifecycle w)"
proof -
  let ?w1 = "cold_world\<lparr>ow_sampler := [StoreWaiters hot 0 0 0]\<rparr>"
  have "overload_reachable False id keep_last ((cold_world\<lparr>ow_sampler := [AwaitProbe]\<rparr>)\<lparr>ow_sampler := [StoreWaiters hot 0 0 0]\<rparr>)"
    by (rule overload_next [OF cold_waiting], rule sample_taken) simp
  then have r1: "overload_reachable False id keep_last ?w1" by simp
  obtain rt2 where two: "run_ops id keep_last 23 [StoreWaiters hot 0 0 0] (ow_runtime cold_world, ow_lifecycle cold_world) =
      ([SetDrain], rt2, ow_lifecycle cold_world)"
    using hot_transition [of "ow_runtime cold_world" keep_last 0 0 0 "ow_lifecycle cold_world"]
    by (auto simp: cold_world_def overload_new_def overload_state_def sample_config_def overload_default_def hard_actions_default_def)
  define w2 where "w2 = cold_world\<lparr>ow_runtime := rt2, ow_sampler := [SetDrain]\<rparr>"
  have "overload_reachable False id keep_last (?w1\<lparr>ow_runtime := rt2, ow_lifecycle := ow_lifecycle cold_world, ow_sampler := [SetDrain]\<rparr>)"
    by (rule sampler_runs [OF r1, of 23]) (use two in simp_all)
  then have r2: "overload_reachable False id keep_last w2" by (simp add: w2_def cold_world_def)
  define w3 where "w3 = on_manager (\<lambda>m. overload_configure keep_last m (overload_default id)) w2"
  have r3: "overload_reachable False id keep_last w3"
    unfolding w3_def by (rule configure_reachable [OF r2]) (simp_all add: w2_def cold_world_def)
  have w3: "overload_state (ow_runtime w3) = Normal" "ow_sampler w3 = [SetDrain]" "ow_reload w3 = []"
    by (simp_all add: w3_def w2_def cold_world_def on_manager_def overload_configure_def case_prod_unfold Let_def
        overload_default_def overload_state_def)
  have "overload_reachable False id keep_last
      (w3\<lparr>ow_runtime := ow_runtime w3, ow_lifecycle := lifecycle_set_overload_draining keep_last (ow_lifecycle w3), ow_sampler := []\<rparr>)"
    by (rule sampler_runs [OF r3, of 3]) (use drain_alone(2) [of id keep_last "ow_runtime w3" "ow_lifecycle w3"] w3(2) in simp_all)
  then show ?thesis using w3 overload_bit_op(1) [of keep_last "ow_lifecycle w3"] by fastforce
qed

end
