(* ===== verification/Spec2Isabelle.thy ===== *)
theory Spec2Isabelle
  imports Ct_Checkpoint WebTransport Stun Proxy_Protocol Breaker_Budget Reservations Overload_Run
begin

text \<open>
  OxiBelt is a reverse proxy.  Connections enter through listeners that may expect a PROXY protocol header; the
  network identity of a client is resolved from the peer, the header or forwarding headers; requests pass overload
  control and process-local admission before they reach an upstream; beside HTTP the proxy speaks WebTransport, STUN
  and TURN, and it serves Certificate Transparency logs.  This development models the parts of it that are functions
  of their input or state machines behind a lock or an atomic value, and proves what they promise.  Paths are
  relative to \<open>src/source\<close>.

  \<^bold>\<open>Conventions.\<close>  \<open>u8\<close> to \<open>u64\<close> are words of their width, so they wrap where the code wraps; a \<open>usize\<close> is a natural
  number, with checked, saturating and wrapping operations written out.  \<open>Result\<close> is a sum with the error on the left, and the
  messages of \<open>anyhow\<close> errors are strings.  Durations and instants count nanoseconds.  A finite \<open>f64\<close> is the rational
  it denotes and the rounding of its operations is the parameter \<open>rnd\<close>.  Structures are records, enums datatypes,
  arrays indexed by an enum functions, hash maps association lists or maps.  Numeric constants are input
  abbreviations.  Code that is not part of the repository is a parameter: digests and keyed hashes, the X.509
  parser, the watch channel of tokio, and what the operating system reports.

  \<^bold>\<open>Theories, sources and results.\<close>

  \<^item> Prelude, Text, Net: machine types, fallible computations, slices, big-endian integers; the string and address
    functions of the standard library the sources call.
  \<^item> Ct_Codec (\<open>crates/oxibelt-ct/src/codec.rs\<close>): the bounds-checked reader and the vector codecs.  The locales
    \<open>wire_codec\<close>, \<open>wire_field\<close> and \<open>reader_loop\<close> state what a pair of encoder and decoder promises; the two theories
    below interpret them for every structure.
  \<^item> Merkle (\<open>merkle.rs\<close>): roots, inclusion and consistency proofs.  Generated proofs verify; a verifying proof pins
    down the leaf or the old root unless it exhibits a collision of the digest.
  \<^item> Ct_V1, Ct_V2 (\<open>rfc6962.rs\<close>, \<open>rfc9162.rs\<close>): decoders accept exactly what the encoders produce; leaf hashes bind
    their entries.
  \<^item> Ct_Static, Ct_Checkpoint (\<open>static_ct.rs\<close>): tiles, tile paths and checkpoints, with their canonical forms.
  \<^item> WebTransport (\<open>src/webtransport/codec.rs\<close>): the capsule decoder.  Fragmentation does not matter, encoders and
    decoder agree, memory is bounded, and every call makes progress.
  \<^item> Stun (\<open>src/turn/protocol.rs\<close>): messages, integrity, fingerprints, addresses, channel data and framing.
  \<^item> Identity (\<open>src/identity.rs\<close>): CIDR blocks, coverage of an address family, forwarding headers.  Locale
    \<open>address_mask\<close> holds what both address families share.
  \<^item> Proxy_Protocol (\<open>src/proxy_protocol.rs\<close>, \<open>src/proxy_protocol_egress.rs\<close>): ingress fails closed, and headers written
    for an upstream are understood by a listener.
  \<^item> Circuit (\<open>src/circuit_breakers/circuit.rs\<close>): the failure circuit as a step relation, its invariant and recovery, with
    reloads of the policy between the steps.
  \<^item> Breaker_Types, Priority (\<open>types.rs\<close>, \<open>priority.rs\<close> and their policies in \<open>crates/oxibelt-admission-policy\<close>): scopes,
    limits, priority classes and their shares.  Reservations: a caller that finds its lane empty gets a reserved slot that
    is free, in the first section of its admission.
  \<^item> Admission, Admission_Counters, Admission_Capacity (\<open>runtime.rs\<close>, \<open>queue.rs\<close>, \<open>configuration.rs\<close>): one definition per
    critical section of the admission lock, callers and permits as the relation \<open>adm_step\<close>.  Counters equal what is
    held, limits hold between reloads, and nobody overtakes an older waiter that could run.
  \<^item> Breaker_Budget (\<open>resources.rs\<close>): automatic limits and the budget of the direct HTTP/1 transport.
  \<^item> Lifecycle (\<open>src/lifecycle.rs\<close>, \<open>src/lifecycle/drain_state.rs\<close>): the drain byte refines a set of reasons, as locale
    \<open>drain_contract\<close> specifies it; the signal published from it.
  \<^item> Overload_Policy, Overload, Overload_Run (\<open>crates/oxibelt-admission-policy/src/overload.rs\<close>, \<open>src/overload.rs\<close>,
    \<open>src/overload/\<close>): the overload manager on top of the drain state.  Its methods are functions, and a second time
    sequences of atomic operations (\<open>manager_op\<close>); a sequence that runs alone is the function.  In every interleaving the
    counters equal the leases and control listeners keep their capacity; the drain follows the hard state unless a reload
    overlaps a transition of the sampler; and the manager recovers when the pressure is gone.

  \<^bold>\<open>Interaction.\<close>  The overload manager sets and clears the overload reason of the drain state while administrators and
  the shutdown use the others; its step relation has all of them.  Admission asks the circuits and the priority
  scheduler inside its lock, so both are components of the admission state.  The CT structures, the static log and
  the Merkle proofs share the codec.

  \<^bold>\<open>Bounds and termination.\<close>  No definition of the code uses fuel; \<open>run_ops\<close> counts the atomic operations of a method that
  runs alone, and the lemmas name counts that are enough.  Loops are structural, or \<open>function\<close>s with a measure: the input left,
  the width of a tree, the work left of the capsule decoder, the interval of the binary search.  Statements about words
  and \<open>usize\<close> values name the bounds they need; those bounds are consequences of the types or of the validation of the
  configuration.  Sections of code under one lock, and single atomic operations, are one step; wherever the code
  releases the lock or suspends the task the relation has another step.  Atomic operations are taken in one order for
  all tasks, whatever memory ordering they ask for.

  \<^bold>\<open>What the code does not promise.\<close>  Some lemmas show runs the code does not guard against: \<open>stale_probe_frees_slot\<close> and
  \<open>backoff_need_not_grow\<close> in Circuit, \<open>auto_capacity_assumption\<close>, \<open>reservations_wrap\<close> and \<open>grant_makes_next_eligible\<close> in
  Priority, \<open>all_trusted_hops_spoofable\<close> in Identity, \<open>attribute_after_integrity\<close> in Stun, \<open>signal_misses_shutdown\<close> in
  Lifecycle, \<open>recovery_impossible\<close>, \<open>hard_keeps_recovery_samples\<close>, \<open>disabled_but_hard\<close> and \<open>reload_overtakes_transition\<close> in
  Overload_Run.

  \<^bold>\<open>Not modelled.\<close>  The HTTP data plane, listener supervision and the admin API are asynchronous code over hyper, h2, h3,
  quinn and sockets, whose behaviour is mostly that of those libraries; the web application firewall, the cache, the
  shared-state backends, TLS, upstream discovery, admin mutations and uploads rest on regular expressions, databases,
  files, timers and cryptographic libraries; metrics, logs and diagnostics only report.  SNI forwarding, rate limits,
  upstream pools and routing have pure parts that are not modelled yet.  Of the modelled components, lock poisoning,
  wake-ups (a waiting caller may run at any time), deserializers, metrics output and the readers of operating-system
  files are left out.
\<close>

end
